(* ===== verification/Itch_Prelude.thy ===== *)
theory Itch_Prelude
  imports Main "HOL-Library.Word" "HOL-Library.Monad_Syntax"
begin

text \<open>
  Shared vocabulary of the development: the machine integer types of the C++ sources, the
  object representation of an integer in memory for either host byte order, bounds-checked
  access to buffers and vectors, and the generic lemmas the component theories rest on.

  Undefined behaviour is a value: an operation that would read outside a buffer or a vector
  returns \<^term>\<open>None\<close>, and operations are composed in the option monad. That an operation
  returns \<^term>\<open>Some\<close> is therefore a memory-safety statement, and it is proved as such.
\<close>

unbundle bit_operations_syntax

type_synonym byte = "8 word"
type_synonym u16 = "16 word"
type_synonym u32 = "32 word"
type_synonym u64 = "64 word"

named_theorems wire_simps \<open>evaluation of field readers on bytes produced by field writers\<close>
named_theorems width_simps \<open>byte widths of the fields and messages\<close>

section \<open>Characters and bytes\<close>

text \<open>A C++ \<^verbatim>\<open>char\<close> and a \<^verbatim>\<open>std::byte\<close> are the same eight bits.\<close>

definition char_of_byte :: "byte \<Rightarrow> char" where
  "char_of_byte b = char_of (unat b)"

definition byte_of_char :: "char \<Rightarrow> byte" where
  "byte_of_char c = of_nat (of_char c)"

lemma unat_byte_less [simp]: "unat (b :: byte) < 256"
  using unsigned_less [of b, where ?'a = nat] by simp

lemma unat_byte_of_char: "unat (byte_of_char c) = of_char c"
  by (simp add: byte_of_char_def unat_of_nat take_bit_eq_mod)

lemma char_of_byte_of_char [simp]: "char_of_byte (byte_of_char c) = c"
  by (simp add: char_of_byte_def unat_byte_of_char)

lemma byte_of_char_of_byte [simp]: "byte_of_char (char_of_byte b) = b"
  by (simp add: char_of_byte_def byte_of_char_def mod_less)

lemma map_char_of_byte_of_char [simp]: "map (char_of_byte \<circ> byte_of_char) cs = cs"
  by (simp add: comp_def)

section \<open>Object representation of integers\<close>

text \<open>
  The bytes of an integer object, lowest address first. \<open>le_bytes n v\<close> are the \<open>n\<close>
  base-256 digits of \<open>v\<close>, least significant first; \<open>le_value\<close> reads them back.
\<close>

datatype endian = Little | Big

text \<open>The host is little-endian, as on the x86-64 and AArch64 targets of the build.\<close>

definition native :: endian where
  "native = Little"

primrec le_bytes :: "nat \<Rightarrow> nat \<Rightarrow> byte list" where
  "le_bytes 0 v = []"
| "le_bytes (Suc n) v = of_nat v # le_bytes n (v div 256)"

primrec le_value :: "byte list \<Rightarrow> nat" where
  "le_value [] = 0"
| "le_value (b # bs) = unat b + 256 * le_value bs"

definition sizeof :: "'a::len word \<Rightarrow> nat" where
  "sizeof w = LENGTH('a) div 8"

definition bytes_of :: "endian \<Rightarrow> 'a::len word \<Rightarrow> byte list" where
  "bytes_of e w = (case e of
     Little \<Rightarrow> le_bytes (sizeof w) (unat w)
   | Big \<Rightarrow> rev (le_bytes (sizeof w) (unat w)))"

definition object_of :: "endian \<Rightarrow> byte list \<Rightarrow> 'a::len word" where
  "object_of e bs = of_nat (le_value (case e of Little \<Rightarrow> bs | Big \<Rightarrow> rev bs))"

lemma length_le_bytes [simp, width_simps]: "length (le_bytes n v) = n"
  by (induction n arbitrary: v) auto

lemma length_bytes_of [simp, width_simps]: "length (bytes_of e w) = sizeof w"
  by (simp add: bytes_of_def split: endian.split)

lemma sizeof_widths [simp, width_simps]:
  "sizeof (a :: byte) = 1" "sizeof (b :: u16) = 2" "sizeof (c :: u32) = 4" "sizeof (d :: u64) = 8"
  by (simp_all add: sizeof_def)

lemma le_value_le_bytes: "le_value (le_bytes n v) = v mod 256 ^ n"
proof (induction n arbitrary: v)
  case 0
  then show ?case by simp
next
  case (Suc n)
  have "unat (of_nat v :: byte) = v mod 256"
    by (simp add: unat_of_nat take_bit_eq_mod)
  with Suc show ?case
    by (simp add: mod_mult2_eq)
qed

lemma le_bytes_le_value: "le_bytes (length bs) (le_value bs) = bs"
proof (induction bs)
  case Nil
  then show ?case by simp
next
  case (Cons b bs)
  have "(of_nat (256 * le_value bs) :: byte) = 0"
    by (simp only: word_of_nat_eq_0_iff) simp
  then have "of_nat (unat b + 256 * le_value bs) = b"
    by (simp only: of_nat_add of_nat_unat ucast_id add_0_right)
  moreover have "(unat b + 256 * le_value bs) div 256 = le_value bs"
    by simp
  ultimately show ?case
    using Cons by simp
qed

lemma le_value_less: "le_value bs < 256 ^ length bs"
proof (induction bs)
  case Nil
  then show ?case by simp
next
  case (Cons b bs)
  have "unat b + 256 * le_value bs < 256 * Suc (le_value bs)"
    using unat_byte_less [of b] by simp
  also have "\<dots> \<le> 256 * 256 ^ length bs"
    using Cons by (simp only: mult_le_mono2 Suc_leI)
  finally show ?case by simp
qed

text \<open>
  A whole number of bytes: the widths the sources use. The two laws say that storing an
  integer to memory and loading it back is the identity in either byte order.
\<close>

definition whole :: "'a::len word itself \<Rightarrow> bool" where
  "whole _ \<longleftrightarrow> LENGTH('a) mod 8 = 0"

lemma whole_widths [simp]:
  "whole TYPE(byte)" "whole TYPE(u16)" "whole TYPE(u32)" "whole TYPE(u64)"
  by (simp_all add: whole_def)

lemma power_256_sizeof: "whole TYPE('a::len word) \<Longrightarrow> 256 ^ sizeof (w :: 'a word) = (2 :: nat) ^ LENGTH('a)"
proof -
  assume "whole TYPE('a word)"
  then have "LENGTH('a) = 8 * sizeof w"
    by (auto simp: whole_def sizeof_def)
  moreover have "(256 :: nat) = 2 ^ 8"
    by simp
  ultimately show ?thesis
    by (simp only: power_mult)
qed

lemma object_of_bytes_of:
  fixes w :: "'a::len word"
  assumes "whole TYPE('a word)"
  shows "object_of e (bytes_of e w) = w"
proof -
  have "unat w < 2 ^ LENGTH('a)"
    by (rule unsigned_less)
  then show ?thesis
    by (cases e)
      (simp_all add: object_of_def bytes_of_def le_value_le_bytes power_256_sizeof [OF assms])
qed

lemma bytes_of_object_of:
  assumes "whole TYPE('a::len word)" and "length bs = LENGTH('a) div 8"
  shows "bytes_of e (object_of e bs :: 'a word) = bs"
proof -
  have *: "unat (of_nat (le_value cs) :: 'a word) = le_value cs" if "length cs = length bs" for cs
  proof -
    have "le_value cs < 2 ^ LENGTH('a)"
      using le_value_less [of cs] power_256_sizeof [OF assms(1)] that assms(2)
      by (simp add: sizeof_def)
    then show ?thesis
      by (simp add: unat_of_nat take_bit_nat_eq_self)
  qed
  show ?thesis
    using le_bytes_le_value [of bs] le_bytes_le_value [of "rev bs"] assms(2)
    by (cases e) (simp_all add: bytes_of_def object_of_def * sizeof_def)
qed

section \<open>Bounds-checked access\<close>

text \<open>\<^verbatim>\<open>std::memcpy\<close> out of a buffer, and indexing of a \<^verbatim>\<open>std::vector\<close>.\<close>

definition memcpy_from :: "byte list \<Rightarrow> nat \<Rightarrow> nat \<Rightarrow> byte list option" where
  "memcpy_from buffer offset n =
     (if offset + n \<le> length buffer then Some (take n (drop offset buffer)) else None)"

definition vec_at :: "'a list \<Rightarrow> nat \<Rightarrow> 'a option" where
  "vec_at xs i = (if i < length xs then Some (xs ! i) else None)"

definition vec_set :: "'a list \<Rightarrow> nat \<Rightarrow> 'a \<Rightarrow> 'a list option" where
  "vec_set xs i x = (if i < length xs then Some (xs[i := x]) else None)"

lemma vec_at_Some [simp]: "i < length xs \<Longrightarrow> vec_at xs i = Some (xs ! i)"
  by (simp add: vec_at_def)

lemma vec_set_Some [simp]: "i < length xs \<Longrightarrow> vec_set xs i x = Some (xs[i := x])"
  by (simp add: vec_set_def)

lemma memcpy_from_Some [simp]:
  "offset + n \<le> length buffer \<Longrightarrow> memcpy_from buffer offset n = Some (take n (drop offset buffer))"
  by (simp add: memcpy_from_def)

text \<open>
  \<^verbatim>\<open>std::span\<close> views: \<^verbatim>\<open>subspan\<close> with one and with two arguments, and a span made of a pointer into a
  buffer and a length. A view that would leave the buffer is undefined behaviour.
\<close>

definition subspan_from :: "'a list \<Rightarrow> nat \<Rightarrow> 'a list option" where
  "subspan_from xs offset = (if offset \<le> length xs then Some (drop offset xs) else None)"

definition subspan :: "'a list \<Rightarrow> nat \<Rightarrow> nat \<Rightarrow> 'a list option" where
  "subspan xs offset n = (if offset + n \<le> length xs then Some (take n (drop offset xs)) else None)"

lemma subspan_from_Some [simp]: "offset \<le> length xs \<Longrightarrow> subspan_from xs offset = Some (drop offset xs)"
  by (simp add: subspan_from_def)

lemma subspan_Some [simp]: "offset + n \<le> length xs \<Longrightarrow> subspan xs offset n = Some (take n (drop offset xs))"
  by (simp add: subspan_def)

text \<open>The difference of two sizes: \<^verbatim>\<open>std::size_t\<close> has 64 bits and wraps around below zero.\<close>

definition size_minus :: "nat \<Rightarrow> nat \<Rightarrow> nat" where
  "size_minus m n = (if n \<le> m then m - n else 2 ^ 64 - (n - m))"

lemma size_minus_le [simp]: "n \<le> m \<Longrightarrow> size_minus m n = m - n"
  by (simp add: size_minus_def)

lemma size_minus_word: "n < 2 ^ 64 \<Longrightarrow> m < 2 ^ 64 \<Longrightarrow> size_minus m n = unat (of_nat m - of_nat n :: 64 word)"
  by (auto simp: size_minus_def unat_sub_if' unat_of_nat take_bit_nat_eq_self)

section \<open>Fixed-width character fields\<close>

text \<open>
  \<^verbatim>\<open>itch::to_string\<close> (messages.hpp), also the loop of \<^verbatim>\<open>MoldUdp64Header::session_view\<close>:
  the length is decremented while the last character is a space or a NUL.
\<close>

definition is_pad :: "char \<Rightarrow> bool" where
  "is_pad c \<longleftrightarrow> c = CHR '' '' \<or> c = CHR 0x00"

fun trim_len :: "(char \<Rightarrow> bool) \<Rightarrow> char list \<Rightarrow> nat \<Rightarrow> nat" where
  "trim_len pad source 0 = 0"
| "trim_len pad source (Suc n) = (if pad (source ! n) then trim_len pad source n else Suc n)"

lemma trim_len_le: "trim_len pad source n \<le> n"
  by (induction n) auto

lemma trim_len_stop: "trim_len pad source n = Suc k \<Longrightarrow> \<not> pad (source ! k)"
  by (induction n) (auto split: if_splits)

lemma trim_len_padding: "trim_len pad source n \<le> i \<Longrightarrow> i < n \<Longrightarrow> pad (source ! i)"
  by (induction n) (auto split: if_splits simp: less_Suc_eq)

section \<open>Runs of operations\<close>

text \<open>
  A component is driven by a list of operations, each a partial step of its state. The locale
  states when the steps simulate total steps on an abstract state: \<open>rel\<close> relates the two,
  and a step is promised while the abstract state has fewer than \<open>limit\<close> elements.
\<close>

fun run_steps :: "('op \<Rightarrow> 's \<Rightarrow> 's option) \<Rightarrow> 'op list \<Rightarrow> 's \<Rightarrow> 's option" where
  "run_steps step [] s = Some s"
| "run_steps step (op # ops) s = do { s \<leftarrow> step op s; run_steps step ops s }"

lemma run_steps_append: "run_steps step (ops @ ops') s = do { s \<leftarrow> run_steps step ops s; run_steps step ops' s }"
proof (induction ops arbitrary: s)
  case (Cons op ops)
  then show ?case
    by (cases "step op s") simp_all
qed simp

locale bounded_simulation =
  fixes step :: "'op \<Rightarrow> 's \<Rightarrow> 's option" and spec :: "'op \<Rightarrow> 'a \<Rightarrow> 'a"
    and rel :: "'s \<Rightarrow> 'a \<Rightarrow> bool" and elems :: "'a \<Rightarrow> nat" and limit :: nat
  assumes step_sim: "rel s a \<Longrightarrow> elems a < limit \<Longrightarrow> \<exists>s'. step op s = Some s' \<and> rel s' (spec op a)"
    and spec_grows: "elems (spec op a) \<le> elems a + 1"
begin

lemma run_sim:
  "rel s a \<Longrightarrow> elems a + length ops \<le> limit \<Longrightarrow>
    \<exists>s'. run_steps step ops s = Some s' \<and> rel s' (fold spec ops a)"
proof (induction ops arbitrary: s a)
  case (Cons op ops)
  obtain s1 where s1: "step op s = Some s1" "rel s1 (spec op a)"
    using step_sim [of s a op] Cons.prems by auto
  have "elems (spec op a) + length ops \<le> limit"
    using spec_grows [of op a] Cons.prems(2) by simp
  then show ?case
    using Cons.IH [OF s1(2)] s1(1) by simp
qed simp

end

end
