(* ===== verification/Order_Index.thy ===== *)
theory Order_Index
  imports Itch_Prelude
begin

text \<open>
  \<^verbatim>\<open>OrderIndex\<close> of \<^verbatim>\<open>include/itch/book/order_index.hpp\<close>: an open-addressed hash map with linear
  probing, a power-of-two table masked with \<^verbatim>\<open>m_mask\<close>, and deletion by backward shift. The
  theory shows that it implements a finite partial map: probing always ends, an insertion or a
  deletion changes one key, and growing the table changes none.
\<close>

section \<open>The table\<close>

record Slot =
  skey :: u64
  svalue :: u32
  used :: bool

definition empty_slot :: Slot where
  "empty_slot = \<lparr>skey = 0, svalue = 0, used = False\<rparr>"

record OrderIndex =
  m_slots :: "Slot list"
  m_count :: nat
  m_mask :: u64

definition NPOS :: u32 where
  "NPOS = 0xFFFFFFFF"

definition INITIAL_CAPACITY :: nat where
  "INITIAL_CAPACITY = 1024"

definition LOAD_FACTOR_NUM :: nat where
  "LOAD_FACTOR_NUM = 7"

definition LOAD_FACTOR_DEN :: nat where
  "LOAD_FACTOR_DEN = 10"

definition hash :: "u64 \<Rightarrow> u64" where
  "hash k =
     (let k = k XOR drop_bit 33 k;
          k = k * 0xFF51AFD7ED558CCD;
          k = k XOR drop_bit 33 k;
          k = k * 0xC4CEB9FE1A85EC53
      in k XOR drop_bit 33 k)"

text \<open>\<^verbatim>\<open>hash(key) & m_mask\<close> and \<^verbatim>\<open>(slot + 1) & m_mask\<close>, at 64 bits.\<close>

definition home_slot :: "u64 \<Rightarrow> u64 \<Rightarrow> nat" where
  "home_slot msk k = unat (hash k AND msk)"

definition next_slot :: "u64 \<Rightarrow> nat \<Rightarrow> nat" where
  "next_slot msk slot = unat ((of_nat slot + 1) AND msk)"

text \<open>
  The loop that \<^verbatim>\<open>find\<close>, \<^verbatim>\<open>insert\<close> and \<^verbatim>\<open>erase\<close> share: walk from the home slot to the slot
  of the key or to the first free slot. It may run forever on a full table.
\<close>

partial_function (option) probe :: "Slot list \<Rightarrow> u64 \<Rightarrow> u64 \<Rightarrow> nat \<Rightarrow> nat option" where
  "probe slots msk k slot = do {
     s \<leftarrow> vec_at slots slot;
     if used s
     then (if skey s = k then Some slot else probe slots msk k (next_slot msk slot))
     else Some slot }"

definition oi_find :: "OrderIndex \<Rightarrow> u64 \<Rightarrow> u32 option" where
  "oi_find t k = do {
     slot \<leftarrow> probe (m_slots t) (m_mask t) k (home_slot (m_mask t) k);
     s \<leftarrow> vec_at (m_slots t) slot;
     Some (if used s then svalue s else NPOS) }"

definition oi_contains :: "OrderIndex \<Rightarrow> u64 \<Rightarrow> bool option" where
  "oi_contains t k = do { v \<leftarrow> oi_find t k; Some (v \<noteq> NPOS) }"

text \<open>\<^verbatim>\<open>insert\<close> after the load check.\<close>

definition insert_core :: "OrderIndex \<Rightarrow> u64 \<Rightarrow> u32 \<Rightarrow> OrderIndex option" where
  "insert_core t k v = do {
     slot \<leftarrow> probe (m_slots t) (m_mask t) k (home_slot (m_mask t) k);
     s \<leftarrow> vec_at (m_slots t) slot;
     if used s
     then do {
       slots \<leftarrow> vec_set (m_slots t) slot (s\<lparr>svalue := v\<rparr>);
       Some (t\<lparr>m_slots := slots\<rparr>) }
     else do {
       slots \<leftarrow> vec_set (m_slots t) slot \<lparr>skey = k, svalue = v, used = True\<rparr>;
       Some (t\<lparr>m_slots := slots, m_count := m_count t + 1\<rparr>) } }"

definition fresh :: "nat \<Rightarrow> OrderIndex" where
  "fresh new_capacity =
     \<lparr>m_slots = replicate new_capacity empty_slot, m_count = 0, m_mask = of_nat (new_capacity - 1)\<rparr>"

text \<open>
  \<^verbatim>\<open>rehash\<close> and \<^verbatim>\<open>insert\<close> call each other. \<open>reinsert\<close> is the loop over the old slots, with the
  insertion it calls as an argument; the fuel of \<open>insert_fuel\<close> bounds the nesting of rehashes.
  A nested rehash would start from fewer keys than the outer one, so the number of stored keys
  bounds the nesting; in fact none ever happens (\<open>insert_correct\<close>).
\<close>

fun reinsert ::
  "(OrderIndex \<Rightarrow> u64 \<Rightarrow> u32 \<Rightarrow> OrderIndex option) \<Rightarrow> Slot list \<Rightarrow> OrderIndex \<Rightarrow> OrderIndex option" where
  "reinsert ins [] t = Some t"
| "reinsert ins (s # old) t =
     (if used s then do { t \<leftarrow> ins t (skey s) (svalue s); reinsert ins old t }
      else reinsert ins old t)"

definition rehash_with ::
  "(OrderIndex \<Rightarrow> u64 \<Rightarrow> u32 \<Rightarrow> OrderIndex option) \<Rightarrow> OrderIndex \<Rightarrow> nat \<Rightarrow> OrderIndex option" where
  "rehash_with ins t new_capacity = reinsert ins (m_slots t) (fresh new_capacity)"

definition over_load :: "OrderIndex \<Rightarrow> bool" where
  "over_load t \<longleftrightarrow> (m_count t + 1) * LOAD_FACTOR_DEN \<ge> length (m_slots t) * LOAD_FACTOR_NUM"

fun insert_fuel :: "nat \<Rightarrow> OrderIndex \<Rightarrow> u64 \<Rightarrow> u32 \<Rightarrow> OrderIndex option" where
  "insert_fuel 0 t k v = None"
| "insert_fuel (Suc fuel) t k v = do {
     t \<leftarrow> (if over_load t
           then rehash_with (insert_fuel fuel) t (length (m_slots t) * 2)
           else Some t);
     insert_core t k v }"

definition oi_insert :: "OrderIndex \<Rightarrow> u64 \<Rightarrow> u32 \<Rightarrow> OrderIndex option" where
  "oi_insert t = insert_fuel (m_count t + 2) t"

text \<open>The constructor calls \<^verbatim>\<open>rehash\<close> on a table without slots.\<close>

definition OrderIndex_new :: OrderIndex where
  "OrderIndex_new = fresh INITIAL_CAPACITY"

text \<open>The repair loop of \<^verbatim>\<open>remove_at\<close>.\<close>

definition movable :: "nat \<Rightarrow> nat \<Rightarrow> nat \<Rightarrow> bool" where
  "movable home hole nxt =
     (if hole \<le> nxt then home \<le> hole \<or> home > nxt else home \<le> hole \<and> home > nxt)"

partial_function (option) shift_back :: "Slot list \<Rightarrow> u64 \<Rightarrow> nat \<Rightarrow> nat \<Rightarrow> Slot list option" where
  "shift_back slots msk hole nxt = do {
     s \<leftarrow> vec_at slots nxt;
     if used s
     then (if movable (home_slot msk (skey s)) hole nxt
           then do {
             slots \<leftarrow> vec_set slots hole s;
             slots \<leftarrow> vec_set slots nxt (s\<lparr>used := False\<rparr>);
             shift_back slots msk nxt (next_slot msk nxt) }
           else shift_back slots msk hole (next_slot msk nxt))
     else Some slots }"

definition remove_at :: "OrderIndex \<Rightarrow> nat \<Rightarrow> OrderIndex option" where
  "remove_at t hole = do {
     s \<leftarrow> vec_at (m_slots t) hole;
     slots \<leftarrow> vec_set (m_slots t) hole (s\<lparr>used := False\<rparr>);
     slots \<leftarrow> shift_back slots (m_mask t) hole (next_slot (m_mask t) hole);
     Some (t\<lparr>m_slots := slots, m_count := m_count t - 1\<rparr>) }"

definition oi_erase :: "OrderIndex \<Rightarrow> u64 \<Rightarrow> OrderIndex option" where
  "oi_erase t k = do {
     slot \<leftarrow> probe (m_slots t) (m_mask t) k (home_slot (m_mask t) k);
     s \<leftarrow> vec_at (m_slots t) slot;
     if used s then remove_at t slot else Some t }"

definition oi_clear :: "OrderIndex \<Rightarrow> OrderIndex" where
  "oi_clear t = t\<lparr>m_slots := map (\<lambda>s. s\<lparr>used := False\<rparr>) (m_slots t), m_count := 0\<rparr>"

definition oi_empty :: "OrderIndex \<Rightarrow> bool" where
  "oi_empty t \<longleftrightarrow> m_count t = 0"

section \<open>Positions on the ring\<close>

text \<open>
  The table is a ring of \<open>c\<close> slots: \<open>cadd c i d\<close> is the slot \<open>d\<close> steps after \<open>i\<close>, and
  \<open>cdist c i j\<close> the number of steps from \<open>i\<close> to \<open>j\<close>. Both are stated without \<open>mod\<close>, so that
  linear arithmetic decides the facts about them.
\<close>

definition cadd :: "nat \<Rightarrow> nat \<Rightarrow> nat \<Rightarrow> nat" where
  "cadd c i d = (if i + d < c then i + d else i + d - c)"

definition cdist :: "nat \<Rightarrow> nat \<Rightarrow> nat \<Rightarrow> nat" where
  "cdist c i j = (if i \<le> j then j - i else j + c - i)"

lemma cadd_less: "i < c \<Longrightarrow> d < c \<Longrightarrow> cadd c i d < c"
  by (auto simp: cadd_def)

lemma cdist_less: "i < c \<Longrightarrow> j < c \<Longrightarrow> cdist c i j < c"
  by (auto simp: cdist_def)

lemma cadd_0 [simp]: "i < c \<Longrightarrow> cadd c i 0 = i"
  by (simp add: cadd_def)

lemma cadd_cdist: "i < c \<Longrightarrow> j < c \<Longrightarrow> cadd c i (cdist c i j) = j"
  by (auto simp: cadd_def cdist_def)

lemma cdist_cadd: "i < c \<Longrightarrow> d < c \<Longrightarrow> cdist c i (cadd c i d) = d"
  by (auto simp: cadd_def cdist_def)

lemma cadd_cadd: "i < c \<Longrightarrow> d + e < c \<Longrightarrow> cadd c (cadd c i d) e = cadd c i (d + e)"
  by (auto simp: cadd_def)

lemma cadd_inj: "i < c \<Longrightarrow> d < c \<Longrightarrow> e < c \<Longrightarrow> cadd c i d = cadd c i e \<longleftrightarrow> d = e"
  by (auto simp: cadd_def split: if_splits)

lemma movable_cdist:
  assumes "hole < c" "home < c" "0 < e" "e < c"
  shows "movable home hole (cadd c hole e) \<longleftrightarrow> e \<le> cdist c home (cadd c hole e)"
  using assms by (auto simp: movable_def cadd_def cdist_def split: if_splits)

section \<open>The mask\<close>

lemma and_mask_mod:
  assumes "n < 64"
  shows "unat (w AND of_nat (2 ^ n - 1) :: u64) = unat w mod 2 ^ n"
proof -
  have "(of_nat (2 ^ n - 1) :: u64) = mask n"
    by (simp add: mask_eq_exp_minus_1 of_nat_diff)
  then have "unat (w AND of_nat (2 ^ n - 1) :: u64) = unat (take_bit n w)"
    by (simp add: take_bit_eq_mask)
  then show ?thesis
    using unsigned_take_bit_eq [of n w, where 'a = nat] by (simp only: take_bit_nat_def)
qed

lemma home_slot_less: "n < 64 \<Longrightarrow> home_slot (of_nat (2 ^ n - 1)) k < 2 ^ n"
  by (simp only: home_slot_def and_mask_mod) simp

lemma next_slot_cadd:
  assumes "n < 64" and "i < 2 ^ n" and "0 < n"
  shows "next_slot (of_nat (2 ^ n - 1)) i = cadd (2 ^ n) i 1"
proof -
  have "(2 :: nat) ^ n \<le> 2 ^ 63"
    using assms(1) by (intro power_increasing) auto
  then have "i + 1 < 2 ^ 64"
    using assms(2) by simp
  then have "unat (of_nat (i + 1) :: u64) = i + 1"
    by (intro of_nat_inverse) (simp_all add: take_bit_nat_eq_self unat_of_nat)
  then have "next_slot (of_nat (2 ^ n - 1)) i = (i + 1) mod 2 ^ n"
    using and_mask_mod [OF assms(1), of "of_nat (i + 1)"] by (simp add: next_slot_def add.commute)
  also have "\<dots> = cadd (2 ^ n) i 1"
    using assms(2) by (auto simp: cadd_def mod_if)
  finally show ?thesis .
qed

definition ring :: "u64 \<Rightarrow> nat \<Rightarrow> bool" where
  "ring msk c \<longleftrightarrow> (\<forall>k. home_slot msk k < c) \<and> (\<forall>i<c. next_slot msk i = cadd c i 1)"

lemma ring_power: "0 < n \<Longrightarrow> n < 64 \<Longrightarrow> ring (of_nat (2 ^ n - 1)) (2 ^ n)"
  unfolding ring_def by (blast intro: home_slot_less next_slot_cadd)

section \<open>The abstract map of a table\<close>

definition table_map :: "Slot list \<Rightarrow> u64 \<Rightarrow> u32 option" where
  "table_map slots k = map_option svalue (List.find (\<lambda>s. used s \<and> skey s = k) slots)"

definition used_set :: "Slot list \<Rightarrow> nat set" where
  "used_set slots = {i. i < length slots \<and> used (slots ! i)}"

definition unique_keys :: "Slot list \<Rightarrow> bool" where
  "unique_keys slots \<longleftrightarrow> inj_on (\<lambda>i. skey (slots ! i)) (used_set slots)"

text \<open>
  Every occupied slot is reachable from its home slot over occupied slots; \<open>x\<close> is a slot
  that is exempt (the hole during a removal).
\<close>

definition chained :: "nat \<Rightarrow> u64 \<Rightarrow> Slot list \<Rightarrow> bool" where
  "chained x msk slots \<longleftrightarrow>
     (let c = length slots in
      \<forall>i \<in> used_set slots. let h = home_slot msk (skey (slots ! i)) in
        \<forall>d < cdist c h i. cadd c h d \<in> used_set slots \<or> cadd c h d = x)"

lemma chainedD:
  assumes "chained x msk slots" "i \<in> used_set slots"
    "d < cdist (length slots) (home_slot msk (skey (slots ! i))) i"
  shows "cadd (length slots) (home_slot msk (skey (slots ! i))) d \<in> used_set slots \<or>
    cadd (length slots) (home_slot msk (skey (slots ! i))) d = x"
  using assms unfolding chained_def Let_def by blast

lemma used_set_finite [simp, intro]: "finite (used_set slots)"
  by (simp add: used_set_def)

lemma used_set_less: "i \<in> used_set slots \<Longrightarrow> i < length slots"
  by (simp add: used_set_def)

lemma used_set_card: "card (used_set slots) \<le> length slots"
  using card_mono [of "{..<length slots}" "used_set slots"] by (auto simp: used_set_def)

lemma table_map_None_iff:
  "table_map slots k = None \<longleftrightarrow> (\<forall>i \<in> used_set slots. skey (slots ! i) \<noteq> k)"
  by (auto simp: table_map_def find_None_iff used_set_def in_set_conv_nth)

lemma table_map_used:
  assumes "unique_keys slots" "i \<in> used_set slots"
  shows "table_map slots (skey (slots ! i)) = Some (svalue (slots ! i))"
proof -
  obtain s where s: "List.find (\<lambda>s. used s \<and> skey s = skey (slots ! i)) slots = Some s"
    using assms(2) by (cases "List.find (\<lambda>s. used s \<and> skey s = skey (slots ! i)) slots")
      (auto simp: find_None_iff used_set_def in_set_conv_nth)
  then obtain j where j: "j < length slots" "used (slots ! j)" "skey (slots ! j) = skey (slots ! i)"
    "s = slots ! j"
    by (auto simp: find_Some_iff)
  with assms have "j = i"
    by (auto simp: unique_keys_def used_set_def dest: inj_onD)
  with s j show ?thesis
    by (simp add: table_map_def)
qed

lemma table_map_Some_iff:
  assumes "unique_keys slots"
  shows "table_map slots k = Some v \<longleftrightarrow>
    (\<exists>i \<in> used_set slots. skey (slots ! i) = k \<and> svalue (slots ! i) = v)"
proof
  assume "table_map slots k = Some v"
  then obtain i where "i \<in> used_set slots" "skey (slots ! i) = k"
    using table_map_None_iff [of slots k] by auto
  then show "\<exists>i \<in> used_set slots. skey (slots ! i) = k \<and> svalue (slots ! i) = v"
    using table_map_used [OF assms] \<open>table_map slots k = Some v\<close> by fastforce
qed (use table_map_used [OF assms] in auto)

section \<open>Probing\<close>

lemma probe_steps:
  assumes "ring msk (length slots)"
    and "\<forall>d<n. cadd (length slots) s d \<in> used_set slots \<and> skey (slots ! cadd (length slots) s d) \<noteq> k"
    and "cadd (length slots) s n \<notin> used_set slots \<or> skey (slots ! cadd (length slots) s n) = k"
    and "s < length slots" "n < length slots"
  shows "probe slots msk k s = Some (cadd (length slots) s n)"
  using assms(2-)
proof (induction n arbitrary: s)
  case 0
  then show ?case
    by (subst probe.simps) (auto simp: used_set_def)
next
  case (Suc n)
  let ?c = "length slots"
  let ?s = "cadd ?c s 1"
  have s: "used (slots ! s)" "skey (slots ! s) \<noteq> k"
    using Suc.prems(1) [rule_format, of 0] Suc.prems(3) by (auto simp: used_set_def)
  have step: "cadd ?c ?s d = cadd ?c s (Suc d)" if "d \<le> n" for d
    using cadd_cadd [of s ?c 1 d] that Suc.prems(3,4) by simp
  have "probe slots msk k ?s = Some (cadd ?c ?s n)"
    using Suc.prems step by (intro Suc.IH) (auto simp: cadd_less)
  moreover have "probe slots msk k s = probe slots msk k ?s"
    using assms(1) s Suc.prems(3) by (subst probe.simps) (simp add: ring_def)
  ultimately show ?case
    by (simp only: step [OF order_refl])
qed

lemma probe_present:
  assumes "ring msk (length slots)" "unique_keys slots" "chained (length slots) msk slots"
    and i: "i \<in> used_set slots" "skey (slots ! i) = k"
  shows "probe slots msk k (home_slot msk k) = Some i"
proof -
  let ?c = "length slots" and ?h = "home_slot msk k"
  have h: "?h < ?c" and ic: "i < ?c"
    using assms(1) i by (auto simp: ring_def used_set_def)
  have path: "cadd ?c ?h d \<in> used_set slots \<and> skey (slots ! cadd ?c ?h d) \<noteq> k"
    if d: "d < cdist ?c ?h i" for d
  proof -
    have dc: "d < ?c"
      using d cdist_less [OF h ic] by simp
    have "cadd ?c ?h d \<in> used_set slots"
      using chainedD [OF assms(3) i(1), of d] d cadd_less [OF h dc] i(2) by auto
    moreover have "cadd ?c ?h d \<noteq> i"
      using d cadd_inj [OF h dc cdist_less [OF h ic]] cadd_cdist [OF h ic] by auto
    ultimately show ?thesis
      using assms(2) i by (auto simp: unique_keys_def dest: inj_onD)
  qed
  have "probe slots msk k ?h = Some (cadd ?c ?h (cdist ?c ?h i))"
    using assms(1) path h ic i cadd_cdist [OF h ic] cdist_less [OF h ic]
    by (intro probe_steps) auto
  then show ?thesis
    by (simp add: cadd_cdist [OF h ic])
qed

lemma probe_absent:
  assumes "ring msk (length slots)"
    and absent: "\<forall>i \<in> used_set slots. skey (slots ! i) \<noteq> k"
    and free: "card (used_set slots) < length slots"
  shows "\<exists>n < length slots.
    probe slots msk k (home_slot msk k) = Some (cadd (length slots) (home_slot msk k) n) \<and>
    cadd (length slots) (home_slot msk k) n \<notin> used_set slots \<and>
    (\<forall>d<n. cadd (length slots) (home_slot msk k) d \<in> used_set slots)"
proof -
  let ?c = "length slots" and ?h = "home_slot msk k"
  let ?n = "LEAST d. cadd ?c ?h d \<notin> used_set slots"
  have h: "?h < ?c"
    using assms(1) by (simp add: ring_def)
  obtain u where u: "u < ?c" "u \<notin> used_set slots"
  proof -
    have "\<not> {..<?c} \<subseteq> used_set slots"
      using free card_mono [of "used_set slots" "{..<?c}"] by auto
    then show thesis
      using that by blast
  qed
  have at_u: "cadd ?c ?h (cdist ?c ?h u) \<notin> used_set slots"
    using u cadd_cdist [OF h u(1)] by simp
  have n: "cadd ?c ?h ?n \<notin> used_set slots"
    using at_u by (rule LeastI)
  have "?n \<le> cdist ?c ?h u"
    using at_u by (rule Least_le)
  then have nc: "?n < ?c"
    using cdist_less [OF h u(1)] by simp
  have before: "cadd ?c ?h d \<in> used_set slots" if "d < ?n" for d
    using not_less_Least [OF that] by blast
  have "probe slots msk k ?h = Some (cadd ?c ?h ?n)"
    by (rule probe_steps [OF assms(1)]) (use absent before n nc h in blast)+
  with n nc before show ?thesis
    by blast
qed

section \<open>The representation invariant\<close>

text \<open>What the lookup loop needs, and what every public operation keeps.\<close>

definition slots_ok :: "u64 \<Rightarrow> Slot list \<Rightarrow> bool" where
  "slots_ok msk slots \<longleftrightarrow> ring msk (length slots) \<and> unique_keys slots \<and>
     chained (length slots) msk slots \<and> card (used_set slots) < length slots"

definition oi_invar :: "OrderIndex \<Rightarrow> bool" where
  "oi_invar t \<longleftrightarrow>
     (\<exists>n<64. 0 < n \<and> length (m_slots t) = 2 ^ n) \<and>
     m_mask t = of_nat (length (m_slots t) - 1) \<and>
     m_count t = card (used_set (m_slots t)) \<and>
     m_count t * LOAD_FACTOR_DEN < length (m_slots t) * LOAD_FACTOR_NUM \<and>
     unique_keys (m_slots t) \<and> chained (length (m_slots t)) (m_mask t) (m_slots t)"

definition oi_map :: "OrderIndex \<Rightarrow> u64 \<Rightarrow> u32 option" where
  "oi_map t = table_map (m_slots t)"

lemmas load_defs = LOAD_FACTOR_NUM_def LOAD_FACTOR_DEN_def

lemma oi_invar_ring: "oi_invar t \<Longrightarrow> ring (m_mask t) (length (m_slots t))"
  unfolding oi_invar_def by (metis ring_power)

lemma oi_invar_slots:
  assumes "oi_invar t"
  shows "slots_ok (m_mask t) (m_slots t)"
proof -
  have "card (used_set (m_slots t)) < length (m_slots t)"
    using assms unfolding oi_invar_def load_defs by linarith
  then show ?thesis
    using assms oi_invar_ring [OF assms] unfolding oi_invar_def slots_ok_def by blast
qed

lemma chainedI:
  assumes "\<And>i d. i \<in> used_set slots \<Longrightarrow> d < cdist (length slots) (home_slot msk (skey (slots ! i))) i \<Longrightarrow>
    cadd (length slots) (home_slot msk (skey (slots ! i))) d \<in> used_set slots \<or>
    cadd (length slots) (home_slot msk (skey (slots ! i))) d = x"
  shows "chained x msk slots"
  using assms unfolding chained_def Let_def by blast

lemma probe_result:
  assumes "slots_ok msk slots"
  obtains (present) i where "i \<in> used_set slots" "skey (slots ! i) = k"
      "probe slots msk k (home_slot msk k) = Some i"
  | (absent) n where "n < length slots" "\<forall>i \<in> used_set slots. skey (slots ! i) \<noteq> k"
      "probe slots msk k (home_slot msk k) = Some (cadd (length slots) (home_slot msk k) n)"
      "cadd (length slots) (home_slot msk k) n < length slots"
      "cadd (length slots) (home_slot msk k) n \<notin> used_set slots"
      "\<forall>d<n. cadd (length slots) (home_slot msk k) d \<in> used_set slots"
proof (cases "\<exists>i \<in> used_set slots. skey (slots ! i) = k")
  case True
  then show thesis
    using present probe_present assms unfolding slots_ok_def by blast
next
  case False
  then have "\<forall>i \<in> used_set slots. skey (slots ! i) \<noteq> k"
    by blast
  moreover have "home_slot msk k < length slots"
    using assms by (simp add: slots_ok_def ring_def)
  ultimately show thesis
    using probe_absent [of msk slots k] absent assms cadd_less unfolding slots_ok_def by blast
qed

section \<open>Lookup\<close>

lemma oi_find_map:
  assumes "oi_invar t"
  shows "oi_find t k = Some (case oi_map t k of None \<Rightarrow> NPOS | Some v \<Rightarrow> v)"
proof (rule probe_result [OF oi_invar_slots [OF assms], of k])
  fix i assume i: "i \<in> used_set (m_slots t)" "skey (m_slots t ! i) = k"
    "probe (m_slots t) (m_mask t) k (home_slot (m_mask t) k) = Some i"
  then have "oi_map t k = Some (svalue (m_slots t ! i))"
    using table_map_used [of "m_slots t" i] assms by (simp add: oi_map_def oi_invar_def)
  then show ?thesis
    using i by (simp add: oi_find_def used_set_def)
next
  fix n assume n: "\<forall>i \<in> used_set (m_slots t). skey (m_slots t ! i) \<noteq> k"
    "probe (m_slots t) (m_mask t) k (home_slot (m_mask t) k) =
      Some (cadd (length (m_slots t)) (home_slot (m_mask t) k) n)"
    "cadd (length (m_slots t)) (home_slot (m_mask t) k) n < length (m_slots t)"
    "cadd (length (m_slots t)) (home_slot (m_mask t) k) n \<notin> used_set (m_slots t)"
  then have "oi_map t k = None"
    by (simp add: oi_map_def table_map_None_iff)
  then show ?thesis
    using n by (simp add: oi_find_def used_set_def)
qed

section \<open>Insertion\<close>

lemma table_map_eqI:
  assumes "unique_keys slots"
    and "\<And>k v. m k = Some v \<longleftrightarrow> (\<exists>i \<in> used_set slots. skey (slots ! i) = k \<and> svalue (slots ! i) = v)"
  shows "table_map slots = m"
proof
  fix k
  show "table_map slots k = m k"
    using table_map_Some_iff [OF assms(1), of k] assms(2) [of k]
    by (metis not_None_eq)
qed

text \<open>Overwriting the value of an occupied slot changes neither keys nor occupation.\<close>

lemma overwrite_slot:
  fixes v :: u32
  assumes i: "i \<in> used_set slots" and "unique_keys slots"
  defines "slots' \<equiv> slots[i := (slots ! i)\<lparr>svalue := v\<rparr>]"
  shows "used_set slots' = used_set slots" "\<And>j. j < length slots \<Longrightarrow> skey (slots' ! j) = skey (slots ! j)"
    "unique_keys slots'" "chained x msk slots' = chained x msk slots"
    "table_map slots' = (table_map slots)(skey (slots ! i) \<mapsto> v)"
proof -
  show used: "used_set slots' = used_set slots"
    using i by (auto simp: used_set_def slots'_def nth_list_update)
  show key: "\<And>j. j < length slots \<Longrightarrow> skey (slots' ! j) = skey (slots ! j)"
    using i by (auto simp: used_set_def slots'_def nth_list_update)
  show uniq: "unique_keys slots'"
    using assms(2) key used by (auto simp: unique_keys_def inj_on_def used_set_def)
  have len: "length slots' = length slots"
    by (simp add: slots'_def)
  show "chained x msk slots' = chained x msk slots"
    using key used_set_less by (simp add: chained_def Let_def used len)
  show "table_map slots' = (table_map slots)(skey (slots ! i) \<mapsto> v)"
  proof (rule table_map_eqI [OF uniq])
    fix k w
    have at: "svalue (slots' ! j) = (if j = i then v else svalue (slots ! j))"
      if "j \<in> used_set slots" for j
      using that by (auto simp: slots'_def used_set_def nth_list_update)
    have "j = i \<longleftrightarrow> skey (slots ! j) = skey (slots ! i)" if "j \<in> used_set slots" for j
      using assms(2) i that by (auto simp: unique_keys_def dest: inj_onD)
    then show "((table_map slots)(skey (slots ! i) \<mapsto> v)) k = Some w \<longleftrightarrow>
      (\<exists>j \<in> used_set slots'. skey (slots' ! j) = k \<and> svalue (slots' ! j) = w)"
      using at key i used_set_less table_map_Some_iff [OF assms(2), of k w] unfolding used
      by (cases "k = skey (slots ! i)") (auto, (metis+)?)
  qed
qed


text \<open>Filling the free slot that ends the probe sequence of a new key.\<close>

lemma fill_slot:
  fixes v :: u32
  assumes u: "u < length slots" "u \<notin> used_set slots" "u = cadd (length slots) (home_slot msk k) n"
    and n: "n < length slots" "home_slot msk k < length slots"
    and new: "\<forall>i \<in> used_set slots. skey (slots ! i) \<noteq> k"
    and path: "\<forall>d<n. cadd (length slots) (home_slot msk k) d \<in> used_set slots"
    and ok: "unique_keys slots" "chained (length slots) msk slots"
  defines "slots' \<equiv> slots[u := \<lparr>skey = k, svalue = v, used = True\<rparr>]"
  shows "used_set slots' = insert u (used_set slots)" "unique_keys slots'"
    "chained (length slots') msk slots'" "table_map slots' = (table_map slots)(k \<mapsto> v)"
proof -
  have len: "length slots' = length slots"
    by (simp add: slots'_def)
  have at_u: "slots' ! u = \<lparr>skey = k, svalue = v, used = True\<rparr>"
    using u(1) by (simp add: slots'_def)
  have keep: "slots' ! j = slots ! j" if "j \<in> used_set slots" for j
    using that u(2) by (cases "j = u") (auto simp: slots'_def)
  show used: "used_set slots' = insert u (used_set slots)"
    using u(1) by (auto simp: used_set_def slots'_def nth_list_update)
  show uniq: "unique_keys slots'"
    using ok(1) new u(2) at_u keep unfolding unique_keys_def used by (auto simp: inj_on_def)
  show "chained (length slots') msk slots'"
  proof (rule chainedI, unfold len used)
    fix i d
    assume i: "i \<in> insert u (used_set slots)"
      and d: "d < cdist (length slots) (home_slot msk (skey (slots' ! i))) i"
    show "cadd (length slots) (home_slot msk (skey (slots' ! i))) d \<in> insert u (used_set slots) \<or>
      cadd (length slots) (home_slot msk (skey (slots' ! i))) d = length slots"
    proof (cases "i = u")
      case True
      then show ?thesis
        using d at_u u(3) cdist_cadd [OF n(2,1)] path by simp
    next
      case False
      then show ?thesis
        using i d keep [of i] chainedD [OF ok(2), of i d] by auto
    qed
  qed
  show "table_map slots' = (table_map slots)(k \<mapsto> v)"
  proof (rule table_map_eqI [OF uniq])
    fix k' w
    show "((table_map slots)(k \<mapsto> v)) k' = Some w \<longleftrightarrow>
      (\<exists>i \<in> used_set slots'. skey (slots' ! i) = k' \<and> svalue (slots' ! i) = w)"
      using table_map_Some_iff [OF ok(1), of k' w] new at_u keep unfolding used
      by (cases "k' = k") auto
  qed
qed

lemma insert_core_count: "insert_core t k v = Some t' \<Longrightarrow> m_count t' \<le> m_count t + 1"
  by (auto simp: insert_core_def Option.bind_eq_Some_conv split: if_splits)

lemma insert_core_correct:
  assumes "oi_invar t" "\<not> over_load t"
  shows "\<exists>t'. insert_core t k v = Some t' \<and> oi_invar t' \<and> oi_map t' = (oi_map t)(k \<mapsto> v) \<and>
    length (m_slots t') = length (m_slots t)"
proof (rule probe_result [OF oi_invar_slots [OF assms(1)], of k])
  let ?s = "m_slots t" and ?m = "m_mask t"
  fix i assume i: "i \<in> used_set ?s" "skey (?s ! i) = k" "probe ?s ?m k (home_slot ?m k) = Some i"
  have uniq: "unique_keys ?s"
    using assms(1) by (simp add: oi_invar_def)
  note over = overwrite_slot [OF i(1) uniq, where v = v]
  have "insert_core t k v = Some (t\<lparr>m_slots := ?s[i := (?s ! i)\<lparr>svalue := v\<rparr>]\<rparr>)"
    using i by (simp add: insert_core_def used_set_def)
  moreover have "oi_invar (t\<lparr>m_slots := ?s[i := (?s ! i)\<lparr>svalue := v\<rparr>]\<rparr>)"
    using assms(1) over(1,3,4) by (auto simp: oi_invar_def)
  ultimately show ?thesis
    using over(5) i(2) by (simp add: oi_map_def)
next
  let ?s = "m_slots t" and ?m = "m_mask t"
  let ?u = "\<lambda>n. cadd (length ?s) (home_slot ?m k) n"
  fix n assume n: "n < length ?s" "\<forall>i \<in> used_set ?s. skey (?s ! i) \<noteq> k"
    "probe ?s ?m k (home_slot ?m k) = Some (?u n)" "?u n < length ?s" "?u n \<notin> used_set ?s"
    "\<forall>d<n. ?u d \<in> used_set ?s"
  have ok: "unique_keys ?s" "chained (length ?s) ?m ?s" "home_slot ?m k < length ?s"
    using assms(1) oi_invar_slots [OF assms(1)] by (auto simp: oi_invar_def slots_ok_def ring_def)
  note fill = fill_slot [OF n(4,5) refl n(1) ok(3) n(2,6) ok(1,2), where v = v]
  let ?t = "t\<lparr>m_slots := ?s[?u n := \<lparr>skey = k, svalue = v, used = True\<rparr>], m_count := m_count t + 1\<rparr>"
  have "insert_core t k v = Some ?t"
    using n by (simp add: insert_core_def used_set_def)
  moreover have "oi_invar ?t"
    using assms fill(1,2,3) n(5) by (auto simp: oi_invar_def over_load_def)
  ultimately show ?thesis
    using fill(4) by (simp add: oi_map_def)
qed


section \<open>Growing the table\<close>

lemma oi_invar_fresh:
  assumes "n < 64" "0 < n"
  shows "oi_invar (fresh (2 ^ n))" "oi_map (fresh (2 ^ n)) = Map.empty"
proof -
  have none: "used_set (replicate (2 ^ n) empty_slot) = {}"
    by (auto simp: used_set_def empty_slot_def)
  show "oi_invar (fresh (2 ^ n))"
    unfolding oi_invar_def fresh_def load_defs using assms
    by (auto simp: none unique_keys_def chained_def)
  show "oi_map (fresh (2 ^ n)) = Map.empty"
    by (rule ext) (simp add: oi_map_def fresh_def table_map_None_iff none)
qed

lemma upd_map_add: "(\<lambda>a. if a = k then Some v else m a) ++ m' = m(k \<mapsto> v) ++ m'"
  by (simp add: fun_upd_def)

lemma reinsert_correct:
  assumes "\<And>t k v. oi_invar t \<Longrightarrow> \<not> over_load t \<Longrightarrow> ins t k v = insert_core t k v"
    and "oi_invar t" "m_count t + length (List.filter used old) < c"
    and "c * LOAD_FACTOR_DEN \<le> length (m_slots t) * LOAD_FACTOR_NUM"
  shows "\<exists>t'. reinsert ins old t = Some t' \<and> oi_invar t' \<and> length (m_slots t') = length (m_slots t) \<and>
    oi_map t' = oi_map t ++ map_of (rev (map (\<lambda>s. (skey s, svalue s)) (List.filter used old)))"
  using assms(2-)
proof (induction old arbitrary: t)
  case (Cons s old)
  show ?case
  proof (cases "used s")
    case True
    have load: "\<not> over_load t"
      using Cons.prems(2,3) True by (auto simp: over_load_def load_defs)
    then obtain t' where t': "ins t (skey s) (svalue s) = Some t'" "oi_invar t'"
      "oi_map t' = (oi_map t)(skey s \<mapsto> svalue s)" "length (m_slots t') = length (m_slots t)"
      "m_count t' \<le> m_count t + 1"
      using insert_core_correct [OF Cons.prems(1) load, of "skey s" "svalue s"] assms(1) Cons.prems(1)
        insert_core_count by metis
    then show ?thesis
      using Cons.IH [of t'] Cons.prems True upd_map_add by auto
  qed (use Cons in auto)
qed simp


section \<open>Removal by backward shift\<close>

lemma clear_slot:
  assumes "h \<in> used_set slots" "unique_keys slots" "chained (length slots) msk slots" "ring msk (length slots)"
  defines "slots' \<equiv> slots[h := (slots ! h)\<lparr>used := False\<rparr>]"
  shows "used_set slots' = used_set slots - {h}" "unique_keys slots'" "chained h msk slots'"
    "table_map slots' = (table_map slots)(skey (slots ! h) := None)"
proof -
  have keep: "slots' ! j = slots ! j" if "j \<noteq> h" for j
    using that by (simp add: slots'_def)
  have len: "length slots' = length slots"
    by (simp add: slots'_def)
  show used: "used_set slots' = used_set slots - {h}"
    using assms(1) by (auto simp: used_set_def slots'_def nth_list_update)
  show uniq: "unique_keys slots'"
    using assms(2) unfolding unique_keys_def used by (auto simp: inj_on_def keep)
  show "chained h msk slots'"
  proof (rule chainedI, unfold len used)
    fix i d
    assume i: "i \<in> used_set slots - {h}" and d: "d < cdist (length slots) (home_slot msk (skey (slots' ! i))) i"
    let ?p = "cadd (length slots) (home_slot msk (skey (slots ! i))) d"
    have h: "home_slot msk (skey (slots ! i)) < length slots" "i < length slots"
      using assms(4) i by (auto simp: ring_def used_set_def)
    have "?p < length slots"
      using d i keep [of i] cdist_less [OF h] by (intro cadd_less [OF h(1)]) auto
    then show "cadd (length slots) (home_slot msk (skey (slots' ! i))) d \<in> used_set slots - {h} \<or>
      cadd (length slots) (home_slot msk (skey (slots' ! i))) d = h"
      using i d keep [of i] chainedD [OF assms(3), of i d] by auto
  qed
  show "table_map slots' = (table_map slots)(skey (slots ! h) := None)"
  proof (rule table_map_eqI [OF uniq])
    fix k w
    have "i = h \<longleftrightarrow> skey (slots ! i) = skey (slots ! h)" if "i \<in> used_set slots" for i
      using assms(1,2) that by (auto simp: unique_keys_def dest: inj_onD)
    then show "((table_map slots)(skey (slots ! h) := None)) k = Some w \<longleftrightarrow>
      (\<exists>i \<in> used_set slots'. skey (slots' ! i) = k \<and> svalue (slots' ! i) = w)"
      using table_map_Some_iff [OF assms(2), of k w] keep unfolding used
      by (cases "k = skey (slots ! h)") (auto, (metis)?)
  qed
qed

lemma cdist_shorter:
  assumes "hole < c" "h < c" "0 < e" "e < c" "e \<le> cdist c h (cadd c hole e)"
  shows "cdist c h hole \<le> cdist c h (cadd c hole e)"
  using assms by (auto simp: cdist_def cadd_def split: if_splits)

text \<open>Moving the entry of \<open>nxt\<close> into the hole; \<open>nxt\<close> becomes the hole.\<close>

lemma move_slot:
  assumes "hole < length slots" "hole \<notin> used_set slots" "nxt \<in> used_set slots"
    and ok: "unique_keys slots" "chained hole msk slots" "ring msk (length slots)"
    and nxt: "nxt = cadd (length slots) hole e" "0 < e" "e < length slots"
    and far: "e \<le> cdist (length slots) (home_slot msk (skey (slots ! nxt))) nxt"
  defines "slots' \<equiv> (slots[hole := slots ! nxt])[nxt := (slots ! nxt)\<lparr>used := False\<rparr>]"
  shows "used_set slots' = insert hole (used_set slots - {nxt})" "unique_keys slots'"
    "chained nxt msk slots'" "table_map slots' = table_map slots"
proof -
  let ?c = "length slots"
  have ne: "nxt \<noteq> hole"
    using assms(2,3) by blast
  have at_hole: "slots' ! hole = slots ! nxt"
    using assms(1) ne by (simp add: slots'_def)
  have keep: "slots' ! j = slots ! j" if "j \<noteq> hole" "j \<noteq> nxt" for j
    using that by (simp add: slots'_def)
  have len: "length slots' = ?c"
    by (simp add: slots'_def)
  show used: "used_set slots' = insert hole (used_set slots - {nxt})"
    using assms(1,3) ne by (auto simp: used_set_def slots'_def nth_list_update)
  define g where "g i = (if i = hole then nxt else i)" for i
  have g_image: "g ` used_set slots' = used_set slots" and g_inj: "inj_on g (used_set slots')"
    using assms(2,3) unfolding used by (auto simp: g_def inj_on_def image_iff)
  have g_at: "slots' ! i = slots ! g i" if "i \<in> used_set slots'" for i
    using that at_hole keep [of i] unfolding used by (auto simp: g_def)
  show uniq: "unique_keys slots'"
    using comp_inj_on [OF g_inj, of "\<lambda>i. skey (slots ! i)"] ok(1)
    unfolding unique_keys_def g_image by (simp add: comp_def g_at cong: inj_on_cong)
  have home: "home_slot msk k < ?c" for k
    using ok(3) by (simp add: ring_def)
  show "chained nxt msk slots'"
  proof (rule chainedI, unfold len used)
    fix i d
    assume i: "i \<in> insert hole (used_set slots - {nxt})" and d: "d < cdist ?c (home_slot msk (skey (slots' ! i))) i"
    show "cadd ?c (home_slot msk (skey (slots' ! i))) d \<in> insert hole (used_set slots - {nxt}) \<or>
      cadd ?c (home_slot msk (skey (slots' ! i))) d = nxt"
    proof (cases "i = hole")
      case True
      then have "d < cdist ?c (home_slot msk (skey (slots ! nxt))) nxt"
        using d far nxt cdist_shorter [OF assms(1) home nxt(2,3)] at_hole by fastforce
      then show ?thesis
        using chainedD [OF ok(2) assms(3), of d] True at_hole by auto
    next
      case False
      then show ?thesis
        using chainedD [OF ok(2), of i d] i d keep [of i] assms(2) by auto
    qed
  qed
  show "table_map slots' = table_map slots"
  proof (rule table_map_eqI [OF uniq])
    fix k w
    show "table_map slots k = Some w \<longleftrightarrow>
      (\<exists>i \<in> used_set slots'. skey (slots' ! i) = k \<and> svalue (slots' ! i) = w)"
      unfolding table_map_Some_iff [OF ok(1), of k w] g_image [symmetric] by (auto simp: g_at)
  qed
qed

text \<open>When the loop stops at a free slot, every entry is reachable again.\<close>

lemma hole_closed:
  assumes "hole < length slots" "chained hole msk slots" "ring msk (length slots)" "0 < e" "e < length slots"
    and stop: "cadd (length slots) hole e \<notin> used_set slots"
    and scanned: "\<And>d. 0 < d \<Longrightarrow> d < e \<Longrightarrow> cdist (length slots)
      (home_slot msk (skey (slots ! cadd (length slots) hole d))) (cadd (length slots) hole d) < d"
  shows "chained (length slots) msk slots"
proof (rule chainedI, rule disjI1)
  fix i d
  let ?c = "length slots"
  let ?h = "home_slot msk (skey (slots ! i))"
  assume i: "i \<in> used_set slots" and d: "d < cdist ?c ?h i"
  have h: "?h < ?c" and ic: "i < ?c"
    using assms(3) i by (auto simp: ring_def used_set_def)
  show "cadd ?c ?h d \<in> used_set slots"
  proof (rule ccontr)
    assume free: "cadd ?c ?h d \<notin> used_set slots"
    then have at: "cadd ?c ?h d = hole"
      using chainedD [OF assms(2) i d] by blast
    define f where "f = cdist ?c hole i"
    have i_f: "i = cadd ?c hole f" "f < ?c"
      using cadd_cdist [OF assms(1) ic] cdist_less [OF assms(1) ic] by (auto simp: f_def)
    have dist: "cdist ?c ?h i = d + f" "0 < f"
      using at d h ic assms(1) by (auto simp: f_def cdist_def cadd_def split: if_splits)
    show False
    proof (cases "f < e")
      case True
      then show False
        using scanned [of f] dist i_f by simp
    next
      case False
      have "f \<noteq> e"
        using stop i i_f by auto
      then have "d + e < cdist ?c ?h i"
        using False dist by simp
      moreover have "cadd ?c ?h (d + e) = cadd ?c hole e"
        using at cadd_cadd [of ?h ?c d e] h calculation cdist_less [OF h ic] by simp
      moreover have "cadd ?c hole e \<noteq> hole"
        using assms(1,4,5) by (auto simp: cadd_def)
      ultimately show False
        using chainedD [OF assms(2) i, of "d + e"] stop by auto
    qed
  qed
qed


lemma shift_back_correct:
  assumes "hole < length slots" "hole \<notin> used_set slots" "unique_keys slots" "chained hole msk slots"
    and "ring msk (length slots)" "0 < e" "e + m < length slots"
    and "cadd (length slots) hole (e + m) \<notin> used_set slots"
    and "\<And>d. 0 < d \<Longrightarrow> d < e \<Longrightarrow> cdist (length slots)
      (home_slot msk (skey (slots ! cadd (length slots) hole d))) (cadd (length slots) hole d) < d"
  shows "\<exists>slots'. shift_back slots msk hole (cadd (length slots) hole e) = Some slots' \<and>
    length slots' = length slots \<and> card (used_set slots') = card (used_set slots) \<and>
    unique_keys slots' \<and> chained (length slots) msk slots' \<and> table_map slots' = table_map slots"
  using assms
proof (induction m arbitrary: slots hole e)
  case 0
  then have "chained (length slots) msk slots"
    by (intro hole_closed [of hole slots msk e]) auto
  moreover have "shift_back slots msk hole (cadd (length slots) hole e) = Some slots"
    using "0.prems" cadd_less [of hole "length slots" e] by (subst shift_back.simps) (simp add: used_set_def)
  ultimately show ?case
    using "0.prems" by simp
next
  case (Suc m)
  let ?c = "length slots"
  let ?n = "cadd ?c hole e"
  have nc: "?n < ?c"
    using Suc.prems by (intro cadd_less) auto
  have nn: "next_slot msk ?n = cadd ?c hole (e + 1)" "next_slot msk ?n = cadd ?c ?n 1"
    using Suc.prems nc cadd_cadd [of hole ?c e 1] by (auto simp: ring_def)
  show ?case
  proof (cases "?n \<in> used_set slots")
    case False
    then have "chained ?c msk slots"
      using Suc.prems by (intro hole_closed [of hole slots msk e]) auto
    moreover have "shift_back slots msk hole ?n = Some slots"
      using False nc by (subst shift_back.simps) (simp add: used_set_def)
    ultimately show ?thesis
      using Suc.prems by simp
  next
    case True
    let ?h = "home_slot msk (skey (slots ! ?n))"
    have mv: "movable ?h hole ?n \<longleftrightarrow> e \<le> cdist ?c ?h ?n"
      using Suc.prems by (intro movable_cdist) (auto simp: ring_def)
    show ?thesis
    proof (cases "e \<le> cdist ?c ?h ?n")
      case far: True
      define slots' where "slots' = (slots[hole := slots ! ?n])[?n := (slots ! ?n)\<lparr>used := False\<rparr>]"
      have "?n \<noteq> hole"
        using True Suc.prems(2) by auto
      have "e < ?c"
        using Suc.prems(7) by simp
      note moved = move_slot [OF Suc.prems(1,2) True Suc.prems(3,4,5) refl Suc.prems(6) this far,
          folded slots'_def]
      have len: "length slots' = ?c"
        by (simp add: slots'_def)
      have "shift_back slots msk hole ?n = shift_back slots' msk ?n (cadd ?c ?n 1)"
        using True mv far nc nn(2) Suc.prems(1)
        by (subst shift_back.simps) (simp add: used_set_def slots'_def)
      moreover have "\<exists>s. shift_back slots' msk ?n (cadd (length slots') ?n 1) = Some s \<and>
        length s = length slots' \<and> card (used_set s) = card (used_set slots') \<and>
        unique_keys s \<and> chained (length slots') msk s \<and> table_map s = table_map slots'"
      proof (rule Suc.IH)
        have "cadd ?c ?n (1 + m) = cadd ?c hole (e + Suc m)"
          using Suc.prems(1,7) cadd_cadd [of hole ?c e "1 + m"] by simp
        moreover have "cadd ?c hole (e + Suc m) \<noteq> hole"
          using Suc.prems(1,6,7) by (auto simp: cadd_def)
        ultimately show "cadd (length slots') ?n (1 + m) \<notin> used_set slots'"
          using moved(1) Suc.prems(8) len by simp
      qed (use moved nc len Suc.prems \<open>?n \<noteq> hole\<close> in auto)
      moreover have "card (used_set slots') = card (used_set slots)"
        using moved(1) Suc.prems(2) card_Suc_Diff1 [OF used_set_finite True] by simp
      ultimately show ?thesis
        using moved(4) len by simp
    next
      case False
      then have "shift_back slots msk hole ?n = shift_back slots msk hole (cadd ?c hole (e + 1))"
        using True mv nc nn(1) by (subst shift_back.simps) (simp add: used_set_def)
      moreover have "cdist ?c (home_slot msk (skey (slots ! cadd ?c hole d))) (cadd ?c hole d) < d"
        if "0 < d" "d < e + 1" for d
        using that False Suc.prems(9) [of d] by (cases "d = e") auto
      ultimately show ?thesis
        using Suc.IH [of hole slots "e + 1"] Suc.prems by simp
    qed
  qed
qed


lemma remove_at_correct:
  assumes "oi_invar t" "i \<in> used_set (m_slots t)"
  shows "\<exists>t'. remove_at t i = Some t' \<and> oi_invar t' \<and>
    oi_map t' = (oi_map t)(skey (m_slots t ! i) := None) \<and> m_count t' = m_count t - 1"
proof -
  let ?s = "m_slots t" and ?m = "m_mask t"
  let ?c = "length ?s"
  define slots where "slots = ?s[i := (?s ! i)\<lparr>used := False\<rparr>]"
  have ok: "unique_keys ?s" "chained ?c ?m ?s" "ring ?m ?c" "card (used_set ?s) < ?c"
    using oi_invar_slots [OF assms(1)] by (auto simp: slots_ok_def)
  note cleared = clear_slot [OF assms(2) ok(1-3), folded slots_def]
  have ic: "i < ?c" and len: "length slots = ?c"
    using assms(2) by (auto simp: used_set_def slots_def)
  obtain u where u: "u < ?c" "u \<notin> used_set ?s"
    using ok(4) card_mono [of "used_set ?s" "{..<?c}"] by fastforce
  define m where "m = cdist ?c i u - 1"
  have "u \<noteq> i"
    using u assms(2) by blast
  then have m: "1 + m = cdist ?c i u" "1 + m < ?c"
    using cdist_less [OF ic u(1)] ic u(1) by (auto simp: m_def cdist_def)
  have "i \<notin> used_set slots" and stop: "cadd ?c i (1 + m) \<notin> used_set slots"
    using m(1) cadd_cdist [OF ic u(1)] u(2) cleared(1) by simp_all
  then have "\<exists>s'. shift_back slots ?m i (cadd ?c i 1) = Some s' \<and>
    length s' = ?c \<and> card (used_set s') = card (used_set slots) \<and>
    unique_keys s' \<and> chained ?c ?m s' \<and> table_map s' = table_map slots"
    by (intro shift_back_correct [of i slots ?m 1 m, unfolded len] ic cleared(2,3) ok(3) m(2)) simp_all
  then obtain s' where s': "shift_back slots ?m i (cadd ?c i 1) = Some s'"
    "length s' = ?c" "card (used_set s') = card (used_set slots)"
    "unique_keys s'" "chained ?c ?m s'" "table_map s' = table_map slots"
    by blast
  have "remove_at t i = Some (t\<lparr>m_slots := s', m_count := m_count t - 1\<rparr>)"
    using s'(1) ic ok(3) by (simp add: remove_at_def slots_def [symmetric] ring_def)
  moreover have "oi_invar (t\<lparr>m_slots := s', m_count := m_count t - 1\<rparr>)"
  proof -
    have "card (used_set s') = m_count t - 1"
      using s'(3) cleared(1) assms by (simp add: oi_invar_def)
    moreover have "(m_count t - 1) * 10 < length (m_slots t) * 7"
      using assms(1) unfolding oi_invar_def load_defs by linarith
    ultimately show ?thesis
      using assms(1) s'(2,4,5) unfolding oi_invar_def load_defs by simp
  qed
  ultimately show ?thesis
    using s'(6) cleared(4) by (simp add: oi_map_def)
qed

lemma oi_erase_correct:
  assumes "oi_invar t"
  shows "\<exists>t'. oi_erase t k = Some t' \<and> oi_invar t' \<and> oi_map t' = (oi_map t)(k := None) \<and>
    m_count t' \<le> m_count t"
proof (rule probe_result [OF oi_invar_slots [OF assms], of k])
  fix i assume i: "i \<in> used_set (m_slots t)" "skey (m_slots t ! i) = k"
    "probe (m_slots t) (m_mask t) k (home_slot (m_mask t) k) = Some i"
  then have "oi_erase t k = remove_at t i"
    by (simp add: oi_erase_def used_set_def)
  then show ?thesis
    using remove_at_correct [OF assms i(1)] i(2) by auto
next
  fix n assume n: "\<forall>i \<in> used_set (m_slots t). skey (m_slots t ! i) \<noteq> k"
    "probe (m_slots t) (m_mask t) k (home_slot (m_mask t) k) =
      Some (cadd (length (m_slots t)) (home_slot (m_mask t) k) n)"
    "cadd (length (m_slots t)) (home_slot (m_mask t) k) n < length (m_slots t)"
    "cadd (length (m_slots t)) (home_slot (m_mask t) k) n \<notin> used_set (m_slots t)"
  then have "oi_map t k = None" "oi_erase t k = Some t"
    by (auto simp: oi_map_def table_map_None_iff oi_erase_def used_set_def)
  then show ?thesis
    using assms by (simp add: fun_upd_idem)
qed

section \<open>The public operations\<close>

lemma used_set_Cons: "used_set (s # slots) = (if used s then {0} else {}) \<union> Suc ` used_set slots"
  by (auto simp: used_set_def image_iff less_Suc_eq_0_disj)

lemma unique_keys_Cons:
  "unique_keys (s # slots) \<longleftrightarrow> unique_keys slots \<and> (used s \<longrightarrow> table_map slots (skey s) = None)"
  by (auto simp: unique_keys_def used_set_Cons inj_on_def table_map_None_iff)

lemma table_map_Cons:
  "table_map (s # slots) = (if used s then (table_map slots)(skey s \<mapsto> svalue s) else table_map slots)"
  by (rule ext) (simp add: table_map_def)

lemma table_map_of_rev:
  "unique_keys slots \<Longrightarrow>
    map_of (rev (map (\<lambda>s. (skey s, svalue s)) (List.filter used slots))) = table_map slots"
proof (induction slots)
  case Nil
  then show ?case
    by (simp add: table_map_def fun_eq_iff)
next
  case (Cons s slots)
  then show ?case
    by (auto simp: unique_keys_Cons table_map_Cons map_add_def fun_eq_iff split: option.splits)
qed

lemma used_set_filter: "card (used_set slots) = length (List.filter used slots)"
  by (simp add: used_set_def length_filter_conv_card)

lemma oi_count_dom:
  assumes "oi_invar t"
  shows "m_count t = card (dom (oi_map t))"
proof -
  let ?s = "m_slots t"
  have uniq: "unique_keys ?s"
    using assms by (simp add: oi_invar_def)
  have "dom (oi_map t) = (\<lambda>i. skey (?s ! i)) ` used_set ?s"
    using table_map_Some_iff [OF uniq] by (auto simp: oi_map_def dom_def image_iff)
  then show ?thesis
    using uniq assms by (simp add: card_image unique_keys_def oi_invar_def)
qed

lemma insert_fuel_core: "\<not> over_load t \<Longrightarrow> insert_fuel (Suc fuel) t k v = insert_core t k v"
  by simp

lemma rehash_correct:
  assumes "oi_invar t" "over_load t" "m_count t < 2 ^ 60"
  shows "\<exists>t'. rehash_with (insert_fuel (Suc fuel)) t (length (m_slots t) * 2) = Some t' \<and>
    oi_invar t' \<and> oi_map t' = oi_map t \<and> m_count t' = m_count t \<and> \<not> over_load t'"
proof -
  obtain n where n: "length (m_slots t) = 2 ^ n" "0 < n" "n < 64"
    using assms(1) by (auto simp: oi_invar_def)
  have "(2 :: nat) ^ n < 2 ^ 62"
    using assms(2,3) n(1) by (simp add: over_load_def load_defs)
  then have "n < 62"
    by (rule power_less_imp_less_exp [rotated]) simp
  then have fresh: "oi_invar (fresh (length (m_slots t) * 2))" "oi_map (fresh (length (m_slots t) * 2)) = Map.empty"
    using oi_invar_fresh [of "Suc n"] n(1) by (simp_all add: mult.commute)
  let ?old = "m_slots t"
  have flen: "length (m_slots (fresh (length ?old * 2))) = length ?old * 2"
    by (simp add: fresh_def)
  have load: "m_count t * 10 < length ?old * 7" "m_count t = length (List.filter used ?old)"
    "length ?old \<noteq> 1"
    using assms(1) n(1,2) unfolding oi_invar_def load_defs used_set_filter by auto
  have pre: "m_count (fresh (length ?old * 2)) + length (List.filter used ?old) < m_count t + 1"
    "(m_count t + 1) * LOAD_FACTOR_DEN \<le> length (m_slots (fresh (length ?old * 2))) * LOAD_FACTOR_NUM"
    using load by (auto simp: fresh_def load_defs)
  obtain t' where t': "reinsert (insert_fuel (Suc fuel)) ?old (fresh (length ?old * 2)) = Some t'"
    "oi_invar t'" "length (m_slots t') = length ?old * 2"
    "oi_map t' = map_of (rev (map (\<lambda>s. (skey s, svalue s)) (List.filter used ?old)))"
    using reinsert_correct [of "insert_fuel (Suc fuel)", OF insert_fuel_core fresh(1) pre] fresh(2) flen
    by (auto simp del: insert_fuel.simps)
  have "oi_map t' = oi_map t"
    using t'(4) table_map_of_rev assms(1) by (simp add: oi_map_def oi_invar_def)
  moreover have "m_count t' = m_count t"
    using calculation oi_count_dom assms(1) t'(2) by simp
  ultimately show ?thesis
    using t'(1-3) load by (simp add: rehash_with_def over_load_def load_defs del: insert_fuel.simps)
qed


lemma oi_insert_correct:
  assumes "oi_invar t" "m_count t < 2 ^ 60"
  shows "\<exists>t'. oi_insert t k v = Some t' \<and> oi_invar t' \<and> oi_map t' = (oi_map t)(k \<mapsto> v) \<and>
    m_count t' \<le> m_count t + 1"
proof (cases "over_load t")
  case True
  then obtain t1 where "rehash_with (insert_fuel (Suc (m_count t))) t (length (m_slots t) * 2) = Some t1"
    "oi_invar t1" "oi_map t1 = oi_map t" "m_count t1 = m_count t" "\<not> over_load t1"
    using rehash_correct [OF assms(1) _ assms(2)] by blast
  then show ?thesis
    using True insert_core_correct [of t1 k v] insert_core_count [of t1 k v]
    by (auto simp: oi_insert_def)
next
  case False
  then show ?thesis
    using assms(1) insert_core_correct [of t k v] insert_core_count [of t k v] by (auto simp: oi_insert_def)
qed

lemma oi_new_correct: "oi_invar OrderIndex_new" "oi_map OrderIndex_new = Map.empty"
  using oi_invar_fresh [of 10] by (simp_all add: OrderIndex_new_def INITIAL_CAPACITY_def)

lemma oi_clear_correct:
  assumes "oi_invar t"
  shows "oi_invar (oi_clear t)" "oi_map (oi_clear t) = Map.empty"
proof -
  have none: "used_set (map (\<lambda>s. s\<lparr>used := False\<rparr>) (m_slots t)) = {}"
    by (auto simp: used_set_def)
  show "oi_invar (oi_clear t)"
    using assms unfolding oi_clear_def oi_invar_def load_defs
    by (auto simp: none unique_keys_def chained_def)
  show "oi_map (oi_clear t) = Map.empty"
    by (rule ext) (simp add: oi_map_def oi_clear_def table_map_None_iff none)
qed


section \<open>The contract of the index\<close>

text \<open>
  What the order book relies on: a partial map with lookup, insertion, removal and clearing.
  \<open>limit\<close> is the number of keys up to which insertion is promised.
\<close>

datatype ('k, 'v) IndexOp = Put 'k 'v | Drop 'k | Clear

fun map_step :: "('k, 'v) IndexOp \<Rightarrow> ('k \<Rightarrow> 'v option) \<Rightarrow> 'k \<Rightarrow> 'v option" where
  "map_step (Put k v) m = m(k \<mapsto> v)"
| "map_step (Drop k) m = m(k := None)"
| "map_step Clear m = Map.empty"

fun index_step ::
  "('t \<Rightarrow> 'k \<Rightarrow> 'v \<Rightarrow> 't option) \<Rightarrow> ('t \<Rightarrow> 'k \<Rightarrow> 't option) \<Rightarrow> ('t \<Rightarrow> 't) \<Rightarrow> ('k, 'v) IndexOp \<Rightarrow>
    't \<Rightarrow> 't option" where
  "index_step put drp clr (Put k v) t = put t k v"
| "index_step put drp clr (Drop k) t = drp t k"
| "index_step put drp clr Clear t = Some (clr t)"

locale reference_index =
  fixes look :: "'t \<Rightarrow> 'k \<Rightarrow> 'v option" and put :: "'t \<Rightarrow> 'k \<Rightarrow> 'v \<Rightarrow> 't option"
    and drp :: "'t \<Rightarrow> 'k \<Rightarrow> 't option" and clr :: "'t \<Rightarrow> 't" and new :: 't
    and npos :: 'v and invar :: "'t \<Rightarrow> bool" and abs :: "'t \<Rightarrow> 'k \<Rightarrow> 'v option" and limit :: nat
  assumes new_ok: "invar new" "abs new = Map.empty"
    and look_ok: "invar t \<Longrightarrow> look t k = Some (case abs t k of None \<Rightarrow> npos | Some v \<Rightarrow> v)"
    and put_ok: "invar t \<Longrightarrow> card (dom (abs t)) < limit \<Longrightarrow>
      \<exists>t'. put t k v = Some t' \<and> invar t' \<and> abs t' = (abs t)(k \<mapsto> v)"
    and drp_ok: "invar t \<Longrightarrow> \<exists>t'. drp t k = Some t' \<and> invar t' \<and> abs t' = (abs t)(k := None)"
    and clr_ok: "invar t \<Longrightarrow> invar (clr t)" "invar t \<Longrightarrow> abs (clr t) = Map.empty"
    and finite_ok: "invar t \<Longrightarrow> finite (dom (abs t))"
begin

lemma step_refines:
  assumes "invar t" "card (dom (abs t)) < limit"
  shows "\<exists>t'. index_step put drp clr op t = Some t' \<and> invar t' \<and> abs t' = map_step op (abs t)"
  using put_ok [OF assms] drp_ok [OF assms(1)] clr_ok [OF assms(1)] by (cases op) auto

end

lemma map_step_grows: "card (dom (map_step op m)) \<le> card (dom m) + 1"
proof (cases op)
  case (Put k v)
  then show ?thesis
    by (cases "finite (dom m)") (auto simp: card_insert_if)
next
  case (Drop k)
  then show ?thesis
    by (cases "finite (dom m)") (auto simp: card_Diff_singleton_if)
qed simp

sublocale reference_index \<subseteq> sim: bounded_simulation "index_step put drp clr" map_step
  "\<lambda>t m. invar t \<and> abs t = m" "\<lambda>m. card (dom m)" limit
proof
  show "\<exists>t'. index_step put drp clr op t = Some t' \<and> invar t' \<and> abs t' = map_step op m"
    if "invar t \<and> abs t = m" "card (dom m) < limit" for t m op
    using step_refines [of t op] that by auto
qed (rule map_step_grows)

context reference_index
begin

lemma run_new:
  assumes "length ops \<le> limit"
  shows "\<exists>t. run_steps (index_step put drp clr) ops new = Some t \<and> invar t \<and>
    abs t = fold map_step ops Map.empty \<and>
    (\<forall>k. look t k = Some (case fold map_step ops Map.empty k of None \<Rightarrow> npos | Some v \<Rightarrow> v))"
proof -
  obtain t where "run_steps (index_step put drp clr) ops new = Some t" "invar t" "abs t = fold map_step ops Map.empty"
    using sim.run_sim [of new Map.empty ops] new_ok assms by auto
  then show ?thesis
    using look_ok [of t] by simp
qed

end

interpretation oi: reference_index oi_find oi_insert oi_erase oi_clear OrderIndex_new NPOS oi_invar oi_map "2 ^ 60"
proof unfold_locales
  fix t and k :: u64 and v :: u32
  assume t: "oi_invar t"
  show "oi_find t k = Some (case oi_map t k of None \<Rightarrow> NPOS | Some v \<Rightarrow> v)"
    using t by (rule oi_find_map)
  show "\<exists>t'. oi_insert t k v = Some t' \<and> oi_invar t' \<and> oi_map t' = (oi_map t)(k \<mapsto> v)"
    if "card (dom (oi_map t)) < 2 ^ 60"
    using oi_insert_correct [OF t, of k v] that oi_count_dom [OF t] by auto
  show "\<exists>t'. oi_erase t k = Some t' \<and> oi_invar t' \<and> oi_map t' = (oi_map t)(k := None)"
    using oi_erase_correct [OF t, of k] by blast
  show "finite (dom (oi_map t))"
    by (rule finite)
qed (simp_all add: oi_new_correct oi_clear_correct)

section \<open>Properties\<close>

definition index_history :: "(u64, u32) IndexOp list \<Rightarrow> OrderIndex option" where
  "index_history ops = run_steps (index_step oi_insert oi_erase oi_clear) ops OrderIndex_new"

text \<open>
  C7. Any history of insertions, removals and clears of at most 2^60 steps runs to its end
  (no probe loops forever, no access leaves the table, whatever table growth happens on the way),
  and the resulting table answers every lookup as the finite map of the same history does:
  the stored value for a present key, \<open>NPOS\<close> for an absent one; its size is the number of
  keys of that map.
\<close>

theorem order_index_refines_map:
  assumes "length ops \<le> 2 ^ 60"
  shows "\<exists>t. index_history ops = Some t \<and> m_count t = card (dom (fold map_step ops Map.empty)) \<and>
    (\<forall>k. oi_find t k = Some (case fold map_step ops Map.empty k of None \<Rightarrow> NPOS | Some v \<Rightarrow> v))"
  using oi.run_new [OF assms] oi_count_dom unfolding index_history_def by metis

theorem order_index_refines_map_witness:
  "length [Put 5 7, Put 9 1, Drop (5 :: u64)] \<le> 2 ^ 60 \<and>
   (\<exists>t. index_history [Put 5 7, Put 9 1, Drop 5] = Some t \<and> m_count t = 1 \<and>
     oi_find t 9 = Some 1 \<and> oi_find t 5 = Some NPOS)"
  using order_index_refines_map [of "[Put 5 7, Put 9 1, Drop 5]"] by (auto simp: card_insert_if)

text \<open>
  Backward-shift deletion: \<^verbatim>\<open>erase\<close> on a well-formed table always ends, keeps the table
  well-formed (every remaining key still reachable from its home slot, so that no lookup is cut
  short by the gap), removes exactly the given key and decrements the size exactly when the key
  was present.
\<close>

theorem order_index_erase:
  assumes "oi_invar t"
  shows "\<exists>t'. oi_erase t k = Some t' \<and> oi_invar t' \<and> oi_map t' = (oi_map t)(k := None) \<and>
    m_count t' = (if oi_map t k = None then m_count t else m_count t - 1)"
proof -
  obtain t' where t': "oi_erase t k = Some t'" "oi_invar t'" "oi_map t' = (oi_map t)(k := None)"
    using oi.drp_ok [OF assms] by blast
  have "m_count t' = (if oi_map t k = None then m_count t else m_count t - 1)"
    using oi_count_dom [OF t'(2)] oi_count_dom [OF assms] oi.finite_ok [OF assms] t'(3)
    by (auto simp: card_Diff_singleton_if)
  with t' show ?thesis
    by blast
qed

theorem order_index_erase_witness:
  "\<exists>t. index_history [Put 3 4, Put 8 1] = Some t \<and> oi_invar t \<and>
    (\<exists>t'. oi_erase t 3 = Some t' \<and> oi_map t' = [8 \<mapsto> 1] \<and> m_count t' = 1)"
proof -
  obtain t where t: "index_history [Put 3 4, Put 8 1] = Some t" "oi_invar t" "oi_map t = [3 \<mapsto> 4, 8 \<mapsto> 1]"
    using oi.run_new [of "[Put 3 4, Put 8 1]"] unfolding index_history_def by auto
  have gone: "[3 \<mapsto> 4, 8 \<mapsto> 1 :: u32](3 :: u64 := None) = [8 \<mapsto> 1]"
    by (rule ext) simp
  obtain t' where t': "oi_erase t 3 = Some t'" "oi_invar t'" "oi_map t' = [8 \<mapsto> 1]"
    using order_index_erase [OF t(2), of 3] unfolding t(3) gone by blast
  then show ?thesis
    using t oi_count_dom [OF t'(2)] by simp
qed

end
