(* ===== verification/L3_Book.thy ===== *)
theory L3_Book
  imports Order_Index
begin

text \<open>
  \<^verbatim>\<open>L3Book\<close> of \<^verbatim>\<open>include/itch/book/l3_book.hpp\<close> and \<^verbatim>\<open>src/book/l3_book.cpp\<close>: one security's order
  book. Orders live in a pool (a vector with a free list threaded through \<^verbatim>\<open>next\<close>), every price
  level is a doubly linked FIFO through the pool, and each side is a sorted vector of levels.
  Pool and level indices are 32-bit; \<open>None\<close> is an access outside a vector or a loop that never
  ends. The theory holds the model only; \<open>L3_Refinement\<close> proves it correct.
\<close>

datatype Side = Buy | Sell

definition char_of_side :: "Side \<Rightarrow> char" where
  "char_of_side s = (case s of Buy \<Rightarrow> CHR ''B'' | Sell \<Rightarrow> CHR ''S'')"

definition NIL :: u32 where
  "NIL = 0xFFFFFFFF"

record DepthLevel =
  depth_price :: u32
  depth_shares :: u64
  depth_order_count :: u32

record OrderView =
  view_reference_number :: u64
  view_shares :: u32
  view_price :: u32

record Bbo =
  has_bid :: bool
  has_ask :: bool
  bid_price :: u32
  bid_shares :: u64
  ask_price :: u32
  ask_shares :: u64

definition blank_bbo :: Bbo where
  "blank_bbo = \<lparr>has_bid = False, has_ask = False, bid_price = 0, bid_shares = 0, ask_price = 0, ask_shares = 0\<rparr>"

record OrderNode =
  reference_number :: u64
  shares :: u32
  price :: u32
  side :: Side
  next_node :: u32
  prev_node :: u32

definition blank_node :: OrderNode where
  "blank_node = \<lparr>reference_number = 0, shares = 0, price = 0, side = Buy, next_node = NIL, prev_node = NIL\<rparr>"

record Level =
  level_price :: u32
  total_shares :: u64
  order_count :: u32
  head :: u32
  tail :: u32

definition blank_level :: Level where
  "blank_level = \<lparr>level_price = 0, total_shares = 0, order_count = 0, head = NIL, tail = NIL\<rparr>"

record L3Book =
  m_symbol :: string
  m_pool :: "OrderNode list"
  m_free_head :: u32
  m_bids :: "Level list"
  m_asks :: "Level list"
  m_index :: OrderIndex

definition L3Book_new :: "string \<Rightarrow> L3Book" where
  "L3Book_new symbol =
     \<lparr>m_symbol = symbol, m_pool = [], m_free_head = NIL, m_bids = [], m_asks = [], m_index = OrderIndex_new\<rparr>"

definition set_symbol :: "L3Book \<Rightarrow> string \<Rightarrow> L3Book" where
  "set_symbol b symbol = b\<lparr>m_symbol := symbol\<rparr>"

definition side_levels :: "L3Book \<Rightarrow> Side \<Rightarrow> Level list" where
  "side_levels b s = (case s of Buy \<Rightarrow> m_bids b | Sell \<Rightarrow> m_asks b)"

definition set_side_levels :: "L3Book \<Rightarrow> Side \<Rightarrow> Level list \<Rightarrow> L3Book" where
  "set_side_levels b s ls = (case s of Buy \<Rightarrow> b\<lparr>m_bids := ls\<rparr> | Sell \<Rightarrow> b\<lparr>m_asks := ls\<rparr>)"

text \<open>Writes through the references \<^verbatim>\<open>m_pool[index]\<close> and \<^verbatim>\<open>side_levels(side)[index]\<close>.\<close>

definition upd_node :: "L3Book \<Rightarrow> u32 \<Rightarrow> (OrderNode \<Rightarrow> OrderNode) \<Rightarrow> L3Book option" where
  "upd_node b i f = do {
     n \<leftarrow> vec_at (m_pool b) (unat i);
     pool \<leftarrow> vec_set (m_pool b) (unat i) (f n);
     Some (b\<lparr>m_pool := pool\<rparr>) }"

definition upd_level :: "L3Book \<Rightarrow> Side \<Rightarrow> u32 \<Rightarrow> (Level \<Rightarrow> Level) \<Rightarrow> L3Book option" where
  "upd_level b s i f = do {
     l \<leftarrow> vec_at (side_levels b s) (unat i);
     ls \<leftarrow> vec_set (side_levels b s) (unat i) (f l);
     Some (set_side_levels b s ls) }"

definition allocate_node :: "L3Book \<Rightarrow> (u32 \<times> L3Book) option" where
  "allocate_node b =
     (if m_free_head b \<noteq> NIL then do {
        let index = m_free_head b;
        n \<leftarrow> vec_at (m_pool b) (unat index);
        pool \<leftarrow> vec_set (m_pool b) (unat index) blank_node;
        Some (index, b\<lparr>m_free_head := next_node n, m_pool := pool\<rparr>) }
      else
        let pool = m_pool b @ [blank_node]
        in Some (of_nat (length pool - 1), b\<lparr>m_pool := pool\<rparr>))"

definition free_node :: "L3Book \<Rightarrow> u32 \<Rightarrow> L3Book option" where
  "free_node b node_index = do {
     b \<leftarrow> upd_node b node_index (\<lambda>_. blank_node);
     b \<leftarrow> upd_node b node_index (\<lambda>n. n\<lparr>next_node := m_free_head b\<rparr>);
     Some (b\<lparr>m_free_head := node_index\<rparr>) }"

text \<open>
  \<^verbatim>\<open>std::lower_bound\<close>: bisection of the range that starts at \<open>first\<close> and has \<open>len\<close> elements,
  for a predicate that holds on a prefix.
\<close>

function lower_bound :: "('a \<Rightarrow> bool) \<Rightarrow> 'a list \<Rightarrow> nat \<Rightarrow> nat \<Rightarrow> nat" where
  "lower_bound before xs first len =
     (if len = 0 then first
      else let half = len div 2; mid = first + half
           in if before (xs ! mid) then lower_bound before xs (mid + 1) (len - half - 1)
              else lower_bound before xs first half)"
  by pat_completeness auto
termination
  by (relation "measure (\<lambda>(_, _, _, len). len)") auto

declare lower_bound.simps [simp del]

definition before_price :: "Side \<Rightarrow> u32 \<Rightarrow> Level \<Rightarrow> bool" where
  "before_price s value l = (case s of Buy \<Rightarrow> level_price l > value | Sell \<Rightarrow> level_price l < value)"

definition level_position :: "L3Book \<Rightarrow> Side \<Rightarrow> u32 \<Rightarrow> nat" where
  "level_position b s p = lower_bound (before_price s p) (side_levels b s) 0 (length (side_levels b s))"

definition find_level :: "L3Book \<Rightarrow> Side \<Rightarrow> u32 \<Rightarrow> u32" where
  "find_level b s p =
     (let iter = level_position b s p
      in if iter \<noteq> length (side_levels b s) \<and> level_price (side_levels b s ! iter) = p
         then of_nat iter else NIL)"

definition find_or_create_level :: "L3Book \<Rightarrow> Side \<Rightarrow> u32 \<Rightarrow> u32 \<times> L3Book" where
  "find_or_create_level b s p =
     (let levels = side_levels b s; position = level_position b s p
      in if position \<noteq> length levels \<and> level_price (levels ! position) = p
         then (of_nat position, b)
         else (of_nat position,
               set_side_levels b s (take position levels @ blank_level\<lparr>level_price := p\<rparr> # drop position levels)))"

definition add_order :: "L3Book \<Rightarrow> u64 \<Rightarrow> Side \<Rightarrow> u32 \<Rightarrow> u32 \<Rightarrow> L3Book option" where
  "add_order b r s sh p = do {
     found \<leftarrow> oi_find (m_index b) r;
     if found \<noteq> NPOS then Some b
     else do {
       (node_index, b) \<leftarrow> allocate_node b;
       b \<leftarrow> upd_node b node_index (\<lambda>n. n\<lparr>reference_number := r, shares := sh, price := p, side := s\<rparr>);
       let (level_index, b) = find_or_create_level b s p;
       level \<leftarrow> vec_at (side_levels b s) (unat level_index);
       b \<leftarrow> upd_node b node_index (\<lambda>n. n\<lparr>prev_node := tail level, next_node := NIL\<rparr>);
       b \<leftarrow> (if tail level \<noteq> NIL
             then upd_node b (tail level) (\<lambda>n. n\<lparr>next_node := node_index\<rparr>)
             else upd_level b s level_index (\<lambda>l. l\<lparr>head := node_index\<rparr>));
       b \<leftarrow> upd_level b s level_index (\<lambda>l. l\<lparr>tail := node_index,
              total_shares := total_shares l + ucast sh, order_count := order_count l + 1\<rparr>);
       index \<leftarrow> oi_insert (m_index b) r node_index;
       Some (b\<lparr>m_index := index\<rparr>) } }"

definition erase_level :: "L3Book \<Rightarrow> Side \<Rightarrow> u32 \<Rightarrow> L3Book" where
  "erase_level b s i =
     set_side_levels b s (take (unat i) (side_levels b s) @ drop (unat i + 1) (side_levels b s))"

definition unlink_node :: "L3Book \<Rightarrow> u32 \<Rightarrow> L3Book option" where
  "unlink_node b node_index = do {
     node \<leftarrow> vec_at (m_pool b) (unat node_index);
     let s = side node;
     let level_index = find_level b s (price node);
     if level_index = NIL then Some b
     else do {
       b \<leftarrow> (if prev_node node \<noteq> NIL
             then upd_node b (prev_node node) (\<lambda>n. n\<lparr>next_node := next_node node\<rparr>)
             else upd_level b s level_index (\<lambda>l. l\<lparr>head := next_node node\<rparr>));
       node \<leftarrow> vec_at (m_pool b) (unat node_index);
       b \<leftarrow> (if next_node node \<noteq> NIL
             then upd_node b (next_node node) (\<lambda>n. n\<lparr>prev_node := prev_node node\<rparr>)
             else upd_level b s level_index (\<lambda>l. l\<lparr>tail := prev_node node\<rparr>));
       node \<leftarrow> vec_at (m_pool b) (unat node_index);
       b \<leftarrow> upd_level b s level_index (\<lambda>l. l\<lparr>total_shares := total_shares l - ucast (shares node),
              order_count := order_count l - 1\<rparr>);
       level \<leftarrow> vec_at (side_levels b s) (unat level_index);
       Some (if order_count level = 0 then erase_level b s level_index else b) } }"

definition execute_order :: "L3Book \<Rightarrow> u64 \<Rightarrow> u32 \<Rightarrow> (u32 \<times> L3Book) option" where
  "execute_order b r sh = do {
     node_index \<leftarrow> oi_find (m_index b) r;
     if node_index = NPOS then Some (0, b)
     else do {
       node \<leftarrow> vec_at (m_pool b) (unat node_index);
       let removed = min sh (shares node);
       if removed = shares node
       then do {
         b \<leftarrow> unlink_node b node_index;
         b \<leftarrow> free_node b node_index;
         index \<leftarrow> oi_erase (m_index b) r;
         Some (removed, b\<lparr>m_index := index\<rparr>) }
       else do {
         b \<leftarrow> upd_node b node_index (\<lambda>n. n\<lparr>shares := shares n - removed\<rparr>);
         let level_index = find_level b (side node) (price node);
         b \<leftarrow> (if level_index \<noteq> NIL
               then upd_level b (side node) level_index
                      (\<lambda>l. l\<lparr>total_shares := total_shares l - ucast removed\<rparr>)
               else Some b);
         Some (removed, b) } } }"

definition reduce_order :: "L3Book \<Rightarrow> u64 \<Rightarrow> u32 \<Rightarrow> (u32 \<times> L3Book) option" where
  "reduce_order b r sh = execute_order b r sh"

definition delete_order :: "L3Book \<Rightarrow> u64 \<Rightarrow> L3Book option" where
  "delete_order b r = do {
     node_index \<leftarrow> oi_find (m_index b) r;
     if node_index = NPOS then Some b
     else do {
       b \<leftarrow> unlink_node b node_index;
       b \<leftarrow> free_node b node_index;
       index \<leftarrow> oi_erase (m_index b) r;
       Some (b\<lparr>m_index := index\<rparr>) } }"

definition replace_order :: "L3Book \<Rightarrow> u64 \<Rightarrow> u64 \<Rightarrow> u32 \<Rightarrow> u32 \<Rightarrow> L3Book option" where
  "replace_order b old_r new_r sh p = do {
     node_index \<leftarrow> oi_find (m_index b) old_r;
     if node_index = NPOS then Some b
     else do {
       node \<leftarrow> vec_at (m_pool b) (unat node_index);
       b \<leftarrow> delete_order b old_r;
       add_order b new_r (side node) sh p } }"

definition contains :: "L3Book \<Rightarrow> u64 \<Rightarrow> bool option" where
  "contains b r = oi_contains (m_index b) r"

text \<open>\<^verbatim>\<open>std::nullopt\<close> is the inner \<open>None\<close>.\<close>

definition order_price :: "L3Book \<Rightarrow> u64 \<Rightarrow> u32 option option" where
  "order_price b r = do {
     node_index \<leftarrow> oi_find (m_index b) r;
     if node_index = NPOS then Some None
     else do { node \<leftarrow> vec_at (m_pool b) (unat node_index); Some (Some (price node)) } }"

definition order_side :: "L3Book \<Rightarrow> u64 \<Rightarrow> Side option option" where
  "order_side b r = do {
     node_index \<leftarrow> oi_find (m_index b) r;
     if node_index = NPOS then Some None
     else do { node \<leftarrow> vec_at (m_pool b) (unat node_index); Some (Some (side node)) } }"

definition bbo :: "L3Book \<Rightarrow> Bbo" where
  "bbo b =
     (let result = blank_bbo;
          result = (case m_bids b of [] \<Rightarrow> result
            | l # _ \<Rightarrow> result\<lparr>has_bid := True, bid_price := level_price l, bid_shares := total_shares l\<rparr>)
      in case m_asks b of [] \<Rightarrow> result
         | l # _ \<Rightarrow> result\<lparr>has_ask := True, ask_price := level_price l, ask_shares := total_shares l\<rparr>)"

definition depth :: "L3Book \<Rightarrow> Side \<Rightarrow> nat \<Rightarrow> DepthLevel list" where
  "depth b s max_levels =
     (let levels = side_levels b s;
          count = (if max_levels = 0 then length levels else min max_levels (length levels))
      in map (\<lambda>l. \<lparr>depth_price = level_price l, depth_shares = total_shares l,
                   depth_order_count = order_count l\<rparr>) (take count levels))"

partial_function (option) walk_level :: "OrderNode list \<Rightarrow> u32 \<Rightarrow> OrderView list option" where
  "walk_level pool node_index =
     (if node_index = NIL then Some []
      else do {
        node \<leftarrow> vec_at pool (unat node_index);
        rest \<leftarrow> walk_level pool (next_node node);
        Some (\<lparr>view_reference_number = reference_number node, view_shares = shares node,
               view_price = price node\<rparr> # rest) })"

definition orders_at :: "L3Book \<Rightarrow> Side \<Rightarrow> u32 \<Rightarrow> OrderView list option" where
  "orders_at b s p =
     (let level_index = find_level b s p
      in if level_index = NIL then Some []
         else do {
           level \<leftarrow> vec_at (side_levels b s) (unat level_index);
           walk_level (m_pool b) (head level) })"

definition level_count :: "L3Book \<Rightarrow> Side \<Rightarrow> nat" where
  "level_count b s = length (side_levels b s)"

definition book_empty :: "L3Book \<Rightarrow> bool" where
  "book_empty b = oi_empty (m_index b)"

end
