(* ===== verification/L3_Refinement.thy ===== *)
theory L3_Refinement
  imports L3_Book
begin

text \<open>
  The order book of \<open>L3_Book\<close> implements a list of resting orders in arrival order. The theory
  states that abstract book, the representation relation (free list, doubly linked level queues,
  sorted ladders, index), and proves that every operation simulates its abstract counterpart and
  that every query answers from the abstract book.
\<close>

section \<open>Indices of the pool\<close>

lemma unat_of_nat_32: "i < 2 ^ 32 \<Longrightarrow> unat (of_nat i :: u32) = i"
  by (simp add: unat_of_nat take_bit_nat_eq_self)

lemma unat_NIL: "unat NIL = 2 ^ 32 - 1"
  by (simp add: NIL_def)

lemma of_nat_neq_NIL: "i < 2 ^ 32 - 1 \<Longrightarrow> (of_nat i :: u32) \<noteq> NIL"
  using unat_of_nat_32 [of i] unat_NIL by (metis less_irrefl less_trans diff_less zero_less_numeral zero_less_power zero_less_one)

lemma of_nat_32_inj: "i < 2 ^ 32 \<Longrightarrow> j < 2 ^ 32 \<Longrightarrow> (of_nat i :: u32) = of_nat j \<longleftrightarrow> i = j"
  using unat_of_nat_32 [of i] unat_of_nat_32 [of j] by metis

section \<open>Doubly linked queues\<close>

definition first_of :: "nat list \<Rightarrow> u32 \<Rightarrow> u32" where
  "first_of q nx = (case q of [] \<Rightarrow> nx | i # _ \<Rightarrow> of_nat i)"

definition last_of :: "u32 \<Rightarrow> nat list \<Rightarrow> u32" where
  "last_of pr q = (if q = [] then pr else of_nat (last q))"

lemma first_of_simps [simp]: "first_of [] nx = nx" "first_of (i # q) nx = of_nat i"
  by (simp_all add: first_of_def)

lemma last_of_simps [simp]:
  "last_of pr [] = pr" "last_of pr (i # q) = last_of (of_nat i) q" "last_of pr (q @ [i]) = of_nat i"
  by (simp_all add: last_of_def)

text \<open>A segment of linked nodes, entered from \<open>pr\<close> and left to \<open>nx\<close>.\<close>

fun dll :: "OrderNode list \<Rightarrow> u32 \<Rightarrow> nat list \<Rightarrow> u32 \<Rightarrow> bool" where
  "dll pool pr [] nx \<longleftrightarrow> True"
| "dll pool pr (i # q) nx \<longleftrightarrow>
     prev_node (pool ! i) = pr \<and> next_node (pool ! i) = first_of q nx \<and> dll pool (of_nat i) q nx"

lemma first_of_append: "first_of (q @ r) nx = first_of q (first_of r nx)"
  by (cases q) simp_all

lemma dll_append:
  "dll pool pr (q @ r) nx \<longleftrightarrow> dll pool pr q (first_of r nx) \<and> dll pool (last_of pr q) r nx"
  by (induction q arbitrary: pr) (auto simp: first_of_append)

lemma dll_cong:
  assumes "\<And>i. i \<in> set q \<Longrightarrow> prev_node (pool' ! i) = prev_node (pool ! i) \<and> next_node (pool' ! i) = next_node (pool ! i)"
  shows "dll pool' pr q nx = dll pool pr q nx"
  using assms by (induction q arbitrary: pr) auto

lemma dll_frame: "i \<notin> set q \<Longrightarrow> dll (pool[i := n]) pr q nx = dll pool pr q nx"
  by (rule dll_cong) (metis nth_list_update_neq)

text \<open>Redirecting the outer links of a segment.\<close>

lemma dll_set_next:
  assumes "dll pool pr (q @ [i]) nx" "i \<notin> set q" "i < length pool"
  shows "dll (pool[i := (pool ! i)\<lparr>next_node := nx'\<rparr>]) pr (q @ [i]) nx'"
  using assms by (simp add: dll_append dll_frame)

lemma dll_set_prev:
  assumes "dll pool pr (i # q) nx" "i \<notin> set q" "i < length pool"
  shows "dll (pool[i := (pool ! i)\<lparr>prev_node := pr'\<rparr>]) pr' (i # q) nx"
  using assms by (simp add: dll_frame)

section \<open>The free list\<close>

fun free_list :: "OrderNode list \<Rightarrow> u32 \<Rightarrow> nat list \<Rightarrow> bool" where
  "free_list pool h [] \<longleftrightarrow> h = NIL"
| "free_list pool h (i # fs) \<longleftrightarrow> h = of_nat i \<and> free_list pool (next_node (pool ! i)) fs"

lemma free_list_cong:
  assumes "\<And>i. i \<in> set fs \<Longrightarrow> next_node (pool' ! i) = next_node (pool ! i)"
  shows "free_list pool' h fs = free_list pool h fs"
  using assms by (induction fs arbitrary: h) auto

section \<open>Sorted ladders and the binary search\<close>

definition better :: "Side \<Rightarrow> u32 \<Rightarrow> u32 \<Rightarrow> bool" where
  "better s p q = (case s of Buy \<Rightarrow> p > q | Sell \<Rightarrow> p < q)"

lemma better_irrefl [simp]: "\<not> better s p p"
  by (simp add: better_def split: Side.split)

lemma better_trans: "better s p q \<Longrightarrow> better s q r \<Longrightarrow> better s p r"
  by (auto simp: better_def split: Side.splits)

lemma better_total: "p \<noteq> q \<Longrightarrow> better s p q \<or> better s q p"
  by (auto simp: better_def split: Side.splits)

lemma lower_bound_split:
  assumes "first + len \<le> length xs" "\<forall>i<first. before (xs ! i)"
    and "\<forall>i. first + len \<le> i \<and> i < length xs \<longrightarrow> \<not> before (xs ! i)"
    and "\<forall>i j. i < j \<and> j < length xs \<and> before (xs ! j) \<longrightarrow> before (xs ! i)"
  shows "lower_bound before xs first len \<le> length xs \<and>
    (\<forall>i<lower_bound before xs first len. before (xs ! i)) \<and>
    (\<forall>i. lower_bound before xs first len \<le> i \<and> i < length xs \<longrightarrow> \<not> before (xs ! i))"
  using assms
proof (induction before xs first len rule: lower_bound.induct)
  case (1 before xs first len)
  show ?case
  proof (cases "len = 0")
    case True
    then show ?thesis
      using "1.prems" by (subst (1 2 3) lower_bound.simps) auto
  next
    case False
    let ?half = "len div 2"
    let ?mid = "first + ?half"
    have mid: "?mid < length xs" "?half < len"
      using False "1.prems"(1) by auto
    show ?thesis
    proof (cases "before (xs ! ?mid)")
      case True
      then have "\<forall>i<?mid + 1. before (xs ! i)"
        using "1.prems"(4) mid(1) by (auto simp: less_Suc_eq)
      moreover have eq: "lower_bound before xs first len = lower_bound before xs (?mid + 1) (len - ?half - 1)"
        using False True by (subst lower_bound.simps) (simp add: Let_def)
      moreover have sum: "?mid + 1 + (len - ?half - 1) = first + len"
        using mid(2) by simp
      ultimately show ?thesis
        unfolding eq by (intro "1.IH"(1) [OF False refl refl True, unfolded sum] "1.prems")
    next
      case no: False
      then have "\<forall>i. ?mid \<le> i \<and> i < length xs \<longrightarrow> \<not> before (xs ! i)"
        using "1.prems"(4) mid(1) by (auto simp: le_less)
      moreover have eq: "lower_bound before xs first len = lower_bound before xs first ?half"
        using False no by (subst lower_bound.simps) (simp add: Let_def)
      ultimately show ?thesis
        unfolding eq by (intro "1.IH"(2) [OF False refl refl no] "1.prems"(2,4) less_imp_le mid(1))
    qed
  qed
qed

definition position :: "Side \<Rightarrow> u32 \<Rightarrow> u32 list \<Rightarrow> nat" where
  "position s p ps = length (takeWhile (\<lambda>q. better s q p) ps)"

lemma lower_bound_position:
  assumes "sorted_wrt (better s) ps" "map level_price levels = ps"
  shows "lower_bound (before_price s p) levels 0 (length levels) = position s p ps"
proof -
  let ?k = "lower_bound (before_price s p) levels 0 (length levels)"
  have len: "length levels = length ps"
    using assms(2) by auto
  have at: "before_price s p (levels ! i) = better s (ps ! i) p" if "i < length ps" for i
    using that assms(2) by (auto simp: before_price_def better_def split: Side.split)
  have mono: "better s (ps ! i) p" if "i < j" "j < length ps" "better s (ps ! j) p" for i j
    using that assms(1) better_trans by (meson sorted_wrt_nth_less)
  have down: "before_price s p (levels ! i)" if "i < j \<and> j < length levels \<and> before_price s p (levels ! j)" for i j
    using that at [of i] at [of j] mono [of i j] len by simp
  have "?k \<le> length levels \<and> (\<forall>i<?k. before_price s p (levels ! i)) \<and>
    (\<forall>i. ?k \<le> i \<and> i < length levels \<longrightarrow> \<not> before_price s p (levels ! i))"
    by (rule lower_bound_split [of 0 "length levels" levels "before_price s p"]) (simp, simp, force, intro allI impI, erule down)
  then have k: "?k \<le> length ps" "\<And>i. i < ?k \<Longrightarrow> better s (ps ! i) p"
    "?k < length ps \<Longrightarrow> \<not> better s (ps ! ?k) p"
    using at len by auto
  have "takeWhile (\<lambda>q. better s q p) ps = take ?k ps"
    by (rule takeWhile_eq_take_P_nth) (use k in auto)
  then show ?thesis
    using k(1) by (simp add: position_def)
qed

lemma position_le: "position s p ps \<le> length ps"
  by (simp add: position_def length_takeWhile_le)

lemma position_mem:
  assumes "sorted_wrt (better s) ps" "p \<in> set ps"
  shows "position s p ps < length ps" "ps ! position s p ps = p"
proof -
  obtain i where i: "i < length ps" "ps ! i = p"
    using assms(2) by (auto simp: in_set_conv_nth)
  have "better s (ps ! j) p" if "j < i" for j
    using sorted_wrt_nth_less [OF assms(1) that i(1)] i(2) by simp
  then have "takeWhile (\<lambda>q. better s q p) ps = take i ps"
    using i by (intro takeWhile_eq_take_P_nth) auto
  then show "position s p ps < length ps" "ps ! position s p ps = p"
    using i by (simp_all add: position_def)
qed

lemma position_insert:
  assumes "sorted_wrt (better s) ps" "p \<notin> set ps"
  defines "k \<equiv> position s p ps"
  shows "sorted_wrt (better s) (take k ps @ p # drop k ps)"
proof -
  have lo: "\<forall>q \<in> set (take k ps). better s q p"
    using set_takeWhileD [of _ "\<lambda>q. better s q p" ps]
    unfolding k_def position_def by (metis takeWhile_eq_take)
  have hi: "better s p q" if q: "q \<in> set (drop k ps)" for q
  proof -
    obtain r rs where d: "drop k ps = r # rs"
      using q by (cases "drop k ps") auto
    have "dropWhile (\<lambda>q. better s q p) ps = r # rs"
      using d by (simp add: k_def position_def dropWhile_eq_drop)
    then have "\<not> better s r p"
      by (simp add: dropWhile_eq_Cons_conv)
    moreover have "r \<in> set ps"
      using d by (metis in_set_dropD list.set_intros(1))
    ultimately have r: "better s p r"
      using better_total [of r p] assms(2) by blast
    have "sorted_wrt (better s) (drop k ps)"
      using assms(1) by (simp add: sorted_wrt_drop)
    then show ?thesis
      using q r unfolding d by (auto intro: better_trans)
  qed
  have "sorted_wrt (better s) (take k ps @ drop k ps)"
    using assms(1) by simp
  then show ?thesis
    using lo hi by (simp only: sorted_wrt_append) auto
qed

lemma sorted_better_distinct: "sorted_wrt (better s) ps \<Longrightarrow> distinct ps"
  by (induction ps) auto

section \<open>The representation relation\<close>

text \<open>
  \<open>xs\<close> are the pool indices of the resting orders in arrival order, \<open>ds\<close> the nodes that are
  allocated and not linked (none between operations), \<open>fs\<close> the free list.
\<close>

definition queue :: "OrderNode list \<Rightarrow> nat list \<Rightarrow> Side \<Rightarrow> u32 \<Rightarrow> nat list" where
  "queue pool xs s p = filter (\<lambda>i. side (pool ! i) = s \<and> price (pool ! i) = p) xs"

definition level_of :: "OrderNode list \<Rightarrow> u32 \<Rightarrow> nat list \<Rightarrow> Level" where
  "level_of pool p q = \<lparr>level_price = p, total_shares = (\<Sum>i\<leftarrow>q. ucast (shares (pool ! i))),
     order_count = of_nat (length q), head = first_of q NIL, tail = last_of NIL q\<rparr>"

definition prices_on :: "OrderNode list \<Rightarrow> nat list \<Rightarrow> Side \<Rightarrow> u32 set" where
  "prices_on pool xs s = {p. queue pool xs s p \<noteq> []}"

definition ladder :: "OrderNode list \<Rightarrow> nat list \<Rightarrow> Side \<Rightarrow> u32 list \<Rightarrow> Level list" where
  "ladder pool xs s ps = map (\<lambda>p. level_of pool p (queue pool xs s p)) ps"

definition core :: "L3Book \<Rightarrow> nat list \<Rightarrow> nat list \<Rightarrow> nat list \<Rightarrow> bool" where
  "core b xs ds fs \<longleftrightarrow>
     distinct (xs @ ds @ fs) \<and> set (xs @ ds @ fs) = {..<length (m_pool b)} \<and> length (m_pool b) < 2 ^ 32 \<and>
     free_list (m_pool b) (m_free_head b) fs \<and>
     (\<forall>s p. dll (m_pool b) NIL (queue (m_pool b) xs s p) NIL) \<and>
     (\<forall>s. \<exists>ps. sorted_wrt (better s) ps \<and> set ps = prices_on (m_pool b) xs s \<and>
       side_levels b s = ladder (m_pool b) xs s ps)"

lemma queue_cong:
  "(\<And>i. i \<in> set xs \<Longrightarrow> side (pool' ! i) = side (pool ! i) \<and> price (pool' ! i) = price (pool ! i)) \<Longrightarrow>
    queue pool' xs s p = queue pool xs s p"
  unfolding queue_def by (rule filter_cong) simp_all

lemma queue_subset: "set (queue pool xs s p) \<subseteq> set xs"
  by (auto simp: queue_def)

lemma queue_append: "queue pool (xs @ ys) s p = queue pool xs s p @ queue pool ys s p"
  by (simp add: queue_def)

lemma queue_other: "i \<in> set (queue pool xs s p) \<Longrightarrow> i \<in> set (queue pool ys s' p') \<Longrightarrow> s' = s \<and> p' = p"
  by (auto simp: queue_def)

lemma level_of_cong:
  "(\<And>i. i \<in> set q \<Longrightarrow> shares (pool' ! i) = shares (pool ! i)) \<Longrightarrow> level_of pool' p q = level_of pool p q"
  unfolding level_of_def by (simp cong: map_cong)

lemma level_price_of [simp]: "level_price (level_of pool p q) = p"
  by (simp add: level_of_def)

lemma core_index:
  assumes "core b xs ds fs" "i \<in> set (xs @ ds @ fs)"
  shows "i < length (m_pool b)" "unat (of_nat i :: u32) = i" "(of_nat i :: u32) \<noteq> NIL"
proof -
  show i: "i < length (m_pool b)"
    using assms unfolding core_def by blast
  moreover have "length (m_pool b) < 2 ^ 32"
    using assms(1) unfolding core_def by blast
  ultimately have "i < 2 ^ 32 - 1"
    by simp
  then show "unat (of_nat i :: u32) = i" "(of_nat i :: u32) \<noteq> NIL"
    by (intro unat_of_nat_32 of_nat_neq_NIL; simp)+
qed

text \<open>Changing nodes that are not linked into a queue.\<close>

lemma core_pool:
  assumes "core b xs ds fs" "\<And>s. side_levels b' s = side_levels b s"
    and same: "\<And>j. j \<in> set xs \<Longrightarrow> m_pool b' ! j = m_pool b ! j"
    and "distinct (xs @ ds' @ fs')" "set (xs @ ds' @ fs') = {..<length (m_pool b')}"
    and "length (m_pool b') < 2 ^ 32" "free_list (m_pool b') (m_free_head b') fs'"
  shows "core b' xs ds' fs'"
proof -
  have q: "queue (m_pool b') xs s p = queue (m_pool b) xs s p" for s p
    by (rule queue_cong) (simp add: same)
  have d: "dll (m_pool b') NIL (queue (m_pool b) xs s p) NIL = dll (m_pool b) NIL (queue (m_pool b) xs s p) NIL" for s p
    using queue_subset [of "m_pool b" xs s p] same by (intro dll_cong) auto
  have l: "level_of (m_pool b') p (queue (m_pool b) xs s p) = level_of (m_pool b) p (queue (m_pool b) xs s p)" for s p
    using queue_subset [of "m_pool b" xs s p] same by (intro level_of_cong) auto
  have "\<And>s p. dll (m_pool b) NIL (queue (m_pool b) xs s p) NIL"
    "\<And>s. \<exists>ps. sorted_wrt (better s) ps \<and> set ps = prices_on (m_pool b) xs s \<and>
       side_levels b s = ladder (m_pool b) xs s ps"
    using assms(1) unfolding core_def by blast+
  then show ?thesis
    using assms(4-) unfolding core_def assms(2) prices_on_def ladder_def q d l by blast
qed

lemma side_levels_upd [simp]:
  "side_levels (b\<lparr>m_pool := x\<rparr>) s = side_levels b s" "side_levels (b\<lparr>m_free_head := h\<rparr>) s = side_levels b s"
  "side_levels (b\<lparr>m_index := t\<rparr>) s = side_levels b s" "side_levels (b\<lparr>m_symbol := y\<rparr>) s = side_levels b s"
  by (simp_all add: side_levels_def split: Side.split)

lemma set_side_levels_simps [simp]:
  "side_levels (set_side_levels b s ls) s' = (if s' = s then ls else side_levels b s')"
  "m_pool (set_side_levels b s ls) = m_pool b" "m_free_head (set_side_levels b s ls) = m_free_head b"
  "m_index (set_side_levels b s ls) = m_index b" "m_symbol (set_side_levels b s ls) = m_symbol b"
  by (simp_all add: side_levels_def set_side_levels_def split: Side.split)

lemma upd_node_Some:
  "unat i < length (m_pool b) \<Longrightarrow>
    upd_node b i f = Some (b\<lparr>m_pool := (m_pool b)[unat i := f (m_pool b ! unat i)]\<rparr>)"
  by (simp add: upd_node_def)

lemma upd_level_Some:
  "unat i < length (side_levels b s) \<Longrightarrow>
    upd_level b s i f = Some (set_side_levels b s ((side_levels b s)[unat i := f (side_levels b s ! unat i)]))"
  by (simp add: upd_level_def)

lemma upd_dangling:
  assumes "core b xs [i] fs"
  shows "upd_node b (of_nat i) f = Some (b\<lparr>m_pool := (m_pool b)[i := f (m_pool b ! i)]\<rparr>)"
    "core (b\<lparr>m_pool := (m_pool b)[i := f (m_pool b ! i)]\<rparr>) xs [i] fs"
proof -
  have i: "i < length (m_pool b)" "unat (of_nat i :: u32) = i" "i \<notin> set xs" "i \<notin> set fs"
    using assms core_index [OF assms, of i] by (auto simp: core_def)
  show "upd_node b (of_nat i) f = Some (b\<lparr>m_pool := (m_pool b)[i := f (m_pool b ! i)]\<rparr>)"
    using i upd_node_Some [of "of_nat i" b f] by simp
  have "free_list ((m_pool b)[i := f (m_pool b ! i)]) (m_free_head b) fs"
    using assms free_list_cong [of fs "(m_pool b)[i := f (m_pool b ! i)]" "m_pool b"] i(4)
    unfolding core_def by (metis nth_list_update_neq)
  moreover have "j \<in> set xs \<Longrightarrow> (m_pool b)[i := f (m_pool b ! i)] ! j = m_pool b ! j" for j
    using i(3) by (metis nth_list_update_neq)
  ultimately show "core (b\<lparr>m_pool := (m_pool b)[i := f (m_pool b ! i)]\<rparr>) xs [i] fs"
    using assms by (intro core_pool [OF assms]) (simp_all add: core_def)
qed

lemma allocate_node_core:
  assumes "core b xs [] fs" "length xs < 2 ^ 32 - 1"
  shows "\<exists>i b' fs'. allocate_node b = Some (of_nat i, b') \<and> core b' xs [i] fs' \<and> i \<notin> set xs \<and>
    m_index b' = m_index b \<and> m_symbol b' = m_symbol b \<and> (\<forall>j \<in> set xs. m_pool b' ! j = m_pool b ! j)"
proof (cases fs)
  case Nil
  let ?n = "length (m_pool b)"
  let ?b = "b\<lparr>m_pool := m_pool b @ [blank_node]\<rparr>"
  have c: "distinct xs" "set xs = {..<?n}" "m_free_head b = NIL"
    using assms(1) Nil by (auto simp: core_def)
  then have n: "?n < 2 ^ 32 - 1"
    using distinct_card [of xs] assms(2) by simp
  have keep: "(m_pool b @ [blank_node]) ! j = m_pool b ! j" if "j \<in> set xs" for j
    using that c(2) by (simp add: nth_append)
  have "core ?b xs [?n] []"
    using c(1,3) n by (intro core_pool [OF assms(1)]) (simp_all add: c(2) keep lessThan_Suc)
  moreover have "allocate_node b = Some (of_nat ?n, ?b)"
    by (simp add: allocate_node_def c(3))
  ultimately show ?thesis
    using keep c(2) by (intro exI [of _ ?n] exI [of _ ?b] exI [of _ "[]"] conjI ballI) simp_all
next
  case (Cons i fs')
  let ?b = "b\<lparr>m_free_head := next_node (m_pool b ! i), m_pool := (m_pool b)[i := blank_node]\<rparr>"
  have i: "i < length (m_pool b)" "unat (of_nat i :: u32) = i" "(of_nat i :: u32) \<noteq> NIL" "i \<notin> set xs" "i \<notin> set fs'"
    "m_free_head b = of_nat i" "free_list (m_pool b) (next_node (m_pool b ! i)) fs'"
    using assms(1) core_index [OF assms(1), of i] Cons by (auto simp: core_def)
  have "free_list ((m_pool b)[i := blank_node]) (next_node (m_pool b ! i)) fs'"
    using i(7) free_list_cong [of fs' "(m_pool b)[i := blank_node]" "m_pool b"] i(5)
    by (metis nth_list_update_neq)
  moreover have keep: "j \<in> set xs \<Longrightarrow> (m_pool b)[i := blank_node] ! j = m_pool b ! j" for j
    using i(4) by (metis nth_list_update_neq)
  ultimately have "core ?b xs [i] fs'"
    using assms(1) Cons by (intro core_pool [OF assms(1)]) (auto simp: core_def)
  moreover have "allocate_node b = Some (of_nat i, ?b)"
    using i by (simp add: allocate_node_def)
  ultimately show ?thesis
    using i(4) keep by (intro exI [of _ i] exI [of _ ?b] exI [of _ fs'] conjI ballI) simp_all
qed

lemma free_node_core:
  assumes "core b xs [i] fs"
  shows "\<exists>b'. free_node b (of_nat i) = Some b' \<and> core b' xs [] (i # fs) \<and>
    m_index b' = m_index b \<and> m_symbol b' = m_symbol b \<and> (\<forall>j \<in> set xs. m_pool b' ! j = m_pool b ! j)"
proof -
  have i: "i < length (m_pool b)" "unat (of_nat i :: u32) = i" "i \<notin> set xs" "i \<notin> set fs"
    using assms core_index [OF assms, of i] by (auto simp: core_def)
  let ?n = "blank_node\<lparr>next_node := m_free_head b\<rparr>"
  let ?b = "b\<lparr>m_pool := (m_pool b)[i := ?n], m_free_head := of_nat i\<rparr>"
  have "free_node b (of_nat i) = Some ?b"
    using i by (simp add: free_node_def upd_node_Some)
  moreover have keep: "(m_pool b)[i := ?n] ! j = m_pool b ! j" if "j \<in> set xs" for j
    using that i(3) by (metis nth_list_update_neq)
  moreover have "free_list ((m_pool b)[i := ?n]) (m_free_head b) fs"
    using assms free_list_cong [of fs "(m_pool b)[i := ?n]" "m_pool b"] i(4)
    unfolding core_def by (metis nth_list_update_neq)
  then have "core ?b xs [] (i # fs)"
    using assms i keep by (intro core_pool [OF assms]) (auto simp: core_def)
  ultimately show ?thesis
    by (intro exI [of _ ?b] conjI ballI) simp_all
qed


section \<open>Levels\<close>

lemma core_ladder:
  assumes "core b xs ds fs"
  obtains ps where "sorted_wrt (better s) ps" "set ps = prices_on (m_pool b) xs s"
    "side_levels b s = ladder (m_pool b) xs s ps"
  using assms unfolding core_def by blast

lemma ladder_prices: "map level_price (ladder pool xs s ps) = ps"
  by (simp add: ladder_def comp_def)

lemma level_position_ladder:
  "sorted_wrt (better s) ps \<Longrightarrow> side_levels b s = ladder pool xs s ps \<Longrightarrow> level_position b s p = position s p ps"
  unfolding level_position_def by (simp add: lower_bound_position ladder_prices)

lemma prices_on_image: "prices_on pool xs s = (\<lambda>i. price (pool ! i)) ` {i \<in> set xs. side (pool ! i) = s}"
  by (auto simp: prices_on_def queue_def filter_empty_conv)

lemma card_prices_on: "card (prices_on pool xs s) \<le> length xs"
proof -
  have "card (prices_on pool xs s) \<le> card {i \<in> set xs. side (pool ! i) = s}"
    unfolding prices_on_image by (rule card_image_le) simp
  also have "\<dots> \<le> card (set xs)"
    by (rule card_mono) auto
  finally show ?thesis
    using card_length [of xs] by simp
qed

lemma ladder_length:
  assumes "sorted_wrt (better s) ps" "set ps \<subseteq> insert p (prices_on pool xs s)"
  shows "length ps \<le> length xs + 1"
proof -
  have "length ps = card (set ps)"
    using sorted_better_distinct [OF assms(1)] by (simp add: distinct_card)
  also have "\<dots> \<le> card (insert p (prices_on pool xs s))"
    using assms(2) by (intro card_mono) (auto simp: prices_on_image)
  finally show ?thesis
    using card_prices_on [of pool xs s] by (simp add: card_insert_if prices_on_image split: if_splits)
qed

lemma core_length: "core b xs ds fs \<Longrightarrow> length xs + length ds + length fs = length (m_pool b)"
  unfolding core_def by (metis add.assoc card_lessThan distinct_card length_append)

lemma find_level_core:
  assumes "core b xs ds fs" "sorted_wrt (better s) ps" "set ps = prices_on (m_pool b) xs s"
    and "side_levels b s = ladder (m_pool b) xs s ps"
  shows "p \<in> set ps \<Longrightarrow> find_level b s p = of_nat (position s p ps) \<and> find_level b s p \<noteq> NIL \<and>
      unat (find_level b s p) = position s p ps"
    "p \<notin> set ps \<Longrightarrow> find_level b s p = NIL"
proof -
  have len: "length (side_levels b s) = length ps"
    by (simp add: assms(4) ladder_def)
  have at: "level_price (side_levels b s ! i) = ps ! i" if "i < length ps" for i
    using that by (simp add: assms(4) ladder_def)
  note pos = level_position_ladder [OF assms(2,4), of p]
  show "find_level b s p = NIL" if "p \<notin> set ps"
  proof (cases "position s p ps = length ps")
    case False
    then have "position s p ps < length ps"
      using position_le [of s p ps] by simp
    then show ?thesis
      using that at nth_mem by (fastforce simp: find_level_def pos len Let_def)
  qed (simp add: find_level_def pos len Let_def)
  assume p: "p \<in> set ps"
  note mem = position_mem [OF assms(2) p]
  have find: "find_level b s p = of_nat (position s p ps)"
    using mem at by (simp add: find_level_def pos len Let_def)
  have "length ps \<le> length xs"
    using sorted_better_distinct [OF assms(2)] assms(3) card_prices_on [of "m_pool b" xs s]
    by (metis distinct_card)
  also have "\<dots> < 2 ^ 32"
    using assms(1) core_length [OF assms(1)] unfolding core_def by linarith
  finally have "position s p ps < 2 ^ 32 - 1"
    using mem(1) by simp
  then show "find_level b s p = of_nat (position s p ps) \<and> find_level b s p \<noteq> NIL \<and>
      unat (find_level b s p) = position s p ps"
    unfolding find using of_nat_neq_NIL unat_of_nat_32 by simp
qed

lemma find_or_create_level_core:
  assumes "core b xs ds fs" "length xs < 2 ^ 32 - 1"
  obtains k ps b' where "find_or_create_level b s p = (of_nat k, b')" "unat (of_nat k :: u32) = k"
    "sorted_wrt (better s) ps" "set ps = insert p (prices_on (m_pool b) xs s)"
    "k < length ps" "ps ! k = p" "b' = set_side_levels b s (ladder (m_pool b) xs s ps)"
proof -
  obtain ps where ps: "sorted_wrt (better s) ps" "set ps = prices_on (m_pool b) xs s"
    "side_levels b s = ladder (m_pool b) xs s ps"
    using core_ladder [OF assms(1)] .
  let ?k = "position s p ps"
  note pos = level_position_ladder [OF ps(1,3), of p]
  have len: "length (side_levels b s) = length ps"
    by (simp add: ps(3) ladder_def)
  have at: "level_price (side_levels b s ! i) = ps ! i" if "i < length ps" for i
    using that by (simp add: ps(3) ladder_def)
  show thesis
  proof (cases "p \<in> set ps")
    case True
    note mem = position_mem [OF ps(1) True]
    have same: "set_side_levels b s (ladder (m_pool b) xs s ps) = b"
      using ps(3) by (simp add: set_side_levels_def side_levels_def split: Side.splits)
    have "find_or_create_level b s p = (of_nat ?k, b)"
      using mem at by (simp add: find_or_create_level_def pos len Let_def)
    moreover have "unat (of_nat ?k :: u32) = ?k"
      using mem(1) ladder_length [OF ps(1) subset_insertI2 [OF equalityD1 [OF ps(2)]]] assms(2)
      by (intro unat_of_nat_32) simp
    ultimately show thesis
      using that [of ?k b ps] ps True mem same by (auto simp: insert_absorb)
  next
    case False
    let ?ps = "take ?k ps @ p # drop ?k ps"
    have sorted: "sorted_wrt (better s) ?ps" "set ?ps = insert p (set ps)" "?ps ! ?k = p" "?k < length ?ps"
      using position_insert [OF ps(1) False] position_le [of s p ps]
      by (simp_all add: nth_append) (metis append_take_drop_id set_append)
    have none: "queue (m_pool b) xs s p = []"
      using False ps(2) by (simp add: prices_on_def)
    have blank: "blank_level\<lparr>level_price := p\<rparr> = level_of (m_pool b) p (queue (m_pool b) xs s p)"
      by (simp add: none level_of_def blank_level_def)
    have "ladder (m_pool b) xs s ?ps =
        take ?k (side_levels b s) @ blank_level\<lparr>level_price := p\<rparr> # drop ?k (side_levels b s)"
      by (simp add: ps(3) ladder_def blank take_map drop_map)
    moreover have "?k \<noteq> length ps \<Longrightarrow> ps ! ?k \<noteq> p"
      using False position_le [of s p ps] by (metis le_neq_implies_less nth_mem)
    ultimately have "find_or_create_level b s p = (of_nat ?k, set_side_levels b s (ladder (m_pool b) xs s ?ps))"
      using at [of ?k] position_le [of s p ps] by (auto simp: find_or_create_level_def pos len Let_def)
    moreover have "unat (of_nat ?k :: u32) = ?k"
      using sorted(4) ladder_length [OF sorted(1) equalityD1 [OF sorted(2) [unfolded ps(2)]]] assms(2)
      by (intro unat_of_nat_32) linarith
    ultimately show thesis
      using that [of ?k _ ?ps] sorted ps(2) by auto
  qed
qed


section \<open>Linking and unlinking\<close>

text \<open>
  A step between two states of the relation: the nodes of \<open>xs\<close> keep their contents and
  the nodes outside one queue keep their links.
\<close>

definition same_content :: "OrderNode list \<Rightarrow> OrderNode list \<Rightarrow> bool" where
  "same_content pool' pool \<longleftrightarrow> length pool' = length pool \<and>
     (\<forall>j. reference_number (pool' ! j) = reference_number (pool ! j) \<and> shares (pool' ! j) = shares (pool ! j) \<and>
       price (pool' ! j) = price (pool ! j) \<and> side (pool' ! j) = side (pool ! j))"

lemma same_content_refl [simp]: "same_content pool pool"
  by (simp add: same_content_def)

lemma same_content_upd:
  assumes "same_content pool' pool" "reference_number n = reference_number (pool' ! i)"
    "shares n = shares (pool' ! i)" "price n = price (pool' ! i)" "side n = side (pool' ! i)"
  shows "same_content (pool'[i := n]) pool"
  using assms by (cases "i < length pool'") (auto simp: same_content_def nth_list_update list_update_beyond)

lemma same_content_queue: "same_content pool' pool \<Longrightarrow> queue pool' xs s p = queue pool xs s p"
  by (rule queue_cong) (simp add: same_content_def)

lemma same_content_level: "same_content pool' pool \<Longrightarrow> level_of pool' p q = level_of pool p q"
  by (rule level_of_cong) (simp add: same_content_def)

text \<open>Replacing the queue of one level, all others staying as they are.\<close>

lemma core_requeue:
  assumes old: "core b xs ds fs"
    and pool: "same_content (m_pool b') (m_pool b)" "m_free_head b' = m_free_head b"
    and nodes: "distinct (xs' @ ds')" "set (xs' @ ds') = set (xs @ ds)"
    and others: "\<And>s' p'. (s', p') \<noteq> (s, p) \<Longrightarrow> queue (m_pool b) xs' s' p' = queue (m_pool b) xs s' p'"
    and links: "dll (m_pool b') NIL (queue (m_pool b) xs' s p) NIL"
    and frame: "\<And>j. j \<notin> set (queue (m_pool b) (xs @ xs') s p) \<Longrightarrow> m_pool b' ! j = m_pool b ! j"
    and ladders: "\<And>s'. s' \<noteq> s \<Longrightarrow> side_levels b' s' = side_levels b s'"
    and ps: "sorted_wrt (better s) ps" "set ps = prices_on (m_pool b) xs' s"
    and here: "side_levels b' s = ladder (m_pool b) xs' s ps"
  shows "core b' xs' ds' fs"
proof -
  note content = same_content_queue [OF pool(1)] same_content_level [OF pool(1)]
  have fs: "distinct fs" "set fs \<inter> set (xs @ ds) = {}" "free_list (m_pool b) (m_free_head b) fs"
    using old by (auto simp: core_def)
  have "set (xs @ xs') \<subseteq> set (xs @ ds)"
    using nodes(2) by auto
  then have "m_pool b' ! j = m_pool b ! j" if "j \<in> set fs" for j
    using that fs(2) queue_subset [of "m_pool b" "xs @ xs'" s p] by (intro frame) blast
  then have free: "free_list (m_pool b') (m_free_head b') fs"
    using free_list_cong [of fs "m_pool b'" "m_pool b"] fs(3) pool(2) by simp
  have dll: "dll (m_pool b') NIL (queue (m_pool b') xs' s' p') NIL" for s' p'
  proof (cases "(s', p') = (s, p)")
    case False
    have "m_pool b' ! j = m_pool b ! j" if "j \<in> set (queue (m_pool b) xs s' p')" for j
      using queue_other [OF that, of "xs @ xs'" s p] False by (intro frame) auto
    then have "dll (m_pool b') NIL (queue (m_pool b) xs s' p') NIL = dll (m_pool b) NIL (queue (m_pool b) xs s' p') NIL"
      by (intro dll_cong) simp
    then show ?thesis
      using old unfolding content(1) others [OF False] core_def by blast
  qed (use links content in simp)
  have lad: "\<exists>ps. sorted_wrt (better s') ps \<and> set ps = prices_on (m_pool b') xs' s' \<and>
      side_levels b' s' = ladder (m_pool b') xs' s' ps" for s'
  proof (cases "s' = s")
    case True
    then show ?thesis
      using ps here unfolding prices_on_def ladder_def content by blast
  next
    case False
    obtain ps' where ps': "sorted_wrt (better s') ps'" "set ps' = prices_on (m_pool b) xs s'"
      "side_levels b s' = ladder (m_pool b) xs s' ps'"
      using core_ladder [OF old] .
    moreover have "queue (m_pool b') xs' s' p' = queue (m_pool b) xs s' p'" for p'
      using others [of s' p'] False content(1) by simp
    ultimately show ?thesis
      using ladders [OF False] unfolding prices_on_def ladder_def content(2) by auto
  qed
  have "length (m_pool b') = length (m_pool b)"
    using pool(1) by (simp add: same_content_def)
  moreover have "distinct (xs' @ ds' @ fs)" "set (xs' @ ds' @ fs) = {..<length (m_pool b)}" "length (m_pool b) < 2 ^ 32"
    using nodes fs(1,2) old by (auto simp: core_def)
  ultimately show ?thesis
    using free dll lad unfolding core_def by simp
qed


lemma map_update_at:
  assumes "distinct ps" "k < length ps" "\<And>q. q \<in> set ps \<Longrightarrow> q \<noteq> ps ! k \<Longrightarrow> f' q = f q"
  shows "(map f ps)[k := f' (ps ! k)] = map f' ps"
proof (rule nth_equalityI)
  fix j assume "j < length ((map f ps)[k := f' (ps ! k)])"
  then show "(map f ps)[k := f' (ps ! k)] ! j = map f' ps ! j"
    using assms nth_eq_iff_index_eq [of ps j k] by (auto simp: nth_list_update)
qed simp

lemma sorted_drop_at:
  assumes "sorted_wrt (better s) (as @ p # bs)"
  shows "sorted_wrt (better s) (as @ bs)" "set (as @ bs) = set (as @ p # bs) - {p}"
  using assms by (auto simp: sorted_wrt_append)

text \<open>Appending the allocated node to the queue of its level.\<close>

lemma link_core:
  fixes b i xs s p
  defines "pool \<equiv> m_pool b" and "q \<equiv> queue (m_pool b) xs s p"
  defines "pool1 \<equiv> pool[i := (pool ! i)\<lparr>prev_node := last_of NIL q, next_node := NIL\<rparr>]"
  defines "pool2 \<equiv> (if q = [] then pool1 else pool1[last q := (pool1 ! last q)\<lparr>next_node := of_nat i\<rparr>])"
  assumes old: "core b xs [i] fs" and node: "side (pool ! i) = s" "price (pool ! i) = p"
    and ps: "sorted_wrt (better s) ps" "set ps = insert p (prices_on pool xs s)" "k < length ps" "ps ! k = p"
  shows "core (set_side_levels (b\<lparr>m_pool := pool2\<rparr>) s ((ladder pool xs s ps)[k := level_of pool p (q @ [i])])) (xs @ [i]) [] fs"
    "same_content pool2 pool"
proof -
  have i: "i < length pool" "i \<notin> set xs" "i \<notin> set q"
    using old core_index(1) [OF old, of i] queue_subset [of "m_pool b" xs s p]
    by (auto simp: pool_def q_def core_def)
  have same1: "same_content pool1 pool"
    unfolding pool1_def by (rule same_content_upd) simp_all
  then show same: "same_content pool2 pool"
    unfolding pool2_def by (auto intro: same_content_upd)
  have last: "last q \<noteq> i" "last q < length pool" if "q \<noteq> []"
    using that i(3) last_in_set [OF that] core_index(1) [OF old, of "last q"]
      subsetD [OF queue_subset, of "last q" "m_pool b" xs s p] by (auto simp: q_def pool_def)
  have dq: "dll pool NIL q NIL" "distinct q"
    using old by (auto simp: pool_def q_def core_def queue_def)
  have queues: "queue pool (xs @ [i]) s' p' = (if (s', p') = (s, p) then q @ [i] else queue pool xs s' p')" for s' p'
    using node by (auto simp: queue_def q_def pool_def)
  have "dll pool2 NIL (q @ [i]) NIL"
  proof (cases "q = []")
    case True
    then show ?thesis
      using i(1) by (simp add: pool2_def pool1_def)
  next
    case False
    have "dll pool1 NIL q NIL"
      using dq(1) i(3) by (simp add: pool1_def dll_frame)
    then have "dll pool2 NIL q (of_nat i)"
      using dll_set_next [of pool1 NIL "butlast q" "last q" NIL "of_nat i"] False last(2) [OF False] dq(2)
      by (simp add: pool2_def pool1_def) (metis append_butlast_last_id distinct.simps(2) distinct_append not_distinct_conv_prefix)
    moreover have "pool2 ! i = pool1 ! i" "prev_node (pool1 ! i) = of_nat (last q)" "next_node (pool1 ! i) = NIL"
      using False last(1) [OF False] i(1) by (simp_all add: pool2_def pool1_def last_of_def)
    ultimately show ?thesis
      using False by (simp add: dll_append last_of_def)
  qed
  moreover have "(ladder pool xs s ps)[k := level_of pool p (q @ [i])] = ladder pool (xs @ [i]) s ps"
    using map_update_at [OF sorted_better_distinct [OF ps(1)] ps(3),
        of "\<lambda>p. level_of pool p (queue pool (xs @ [i]) s p)" "\<lambda>p. level_of pool p (queue pool xs s p)"] ps(4)
    by (simp add: ladder_def queues)
  moreover have "set ps = prices_on pool (xs @ [i]) s"
    using ps(2) by (auto simp: prices_on_def queues)
  moreover have "pool2 ! j = pool ! j" if "j \<notin> set (queue pool (xs @ xs @ [i]) s p)" for j
  proof -
    have "j \<noteq> i" "j \<notin> set q"
      using that queues [of s p] by (auto simp: queue_append [of pool xs "xs @ [i]"])
    moreover have "q \<noteq> [] \<Longrightarrow> j \<noteq> last q"
      using calculation(2) last_in_set by metis
    ultimately show ?thesis
      by (auto simp: pool2_def pool1_def)
  qed
  ultimately show "core (set_side_levels (b\<lparr>m_pool := pool2\<rparr>) s ((ladder pool xs s ps)[k := level_of pool p (q @ [i])])) (xs @ [i]) [] fs"
    using old same ps(1) queues i(2)
    by (intro core_requeue [OF old, where s = s and p = p and ps = ps])
      (auto simp: core_def pool_def [symmetric])
qed


text \<open>Taking a node out of its queue; the level goes when the queue is empty.\<close>

lemma unlink_core:
  fixes b i xs s p
  defines "pool \<equiv> m_pool b"
  assumes old: "core b xs [] fs" and q: "queue pool xs s p = q1 @ i # q2"
    and ps: "sorted_wrt (better s) ps" "set ps = prices_on pool xs s" "k < length ps" "ps ! k = p"
  defines "pool1 \<equiv> (if q1 = [] then pool else pool[last q1 := (pool ! last q1)\<lparr>next_node := first_of q2 NIL\<rparr>])"
  defines "pool2 \<equiv> (if q2 = [] then pool1 else pool1[hd q2 := (pool1 ! hd q2)\<lparr>prev_node := last_of NIL q1\<rparr>])"
  defines "levels \<equiv> (ladder pool xs s ps)[k := level_of pool p (q1 @ q2)]"
  shows "core (set_side_levels (b\<lparr>m_pool := pool2\<rparr>) s
      (if q1 @ q2 = [] then take k levels @ drop (k + 1) levels else levels)) (remove1 i xs) [i] fs"
    "same_content pool2 pool"
proof -
  have dist: "distinct (q1 @ i # q2)" "dll pool NIL (q1 @ i # q2) NIL" "distinct xs"
    using old unfolding core_def pool_def [symmetric] q [symmetric] by (auto simp: queue_def)
  have sub: "set (q1 @ i # q2) \<subseteq> set xs"
    unfolding q [symmetric] by (rule queue_subset)
  have bound: "j < length pool" if "j \<in> set (q1 @ i # q2)" for j
    using that sub core_index(1) [OF old, of j] by (auto simp: pool_def)
  have same1: "same_content pool1 pool"
    unfolding pool1_def by (auto intro: same_content_upd)
  then show same: "same_content pool2 pool"
    unfolding pool2_def by (auto intro: same_content_upd)
  have queues: "queue pool (remove1 i xs) s' p' = (if (s', p') = (s, p) then q1 @ q2 else queue pool xs s' p')" for s' p'
  proof -
    have "queue pool (remove1 i xs) s' p' = remove1 i (queue pool xs s' p')"
      unfolding queue_def by (rule filter_remove1)
    moreover have "i \<notin> set (queue pool xs s' p')" if "(s', p') \<noteq> (s, p)"
      using that queue_other [of i pool xs s p xs s' p'] q by auto
    moreover have "remove1 i (q1 @ i # q2) = q1 @ q2"
      using dist(1) by (simp add: remove1_append)
    ultimately show ?thesis
      using q by (auto simp: remove1_idem)
  qed
  have segs: "dll pool NIL q1 (of_nat i)" "dll pool (of_nat i) q2 NIL"
    using dist(2) by (simp_all add: dll_append)
  have seg1: "dll pool1 NIL q1 (first_of q2 NIL)"
    using segs(1) dll_set_next [of pool NIL "butlast q1" "last q1" "of_nat i" "first_of q2 NIL"] dist(1) bound [of "last q1"]
    by (cases q1 rule: rev_cases) (simp_all add: pool1_def)
  have seg2: "dll pool1 (of_nat i) q2 NIL"
    using segs(2) dist(1) dll_frame [of "last q1" q2 pool] by (cases q1 rule: rev_cases) (auto simp: pool1_def)
  have len1: "length pool1 = length pool"
    using same1 by (simp add: same_content_def)
  have "dll pool2 NIL (q1 @ q2) NIL"
  proof (cases q2)
    case Nil
    then show ?thesis
      using seg1 by (simp add: pool2_def)
  next
    case (Cons j r)
    have "dll pool2 NIL q1 (of_nat j)"
      using seg1 Cons dist(1) by (auto simp: pool2_def dll_frame)
    moreover have "dll pool2 (last_of NIL q1) q2 NIL"
      using seg2 Cons dll_set_prev [of pool1 "of_nat i" j r NIL "last_of NIL q1"] dist(1) bound [of j] len1
      by (simp add: pool2_def)
    ultimately show ?thesis
      by (simp add: dll_append Cons)
  qed
  moreover have "pool2 ! j = pool ! j" if "j \<notin> set (queue pool (xs @ remove1 i xs) s p)" for j
  proof -
    have "j \<notin> set q1" "j \<notin> set q2"
      using that q by (auto simp: queue_append)
    then have "q1 \<noteq> [] \<Longrightarrow> j \<noteq> last q1" "q2 \<noteq> [] \<Longrightarrow> j \<noteq> hd q2"
      using last_in_set hd_in_set by metis+
    then show ?thesis
      by (auto simp: pool2_def pool1_def)
  qed
  moreover have "set (remove1 i xs @ [i]) = set xs" "distinct (remove1 i xs @ [i])"
    using sub dist(3) by auto
  moreover have upd: "levels = map (\<lambda>p. level_of pool p (queue pool (remove1 i xs) s p)) ps"
    using map_update_at [OF sorted_better_distinct [OF ps(1)] ps(3),
        of "\<lambda>p. level_of pool p (queue pool (remove1 i xs) s p)" "\<lambda>p. level_of pool p (queue pool xs s p)"] ps(4)
    by (simp add: ladder_def queues levels_def)
  moreover obtain ps' where "sorted_wrt (better s) ps'" "set ps' = prices_on pool (remove1 i xs) s"
    "(if q1 @ q2 = [] then take k levels @ drop (k + 1) levels else levels) = ladder pool (remove1 i xs) s ps'"
  proof (cases "q1 @ q2 = []")
    case True
    have split: "ps = take k ps @ p # drop (k + 1) ps"
      using id_take_nth_drop [OF ps(3)] ps(4) by simp
    then have "sorted_wrt (better s) (take k ps @ drop (k + 1) ps)"
      "set (take k ps @ drop (k + 1) ps) = set ps - {p}"
      using ps(1) sorted_drop_at [of s "take k ps" p "drop (k + 1) ps"] by simp_all
    moreover have "prices_on pool (remove1 i xs) s = prices_on pool xs s - {p}"
      using True by (auto simp: prices_on_def queues)
    ultimately show thesis
      using that [of "take k ps @ drop (k + 1) ps"] True ps(2)
      by (simp add: upd ladder_def take_map drop_map)
  next
    case False
    then have "prices_on pool (remove1 i xs) s = prices_on pool xs s"
      using q by (auto simp: prices_on_def queues)
    then show thesis
      using that [of ps] ps(1,2) upd unfolding if_not_P [OF False] by (simp add: ladder_def)
  qed
  ultimately show "core (set_side_levels (b\<lparr>m_pool := pool2\<rparr>) s
      (if q1 @ q2 = [] then take k levels @ drop (k + 1) levels else levels)) (remove1 i xs) [i] fs"
    using same queues
    by (intro core_requeue [OF old, where s = s and p = p and ps = ps']) (auto simp: pool_def [symmetric])
qed


lemma set_side_levels_comm [simp]:
  "set_side_levels (set_side_levels b s x) s y = set_side_levels b s y"
  "(set_side_levels b s x)\<lparr>m_pool := z\<rparr> = set_side_levels (b\<lparr>m_pool := z\<rparr>) s x"
  "set_side_levels b s (side_levels b s) = b"
  by (simp_all add: set_side_levels_def side_levels_def split: Side.split)

lemma unlink_node_code:
  fixes b i xs
  defines "pool \<equiv> m_pool b"
  assumes old: "core b xs [] fs" and i: "i \<in> set xs" and node: "side (pool ! i) = s" "price (pool ! i) = p"
    and q: "queue pool xs s p = q1 @ i # q2"
    and ps: "sorted_wrt (better s) ps" "set ps = prices_on pool xs s" "side_levels b s = ladder pool xs s ps"
  defines "pool1 \<equiv> (if q1 = [] then pool else pool[last q1 := (pool ! last q1)\<lparr>next_node := first_of q2 NIL\<rparr>])"
  defines "pool2 \<equiv> (if q2 = [] then pool1 else pool1[hd q2 := (pool1 ! hd q2)\<lparr>prev_node := last_of NIL q1\<rparr>])"
  defines "k \<equiv> position s p ps"
  defines "levels \<equiv> (ladder pool xs s ps)[k := level_of pool p (q1 @ q2)]"
  shows "unlink_node b (of_nat i) = Some (set_side_levels (b\<lparr>m_pool := pool2\<rparr>) s
      (if q1 @ q2 = [] then take k levels @ drop (k + 1) levels else levels))"
proof -
  have dist: "distinct (q1 @ i # q2)" "dll pool NIL (q1 @ i # q2) NIL"
    using old unfolding core_def pool_def [symmetric] q [symmetric] by (auto simp: queue_def)
  have sub: "set (q1 @ i # q2) \<subseteq> set xs"
    unfolding q [symmetric] by (rule queue_subset)
  have ix: "j < length pool" "unat (of_nat j :: u32) = j" "(of_nat j :: u32) \<noteq> NIL" if "j \<in> set (q1 @ i # q2)" for j
    using that sub core_index [OF old, of j] by (auto simp: pool_def)
  note i_ix = ix [of i, simplified]
  have links: "prev_node (pool ! i) = last_of NIL q1" "next_node (pool ! i) = first_of q2 NIL"
    using dist(2) by (simp_all add: dll_append)
  have p: "p \<in> set ps"
    using ps(2) q by (simp add: prices_on_def)
  have find: "find_level b s p \<noteq> NIL" "unat (find_level b s p) = k"
    using find_level_core(1) [OF old ps(1) ps(2,3) [unfolded pool_def] p] unfolding k_def by blast+
  have k: "k < length (ladder pool xs s ps)" "ladder pool xs s ps ! k = level_of pool p (q1 @ i # q2)"
    using position_mem [OF ps(1) p] q by (simp_all add: k_def ladder_def)
  have count: "(of_nat (length (q1 @ q2)) :: u32) = 0 \<longleftrightarrow> q1 @ q2 = []"
  proof -
    have "length (q1 @ i # q2) \<le> length xs"
      unfolding q [symmetric] queue_def by (rule length_filter_le)
    then have "length (q1 @ q2) < 2 ^ 32"
      using core_length [OF old] old unfolding core_def by simp
    then have "(of_nat (length (q1 @ q2)) :: u32) = of_nat 0 \<longleftrightarrow> length (q1 @ q2) = 0"
      by (rule of_nat_32_inj) simp
    then show ?thesis
      by (simp only: of_nat_simps(1) length_0_conv)
  qed
  let ?lad = "ladder pool xs s ps"
  let ?st = "\<lambda>x l. set_side_levels (b\<lparr>m_pool := x\<rparr>) s (?lad[k := l])"
  define l1 where "l1 = (level_of pool p (q1 @ i # q2))\<lparr>head := first_of (q1 @ q2) NIL\<rparr>"
  define l2 where "l2 = l1\<lparr>tail := last_of NIL (q1 @ q2)\<rparr>"
  let ?f = "find_level b s p"
  have same: "set_side_levels (b\<lparr>m_pool := x\<rparr>) s ?lad = b\<lparr>m_pool := x\<rparr>" for x
    using set_side_levels_comm(3) [of "b\<lparr>m_pool := x\<rparr>" s] ps(3) by simp
  have head: "(if prev_node (pool ! i) \<noteq> NIL
      then upd_node b (prev_node (pool ! i)) (\<lambda>n. n\<lparr>next_node := next_node (pool ! i)\<rparr>)
      else upd_level b s ?f (\<lambda>l. l\<lparr>head := next_node (pool ! i)\<rparr>)) = Some (?st pool1 l1)"
  proof (cases q1 rule: rev_cases)
    case Nil
    then show ?thesis
      using k find links ps(3) by (simp add: upd_level_Some pool1_def l1_def) (simp add: pool_def)
  next
    case (snoc r j)
    have "l1 = ?lad ! k"
      using k(2) snoc by (cases r) (simp_all add: l1_def level_of_def)
    then show ?thesis
      using snoc ix [of j] links by (simp add: same upd_node_Some pool1_def pool_def [symmetric])
  qed
  have keep: "pool1 ! i = pool ! i" "i < length pool1"
    using dist(1) i_ix(1) by (cases q1 rule: rev_cases; simp add: pool1_def)+
  have tail: "(if next_node (pool ! i) \<noteq> NIL
      then upd_node (?st pool1 l1) (next_node (pool ! i)) (\<lambda>n. n\<lparr>prev_node := prev_node (pool ! i)\<rparr>)
      else upd_level (?st pool1 l1) s ?f (\<lambda>l. l\<lparr>tail := prev_node (pool ! i)\<rparr>)) = Some (?st pool2 l2)"
  proof (cases q2)
    case Nil
    then show ?thesis
      using k(1) find links keep by (simp add: upd_level_Some pool2_def l2_def)
  next
    case (Cons j r)
    have "l2 = l1"
      using Cons by (simp add: l1_def l2_def level_of_def last_of_def)
    moreover have "length pool1 = length pool"
      by (simp add: pool1_def)
    ultimately show ?thesis
      using Cons ix [of j] links keep by (simp add: upd_node_Some pool2_def)
  qed
  have keep2: "pool2 ! i = pool ! i" "i < length pool2"
    using dist(1) keep by (cases q2; simp add: pool2_def)+
  have final: "l2\<lparr>total_shares := total_shares l2 - ucast (shares (pool ! i)), order_count := order_count l2 - 1\<rparr> =
      level_of pool p (q1 @ q2)"
    by (simp add: l2_def l1_def level_of_def)
  have "unlink_node b (of_nat i) = do {
       b \<leftarrow> upd_level (?st pool2 l2) s ?f (\<lambda>l. l\<lparr>total_shares := total_shares l - ucast (shares (pool ! i)),
              order_count := order_count l - 1\<rparr>);
       level \<leftarrow> vec_at (side_levels b s) (unat ?f);
       Some (if order_count level = 0 then erase_level b s ?f else b) }"
    using i_ix node find(1) head tail keep keep2 unfolding unlink_node_def pool_def [symmetric] Let_def
    by (simp cong: if_cong del: if_split)
  also have "\<dots> = Some (set_side_levels (b\<lparr>m_pool := pool2\<rparr>) s
      (if q1 @ q2 = [] then take k levels @ drop (k + 1) levels else levels))"
    using k(1) find count final by (simp add: upd_level_Some erase_level_def levels_def level_of_def)
  finally show ?thesis .
qed


section \<open>The abstract book\<close>

record Order =
  o_ref :: u64
  o_side :: Side
  o_shares :: u32
  o_price :: u32

definition order_at :: "OrderNode list \<Rightarrow> nat \<Rightarrow> Order" where
  "order_at pool i = \<lparr>o_ref = reference_number (pool ! i), o_side = side (pool ! i),
     o_shares = shares (pool ! i), o_price = price (pool ! i)\<rparr>"

definition index_ok :: "OrderIndex \<Rightarrow> OrderNode list \<Rightarrow> nat list \<Rightarrow> bool" where
  "index_ok t pool xs \<longleftrightarrow> oi_invar t \<and> distinct (map (\<lambda>i. reference_number (pool ! i)) xs) \<and>
     oi_map t = map_of (map (\<lambda>i. (reference_number (pool ! i), of_nat i)) xs)"

definition l3_refines :: "L3Book \<Rightarrow> Order list \<Rightarrow> bool" where
  "l3_refines b os \<longleftrightarrow> (\<exists>xs fs. core b xs [] fs \<and> index_ok (m_index b) (m_pool b) xs \<and>
     os = map (order_at (m_pool b)) xs)"

definition lookup_order :: "u64 \<Rightarrow> Order list \<Rightarrow> Order option" where
  "lookup_order r os = List.find (\<lambda>ord. o_ref ord = r) os"

definition spec_add :: "u64 \<Rightarrow> Side \<Rightarrow> u32 \<Rightarrow> u32 \<Rightarrow> Order list \<Rightarrow> Order list" where
  "spec_add r s sh p os =
     (if lookup_order r os = None then os @ [\<lparr>o_ref = r, o_side = s, o_shares = sh, o_price = p\<rparr>] else os)"

definition spec_delete :: "u64 \<Rightarrow> Order list \<Rightarrow> Order list" where
  "spec_delete r os = filter (\<lambda>ord. o_ref ord \<noteq> r) os"

definition spec_execute :: "u64 \<Rightarrow> u32 \<Rightarrow> Order list \<Rightarrow> u32 \<times> Order list" where
  "spec_execute r sh os = (case lookup_order r os of None \<Rightarrow> (0, os)
     | Some ord \<Rightarrow> if o_shares ord \<le> sh then (o_shares ord, spec_delete r os)
         else (sh, map (\<lambda>ord. if o_ref ord = r then ord\<lparr>o_shares := o_shares ord - sh\<rparr> else ord) os))"

definition spec_replace :: "u64 \<Rightarrow> u64 \<Rightarrow> u32 \<Rightarrow> u32 \<Rightarrow> Order list \<Rightarrow> Order list" where
  "spec_replace old_r new_r sh p os = (case lookup_order old_r os of None \<Rightarrow> os
     | Some ord \<Rightarrow> spec_add new_r (o_side ord) sh p (spec_delete old_r os))"

lemma map_of_graph:
  assumes "distinct (map f xs)" "i \<in> set xs"
  shows "map_of (map (\<lambda>i. (f i, g i)) xs) (f i) = Some (g i)"
  by (rule map_of_is_SomeI) (use assms in \<open>auto simp: comp_def\<close>)

lemma map_of_graph_delete:
  "(map_of (map (\<lambda>i. (f i, g i)) xs))(r := None) = map_of (map (\<lambda>i. (f i, g i)) (filter (\<lambda>i. f i \<noteq> r) xs))"
proof (rule ext)
  fix x
  show "((map_of (map (\<lambda>i. (f i, g i)) xs))(r := None)) x = map_of (map (\<lambda>i. (f i, g i)) (filter (\<lambda>i. f i \<noteq> r) xs)) x"
    by (cases "x = r"; induction xs) auto
qed

lemma map_of_snoc: "map_of xs r = None \<Longrightarrow> map_of (xs @ [(r, v)]) = (map_of xs)(r \<mapsto> v)"
  by (rule ext) (auto simp: map_add_def split: option.split)

lemma map_of_graph_None: "map_of (map (\<lambda>i. (f i, g i)) xs) r = None \<longleftrightarrow> (\<forall>i \<in> set xs. f i \<noteq> r)"
  by (induction xs) auto

lemma index_find:
  assumes "core b xs ds fs" "index_ok (m_index b) (m_pool b) xs"
  obtains (found) i where "i \<in> set xs" "reference_number (m_pool b ! i) = r"
      "oi_find (m_index b) r = Some (of_nat i)" "(of_nat i :: u32) \<noteq> NPOS"
      "lookup_order r (map (order_at (m_pool b)) xs) = Some (order_at (m_pool b) i)"
  | (missing) "\<forall>i \<in> set xs. reference_number (m_pool b ! i) \<noteq> r" "oi_find (m_index b) r = Some NPOS"
      "lookup_order r (map (order_at (m_pool b)) xs) = None"
proof (cases "\<exists>i \<in> set xs. reference_number (m_pool b ! i) = r")
  case True
  then obtain i where i: "i \<in> set xs" "reference_number (m_pool b ! i) = r"
    by blast
  have inv: "oi_invar (m_index b)" "distinct (map (\<lambda>i. reference_number (m_pool b ! i)) xs)"
    "oi_map (m_index b) = map_of (map (\<lambda>i. (reference_number (m_pool b ! i), of_nat i)) xs)"
    using assms(2) by (auto simp: index_ok_def)
  have "oi_map (m_index b) r = Some (of_nat i)"
    unfolding inv(3) i(2) [symmetric] by (rule map_of_graph [OF inv(2) i(1)])
  then have "oi_find (m_index b) r = Some (of_nat i)"
    using oi.look_ok [OF inv(1), of r] by simp
  moreover have "(of_nat i :: u32) \<noteq> NPOS"
    using core_index(3) [OF assms(1), of i] i(1) by (simp add: NIL_def NPOS_def)
  moreover have "lookup_order r (map (order_at (m_pool b)) xs) = Some (order_at (m_pool b) i)"
    using i inv(2) unfolding lookup_order_def by (induction xs) (auto simp: order_at_def)
  ultimately show thesis
    using found i by blast
next
  case False
  then have "oi_map (m_index b) r = None"
    using assms(2) unfolding index_ok_def by (simp add: map_of_graph_None)
  then have "oi_find (m_index b) r = Some NPOS"
    using oi.look_ok [of "m_index b" r] assms(2) by (simp add: index_ok_def)
  moreover have "lookup_order r (map (order_at (m_pool b)) xs) = None"
    using False by (auto simp: lookup_order_def find_None_iff order_at_def)
  ultimately show thesis
    using missing False by blast
qed


section \<open>Refinement of the operations\<close>

lemma same_content_orders: "same_content pool' pool \<Longrightarrow> map (order_at pool') xs = map (order_at pool) xs"
  by (auto simp: same_content_def order_at_def)

lemma orders_cong: "(\<And>j. j \<in> set xs \<Longrightarrow> pool' ! j = pool ! j) \<Longrightarrow> map (order_at pool') xs = map (order_at pool) xs"
  by (auto simp: order_at_def)

lemma index_ok_cong:
  assumes "\<And>j. j \<in> set xs \<Longrightarrow> reference_number (pool' ! j) = reference_number (pool ! j)"
  shows "index_ok t pool' xs = index_ok t pool xs"
proof -
  have "map (\<lambda>i. reference_number (pool' ! i)) xs = map (\<lambda>i. reference_number (pool ! i)) xs"
    "map (\<lambda>i. (reference_number (pool' ! i), of_nat i :: u32)) xs = map (\<lambda>i. (reference_number (pool ! i), of_nat i)) xs"
    using assms by auto
  then show ?thesis
    unfolding index_ok_def by (simp only:)
qed

lemma index_ok_room: "index_ok t pool xs \<Longrightarrow> length xs < 2 ^ 32 \<Longrightarrow> card (dom (oi_map t)) < 2 ^ 60"
proof -
  assume "index_ok t pool xs" "length xs < 2 ^ 32"
  then have "dom (oi_map t) = set (map (\<lambda>i. reference_number (pool ! i)) xs)"
    by (simp add: index_ok_def dom_map_of_conv_image_fst image_image)
  then have "card (dom (oi_map t)) \<le> length xs"
    using card_length [of "map (\<lambda>i. reference_number (pool ! i)) xs"] by simp
  then show ?thesis
    using \<open>length xs < 2 ^ 32\<close> by simp
qed

text \<open>The removal that a full execution and a deletion share.\<close>

lemma remove_node_refines:
  assumes rel: "core b xs [] fs" "index_ok (m_index b) (m_pool b) xs" and i: "i \<in> set xs"
    and r: "reference_number (m_pool b ! i) = r"
  shows "\<exists>b1 b2 t. unlink_node b (of_nat i) = Some b1 \<and> free_node b1 (of_nat i) = Some b2 \<and>
    oi_erase (m_index b2) r = Some t \<and> m_symbol b2 = m_symbol b \<and>
    l3_refines (b2\<lparr>m_index := t\<rparr>) (spec_delete r (map (order_at (m_pool b)) xs))"
proof -
  let ?pool = "m_pool b"
  define s where "s = side (?pool ! i)"
  define p where "p = price (?pool ! i)"
  have "i \<in> set (queue ?pool xs s p)"
    using i by (simp add: queue_def s_def p_def)
  then obtain q1 q2 where q: "queue ?pool xs s p = q1 @ i # q2"
    by (meson split_list)
  obtain ps where ps: "sorted_wrt (better s) ps" "set ps = prices_on ?pool xs s" "side_levels b s = ladder ?pool xs s ps"
    using core_ladder [OF rel(1)] .
  have p: "p \<in> set ps"
    using ps(2) q by (simp add: prices_on_def)
  note code = unlink_node_code [OF rel(1) i s_def [symmetric] p_def [symmetric] q ps]
  note step = unlink_core [OF rel(1) q ps(1,2) position_mem [OF ps(1) p]]
  obtain b1 where b1: "unlink_node b (of_nat i) = Some b1" "core b1 (remove1 i xs) [i] fs"
    "same_content (m_pool b1) ?pool" "m_index b1 = m_index b" "m_symbol b1 = m_symbol b"
    using code step by simp
  obtain b2 where b2: "free_node b1 (of_nat i) = Some b2" "core b2 (remove1 i xs) [] (i # fs)"
    "m_index b2 = m_index b1" "m_symbol b2 = m_symbol b1"
    "\<forall>j \<in> set (remove1 i xs). m_pool b2 ! j = m_pool b1 ! j"
    using free_node_core [OF b1(2)] by blast
  have dist: "distinct xs" "distinct (map (\<lambda>i. reference_number (?pool ! i)) xs)" "oi_invar (m_index b)"
    "oi_map (m_index b) = map_of (map (\<lambda>i. (reference_number (?pool ! i), of_nat i)) xs)"
    using rel by (auto simp: core_def index_ok_def)
  obtain t where t: "oi_erase (m_index b) r = Some t" "oi_invar t" "oi_map t = (oi_map (m_index b))(r := None)"
    using oi.drp_ok [OF dist(3)] by blast
  have rest: "remove1 i xs = filter (\<lambda>j. reference_number (?pool ! j) \<noteq> r) xs"
    unfolding distinct_remove1_removeAll [OF dist(1)] removeAll_filter_not_eq
    using dist(2) i r by (intro filter_cong) (auto simp: distinct_map dest: inj_onD)
  have nodes: "m_pool b2 ! j = m_pool b1 ! j" "reference_number (m_pool b2 ! j) = reference_number (?pool ! j)"
    if "j \<in> set (remove1 i xs)" for j
    using that b2(5) b1(3) by (auto simp: same_content_def)
  have "oi_map t = map_of (map (\<lambda>i. (reference_number (?pool ! i), of_nat i)) (remove1 i xs))"
    unfolding rest t(3) dist(4) by (rule map_of_graph_delete)
  then have "index_ok t ?pool (remove1 i xs)"
    using t(2) dist(2) unfolding index_ok_def by (simp add: rest distinct_map_filter)
  then have "index_ok t (m_pool b2) (remove1 i xs)"
    using index_ok_cong [of "remove1 i xs" "m_pool b2" ?pool t] nodes(2) by blast
  moreover have "map (order_at (m_pool b2)) (remove1 i xs) = spec_delete r (map (order_at ?pool) xs)"
  proof -
    have "map (order_at (m_pool b2)) (remove1 i xs) = map (order_at ?pool) (remove1 i xs)"
      using orders_cong [of "remove1 i xs" "m_pool b2" "m_pool b1"] nodes(1) same_content_orders [OF b1(3)] by simp
    then show ?thesis
      unfolding rest by (simp add: spec_delete_def filter_map comp_def order_at_def)
  qed
  moreover have "core (b2\<lparr>m_index := t\<rparr>) (remove1 i xs) [] (i # fs)"
    using b2(2) by (simp add: core_def)
  ultimately show ?thesis
    using b1 b2 t(1) unfolding l3_refines_def by fastforce
qed


lemma delete_order_refines:
  assumes "l3_refines b os"
  shows "\<exists>b'. delete_order b r = Some b' \<and> l3_refines b' (spec_delete r os) \<and> m_symbol b' = m_symbol b"
proof -
  obtain xs fs where rel: "core b xs [] fs" "index_ok (m_index b) (m_pool b) xs"
    and os: "os = map (order_at (m_pool b)) xs"
    using assms by (auto simp: l3_refines_def)
  show ?thesis
  proof (rule index_find [OF rel, of r])
    fix i assume i: "i \<in> set xs" "reference_number (m_pool b ! i) = r"
      "oi_find (m_index b) r = Some (of_nat i)" "(of_nat i :: u32) \<noteq> NPOS"
    obtain b1 b2 t where "unlink_node b (of_nat i) = Some b1" "free_node b1 (of_nat i) = Some b2"
      "oi_erase (m_index b2) r = Some t" "m_symbol b2 = m_symbol b" "l3_refines (b2\<lparr>m_index := t\<rparr>) (spec_delete r os)"
      using remove_node_refines [OF rel i(1,2)] os by blast
    then show ?thesis
      using i(3,4) by (simp add: delete_order_def)
  next
    assume none: "\<forall>i \<in> set xs. reference_number (m_pool b ! i) \<noteq> r" "oi_find (m_index b) r = Some NPOS"
    then have "spec_delete r os = os"
      using os by (auto simp: spec_delete_def order_at_def)
    then show ?thesis
      using none(2) assms by (simp add: delete_order_def)
  qed
qed

text \<open>A partial execution changes the shares of one node and the total of its level.\<close>

lemma sum_list_change:
  fixes f f' :: "nat \<Rightarrow> 'a :: ab_group_add"
  assumes "distinct q" "i \<in> set q" "\<And>j. j \<in> set q \<Longrightarrow> j \<noteq> i \<Longrightarrow> f' j = f j"
  shows "sum_list (map f' q) = sum_list (map f q) - f i + f' i"
proof -
  obtain q1 q2 where q: "q = q1 @ i # q2"
    using assms(2) by (meson split_list)
  have "map f' q1 = map f q1" "map f' q2 = map f q2"
    using assms(1,3) q by auto
  then have "sum_list (map f' q1) = sum_list (map f q1)" "sum_list (map f' q2) = sum_list (map f q2)"
    by (simp_all only:)
  then show ?thesis
    by (simp add: q algebra_simps)
qed

lemma unat_ucast_64: "unat (ucast x :: u64) = unat (x :: u32)"
proof -
  have "unat x < 2 ^ 64"
    using unsigned_less [of x, where 'a = nat] by simp
  then show ?thesis
    by (simp add: unsigned_ucast_eq take_bit_nat_eq_self)
qed

lemma ucast_diff_32:
  assumes "m \<le> n"
  shows "(ucast (n - m) :: u64) = ucast n - ucast (m :: u32)"
proof -
  have "unat (ucast n - ucast m :: u64) = unat n - unat m"
    using assms unat_sub [of "ucast m :: u64" "ucast n"] by (simp add: word_le_nat_alt unat_ucast_64)
  moreover have "unat (ucast (n - m) :: u64) = unat n - unat m"
    using assms by (simp only: unat_ucast_64 unat_sub)
  ultimately show ?thesis
    by (simp only: word_unat_eq_iff)
qed

lemma reduce_core:
  fixes b i xs n
  defines "pool \<equiv> m_pool b"
  assumes old: "core b xs [] fs" and i: "i \<in> set xs" and n: "n \<le> shares (pool ! i)"
    and node: "side (pool ! i) = s" "price (pool ! i) = p"
    and ps: "sorted_wrt (better s) ps" "set ps = prices_on pool xs s" "side_levels b s = ladder pool xs s ps"
  defines "pool' \<equiv> pool[i := (pool ! i)\<lparr>shares := shares (pool ! i) - n\<rparr>]"
  defines "k \<equiv> position s p ps"
  shows "core (set_side_levels (b\<lparr>m_pool := pool'\<rparr>) s
    ((ladder pool xs s ps)[k := (ladder pool xs s ps ! k)\<lparr>total_shares := total_shares (ladder pool xs s ps ! k) - ucast n\<rparr>])) xs [] fs"
proof -
  have ix: "i < length pool"
    using core_index(1) [OF old, of i] i by (simp add: pool_def)
  have content: "side (pool' ! j) = side (pool ! j)" "price (pool' ! j) = price (pool ! j)"
    "next_node (pool' ! j) = next_node (pool ! j)" "prev_node (pool' ! j) = prev_node (pool ! j)" for j
    using ix by (auto simp: pool'_def nth_list_update)
  have queues: "queue pool' xs s' p' = queue pool xs s' p'" for s' p'
    by (rule queue_cong) (simp add: content)
  have dlls: "dll pool' pr q nx = dll pool pr q nx" for pr q nx
    by (rule dll_cong) (simp add: content)
  have iq: "i \<in> set (queue pool xs s p)" "distinct (queue pool xs s p)"
    using i node old by (auto simp: queue_def core_def)
  have p: "p \<in> set ps"
    unfolding ps(2) prices_on_def using iq(1) by auto
  note mem = position_mem [OF ps(1) p, folded k_def]
  have other: "level_of pool' p' (queue pool xs s' p') = level_of pool p' (queue pool xs s' p')" if "(s', p') \<noteq> (s, p)" for s' p'
  proof (rule level_of_cong)
    fix j assume "j \<in> set (queue pool xs s' p')"
    then have "j \<noteq> i"
      using that queue_other [OF iq(1)] by blast
    then show "shares (pool' ! j) = shares (pool ! j)"
      by (simp add: pool'_def)
  qed
  have here: "level_of pool' p (queue pool xs s p) =
      (level_of pool p (queue pool xs s p))\<lparr>total_shares := total_shares (level_of pool p (queue pool xs s p)) - ucast n\<rparr>"
    using sum_list_change [OF iq(2,1), of "\<lambda>j. ucast (shares (pool' ! j)) :: u64" "\<lambda>j. ucast (shares (pool ! j))"]
      ix ucast_diff_32 [OF n] by (simp add: level_of_def pool'_def)
  have "ladder pool' xs s ps = (ladder pool xs s ps)[k := (ladder pool xs s ps ! k)\<lparr>total_shares := total_shares (ladder pool xs s ps ! k) - ucast n\<rparr>]"
    using map_update_at [OF sorted_better_distinct [OF ps(1)] mem(1),
        of "\<lambda>p. level_of pool' p (queue pool xs s p)" "\<lambda>p. level_of pool p (queue pool xs s p)"] mem other here
    by (simp add: ladder_def queues)
  moreover have "ladder pool' xs s' ps' = ladder pool xs s' ps'" if "s' \<noteq> s" for s' ps'
    using that other by (simp add: ladder_def queues)
  moreover have "prices_on pool' xs s' = prices_on pool xs s'" for s'
    by (simp add: prices_on_def queues)
  moreover have "free_list pool' (m_free_head b) fs = free_list pool (m_free_head b) fs"
    by (rule free_list_cong) (simp add: content)
  moreover have "\<exists>ps'. sorted_wrt (better s') ps' \<and> set ps' = prices_on pool xs s' \<and>
      side_levels b s' = ladder pool xs s' ps'" for s'
    using old unfolding core_def pool_def by blast
  moreover have "length pool' = length pool"
    by (simp add: pool'_def)
  ultimately show ?thesis
    using old ps(1,2) unfolding core_def by (auto simp: pool_def [symmetric] queues dlls)
qed


lemma execute_order_refines:
  assumes "l3_refines b os"
  shows "\<exists>b'. execute_order b r sh = Some (fst (spec_execute r sh os), b') \<and>
    l3_refines b' (snd (spec_execute r sh os)) \<and> m_symbol b' = m_symbol b"
proof -
  obtain xs fs where rel: "core b xs [] fs" "index_ok (m_index b) (m_pool b) xs"
    and os: "os = map (order_at (m_pool b)) xs"
    using assms by (auto simp: l3_refines_def)
  show ?thesis
  proof (rule index_find [OF rel, of r])
    fix i assume i: "i \<in> set xs" "reference_number (m_pool b ! i) = r"
      "oi_find (m_index b) r = Some (of_nat i)" "(of_nat i :: u32) \<noteq> NPOS"
      "lookup_order r (map (order_at (m_pool b)) xs) = Some (order_at (m_pool b) i)"
    let ?n = "m_pool b ! i"
    have ix: "i < length (m_pool b)" "unat (of_nat i :: u32) = i"
      using core_index [OF rel(1), of i] i(1) by simp_all
    show ?thesis
    proof (cases "shares ?n \<le> sh")
      case True
      obtain b1 b2 t where "unlink_node b (of_nat i) = Some b1" "free_node b1 (of_nat i) = Some b2"
        "oi_erase (m_index b2) r = Some t" "m_symbol b2 = m_symbol b" "l3_refines (b2\<lparr>m_index := t\<rparr>) (spec_delete r os)"
        using remove_node_refines [OF rel i(1,2)] os by blast
      moreover have "spec_execute r sh os = (shares ?n, spec_delete r os)"
        using i(5) True by (simp add: spec_execute_def os order_at_def)
      ultimately show ?thesis
        using i(3,4) ix True by (simp add: execute_order_def min_absorb2)
    next
      case False
      then have le: "sh \<le> shares ?n" and min: "min sh (shares ?n) = sh" "sh \<noteq> shares ?n"
        by (auto simp: min_def)
      define s where "s = side ?n"
      define p where "p = price ?n"
      obtain ps where ps: "sorted_wrt (better s) ps" "set ps = prices_on (m_pool b) xs s"
        "side_levels b s = ladder (m_pool b) xs s ps"
        using core_ladder [OF rel(1)] .
      let ?pool = "(m_pool b)[i := ?n\<lparr>shares := shares ?n - sh\<rparr>]"
      let ?l = "ladder (m_pool b) xs s ps"
      let ?k = "position s p ps"
      let ?b = "set_side_levels (b\<lparr>m_pool := ?pool\<rparr>) s (?l[?k := (?l ! ?k)\<lparr>total_shares := total_shares (?l ! ?k) - ucast sh\<rparr>])"
      have core': "core ?b xs [] fs"
        by (rule reduce_core [OF rel(1) i(1) le s_def [symmetric] p_def [symmetric] ps])
      have p: "p \<in> set ps"
        unfolding ps(2) prices_on_def using i(1) by (auto simp: queue_def s_def p_def filter_empty_conv)
      have level: "find_level (b\<lparr>m_pool := ?pool\<rparr>) s p = find_level b s p"
        by (simp add: find_level_def level_position_def)
      have find: "find_level b s p \<noteq> NIL" "unat (find_level b s p) = ?k" "?k < length ps"
        using find_level_core(1) [OF rel(1) ps p] position_mem(1) [OF ps(1) p] by blast+
      have "execute_order b r sh = Some (sh, ?b)"
        using i(3,4) ix min find level ps(3)
        by (simp add: execute_order_def upd_node_Some upd_level_Some s_def [symmetric] p_def [symmetric] ladder_def)
      moreover have "spec_execute r sh os = (sh, map (\<lambda>ord. if o_ref ord = r then ord\<lparr>o_shares := o_shares ord - sh\<rparr> else ord) os)"
        using i(5) False by (simp add: spec_execute_def os order_at_def)
      moreover have "map (order_at ?pool) xs = map (\<lambda>ord. if o_ref ord = r then ord\<lparr>o_shares := o_shares ord - sh\<rparr> else ord) os"
      proof -
        have inj: "j = i" if "j \<in> set xs" "reference_number (m_pool b ! j) = r" for j
          using rel(2) i(1,2) that by (auto simp: index_ok_def distinct_map dest: inj_onD)
        have "order_at ?pool j = (let ord = order_at (m_pool b) j in
            if o_ref ord = r then ord\<lparr>o_shares := o_shares ord - sh\<rparr> else ord)" if "j \<in> set xs" for j
          using inj [OF that] i(2) ix(1) by (cases "j = i") (auto simp: order_at_def Let_def)
        then show ?thesis
          unfolding os by (simp add: Let_def)
      qed
      moreover have "index_ok (m_index ?b) ?pool xs"
        using rel(2) index_ok_cong [of xs ?pool "m_pool b"] ix(1) by (simp add: nth_list_update)
      ultimately show ?thesis
        using core' unfolding l3_refines_def by (intro exI [of _ ?b]) auto
    qed
  next
    assume none: "oi_find (m_index b) r = Some NPOS" "lookup_order r (map (order_at (m_pool b)) xs) = None"
    then have "spec_execute r sh os = (0, os)"
      by (simp add: spec_execute_def os)
    then show ?thesis
      using none(1) assms by (simp add: execute_order_def)
  qed
qed


lemma link_code:
  fixes b i xs s p
  defines "pool \<equiv> m_pool b" and "q \<equiv> queue (m_pool b) xs s p"
  defines "pool1 \<equiv> pool[i := (pool ! i)\<lparr>prev_node := last_of NIL q, next_node := NIL\<rparr>]"
  defines "pool2 \<equiv> (if q = [] then pool1 else pool1[last q := (pool1 ! last q)\<lparr>next_node := of_nat i\<rparr>])"
  assumes old: "core b xs [i] fs" and sh: "shares (pool ! i) = sh"
    and k: "unat (of_nat k :: u32) = k" "k < length ps" "ps ! k = p"
  defines "b1 \<equiv> set_side_levels b s (ladder pool xs s ps)"
  shows "do {
       level \<leftarrow> vec_at (side_levels b1 s) (unat (of_nat k :: u32));
       b \<leftarrow> upd_node b1 (of_nat i) (\<lambda>n. n\<lparr>prev_node := tail level, next_node := NIL\<rparr>);
       b \<leftarrow> (if tail level \<noteq> NIL
             then upd_node b (tail level) (\<lambda>n. n\<lparr>next_node := of_nat i\<rparr>)
             else upd_level b s (of_nat k) (\<lambda>l. l\<lparr>head := of_nat i\<rparr>));
       upd_level b s (of_nat k) (\<lambda>l. l\<lparr>tail := of_nat i,
              total_shares := total_shares l + ucast sh, order_count := order_count l + 1\<rparr>) } =
     Some (set_side_levels (b\<lparr>m_pool := pool2\<rparr>) s ((ladder pool xs s ps)[k := level_of pool p (q @ [i])]))"
proof -
  have level: "ladder pool xs s ps ! k = level_of pool p q" "k < length (ladder pool xs s ps)"
    using k(2,3) by (simp_all add: ladder_def q_def pool_def)
  have tail: "tail (level_of pool p q) = last_of NIL q"
    by (simp add: level_of_def)
  have ix: "i < length pool" "unat (of_nat i :: u32) = i"
    using core_index [OF old, of i] by (simp_all add: pool_def)
  have first: "upd_node b1 (of_nat i) (\<lambda>n. n\<lparr>prev_node := last_of NIL q, next_node := NIL\<rparr>) =
      Some (set_side_levels (b\<lparr>m_pool := pool1\<rparr>) s (ladder pool xs s ps))"
    using ix by (simp add: upd_node_Some b1_def pool1_def pool_def)
  show ?thesis
  proof (cases q rule: rev_cases)
    case Nil
    have "(level_of pool p [])\<lparr>head := of_nat i, tail := of_nat i, total_shares := total_shares (level_of pool p []) + ucast sh,
        order_count := order_count (level_of pool p []) + 1\<rparr> = level_of pool p [i]"
      using sh by (simp add: level_of_def)
    then show ?thesis
      using first tail level k(1) Nil by (simp add: b1_def upd_level_Some pool2_def)
  next
    case (snoc r j)
    have "j \<in> set q"
      using snoc by simp
    then have "j \<in> set xs"
      using queue_subset unfolding q_def by blast
    then have j: "j < length pool" "unat (of_nat j :: u32) = j" "(of_nat j :: u32) \<noteq> NIL"
      using core_index [OF old, of j] by (simp_all add: pool_def)
    have "(level_of pool p q)\<lparr>tail := of_nat i, total_shares := total_shares (level_of pool p q) + ucast sh,
        order_count := order_count (level_of pool p q) + 1\<rparr> = level_of pool p (q @ [i])"
      using sh snoc by (simp add: level_of_def first_of_append last_of_def)
    then show ?thesis
      using first tail level k(1) snoc j by (simp add: b1_def upd_node_Some upd_level_Some pool2_def pool1_def)
  qed
qed

lemma add_order_refines:
  assumes "l3_refines b os" "length os < 2 ^ 32 - 1"
  shows "\<exists>b'. add_order b r s sh p = Some b' \<and> l3_refines b' (spec_add r s sh p os) \<and> m_symbol b' = m_symbol b"
proof -
  obtain xs fs where rel: "core b xs [] fs" "index_ok (m_index b) (m_pool b) xs"
    and os: "os = map (order_at (m_pool b)) xs"
    using assms by (auto simp: l3_refines_def)
  have room: "length xs < 2 ^ 32 - 1"
    using assms(2) os by simp
  show ?thesis
  proof (rule index_find [OF rel, of r])
    fix i assume "oi_find (m_index b) r = Some (of_nat i)" "(of_nat i :: u32) \<noteq> NPOS"
      "lookup_order r (map (order_at (m_pool b)) xs) = Some (order_at (m_pool b) i)"
    then show ?thesis
      using assms(1) by (simp add: add_order_def spec_add_def os)
  next
    assume new: "\<forall>i \<in> set xs. reference_number (m_pool b ! i) \<noteq> r" "oi_find (m_index b) r = Some NPOS"
      "lookup_order r (map (order_at (m_pool b)) xs) = None"
    obtain i b1 fs1 where a: "allocate_node b = Some (of_nat i, b1)" "core b1 xs [i] fs1" "i \<notin> set xs"
      "m_index b1 = m_index b" "m_symbol b1 = m_symbol b" "\<forall>j \<in> set xs. m_pool b1 ! j = m_pool b ! j"
      using allocate_node_core [OF rel(1) room] by blast
    let ?n = "(m_pool b1 ! i)\<lparr>reference_number := r, shares := sh, price := p, side := s\<rparr>"
    define b2 where "b2 = b1\<lparr>m_pool := (m_pool b1)[i := ?n]\<rparr>"
    have upd: "upd_node b1 (of_nat i) (\<lambda>n. n\<lparr>reference_number := r, shares := sh, price := p, side := s\<rparr>) = Some b2"
      and core2: "core b2 xs [i] fs1"
      using upd_dangling [OF a(2), of "\<lambda>n. n\<lparr>reference_number := r, shares := sh, price := p, side := s\<rparr>"]
      by (simp_all add: b2_def)
    have ix: "i < length (m_pool b2)" "unat (of_nat i :: u32) = i" "(of_nat i :: u32) \<noteq> NIL"
      using core_index [OF core2, of i] by simp_all
    have node: "m_pool b2 ! i = ?n"
      using ix(1) by (simp add: b2_def)
    have keep: "m_pool b2 ! j = m_pool b ! j" if "j \<in> set xs" for j
    proof -
      have "j \<noteq> i"
        using that a(3) by blast
      then show ?thesis
        using that a(6) by (simp add: b2_def)
    qed
    define q where "q = queue (m_pool b2) xs s p"
    obtain k ps where k: "find_or_create_level b2 s p = (of_nat k, set_side_levels b2 s (ladder (m_pool b2) xs s ps))"
      "unat (of_nat k :: u32) = k" "sorted_wrt (better s) ps" "set ps = insert p (prices_on (m_pool b2) xs s)"
      "k < length ps" "ps ! k = p"
      using find_or_create_level_core [OF core2 room, of s p] by metis
    let ?pool1 = "(m_pool b2)[i := (m_pool b2 ! i)\<lparr>prev_node := last_of NIL q, next_node := NIL\<rparr>]"
    define pool where "pool = (if q = [] then ?pool1 else ?pool1[last q := (?pool1 ! last q)\<lparr>next_node := of_nat i\<rparr>])"
    define b3 where "b3 = set_side_levels (b2\<lparr>m_pool := pool\<rparr>) s
      ((ladder (m_pool b2) xs s ps)[k := level_of (m_pool b2) p (q @ [i])])"
    have content: "side (m_pool b2 ! i) = s" "price (m_pool b2 ! i) = p" "shares (m_pool b2 ! i) = sh"
      "reference_number (m_pool b2 ! i) = r"
      by (simp_all add: node)
    note linked = link_core [OF core2 content(1,2) k(3-6), folded q_def, folded pool_def, folded b3_def]
    note code = link_code [OF core2 content(3) k(2,5,6), where s = s, folded q_def, folded pool_def, folded b3_def]
    have idx: "m_index b3 = m_index b" "m_symbol b3 = m_symbol b" "m_pool b3 = pool"
      using a(4,5) by (simp_all add: b3_def b2_def)
    have inv: "oi_invar (m_index b)" "distinct (map (\<lambda>i. reference_number (m_pool b ! i)) xs)"
      "oi_map (m_index b) = map_of (map (\<lambda>i. (reference_number (m_pool b ! i), of_nat i)) xs)"
      using rel(2) by (auto simp: index_ok_def)
    obtain t where t: "oi_insert (m_index b) r (of_nat i) = Some t" "oi_invar t" "oi_map t = (oi_map (m_index b))(r \<mapsto> of_nat i)"
      using oi.put_ok [OF inv(1) index_ok_room [OF rel(2)]] room by fastforce
    note run = arg_cong [OF code, of "\<lambda>x. Option.bind x (\<lambda>b. do {
        index \<leftarrow> oi_insert (m_index b) r (of_nat i); Some (b\<lparr>m_index := index\<rparr>) })",
        unfolded Option.bind_assoc Option.bind.simps idx(1) t(1)]
    have "add_order b r s sh p = Some (b3\<lparr>m_index := t\<rparr>)"
      using new(2) a(1) upd k(1) run unfolding add_order_def
      by (simp only: Option.bind.simps Let_def prod.case not_True_eq_False if_False simp_thms)
    moreover have refs: "reference_number (pool ! j) = reference_number (m_pool b ! j)" if "j \<in> set xs" for j
      using linked(2) keep [OF that] by (simp add: same_content_def)
    moreover have ref_i: "reference_number (pool ! i) = r"
      using linked(2) content(4) by (simp add: same_content_def)
    moreover have "index_ok t pool (xs @ [i])"
    proof -
      have "map (\<lambda>i. reference_number (pool ! i)) xs = map (\<lambda>i. reference_number (m_pool b ! i)) xs"
        "map (\<lambda>i. (reference_number (pool ! i), of_nat i :: u32)) xs = map (\<lambda>i. (reference_number (m_pool b ! i), of_nat i)) xs"
        using refs by auto
      moreover have "map_of (map (\<lambda>i. (reference_number (m_pool b ! i), of_nat i :: u32)) xs) r = None"
        using new(1) by (simp add: map_of_graph_None)
      note none = map_of_snoc [OF this, of "of_nat i"]
      have "oi_map t = map_of (map (\<lambda>i. (reference_number (pool ! i), of_nat i)) (xs @ [i]))"
        unfolding t(3) inv(3) map_append list.map calculation(2) ref_i none ..
      moreover have "distinct (map (\<lambda>i. reference_number (pool ! i)) (xs @ [i]))"
        unfolding map_append list.map calculation(1) ref_i using inv(2) new(1) by auto
      ultimately show ?thesis
        using t(2) by (simp only: index_ok_def simp_thms)
    qed
    moreover have "map (order_at pool) (xs @ [i]) = spec_add r s sh p os"
    proof -
      have "map (order_at pool) xs = os"
        using same_content_orders [OF linked(2)] orders_cong [of xs "m_pool b2" "m_pool b"] keep os by simp
      moreover have "order_at pool i = \<lparr>o_ref = r, o_side = s, o_shares = sh, o_price = p\<rparr>"
        using linked(2) content by (simp add: same_content_def order_at_def)
      ultimately show ?thesis
        using new(3) os by (simp add: spec_add_def)
    qed
    moreover have "core (b3\<lparr>m_index := t\<rparr>) (xs @ [i]) [] fs1"
      using linked(1) by (simp add: core_def)
    ultimately show ?thesis
      using idx unfolding l3_refines_def by fastforce
  qed
qed


lemma lookup_order_delete: "lookup_order r (spec_delete r os) = None"
  by (auto simp: lookup_order_def spec_delete_def find_None_iff)

lemma spec_delete_length: "length (spec_delete r os) \<le> length os"
  by (simp add: spec_delete_def)

lemma replace_order_refines:
  assumes "l3_refines b os" "length os < 2 ^ 32 - 1"
  shows "\<exists>b'. replace_order b old_r new_r sh p = Some b' \<and> l3_refines b' (spec_replace old_r new_r sh p os) \<and>
    m_symbol b' = m_symbol b"
proof -
  obtain xs fs where rel: "core b xs [] fs" "index_ok (m_index b) (m_pool b) xs"
    and os: "os = map (order_at (m_pool b)) xs"
    using assms by (auto simp: l3_refines_def)
  obtain b1 where b1: "delete_order b old_r = Some b1" "l3_refines b1 (spec_delete old_r os)" "m_symbol b1 = m_symbol b"
    using delete_order_refines [OF assms(1)] by blast
  have "length (spec_delete old_r os) < 2 ^ 32 - 1"
    using assms(2) spec_delete_length [of old_r os] by linarith
  note added = add_order_refines [OF b1(2) this]
  show ?thesis
  proof (rule index_find [OF rel, of old_r])
    fix i assume i: "i \<in> set xs" "oi_find (m_index b) old_r = Some (of_nat i)" "(of_nat i :: u32) \<noteq> NPOS"
      "lookup_order old_r (map (order_at (m_pool b)) xs) = Some (order_at (m_pool b) i)"
    moreover have "i < length (m_pool b)" "unat (of_nat i :: u32) = i"
      using core_index [OF rel(1), of i] i(1) by simp_all
    moreover have "spec_replace old_r new_r sh p os = spec_add new_r (side (m_pool b ! i)) sh p (spec_delete old_r os)"
      using i(4) by (simp add: spec_replace_def os order_at_def)
    ultimately show ?thesis
      using b1 added [of new_r "side (m_pool b ! i)" sh p] by (simp add: replace_order_def)
  next
    assume "oi_find (m_index b) old_r = Some NPOS" "lookup_order old_r (map (order_at (m_pool b)) xs) = None"
    then show ?thesis
      using assms(1) by (simp add: replace_order_def spec_replace_def os)
  qed
qed

lemma new_refines: "l3_refines (L3Book_new symbol) []"
  unfolding l3_refines_def
  by (rule exI [of _ "[]"], rule exI [of _ "[]"])
    (auto simp: core_def L3Book_new_def index_ok_def oi_new_correct queue_def prices_on_def ladder_def
      side_levels_def split: Side.split)

lemma set_symbol_refines: "l3_refines b os \<Longrightarrow> l3_refines (set_symbol b symbol) os"
  unfolding l3_refines_def core_def set_symbol_def by simp

end
