(* ===== verification/L3_Queries.thy ===== *)
theory L3_Queries
  imports L3_Refinement
begin

text \<open>
  The queries of the order book (best bid and offer, depth, orders of a level, attributes of an
  order) answer from the abstract list of orders, and histories of operations refine histories
  on that list. The properties of the book are stated here over complete histories.
\<close>

section \<open>Queries of the abstract book\<close>

definition spec_queue :: "Side \<Rightarrow> u32 \<Rightarrow> Order list \<Rightarrow> Order list" where
  "spec_queue s p os = filter (\<lambda>ord. o_side ord = s \<and> o_price ord = p) os"

text \<open>The prices with resting orders, best first.\<close>

definition spec_prices :: "Side \<Rightarrow> Order list \<Rightarrow> u32 list" where
  "spec_prices s os =
     (let ps = sorted_list_of_set (o_price ` {ord \<in> set os. o_side ord = s})
      in case s of Buy \<Rightarrow> rev ps | Sell \<Rightarrow> ps)"

definition spec_total :: "Side \<Rightarrow> u32 \<Rightarrow> Order list \<Rightarrow> nat" where
  "spec_total s p os = (\<Sum>ord\<leftarrow>spec_queue s p os. unat (o_shares ord))"

definition spec_depth :: "Side \<Rightarrow> nat \<Rightarrow> Order list \<Rightarrow> (u32 \<times> nat \<times> nat) list" where
  "spec_depth s n os =
     (let ps = spec_prices s os
      in map (\<lambda>p. (p, spec_total s p os, length (spec_queue s p os))) (if n = 0 then ps else take n ps))"

definition spec_best :: "Side \<Rightarrow> Order list \<Rightarrow> (u32 \<times> nat) option" where
  "spec_best s os = (case spec_prices s os of [] \<Rightarrow> None | p # _ \<Rightarrow> Some (p, spec_total s p os))"

definition view_of :: "Order \<Rightarrow> OrderView" where
  "view_of ord = \<lparr>view_reference_number = o_ref ord, view_shares = o_shares ord, view_price = o_price ord\<rparr>"

text \<open>A depth entry and one side of a best bid and offer, read as numbers.\<close>

definition depth_entry :: "DepthLevel \<Rightarrow> u32 \<times> nat \<times> nat" where
  "depth_entry d = (depth_price d, unat (depth_shares d), unat (depth_order_count d))"

definition bbo_side :: "Bbo \<Rightarrow> Side \<Rightarrow> (u32 \<times> nat) option" where
  "bbo_side q s = (case s of
     Buy \<Rightarrow> if has_bid q then Some (bid_price q, unat (bid_shares q)) else None
   | Sell \<Rightarrow> if has_ask q then Some (ask_price q, unat (ask_shares q)) else None)"

section \<open>The ladders are the sorted prices\<close>

lemma sorted_prices_unique:
  assumes "sorted_wrt (better s) ps" "set ps = o_price ` {ord \<in> set os. o_side ord = s}"
  shows "ps = spec_prices s os"
proof (cases s)
  case Buy
  have "sorted_wrt (\<lambda>p q. p > q) ps"
    using assms(1) Buy by (simp add: better_def [abs_def])
  then have "sorted (rev ps)"
    by (simp add: sorted_wrt_rev) (metis (mono_tags, lifting) less_imp_le sorted_wrt_mono_rel)
  then have "sorted_list_of_set (set (rev ps)) = rev ps"
    using sorted_better_distinct [OF assms(1)] by (intro sorted_list_of_set.idem_if_sorted_distinct) simp_all
  then show ?thesis
    using Buy assms(2) by (simp add: spec_prices_def)
next
  case Sell
  then have "sorted_wrt (<) ps"
    using assms(1) by (simp add: better_def [abs_def])
  then have "sorted ps"
    by (metis (mono_tags, lifting) less_imp_le sorted_wrt_mono_rel)
  then show ?thesis
    using Sell assms(2) sorted_better_distinct [OF assms(1)] sorted_list_of_set.idem_if_sorted_distinct [of ps]
    by (simp add: spec_prices_def)
qed

lemma queue_orders:
  "map (order_at pool) (queue pool xs s p) = spec_queue s p (map (order_at pool) xs)"
  by (simp add: queue_def spec_queue_def filter_map comp_def order_at_def)

lemma prices_on_orders:
  "prices_on pool xs s = o_price ` {ord \<in> set (map (order_at pool) xs). o_side ord = s}"
proof -
  have "{ord \<in> set (map (order_at pool) xs). o_side ord = s} = order_at pool ` {i \<in> set xs. side (pool ! i) = s}"
    by (auto simp: order_at_def)
  then show ?thesis
    unfolding prices_on_image by (simp add: image_image order_at_def)
qed

lemma core_levels:
  assumes "core b xs [] fs" "os = map (order_at (m_pool b)) xs"
  shows "side_levels b s = map (\<lambda>p. level_of (m_pool b) p (queue (m_pool b) xs s p)) (spec_prices s os)"
proof -
  obtain ps where "sorted_wrt (better s) ps" "set ps = prices_on (m_pool b) xs s"
    "side_levels b s = ladder (m_pool b) xs s ps"
    using core_ladder [OF assms(1)] .
  then show ?thesis
    using sorted_prices_unique [of s ps os] by (simp add: prices_on_orders assms(2) ladder_def)
qed

section \<open>Level totals do not wrap\<close>

lemma sum_ucast_no_wrap:
  fixes f :: "nat \<Rightarrow> u32"
  shows "length q < 2 ^ 32 \<Longrightarrow> unat (\<Sum>i\<leftarrow>q. ucast (f i) :: u64) = (\<Sum>i\<leftarrow>q. unat (f i)) \<and>
    (\<Sum>i\<leftarrow>q. unat (f i)) \<le> length q * (2 ^ 32 - 1)"
proof (induction q)
  case (Cons i q)
  then have IH: "unat (\<Sum>i\<leftarrow>q. ucast (f i) :: u64) = (\<Sum>i\<leftarrow>q. unat (f i))"
    "(\<Sum>i\<leftarrow>q. unat (f i)) \<le> length q * (2 ^ 32 - 1)"
    by simp_all
  have le: "unat (f i) \<le> 2 ^ 32 - 1"
    using unsigned_less [of "f i", where 'a = nat] by simp
  have bound: "unat (f i) + (\<Sum>i\<leftarrow>q. unat (f i)) \<le> length (i # q) * (2 ^ 32 - 1)"
    using IH(2) le by simp
  also have "\<dots> \<le> (2 ^ 32 - 1) * (2 ^ 32 - 1)"
    using Cons.prems by (intro mult_le_mono1) simp
  finally have "unat (f i) + (\<Sum>i\<leftarrow>q. unat (f i)) < 2 ^ 64"
    by simp
  then have "unat (\<Sum>i\<leftarrow>i # q. ucast (f i) :: u64) = (\<Sum>i\<leftarrow>i # q. unat (f i))"
    using IH(1) by (simp add: unat_word_ariths(1) unat_ucast_64)
  then show ?case
    using bound by simp
qed simp

lemma level_numbers:
  assumes "core b xs [] fs" "os = map (order_at (m_pool b)) xs"
  shows "unat (total_shares (level_of (m_pool b) p (queue (m_pool b) xs s p))) = spec_total s p os"
    "unat (order_count (level_of (m_pool b) p (queue (m_pool b) xs s p))) = length (spec_queue s p os)"
proof -
  let ?q = "queue (m_pool b) xs s p"
  have q: "spec_queue s p os = map (order_at (m_pool b)) ?q"
    unfolding assms(2) by (rule queue_orders [symmetric])
  have "length ?q \<le> length xs"
    unfolding queue_def by (rule length_filter_le)
  then have len: "length ?q < 2 ^ 32"
    using core_length [OF assms(1)] assms(1) unfolding core_def by simp
  show "unat (total_shares (level_of (m_pool b) p ?q)) = spec_total s p os"
    unfolding spec_total_def q using sum_ucast_no_wrap [OF len, of "\<lambda>i. shares (m_pool b ! i)"]
    by (simp add: level_of_def comp_def order_at_def)
  show "unat (order_count (level_of (m_pool b) p ?q)) = length (spec_queue s p os)"
    unfolding q using unat_of_nat_32 [OF len] by (simp add: level_of_def)
qed

section \<open>The queries\<close>

lemma depth_refines:
  assumes "l3_refines b os"
  shows "map depth_entry (depth b s n) = spec_depth s n os"
proof -
  obtain xs fs where rel: "core b xs [] fs" "os = map (order_at (m_pool b)) xs"
    using assms by (auto simp: l3_refines_def)
  show ?thesis
    unfolding depth_def core_levels [OF rel, of s] spec_depth_def Let_def
    by (auto simp: depth_entry_def level_numbers [OF rel] take_map comp_def min_def)
qed

lemma bbo_refines:
  assumes "l3_refines b os"
  shows "bbo_side (bbo b) s = spec_best s os"
proof -
  obtain xs fs where rel: "core b xs [] fs" "os = map (order_at (m_pool b)) xs"
    using assms by (auto simp: l3_refines_def)
  have "m_bids b = side_levels b Buy" "m_asks b = side_levels b Sell"
    by (simp_all add: side_levels_def)
  then show ?thesis
    unfolding bbo_def spec_best_def
    by (cases s; cases "spec_prices Buy os"; cases "spec_prices Sell os")
      (simp_all add: core_levels [OF rel] level_numbers [OF rel] bbo_side_def blank_bbo_def)
qed

lemma walk_level_dll:
  assumes "dll pool pr q NIL" "\<And>i. i \<in> set q \<Longrightarrow> i < length pool \<and> unat (of_nat i :: u32) = i \<and> (of_nat i :: u32) \<noteq> NIL"
  shows "walk_level pool (first_of q NIL) = Some (map (\<lambda>i. view_of (order_at pool i)) q)"
  using assms
proof (induction q arbitrary: pr)
  case Nil
  then show ?case
    by (simp add: walk_level.simps)
next
  case (Cons i q)
  have "walk_level pool (first_of q NIL) = Some (map (\<lambda>i. view_of (order_at pool i)) q)"
    using Cons.prems by (intro Cons.IH [of "of_nat i"]) simp_all
  then show ?case
    using Cons.prems by (subst walk_level.simps) (simp add: view_of_def order_at_def)
qed

lemma orders_at_refines:
  assumes "l3_refines b os"
  shows "orders_at b s p = Some (map view_of (spec_queue s p os))"
proof -
  obtain xs fs where rel: "core b xs [] fs" and os: "os = map (order_at (m_pool b)) xs"
    using assms by (auto simp: l3_refines_def)
  obtain ps where ps: "sorted_wrt (better s) ps" "set ps = prices_on (m_pool b) xs s"
    "side_levels b s = ladder (m_pool b) xs s ps"
    using core_ladder [OF rel] .
  let ?q = "queue (m_pool b) xs s p"
  have q: "spec_queue s p os = map (order_at (m_pool b)) ?q"
    unfolding os by (rule queue_orders [symmetric])
  show ?thesis
  proof (cases "p \<in> set ps")
    case True
    note find = find_level_core(1) [OF rel ps True] and mem = position_mem [OF ps(1) True]
    have "walk_level (m_pool b) (first_of ?q NIL) = Some (map (\<lambda>i. view_of (order_at (m_pool b) i)) ?q)"
    proof (rule walk_level_dll)
      show "dll (m_pool b) NIL ?q NIL"
        using rel unfolding core_def by blast
      show "i < length (m_pool b) \<and> unat (of_nat i :: u32) = i \<and> (of_nat i :: u32) \<noteq> NIL" if "i \<in> set ?q" for i
        using core_index [OF rel, of i] subsetD [OF queue_subset that] by simp
    qed
    moreover have "find_level b s p \<noteq> NIL" "unat (find_level b s p) = position s p ps"
      using find by blast+
    ultimately show ?thesis
      using mem ps(3) by (simp add: orders_at_def q ladder_def level_of_def comp_def)
  next
    case False
    then show ?thesis
      using find_level_core(2) [OF rel ps False] ps(2) q by (simp add: orders_at_def prices_on_def)
  qed
qed

lemma order_attributes_refine:
  assumes "l3_refines b os"
  shows "order_price b r = Some (map_option o_price (lookup_order r os))"
    "order_side b r = Some (map_option o_side (lookup_order r os))"
    "contains b r = Some (lookup_order r os \<noteq> None)"
proof -
  obtain xs fs where rel: "core b xs [] fs" "index_ok (m_index b) (m_pool b) xs"
    and os: "os = map (order_at (m_pool b)) xs"
    using assms by (auto simp: l3_refines_def)
  have "order_price b r = Some (map_option o_price (lookup_order r os)) \<and>
    order_side b r = Some (map_option o_side (lookup_order r os)) \<and> contains b r = Some (lookup_order r os \<noteq> None)"
    by (rule index_find [OF rel, of r])
      (use core_index [OF rel(1)] in \<open>auto simp: order_price_def order_side_def contains_def oi_contains_def os order_at_def\<close>)
  then show "order_price b r = Some (map_option o_price (lookup_order r os))"
    "order_side b r = Some (map_option o_side (lookup_order r os))"
    "contains b r = Some (lookup_order r os \<noteq> None)"
    by blast+
qed

lemma level_count_refines: "l3_refines b os \<Longrightarrow> level_count b s = length (spec_prices s os)"
  unfolding l3_refines_def level_count_def by (auto simp: core_levels)

lemma book_empty_refines:
  assumes "l3_refines b os"
  shows "book_empty b \<longleftrightarrow> os = []"
proof -
  obtain xs fs where rel: "core b xs [] fs" "index_ok (m_index b) (m_pool b) xs"
    and os: "os = map (order_at (m_pool b)) xs"
    using assms by (auto simp: l3_refines_def)
  have inv: "oi_invar (m_index b)"
    "dom (oi_map (m_index b)) = (\<lambda>i. reference_number (m_pool b ! i)) ` set xs"
    using rel(2) by (simp_all add: index_ok_def dom_map_of_conv_image_fst image_image)
  show ?thesis
    unfolding book_empty_def oi_empty_def oi_count_dom [OF inv(1)] inv(2) os by simp
qed

section \<open>Histories\<close>

datatype BookOp =
    Add u64 Side u32 u32
  | Execute u64 u32
  | Reduce u64 u32
  | Delete u64
  | Replace u64 u64 u32 u32

fun book_step :: "BookOp \<Rightarrow> L3Book \<Rightarrow> L3Book option" where
  "book_step (Add r s sh p) b = add_order b r s sh p"
| "book_step (Execute r sh) b = map_option snd (execute_order b r sh)"
| "book_step (Reduce r sh) b = map_option snd (reduce_order b r sh)"
| "book_step (Delete r) b = delete_order b r"
| "book_step (Replace old_r new_r sh p) b = replace_order b old_r new_r sh p"

fun spec_step :: "BookOp \<Rightarrow> Order list \<Rightarrow> Order list" where
  "spec_step (Add r s sh p) os = spec_add r s sh p os"
| "spec_step (Execute r sh) os = snd (spec_execute r sh os)"
| "spec_step (Reduce r sh) os = snd (spec_execute r sh os)"
| "spec_step (Delete r) os = spec_delete r os"
| "spec_step (Replace old_r new_r sh p) os = spec_replace old_r new_r sh p os"

lemma spec_add_length: "length (spec_add r s sh p os) \<le> length os + 1"
  by (simp add: spec_add_def)

lemma spec_execute_length: "length (snd (spec_execute r sh os)) \<le> length os"
  using spec_delete_length [of r os] by (simp add: spec_execute_def split: option.split)

lemma spec_replace_length: "length (spec_replace old_r new_r sh p os) \<le> length os + 1"
proof (cases "lookup_order old_r os")
  case (Some ord)
  then show ?thesis
    using spec_delete_length [of old_r os] spec_add_length [of new_r "o_side ord" sh p "spec_delete old_r os"]
    by (simp add: spec_replace_def)
qed (simp add: spec_replace_def)

interpretation l3: bounded_simulation book_step spec_step l3_refines length "2 ^ 32 - 1"
proof
  fix b os op
  show "\<exists>b'. book_step op b = Some b' \<and> l3_refines b' (spec_step op os)"
    if rel: "l3_refines b os" "length os < 2 ^ 32 - 1"
  proof (cases op)
    case (Add r s sh p)
    then show ?thesis
      using add_order_refines [OF rel] by fastforce
  next
    case (Execute r sh)
    then show ?thesis
      using execute_order_refines [OF rel(1), of r sh] by auto
  next
    case (Reduce r sh)
    then show ?thesis
      using execute_order_refines [OF rel(1), of r sh] by (auto simp: reduce_order_def)
  next
    case (Delete r)
    then show ?thesis
      using delete_order_refines [OF rel(1)] by fastforce
  next
    case (Replace old_r new_r sh p)
    then show ?thesis
      using replace_order_refines [OF rel] by fastforce
  qed
  show "length (spec_step op os) \<le> length os + 1"
    using spec_add_length spec_execute_length spec_delete_length spec_replace_length
    by (cases op) (simp_all add: le_SucI)
qed

definition book_history :: "string \<Rightarrow> BookOp list \<Rightarrow> L3Book option" where
  "book_history symbol ops = run_steps book_step ops (L3Book_new symbol)"

definition resting :: "BookOp list \<Rightarrow> Order list" where
  "resting ops = fold spec_step ops []"

lemma book_history_refines:
  "length ops \<le> 2 ^ 32 - 1 \<Longrightarrow> \<exists>b. book_history symbol ops = Some b \<and> l3_refines b (resting ops)"
  using l3.run_sim [OF new_refines, of ops symbol] by (simp add: book_history_def resting_def)

lemma spec_prices_sorted: "sorted_wrt (better s) (spec_prices s os)"
proof -
  let ?ps = "sorted_list_of_set (o_price ` {ord \<in> set os. o_side ord = s})"
  have "sorted_wrt (<) ?ps"
    by (rule strict_sorted_list_of_set)
  then show ?thesis
    by (cases s) (simp_all add: spec_prices_def better_def [abs_def] sorted_wrt_rev)
qed

lemma spec_prices_set: "set (spec_prices s os) = o_price ` {ord \<in> set os. o_side ord = s}"
  by (cases s) (simp_all add: spec_prices_def)

lemma resting_snoc: "resting (ops @ [op]) = spec_step op (resting ops)"
  by (simp add: resting_def)

lemma lookup_order_snoc:
  "lookup_order r os = None \<Longrightarrow> lookup_order r (os @ [ord]) = (if o_ref ord = r then Some ord else None)"
  unfolding lookup_order_def by (induction os) (auto split: if_splits)

lemma refines_distinct: "l3_refines b os \<Longrightarrow> distinct (map o_ref os)"
  by (auto simp: l3_refines_def index_ok_def comp_def order_at_def)

lemma lookup_order_split:
  assumes "lookup_order r os = Some ord" "distinct (map o_ref os)"
  obtains os1 os2 where "os = os1 @ ord # os2" "o_ref ord = r" "\<forall>x \<in> set os1 \<union> set os2. o_ref x \<noteq> r"
proof -
  have ord: "ord \<in> set os" "o_ref ord = r"
    using assms(1) by (auto simp: lookup_order_def find_Some_iff)
  then obtain os1 os2 where os: "os = os1 @ ord # os2"
    by (meson split_list)
  moreover have "\<forall>x \<in> set os1 \<union> set os2. o_ref x \<noteq> r"
  proof -
    have "o_ref ord \<notin> o_ref ` (set os1 \<union> set os2)"
      using assms(2) unfolding os by auto
    then show ?thesis
      using ord(2) by (metis image_eqI)
  qed
  ultimately show thesis
    using that ord(2) by blast
qed

text \<open>An execution takes from its level exactly the shares it returns.\<close>

lemma spec_execute_total:
  assumes "lookup_order r os = Some ord" "distinct (map o_ref os)"
  shows "spec_total (o_side ord) (o_price ord) (snd (spec_execute r sh os)) + unat (min sh (o_shares ord)) =
    spec_total (o_side ord) (o_price ord) os"
proof -
  obtain os1 os2 where os: "os = os1 @ ord # os2" "o_ref ord = r" "\<forall>x \<in> set os1 \<union> set os2. o_ref x \<noteq> r"
    using lookup_order_split [OF assms] .
  have del: "spec_delete r os = os1 @ os2"
    using os by (auto simp: spec_delete_def)
  have "map (\<lambda>x. if o_ref x = r then x\<lparr>o_shares := o_shares x - sh\<rparr> else x) os =
      os1 @ ord\<lparr>o_shares := o_shares ord - sh\<rparr> # os2"
    using os by (auto intro: map_idI)
  then show ?thesis
    using assms(1) del os(1)
    by (auto simp: spec_execute_def spec_total_def spec_queue_def min_def unat_sub word_le_nat_alt)
qed

lemma spec_execute_other:
  assumes "lookup_order r os = Some ord" "distinct (map o_ref os)" "s \<noteq> o_side ord \<or> p \<noteq> o_price ord"
  shows "spec_total s p (snd (spec_execute r sh os)) = spec_total s p os"
proof -
  obtain os1 os2 where os: "os = os1 @ ord # os2" "o_ref ord = r" "\<forall>x \<in> set os1 \<union> set os2. o_ref x \<noteq> r"
    using lookup_order_split [OF assms(1,2)] .
  have del: "spec_delete r os = os1 @ os2"
    using os by (auto simp: spec_delete_def)
  have "map (\<lambda>x. if o_ref x = r then x\<lparr>o_shares := o_shares x - sh\<rparr> else x) os =
      os1 @ ord\<lparr>o_shares := o_shares ord - sh\<rparr> # os2"
    using os by (auto intro: map_idI)
  then show ?thesis
    using assms(1,3) del os(1) by (auto simp: spec_execute_def spec_total_def spec_queue_def)
qed

lemma spec_prices_distinct: "distinct (spec_prices s os)"
  by (cases s) (simp_all add: spec_prices_def)

text \<open>The total the book keeps for a price, read from the levels of its ladder; 0 without a level.\<close>

definition level_total :: "L3Book \<Rightarrow> Side \<Rightarrow> u32 \<Rightarrow> nat" where
  "level_total b s p = (\<Sum>l\<leftarrow>filter (\<lambda>l. level_price l = p) (side_levels b s). unat (total_shares l))"

lemma level_total_refines:
  assumes "l3_refines b os"
  shows "level_total b s p = spec_total s p os"
proof -
  obtain xs fs where rel: "core b xs [] fs" "os = map (order_at (m_pool b)) xs"
    using assms by (auto simp: l3_refines_def)
  have "distinct ps \<Longrightarrow> filter (\<lambda>q. q = p) ps = (if p \<in> set ps then [p] else [])" for ps
    by (induction ps) (auto simp: filter_empty_conv)
  then have "filter (\<lambda>q. q = p) (spec_prices s os) = (if p \<in> set (spec_prices s os) then [p] else [])"
    using spec_prices_distinct .
  moreover have "spec_total s p os = 0" if "p \<notin> set (spec_prices s os)"
    using that by (auto simp: spec_prices_set spec_total_def spec_queue_def filter_empty_conv)
  ultimately show ?thesis
    unfolding level_total_def core_levels [OF rel, of s]
    by (simp add: filter_map comp_def level_price_of level_numbers [OF rel])
qed

lemma level_total_orders:
  assumes "l3_refines b os"
  shows "\<exists>vs. orders_at b s p = Some vs \<and> level_total b s p = (\<Sum>v\<leftarrow>vs. unat (view_shares v))"
  by (simp add: orders_at_refines [OF assms] level_total_refines [OF assms] spec_total_def comp_def view_of_def)

section \<open>Properties\<close>

text \<open>
  C5. Any history of adds, executions, cancels, deletes and replaces (fewer than 2^32 of them)
  runs to its end without leaving the pool, a ladder or the index, and the depth of each side is
  that of the abstract book: the prices with resting orders, best first and without duplicates,
  each with the exact sum of the resting shares (the 64-bit total never wraps) and the exact
  number of orders, cut to the requested number of levels (0 asks for all).
\<close>

theorem book_depth_correct:
  assumes "length ops \<le> 2 ^ 32 - 1"
  shows "\<exists>b. book_history symbol ops = Some b \<and>
    (\<forall>s n. map depth_entry (depth b s n) = spec_depth s n (resting ops)) \<and>
    (\<forall>s. level_count b s = length (spec_prices s (resting ops)))"
  using book_history_refines [OF assms, of symbol] depth_refines level_count_refines by blast

theorem book_depth_correct_witness:
  "length [Add 1 Buy 100 50, Add 2 Buy 20 60, Execute 1 30] \<le> 2 ^ 32 - 1 \<and>
   (\<exists>b. book_history ''A'' [Add 1 Buy 100 50, Add 2 Buy 20 60, Execute 1 30] = Some b \<and>
     map depth_entry (depth b Buy 0) = [(60, 20, 1), (50, 70, 1)])"
proof -
  have "spec_depth Buy 0 (resting [Add 1 Buy 100 50, Add 2 Buy 20 60, Execute 1 30]) = [(60, 20, 1), (50, 70, 1)]"
    by code_simp
  then show ?thesis
    using book_depth_correct [of "[Add 1 Buy 100 50, Add 2 Buy 20 60, Execute 1 30]" "''A''"] by auto
qed

text \<open>
  C6. Price-time priority: after any such history the orders of a price level, as \<^verbatim>\<open>orders_at\<close>
  walks them through the linked pool nodes, are the resting orders of that side and price in
  their order of arrival; the walk always ends, and an unknown price gives the empty list.
\<close>

theorem book_orders_at_fifo:
  assumes "length ops \<le> 2 ^ 32 - 1"
  shows "\<exists>b. book_history symbol ops = Some b \<and>
    (\<forall>s p. orders_at b s p = Some (map view_of (filter (\<lambda>ord. o_side ord = s \<and> o_price ord = p) (resting ops))))"
  using book_history_refines [OF assms, of symbol] orders_at_refines unfolding spec_queue_def by blast

theorem book_orders_at_fifo_witness:
  "length [Add 1 Sell 100 50, Add 2 Sell 20 50, Add 3 Sell 5 50, Delete 2] \<le> 2 ^ 32 - 1 \<and>
   (\<exists>b. book_history ''A'' [Add 1 Sell 100 50, Add 2 Sell 20 50, Add 3 Sell 5 50, Delete 2] = Some b \<and>
     map_option (map view_reference_number) (orders_at b Sell 50) = Some [1, 3])"
proof -
  let ?ops = "[Add 1 Sell 100 50, Add 2 Sell 20 50, Add 3 Sell 5 50, Delete 2]"
  have "map view_reference_number (map view_of (filter (\<lambda>ord. o_side ord = Sell \<and> o_price ord = 50) (resting ?ops))) = [1, 3]"
    by code_simp
  then show ?thesis
    using book_orders_at_fifo [of ?ops "''A''"] by auto
qed

text \<open>
  C21. Best bid and offer: after any such history a side is reported empty exactly when no order
  rests on it; otherwise the reported price is the price of a resting order, no resting order of
  the side has a better one (higher for bids, lower for asks), and the reported size is the sum
  of all shares resting at that price.
\<close>

theorem book_bbo_best:
  assumes "length ops \<le> 2 ^ 32 - 1"
  shows "\<exists>b. book_history symbol ops = Some b \<and> (\<forall>s. case bbo_side (bbo b) s of
      None \<Rightarrow> \<forall>ord \<in> set (resting ops). o_side ord \<noteq> s
    | Some (p, n) \<Rightarrow> (\<exists>ord \<in> set (resting ops). o_side ord = s \<and> o_price ord = p) \<and>
        (\<forall>ord \<in> set (resting ops). o_side ord = s \<longrightarrow> \<not> better s (o_price ord) p) \<and>
        n = spec_total s p (resting ops))"
proof -
  obtain b where b: "book_history symbol ops = Some b" "l3_refines b (resting ops)"
    using book_history_refines [OF assms] by blast
  have "case spec_best s (resting ops) of
      None \<Rightarrow> \<forall>ord \<in> set (resting ops). o_side ord \<noteq> s
    | Some (p, n) \<Rightarrow> (\<exists>ord \<in> set (resting ops). o_side ord = s \<and> o_price ord = p) \<and>
        (\<forall>ord \<in> set (resting ops). o_side ord = s \<longrightarrow> \<not> better s (o_price ord) p) \<and>
        n = spec_total s p (resting ops)" for s
  proof (cases "spec_prices s (resting ops)")
    case Nil
    then show ?thesis
      using spec_prices_set [of s "resting ops"] by (auto simp: spec_best_def)
  next
    case (Cons p ps)
    have "\<not> better s q p" if "q \<in> set (p # ps)" for q
      using that spec_prices_sorted [of s "resting ops"] better_trans [of s p q p] unfolding Cons by auto
    moreover have img: "o_price ` {ord \<in> set (resting ops). o_side ord = s} = set (p # ps)"
      using spec_prices_set [of s "resting ops"] unfolding Cons by simp
    moreover have "p \<in> o_price ` {ord \<in> set (resting ops). o_side ord = s}"
      unfolding img by simp
    then have "\<exists>ord \<in> set (resting ops). o_side ord = s \<and> o_price ord = p"
      by blast
    ultimately show ?thesis
      using Cons by (auto simp: spec_best_def)
  qed
  then show ?thesis
    using b bbo_refines [OF b(2)] by auto
qed

theorem book_bbo_best_witness:
  "length [Add 1 Buy 100 50, Add 2 Buy 20 60] \<le> 2 ^ 32 - 1 \<and>
   (\<exists>b. book_history ''A'' [Add 1 Buy 100 50, Add 2 Buy 20 60] = Some b \<and> bbo_side (bbo b) Buy \<noteq> None)"
proof -
  have rest: "resting [Add 1 Buy 100 50, Add 2 Buy 20 60] =
      [\<lparr>o_ref = 1, o_side = Buy, o_shares = 100, o_price = 50\<rparr>, \<lparr>o_ref = 2, o_side = Buy, o_shares = 20, o_price = 60\<rparr>]"
    by code_simp
  obtain b where b: "book_history ''A'' [Add 1 Buy 100 50, Add 2 Buy 20 60] = Some b"
    "\<forall>s. case bbo_side (bbo b) s of None \<Rightarrow> \<forall>ord \<in> set (resting [Add 1 Buy 100 50, Add 2 Buy 20 60]). o_side ord \<noteq> s | Some _ \<Rightarrow> True"
    using book_bbo_best [of "[Add 1 Buy 100 50, Add 2 Buy 20 60]" "''A''"] by (force split: option.splits)
  then have "bbo_side (bbo b) Buy \<noteq> None"
    using spec [OF b(2), of Buy] by (auto simp: rest split: option.splits)
  then show ?thesis
    using b(1) by simp
qed

text \<open>
  C22. Executions: on a book reached by any such history, executing (or cancelling) \<open>sh\<close> shares of
  an order returns the smaller of \<open>sh\<close> and its resting shares; the total that the book keeps for the
  price level of the order falls by exactly that amount, the totals of all other levels of both sides
  stay, and every total is still the sum of the shares of the orders queued at the level. For an unknown
  reference number it returns 0 and leaves the book as it is.
\<close>

theorem book_execute_conserves:
  assumes "length ops < 2 ^ 32 - 1"
  shows "\<exists>b n b'. book_history symbol ops = Some b \<and> execute_order b r sh = Some (n, b') \<and>
    book_history symbol (ops @ [Execute r sh]) = Some b' \<and>
    (\<forall>s p. \<exists>vs. orders_at b' s p = Some vs \<and> level_total b' s p = (\<Sum>v\<leftarrow>vs. unat (view_shares v))) \<and>
    (case lookup_order r (resting ops) of None \<Rightarrow> n = 0 \<and> b' = b
     | Some ord \<Rightarrow> n = min sh (o_shares ord) \<and>
         (\<forall>s p. level_total b' s p + (if s = o_side ord \<and> p = o_price ord then unat n else 0) = level_total b s p))"
proof -
  obtain b where b: "book_history symbol ops = Some b" "l3_refines b (resting ops)"
    using book_history_refines [of ops symbol] assms by auto
  obtain b' where b': "execute_order b r sh = Some (fst (spec_execute r sh (resting ops)), b')"
      "l3_refines b' (snd (spec_execute r sh (resting ops)))"
    using execute_order_refines [OF b(2)] by blast
  have hist: "book_history symbol (ops @ [Execute r sh]) = Some b'"
    using b(1) b'(1) by (simp add: book_history_def run_steps_append)
  show ?thesis
  proof (cases "lookup_order r (resting ops)")
    case None
    then have "oi_find (m_index b) r = Some NPOS"
      using order_attributes_refine(3) [OF b(2), of r]
      by (auto simp: contains_def oi_contains_def Option.bind_eq_Some_conv)
    then show ?thesis
      using b b' hist None level_total_orders [OF b(2)] by (auto simp: execute_order_def)
  next
    case (Some ord)
    have "fst (spec_execute r sh (resting ops)) = min sh (o_shares ord)"
      using Some by (auto simp: spec_execute_def min_def)
    moreover have "level_total b' s p + (if s = o_side ord \<and> p = o_price ord then unat (min sh (o_shares ord)) else 0) =
        level_total b s p" for s p
      using spec_execute_total [OF Some refines_distinct [OF b(2)], of sh]
        spec_execute_other [OF Some refines_distinct [OF b(2)], of s p sh]
      by (simp add: level_total_refines [OF b(2)] level_total_refines [OF b'(2)])
    ultimately show ?thesis
      using b(1) b'(1) hist Some level_total_orders [OF b'(2)] by simp
  qed
qed

theorem book_execute_conserves_witness:
  "length [Add 1 Buy 100 50] < 2 ^ 32 - 1 \<and>
   (\<exists>b n b'. book_history ''A'' [Add 1 Buy 100 50] = Some b \<and> execute_order b 1 30 = Some (n, b') \<and> n = 30 \<and>
     level_total b' Buy 50 + 30 = level_total b Buy 50)"
proof -
  have "lookup_order 1 (resting [Add 1 Buy 100 50]) = Some \<lparr>o_ref = 1, o_side = Buy, o_shares = 100, o_price = 50\<rparr>"
    by code_simp
  then obtain b n b' where run: "book_history ''A'' [Add 1 Buy 100 50] = Some b" "execute_order b 1 30 = Some (n, b')" "n = 30"
    "\<forall>s p. level_total b' s p + (if s = Buy \<and> p = 50 then unat n else 0) = level_total b s p"
    using book_execute_conserves [of "[Add 1 Buy 100 50]" "''A''" 1 30] by (auto simp: min_def)
  then have "level_total b' Buy 50 + 30 = level_total b Buy 50"
    using spec [OF spec [OF run(4), of Buy], of 50] by simp
  then show ?thesis
    using run(1-3) by simp
qed

text \<open>
  Replacement: on a book reached by any such history, replacing a resting order keeps its
  side, removes the old reference number and, when the new one is not in use, puts the new order
  behind all orders already resting at the new price (it loses its time priority).
\<close>

theorem book_replace_requeues:
  assumes "length ops < 2 ^ 32 - 1" "lookup_order old_r (resting ops) = Some ord"
    and "lookup_order new_r (spec_delete old_r (resting ops)) = None" "old_r \<noteq> new_r"
  shows "\<exists>b. book_history symbol (ops @ [Replace old_r new_r sh p]) = Some b \<and>
    orders_at b (o_side ord) p = Some (map view_of (spec_queue (o_side ord) p (spec_delete old_r (resting ops))) @
      [\<lparr>view_reference_number = new_r, view_shares = sh, view_price = p\<rparr>]) \<and>
    contains b old_r = Some False \<and> order_side b new_r = Some (Some (o_side ord))"
proof -
  obtain b where b: "book_history symbol (ops @ [Replace old_r new_r sh p]) = Some b"
    "l3_refines b (resting (ops @ [Replace old_r new_r sh p]))"
    using book_history_refines [of "ops @ [Replace old_r new_r sh p]" symbol] assms(1) by auto
  let ?del = "spec_delete old_r (resting ops)"
  let ?new = "\<lparr>o_ref = new_r, o_side = o_side ord, o_shares = sh, o_price = p\<rparr>"
  have rest: "resting (ops @ [Replace old_r new_r sh p]) = ?del @ [?new]"
    using assms(2,3) by (simp add: resting_snoc spec_replace_def spec_add_def)
  have "lookup_order old_r (?del @ [?new]) = None"
    using lookup_order_delete [of old_r "resting ops"] assms(4) by (auto simp: lookup_order_def find_None_iff)
  moreover have "lookup_order new_r (?del @ [?new]) = Some ?new"
    using lookup_order_snoc [OF assms(3), of ?new] by simp
  ultimately show ?thesis
    using b orders_at_refines [OF b(2)] order_attributes_refine [OF b(2)]
    by (simp add: rest spec_queue_def view_of_def)
qed

theorem book_replace_requeues_witness:
  "\<exists>b. book_history ''A'' ([Add 1 Buy 100 50, Add 2 Buy 10 50] @ [Replace 1 7 80 50]) = Some b \<and>
    map_option (map view_reference_number) (orders_at b Buy 50) = Some [2, 7]"
proof -
  let ?ops = "[Add 1 Buy 100 50, Add 2 Buy 10 50]"
  let ?o = "\<lparr>o_ref = 1, o_side = Buy, o_shares = 100, o_price = 50\<rparr>"
  have "lookup_order 1 (resting ?ops) = Some ?o" "lookup_order 7 (spec_delete 1 (resting ?ops)) = None"
    "map view_reference_number (map view_of (spec_queue Buy 50 (spec_delete 1 (resting ?ops)))) = [2]"
    by code_simp+
  then show ?thesis
    using book_replace_requeues [of ?ops 1 ?o 7 "''A''" 80 50] by auto
qed

end
