(* ===== verification/Messages.thy ===== *)
theory Messages
  imports Itch_Prelude
begin

text \<open>
  The message structs of \<^verbatim>\<open>include/itch/messages.hpp\<close>, one record per struct, and the
  \<^verbatim>\<open>Message\<close> variant over them. Every struct starts with the same four fields; they are the
  parent record \<open>MessageHeader\<close>, so that the templates that work on any message type
  (\<^verbatim>\<open>decode_typed\<close>, \<^verbatim>\<open>write_header\<close>, \<^verbatim>\<open>fill_common\<close>) are one definition each.
  A \<^verbatim>\<open>char\<close> array of \<open>n\<close> elements is a list of characters; \<open>wf_message\<close> states that it has
  its \<open>n\<close> elements, that the type byte is the struct's own and that the timestamp fits the
  48 bits the wire has for it.
\<close>

section \<open>The message structs\<close>

record MessageHeader =
  message_type :: char
  stock_locate :: u16
  tracking_number :: u16
  timestamp :: u64

record SystemEventMessage = MessageHeader +
  event_code :: char

record StockDirectoryMessage = MessageHeader +
  stock :: "char list"
  market_category :: char
  financial_status_indicator :: char
  round_lot_size :: u32
  round_lots_only :: char
  issue_classification :: char
  issue_sub_type :: "char list"
  authenticity :: char
  short_sale_threshold_indicator :: char
  ipo_flag :: char
  luld_ref :: char
  etp_flag :: char
  etp_leverage_factor :: u32
  inverse_indicator :: char

record StockTradingActionMessage = MessageHeader +
  stock :: "char list"
  trading_state :: char
  reserved :: char
  reason :: "char list"

record RegSHOMessage = MessageHeader +
  stock :: "char list"
  reg_sho_action :: char

record MarketParticipantPositionMessage = MessageHeader +
  mpid :: "char list"
  stock :: "char list"
  primary_market_maker :: char
  market_maker_mode :: char
  market_participant_state :: char

record MWCBDeclineLevelMessage = MessageHeader +
  level1 :: u64
  level2 :: u64
  level3 :: u64

record MWCBStatusMessage = MessageHeader +
  breached_level :: char

record IPOQuotingPeriodUpdateMessage = MessageHeader +
  stock :: "char list"
  ipo_quotation_release_time :: u32
  ipo_quotation_release_qualifier :: char
  ipo_price :: u32

record LULDAuctionCollarMessage = MessageHeader +
  stock :: "char list"
  auction_collar_reference_price :: u32
  upper_auction_collar_price :: u32
  lower_auction_collar_price :: u32
  auction_collar_extension :: u32

record OperationalHaltMessage = MessageHeader +
  stock :: "char list"
  market_code :: char
  operational_halt_action :: char

record AddOrderMessage = MessageHeader +
  order_reference_number :: u64
  buy_sell_indicator :: char
  shares :: u32
  stock :: "char list"
  price :: u32

record AddOrderMPIDAttributionMessage = MessageHeader +
  order_reference_number :: u64
  buy_sell_indicator :: char
  shares :: u32
  stock :: "char list"
  price :: u32
  attribution :: "char list"

record OrderExecutedMessage = MessageHeader +
  order_reference_number :: u64
  executed_shares :: u32
  match_number :: u64

record OrderExecutedWithPriceMessage = MessageHeader +
  order_reference_number :: u64
  executed_shares :: u32
  match_number :: u64
  printable :: char
  execution_price :: u32

record OrderCancelMessage = MessageHeader +
  order_reference_number :: u64
  cancelled_shares :: u32

record OrderDeleteMessage = MessageHeader +
  order_reference_number :: u64

record OrderReplaceMessage = MessageHeader +
  original_order_reference_number :: u64
  new_order_reference_number :: u64
  shares :: u32
  price :: u32

record NonCrossTradeMessage = MessageHeader +
  order_reference_number :: u64
  buy_sell_indicator :: char
  shares :: u32
  stock :: "char list"
  price :: u32
  match_number :: u64

record CrossTradeMessage = MessageHeader +
  shares :: u64
  stock :: "char list"
  cross_price :: u32
  match_number :: u64
  cross_type :: char

record BrokenTradeMessage = MessageHeader +
  match_number :: u64

record NOIIMessage = MessageHeader +
  paired_shares :: u64
  imbalance_shares :: u64
  imbalance_direction :: char
  stock :: "char list"
  far_price :: u32
  near_price :: u32
  current_reference_price :: u32
  cross_type :: char
  price_variation_indicator :: char

record RetailPriceImprovementIndicatorMessage = MessageHeader +
  stock :: "char list"
  interest_flag :: char

record DLCRMessage = MessageHeader +
  stock :: "char list"
  open_eligibility_status :: char
  minimum_allowable_price :: u32
  maximum_allowable_price :: u32
  near_execution_price :: u32
  near_execution_time :: u64
  lower_price_range_collar :: u32
  upper_price_range_collar :: u32

section \<open>The variant\<close>

datatype Message =
    SystemEvent SystemEventMessage
  | StockDirectory StockDirectoryMessage
  | StockTradingAction StockTradingActionMessage
  | RegSHO RegSHOMessage
  | MarketParticipantPosition MarketParticipantPositionMessage
  | MWCBDeclineLevel MWCBDeclineLevelMessage
  | MWCBStatus MWCBStatusMessage
  | IPOQuotingPeriodUpdate IPOQuotingPeriodUpdateMessage
  | LULDAuctionCollar LULDAuctionCollarMessage
  | OperationalHalt OperationalHaltMessage
  | AddOrder AddOrderMessage
  | AddOrderMPIDAttribution AddOrderMPIDAttributionMessage
  | OrderExecuted OrderExecutedMessage
  | OrderExecutedWithPrice OrderExecutedWithPriceMessage
  | OrderCancel OrderCancelMessage
  | OrderDelete OrderDeleteMessage
  | OrderReplace OrderReplaceMessage
  | NonCrossTrade NonCrossTradeMessage
  | CrossTrade CrossTradeMessage
  | BrokenTrade BrokenTradeMessage
  | NOII NOIIMessage
  | RetailPriceImprovementIndicator RetailPriceImprovementIndicatorMessage
  | DLCR DLCRMessage

text \<open>
  \<^verbatim>\<open>std::visit\<close> with a generic lambda that reads one of the common attributes. The header is
  the message record cut down to its four common fields.
\<close>

fun header_of :: "Message \<Rightarrow> MessageHeader" where
  "header_of (SystemEvent m) = MessageHeader.truncate m"
| "header_of (StockDirectory m) = MessageHeader.truncate m"
| "header_of (StockTradingAction m) = MessageHeader.truncate m"
| "header_of (RegSHO m) = MessageHeader.truncate m"
| "header_of (MarketParticipantPosition m) = MessageHeader.truncate m"
| "header_of (MWCBDeclineLevel m) = MessageHeader.truncate m"
| "header_of (MWCBStatus m) = MessageHeader.truncate m"
| "header_of (IPOQuotingPeriodUpdate m) = MessageHeader.truncate m"
| "header_of (LULDAuctionCollar m) = MessageHeader.truncate m"
| "header_of (OperationalHalt m) = MessageHeader.truncate m"
| "header_of (AddOrder m) = MessageHeader.truncate m"
| "header_of (AddOrderMPIDAttribution m) = MessageHeader.truncate m"
| "header_of (OrderExecuted m) = MessageHeader.truncate m"
| "header_of (OrderExecutedWithPrice m) = MessageHeader.truncate m"
| "header_of (OrderCancel m) = MessageHeader.truncate m"
| "header_of (OrderDelete m) = MessageHeader.truncate m"
| "header_of (OrderReplace m) = MessageHeader.truncate m"
| "header_of (NonCrossTrade m) = MessageHeader.truncate m"
| "header_of (CrossTrade m) = MessageHeader.truncate m"
| "header_of (BrokenTrade m) = MessageHeader.truncate m"
| "header_of (NOII m) = MessageHeader.truncate m"
| "header_of (RetailPriceImprovementIndicator m) = MessageHeader.truncate m"
| "header_of (DLCR m) = MessageHeader.truncate m"

definition message_type_of :: "Message \<Rightarrow> char" where
  "message_type_of m = message_type (header_of m)"

definition stock_locate_of :: "Message \<Rightarrow> u16" where
  "stock_locate_of m = stock_locate (header_of m)"

definition timestamp_of :: "Message \<Rightarrow> u64" where
  "timestamp_of m = timestamp (header_of m)"

lemma header_truncate [simp]:
  "message_type (MessageHeader.truncate m) = message_type m"
  "stock_locate (MessageHeader.truncate m) = stock_locate m"
  "tracking_number (MessageHeader.truncate m) = tracking_number m"
  "timestamp (MessageHeader.truncate m) = timestamp m"
  by (cases m; simp add: MessageHeader.truncate_def)+

definition STOCK_LEN :: nat where
  "STOCK_LEN = 8"

section \<open>to\_string\<close>

definition to_string :: "char list \<Rightarrow> nat \<Rightarrow> string" where
  "to_string source n = take (trim_len is_pad source n) source"

section \<open>Message types as template arguments\<close>

text \<open>
  The sources select a message struct by a template argument; \<open>MsgType\<close> names the
  arguments, and the packed struct size is the sum of the field widths
  (\<^verbatim>\<open>#pragma pack(push, 1)\<close>).
\<close>

datatype MsgType =
    SystemEventT
  | StockDirectoryT
  | StockTradingActionT
  | RegSHOT
  | MarketParticipantPositionT
  | MWCBDeclineLevelT
  | MWCBStatusT
  | IPOQuotingPeriodUpdateT
  | LULDAuctionCollarT
  | OperationalHaltT
  | AddOrderT
  | AddOrderMPIDAttributionT
  | OrderExecutedT
  | OrderExecutedWithPriceT
  | OrderCancelT
  | OrderDeleteT
  | OrderReplaceT
  | NonCrossTradeT
  | CrossTradeT
  | BrokenTradeT
  | NOIIT
  | RetailPriceImprovementIndicatorT
  | DLCRT

fun msg_type :: "Message \<Rightarrow> MsgType" where
  "msg_type (SystemEvent m) = SystemEventT"
| "msg_type (StockDirectory m) = StockDirectoryT"
| "msg_type (StockTradingAction m) = StockTradingActionT"
| "msg_type (RegSHO m) = RegSHOT"
| "msg_type (MarketParticipantPosition m) = MarketParticipantPositionT"
| "msg_type (MWCBDeclineLevel m) = MWCBDeclineLevelT"
| "msg_type (MWCBStatus m) = MWCBStatusT"
| "msg_type (IPOQuotingPeriodUpdate m) = IPOQuotingPeriodUpdateT"
| "msg_type (LULDAuctionCollar m) = LULDAuctionCollarT"
| "msg_type (OperationalHalt m) = OperationalHaltT"
| "msg_type (AddOrder m) = AddOrderT"
| "msg_type (AddOrderMPIDAttribution m) = AddOrderMPIDAttributionT"
| "msg_type (OrderExecuted m) = OrderExecutedT"
| "msg_type (OrderExecutedWithPrice m) = OrderExecutedWithPriceT"
| "msg_type (OrderCancel m) = OrderCancelT"
| "msg_type (OrderDelete m) = OrderDeleteT"
| "msg_type (OrderReplace m) = OrderReplaceT"
| "msg_type (NonCrossTrade m) = NonCrossTradeT"
| "msg_type (CrossTrade m) = CrossTradeT"
| "msg_type (BrokenTrade m) = BrokenTradeT"
| "msg_type (NOII m) = NOIIT"
| "msg_type (RetailPriceImprovementIndicator m) = RetailPriceImprovementIndicatorT"
| "msg_type (DLCR m) = DLCRT"

text \<open>The default member initialiser of \<^verbatim>\<open>message_type\<close>.\<close>

fun type_byte :: "MsgType \<Rightarrow> char" where
  "type_byte SystemEventT = CHR ''S''"
| "type_byte StockDirectoryT = CHR ''R''"
| "type_byte StockTradingActionT = CHR ''H''"
| "type_byte RegSHOT = CHR ''Y''"
| "type_byte MarketParticipantPositionT = CHR ''L''"
| "type_byte MWCBDeclineLevelT = CHR ''V''"
| "type_byte MWCBStatusT = CHR ''W''"
| "type_byte IPOQuotingPeriodUpdateT = CHR ''K''"
| "type_byte LULDAuctionCollarT = CHR ''J''"
| "type_byte OperationalHaltT = CHR ''h''"
| "type_byte AddOrderT = CHR ''A''"
| "type_byte AddOrderMPIDAttributionT = CHR ''F''"
| "type_byte OrderExecutedT = CHR ''E''"
| "type_byte OrderExecutedWithPriceT = CHR ''C''"
| "type_byte OrderCancelT = CHR ''X''"
| "type_byte OrderDeleteT = CHR ''D''"
| "type_byte OrderReplaceT = CHR ''U''"
| "type_byte NonCrossTradeT = CHR ''P''"
| "type_byte CrossTradeT = CHR ''Q''"
| "type_byte BrokenTradeT = CHR ''B''"
| "type_byte NOIIT = CHR ''I''"
| "type_byte RetailPriceImprovementIndicatorT = CHR ''N''"
| "type_byte DLCRT = CHR ''O''"

text \<open>\<^verbatim>\<open>sizeof\<close> of the packed struct: type, locate, tracking number, timestamp, then the body.\<close>

definition header_sizeof :: nat where
  "header_sizeof = 1 + 2 + 2 + 8"

fun struct_sizeof :: "MsgType \<Rightarrow> nat" where
  "struct_sizeof SystemEventT = header_sizeof + (1)"
| "struct_sizeof StockDirectoryT = header_sizeof + (8 + 1 + 1 + 4 + 1 + 1 + 2 + 1 + 1 + 1 + 1 + 1 + 4 + 1)"
| "struct_sizeof StockTradingActionT = header_sizeof + (8 + 1 + 1 + 4)"
| "struct_sizeof RegSHOT = header_sizeof + (8 + 1)"
| "struct_sizeof MarketParticipantPositionT = header_sizeof + (4 + 8 + 1 + 1 + 1)"
| "struct_sizeof MWCBDeclineLevelT = header_sizeof + (8 + 8 + 8)"
| "struct_sizeof MWCBStatusT = header_sizeof + (1)"
| "struct_sizeof IPOQuotingPeriodUpdateT = header_sizeof + (8 + 4 + 1 + 4)"
| "struct_sizeof LULDAuctionCollarT = header_sizeof + (8 + 4 + 4 + 4 + 4)"
| "struct_sizeof OperationalHaltT = header_sizeof + (8 + 1 + 1)"
| "struct_sizeof AddOrderT = header_sizeof + (8 + 1 + 4 + 8 + 4)"
| "struct_sizeof AddOrderMPIDAttributionT = header_sizeof + (8 + 1 + 4 + 8 + 4 + 4)"
| "struct_sizeof OrderExecutedT = header_sizeof + (8 + 4 + 8)"
| "struct_sizeof OrderExecutedWithPriceT = header_sizeof + (8 + 4 + 8 + 1 + 4)"
| "struct_sizeof OrderCancelT = header_sizeof + (8 + 4)"
| "struct_sizeof OrderDeleteT = header_sizeof + (8)"
| "struct_sizeof OrderReplaceT = header_sizeof + (8 + 8 + 4 + 4)"
| "struct_sizeof NonCrossTradeT = header_sizeof + (8 + 1 + 4 + 8 + 4 + 8)"
| "struct_sizeof CrossTradeT = header_sizeof + (8 + 8 + 4 + 8 + 1)"
| "struct_sizeof BrokenTradeT = header_sizeof + (8)"
| "struct_sizeof NOIIT = header_sizeof + (8 + 8 + 1 + 8 + 4 + 4 + 4 + 1 + 1)"
| "struct_sizeof RetailPriceImprovementIndicatorT = header_sizeof + (8 + 1)"
| "struct_sizeof DLCRT = header_sizeof + (8 + 1 + 4 + 4 + 4 + 8 + 4 + 4)"

section \<open>Well-formed messages\<close>

definition wf_header :: "MsgType \<Rightarrow> 'a MessageHeader_scheme \<Rightarrow> bool" where
  "wf_header t m \<longleftrightarrow> message_type m = type_byte t \<and> unat (timestamp m) < 2 ^ 48"

fun wf_arrays :: "Message \<Rightarrow> bool" where
  "wf_arrays (SystemEvent m) = True"
| "wf_arrays (StockDirectory m) = (length (StockDirectoryMessage.stock m) = 8 \<and> length (StockDirectoryMessage.issue_sub_type m) = 2)"
| "wf_arrays (StockTradingAction m) = (length (StockTradingActionMessage.stock m) = 8 \<and> length (StockTradingActionMessage.reason m) = 4)"
| "wf_arrays (RegSHO m) = (length (RegSHOMessage.stock m) = 8)"
| "wf_arrays (MarketParticipantPosition m) = (length (MarketParticipantPositionMessage.mpid m) = 4 \<and> length (MarketParticipantPositionMessage.stock m) = 8)"
| "wf_arrays (MWCBDeclineLevel m) = True"
| "wf_arrays (MWCBStatus m) = True"
| "wf_arrays (IPOQuotingPeriodUpdate m) = (length (IPOQuotingPeriodUpdateMessage.stock m) = 8)"
| "wf_arrays (LULDAuctionCollar m) = (length (LULDAuctionCollarMessage.stock m) = 8)"
| "wf_arrays (OperationalHalt m) = (length (OperationalHaltMessage.stock m) = 8)"
| "wf_arrays (AddOrder m) = (length (AddOrderMessage.stock m) = 8)"
| "wf_arrays (AddOrderMPIDAttribution m) = (length (AddOrderMPIDAttributionMessage.stock m) = 8 \<and> length (AddOrderMPIDAttributionMessage.attribution m) = 4)"
| "wf_arrays (OrderExecuted m) = True"
| "wf_arrays (OrderExecutedWithPrice m) = True"
| "wf_arrays (OrderCancel m) = True"
| "wf_arrays (OrderDelete m) = True"
| "wf_arrays (OrderReplace m) = True"
| "wf_arrays (NonCrossTrade m) = (length (NonCrossTradeMessage.stock m) = 8)"
| "wf_arrays (CrossTrade m) = (length (CrossTradeMessage.stock m) = 8)"
| "wf_arrays (BrokenTrade m) = True"
| "wf_arrays (NOII m) = (length (NOIIMessage.stock m) = 8)"
| "wf_arrays (RetailPriceImprovementIndicator m) = (length (RetailPriceImprovementIndicatorMessage.stock m) = 8)"
| "wf_arrays (DLCR m) = (length (DLCRMessage.stock m) = 8)"

definition wf_message :: "Message \<Rightarrow> bool" where
  "wf_message m \<longleftrightarrow> wf_header (msg_type m) (header_of m) \<and> wf_arrays m"

lemma trimmed_prefix: "\<exists>pad. to_string source n @ pad = source"
  by (metis append_take_drop_id to_string_def)

lemma to_string_last:
  assumes "n \<le> length source" and "to_string source n \<noteq> []"
  shows "\<not> is_pad (last (to_string source n))"
proof -
  let ?k = "trim_len is_pad source n"
  from assms(2) obtain k where k: "?k = Suc k"
    by (cases ?k) (auto simp: to_string_def)
  have "?k \<le> length source"
    using trim_len_le [of is_pad source n] assms(1) by simp
  with k have "last (to_string source n) = source ! k"
    by (simp add: to_string_def take_Suc_conv_app_nth)
  then show ?thesis
    using trim_len_stop [OF k] by simp
qed

lemma to_string_padding:
  assumes "length source = n"
  shows "list_all is_pad (drop (length (to_string source n)) source)"
  using trim_len_padding [of is_pad source n] trim_len_le [of is_pad source n] assms
  by (auto simp: list_all_length to_string_def)

end
