(* ===== verification/Prices.thy ===== *)
theory Prices
  imports Itch_Prelude
begin

text \<open>
  The typed fixed-point prices of \<^verbatim>\<open>include/itch/price.hpp\<close>. Each scale is a type of its own, as in
  the source, where it is an instance of the template \<^verbatim>\<open>BasicPrice<RawType, Decimals>\<close>. The
  conversions to floating point and text are in \<open>Price_Format\<close>.
\<close>

datatype StandardPrice = StandardPrice (raw: u32)

datatype MwcbPrice = MwcbPrice (mwcb_raw: u64)

definition make_price :: "u32 \<Rightarrow> StandardPrice" where
  "make_price raw_value = StandardPrice raw_value"

definition make_mwcb_price :: "u64 \<Rightarrow> MwcbPrice" where
  "make_mwcb_price raw_value = MwcbPrice raw_value"

text \<open>\<^verbatim>\<open>operator==\<close> and \<^verbatim>\<open>operator<=>\<close> compare the raw values.\<close>

instantiation StandardPrice :: linorder
begin

definition less_eq_StandardPrice :: "StandardPrice \<Rightarrow> StandardPrice \<Rightarrow> bool" where
  "less_eq_StandardPrice p q \<longleftrightarrow> raw p \<le> raw q"

definition less_StandardPrice :: "StandardPrice \<Rightarrow> StandardPrice \<Rightarrow> bool" where
  "less_StandardPrice p q \<longleftrightarrow> raw p < raw q"

instance
  by standard (auto simp: less_eq_StandardPrice_def less_StandardPrice_def StandardPrice.expand)

end

text \<open>\<^verbatim>\<open>divisor\<close>: the loop that multiplies by ten once per decimal, in the raw type.\<close>

fun divisor :: "nat \<Rightarrow> 'w::len word" where
  "divisor 0 = 1"
| "divisor (Suc exponent) = divisor exponent * 10"

lemma divisor_power: "divisor n = 10 ^ n"
  by (induction n) simp_all

lemma divisor_exact:
  "unat (divisor 4 :: u32) = 10 ^ 4" "unat (divisor 8 :: u64) = 10 ^ 8"
  by (simp_all add: divisor_power)

end
