(* ===== verification/Book_Manager.thy ===== *)
theory Book_Manager
  imports L3_Queries Messages Prices
begin

text \<open>
  \<^verbatim>\<open>BookManager\<close> of \<^verbatim>\<open>include/itch/book/book_manager.hpp\<close> and \<^verbatim>\<open>src/book/book_manager.cpp\<close>: it
  routes parsed messages to one order book per stock locate, creates books for the symbols of
  the configured universe, and reports changes of the best bid and offer and the trade tape
  (\<^verbatim>\<open>include/itch/tape.hpp\<close>). Callbacks act on a caller state of type \<open>'s\<close>.
\<close>

section \<open>The trade tape record\<close>

record Trade =
  trade_timestamp :: u64
  trade_stock_locate :: u16
  trade_symbol :: string
  trade_price :: StandardPrice
  trade_shares :: u64
  trade_match_number :: u64
  trade_side :: char
  trade_printable :: bool
  trade_is_cross :: bool
  trade_cross_type :: char

definition blank_trade :: Trade where
  "blank_trade = \<lparr>trade_timestamp = 0, trade_stock_locate = 0, trade_symbol = [],
     trade_price = StandardPrice 0, trade_shares = 0, trade_match_number = 0, trade_side = CHR 0x00,
     trade_printable = True, trade_is_cross = False, trade_cross_type = CHR 0x00\<rparr>"

section \<open>The manager\<close>

record BookEntry =
  entry_book :: L3Book
  last_bbo :: Bbo

record 's BookManager =
  m_books_by_locate :: "BookEntry option list"
  m_symbol_by_locate :: "string list"
  m_universe :: "string set"
  m_bbo_callback :: "('s \<Rightarrow> L3Book \<Rightarrow> Bbo \<Rightarrow> 's) option"
  m_trade_callback :: "('s \<Rightarrow> Trade \<Rightarrow> 's) option"
  m_book_count :: nat

definition BookManager_new :: "'s BookManager" where
  "BookManager_new = \<lparr>m_books_by_locate = [], m_symbol_by_locate = [], m_universe = {},
     m_bbo_callback = None, m_trade_callback = None, m_book_count = 0\<rparr>"

definition set_bbo_callback :: "('s \<Rightarrow> L3Book \<Rightarrow> Bbo \<Rightarrow> 's) option \<Rightarrow> 's BookManager \<Rightarrow> 's BookManager" where
  "set_bbo_callback callback mgr = mgr\<lparr>m_bbo_callback := callback\<rparr>"

definition set_trade_callback :: "('s \<Rightarrow> Trade \<Rightarrow> 's) option \<Rightarrow> 's BookManager \<Rightarrow> 's BookManager" where
  "set_trade_callback callback mgr = mgr\<lparr>m_trade_callback := callback\<rparr>"

definition track_symbol :: "string \<Rightarrow> 's BookManager \<Rightarrow> 's BookManager" where
  "track_symbol symbol mgr = mgr\<lparr>m_universe := insert symbol (m_universe mgr)\<rparr>"

definition to_side :: "char \<Rightarrow> Side" where
  "to_side indicator = (if indicator = CHR ''B'' then Buy else Sell)"

definition in_universe :: "'s BookManager \<Rightarrow> string \<Rightarrow> bool" where
  "in_universe mgr symbol \<longleftrightarrow> m_universe mgr = {} \<or> symbol \<in> m_universe mgr"

text \<open>A null pointer is \<open>None\<close>.\<close>

definition entry :: "'s BookManager \<Rightarrow> u16 \<Rightarrow> BookEntry option" where
  "entry mgr l =
     (if unat l \<ge> length (m_books_by_locate mgr) then None else m_books_by_locate mgr ! unat l)"

text \<open>Writing through a pointer to the entry of a locate.\<close>

definition put_entry :: "u16 \<Rightarrow> BookEntry \<Rightarrow> 's BookManager \<Rightarrow> 's BookManager" where
  "put_entry l e mgr = mgr\<lparr>m_books_by_locate := (m_books_by_locate mgr)[unat l := Some e]\<rparr>"

text \<open>\<^verbatim>\<open>std::vector::resize\<close> to a larger size.\<close>

definition grow :: "nat \<Rightarrow> 'a \<Rightarrow> 'a list \<Rightarrow> 'a list" where
  "grow n x xs = xs @ replicate (n - length xs) x"

definition ensure_entry :: "u16 \<Rightarrow> string \<Rightarrow> 's BookManager \<Rightarrow> BookEntry option \<times> 's BookManager" where
  "ensure_entry l symbol mgr =
     (let mgr = (if unat l \<ge> length (m_books_by_locate mgr)
                 then mgr\<lparr>m_books_by_locate := grow (unat l + 1) None (m_books_by_locate mgr)\<rparr> else mgr)
      in case m_books_by_locate mgr ! unat l of
           Some slot \<Rightarrow>
             (let slot = (if m_symbol (entry_book slot) = [] \<and> symbol \<noteq> []
                          then slot\<lparr>entry_book := set_symbol (entry_book slot) symbol\<rparr> else slot)
              in (Some slot, put_entry l slot mgr))
         | None \<Rightarrow>
             if \<not> in_universe mgr symbol then (None, mgr)
             else (let e = \<lparr>entry_book = set_symbol (L3Book_new []) symbol, last_bbo = blank_bbo\<rparr>;
                       mgr = put_entry l e mgr
                   in (Some e, mgr\<lparr>m_book_count := m_book_count mgr + 1\<rparr>)))"

definition emit_bbo_if_changed :: "u16 \<Rightarrow> BookEntry \<Rightarrow> 's BookManager \<times> 's \<Rightarrow> 's BookManager \<times> 's" where
  "emit_bbo_if_changed l target = (\<lambda>(mgr, s).
     let current = bbo (entry_book target)
     in if current \<noteq> last_bbo target
        then (put_entry l (target\<lparr>last_bbo := current\<rparr>) mgr,
              case m_bbo_callback mgr of None \<Rightarrow> s | Some cb \<Rightarrow> cb s (entry_book target) current)
        else (put_entry l target mgr, s))"

text \<open>The template over the two add messages, with the fields it reads as arguments.\<close>

definition handle_add_order ::
  "u16 \<Rightarrow> char list \<Rightarrow> u64 \<Rightarrow> char \<Rightarrow> u32 \<Rightarrow> u32 \<Rightarrow> 's BookManager \<times> 's \<Rightarrow> ('s BookManager \<times> 's) option" where
  "handle_add_order l stk r indicator sh p = (\<lambda>(mgr, s).
     case ensure_entry l (to_string stk STOCK_LEN) mgr of
       (None, mgr) \<Rightarrow> Some (mgr, s)
     | (Some target, mgr) \<Rightarrow> do {
         b \<leftarrow> add_order (entry_book target) r (to_side indicator) sh p;
         Some (emit_bbo_if_changed l (target\<lparr>entry_book := b\<rparr>) (mgr, s)) })"

definition side_char :: "Side option \<Rightarrow> char" where
  "side_char s = (case s of Some s \<Rightarrow> char_of_side s | None \<Rightarrow> CHR 0x00)"

definition handle_order_executed ::
  "OrderExecutedMessage \<Rightarrow> 's BookManager \<times> 's \<Rightarrow> ('s BookManager \<times> 's) option" where
  "handle_order_executed exec = (\<lambda>(mgr, s).
     let l = stock_locate exec; r = OrderExecutedMessage.order_reference_number exec;
         sh = OrderExecutedMessage.executed_shares exec
     in case entry mgr l of
       None \<Rightarrow> Some (mgr, s)
     | Some target \<Rightarrow> do {
         s \<leftarrow> (case m_trade_callback mgr of
             None \<Rightarrow> Some s
           | Some cb \<Rightarrow> do {
               p \<leftarrow> order_price (entry_book target) r;
               sd \<leftarrow> order_side (entry_book target) r;
               Some (case p of None \<Rightarrow> s | Some p \<Rightarrow> cb s (blank_trade
                 \<lparr>trade_timestamp := timestamp exec, trade_stock_locate := l,
                  trade_symbol := m_symbol (entry_book target), trade_price := StandardPrice p,
                  trade_shares := ucast sh, trade_match_number := OrderExecutedMessage.match_number exec,
                  trade_side := side_char sd, trade_printable := True\<rparr>)) });
         (_, b) \<leftarrow> execute_order (entry_book target) r sh;
         Some (emit_bbo_if_changed l (target\<lparr>entry_book := b\<rparr>) (mgr, s)) })"

definition handle_order_executed_with_price ::
  "OrderExecutedWithPriceMessage \<Rightarrow> 's BookManager \<times> 's \<Rightarrow> ('s BookManager \<times> 's) option" where
  "handle_order_executed_with_price exec = (\<lambda>(mgr, s).
     let l = stock_locate exec; r = OrderExecutedWithPriceMessage.order_reference_number exec;
         sh = OrderExecutedWithPriceMessage.executed_shares exec
     in case entry mgr l of
       None \<Rightarrow> Some (mgr, s)
     | Some target \<Rightarrow> do {
         s \<leftarrow> (case m_trade_callback mgr of
             None \<Rightarrow> Some s
           | Some cb \<Rightarrow> do {
               sd \<leftarrow> order_side (entry_book target) r;
               Some (cb s (blank_trade
                 \<lparr>trade_timestamp := timestamp exec, trade_stock_locate := l,
                  trade_symbol := m_symbol (entry_book target),
                  trade_price := StandardPrice (OrderExecutedWithPriceMessage.execution_price exec),
                  trade_shares := ucast sh, trade_match_number := OrderExecutedWithPriceMessage.match_number exec,
                  trade_side := side_char sd,
                  trade_printable := OrderExecutedWithPriceMessage.printable exec = CHR ''Y''\<rparr>)) });
         (_, b) \<leftarrow> execute_order (entry_book target) r sh;
         Some (emit_bbo_if_changed l (target\<lparr>entry_book := b\<rparr>) (mgr, s)) })"

definition handle_order_cancel ::
  "OrderCancelMessage \<Rightarrow> 's BookManager \<times> 's \<Rightarrow> ('s BookManager \<times> 's) option" where
  "handle_order_cancel cancel = (\<lambda>(mgr, s). case entry mgr (stock_locate cancel) of
       None \<Rightarrow> Some (mgr, s)
     | Some target \<Rightarrow> do {
         (_, b) \<leftarrow> reduce_order (entry_book target) (OrderCancelMessage.order_reference_number cancel)
           (OrderCancelMessage.cancelled_shares cancel);
         Some (emit_bbo_if_changed (stock_locate cancel) (target\<lparr>entry_book := b\<rparr>) (mgr, s)) })"

definition handle_order_delete ::
  "OrderDeleteMessage \<Rightarrow> 's BookManager \<times> 's \<Rightarrow> ('s BookManager \<times> 's) option" where
  "handle_order_delete del = (\<lambda>(mgr, s). case entry mgr (stock_locate del) of
       None \<Rightarrow> Some (mgr, s)
     | Some target \<Rightarrow> do {
         b \<leftarrow> delete_order (entry_book target) (OrderDeleteMessage.order_reference_number del);
         Some (emit_bbo_if_changed (stock_locate del) (target\<lparr>entry_book := b\<rparr>) (mgr, s)) })"

definition handle_order_replace ::
  "OrderReplaceMessage \<Rightarrow> 's BookManager \<times> 's \<Rightarrow> ('s BookManager \<times> 's) option" where
  "handle_order_replace replace = (\<lambda>(mgr, s). case entry mgr (stock_locate replace) of
       None \<Rightarrow> Some (mgr, s)
     | Some target \<Rightarrow> do {
         b \<leftarrow> replace_order (entry_book target) (OrderReplaceMessage.original_order_reference_number replace)
           (OrderReplaceMessage.new_order_reference_number replace) (OrderReplaceMessage.shares replace)
           (OrderReplaceMessage.price replace);
         Some (emit_bbo_if_changed (stock_locate replace) (target\<lparr>entry_book := b\<rparr>) (mgr, s)) })"

definition handle_non_cross_trade :: "NonCrossTradeMessage \<Rightarrow> 's BookManager \<times> 's \<Rightarrow> 's BookManager \<times> 's" where
  "handle_non_cross_trade trade = (\<lambda>(mgr, s). case m_trade_callback mgr of
       None \<Rightarrow> (mgr, s)
     | Some cb \<Rightarrow> (mgr, cb s (blank_trade
         \<lparr>trade_timestamp := timestamp trade, trade_stock_locate := stock_locate trade,
          trade_symbol := to_string (NonCrossTradeMessage.stock trade) STOCK_LEN,
          trade_price := StandardPrice (NonCrossTradeMessage.price trade),
          trade_shares := ucast (NonCrossTradeMessage.shares trade),
          trade_match_number := NonCrossTradeMessage.match_number trade,
          trade_side := NonCrossTradeMessage.buy_sell_indicator trade, trade_printable := True\<rparr>)))"

definition handle_cross_trade :: "CrossTradeMessage \<Rightarrow> 's BookManager \<times> 's \<Rightarrow> 's BookManager \<times> 's" where
  "handle_cross_trade cross = (\<lambda>(mgr, s). case m_trade_callback mgr of
       None \<Rightarrow> (mgr, s)
     | Some cb \<Rightarrow> (mgr, cb s (blank_trade
         \<lparr>trade_timestamp := timestamp cross, trade_stock_locate := stock_locate cross,
          trade_symbol := to_string (CrossTradeMessage.stock cross) STOCK_LEN,
          trade_price := StandardPrice (CrossTradeMessage.cross_price cross),
          trade_shares := CrossTradeMessage.shares cross,
          trade_match_number := CrossTradeMessage.match_number cross,
          trade_printable := True, trade_is_cross := True,
          trade_cross_type := CrossTradeMessage.cross_type cross\<rparr>)))"

definition handle_stock_directory :: "StockDirectoryMessage \<Rightarrow> 's BookManager \<Rightarrow> 's BookManager" where
  "handle_stock_directory directory mgr =
     (let l = unat (stock_locate directory);
          names = (if l \<ge> length (m_symbol_by_locate mgr)
                   then grow (l + 1) [] (m_symbol_by_locate mgr) else m_symbol_by_locate mgr)
      in mgr\<lparr>m_symbol_by_locate := names[l := to_string (StockDirectoryMessage.stock directory) STOCK_LEN]\<rparr>)"

fun process :: "Message \<Rightarrow> 's BookManager \<times> 's \<Rightarrow> ('s BookManager \<times> 's) option" where
  "process (AddOrder add) ms = handle_add_order (stock_locate add) (AddOrderMessage.stock add)
     (AddOrderMessage.order_reference_number add) (AddOrderMessage.buy_sell_indicator add)
     (AddOrderMessage.shares add) (AddOrderMessage.price add) ms"
| "process (AddOrderMPIDAttribution add) ms = handle_add_order (stock_locate add)
     (AddOrderMPIDAttributionMessage.stock add) (AddOrderMPIDAttributionMessage.order_reference_number add)
     (AddOrderMPIDAttributionMessage.buy_sell_indicator add) (AddOrderMPIDAttributionMessage.shares add)
     (AddOrderMPIDAttributionMessage.price add) ms"
| "process (OrderExecuted executed) ms = handle_order_executed executed ms"
| "process (OrderExecutedWithPrice executed) ms = handle_order_executed_with_price executed ms"
| "process (OrderCancel cancel) ms = handle_order_cancel cancel ms"
| "process (OrderDelete del) ms = handle_order_delete del ms"
| "process (OrderReplace replace) ms = handle_order_replace replace ms"
| "process (NonCrossTrade trade) ms = Some (handle_non_cross_trade trade ms)"
| "process (CrossTrade cross) ms = Some (handle_cross_trade cross ms)"
| "process (StockDirectory directory) ms = Some (handle_stock_directory directory (fst ms), snd ms)"
| "process _ ms = Some ms"

definition book :: "'s BookManager \<Rightarrow> u16 \<Rightarrow> L3Book option" where
  "book mgr l = map_option entry_book (entry mgr l)"

definition book_for_symbol :: "'s BookManager \<Rightarrow> string \<Rightarrow> L3Book option" where
  "book_for_symbol mgr symbol =
     map_option (\<lambda>slot. entry_book (the slot))
       (List.find (\<lambda>slot. slot \<noteq> None \<and> m_symbol (entry_book (the slot)) = symbol) (m_books_by_locate mgr))"

definition symbol_for_locate :: "'s BookManager \<Rightarrow> u16 \<Rightarrow> string" where
  "symbol_for_locate mgr l =
     (case entry mgr l of
        Some found \<Rightarrow>
          if m_symbol (entry_book found) \<noteq> [] then m_symbol (entry_book found)
          else if unat l < length (m_symbol_by_locate mgr) then m_symbol_by_locate mgr ! unat l else []
      | None \<Rightarrow>
          if unat l < length (m_symbol_by_locate mgr) then m_symbol_by_locate mgr ! unat l else [])"

end
