(* ===== verification/Market.thy ===== *)
theory Market
  imports Book_Manager
begin

text \<open>
  What the book manager promises, on an abstract market: for every stock locate the symbol and
  the list of resting orders of its book, and the symbol its directory message announced. The
  theory proves that processing messages refines the steps of the market, and that the two
  callbacks see exactly the changes of the best bid and offer and the trades.
\<close>

section \<open>The abstract market\<close>

record Market =
  books :: "u16 \<Rightarrow> (string \<times> Order list) option"
  directory :: "u16 \<Rightarrow> string"

definition empty_market :: Market where
  "empty_market = \<lparr>books = Map.empty, directory = (\<lambda>_. [])\<rparr>"

text \<open>The operation a message asks of the book of its locate, and the symbol an add message carries.\<close>

fun book_op :: "Message \<Rightarrow> (u16 \<times> BookOp) option" where
  "book_op (AddOrder m) = Some (stock_locate m, Add (AddOrderMessage.order_reference_number m)
     (to_side (AddOrderMessage.buy_sell_indicator m)) (AddOrderMessage.shares m) (AddOrderMessage.price m))"
| "book_op (AddOrderMPIDAttribution m) = Some (stock_locate m, Add (AddOrderMPIDAttributionMessage.order_reference_number m)
     (to_side (AddOrderMPIDAttributionMessage.buy_sell_indicator m)) (AddOrderMPIDAttributionMessage.shares m)
     (AddOrderMPIDAttributionMessage.price m))"
| "book_op (OrderExecuted m) = Some (stock_locate m,
     Execute (OrderExecutedMessage.order_reference_number m) (OrderExecutedMessage.executed_shares m))"
| "book_op (OrderExecutedWithPrice m) = Some (stock_locate m,
     Execute (OrderExecutedWithPriceMessage.order_reference_number m) (OrderExecutedWithPriceMessage.executed_shares m))"
| "book_op (OrderCancel m) = Some (stock_locate m,
     Reduce (OrderCancelMessage.order_reference_number m) (OrderCancelMessage.cancelled_shares m))"
| "book_op (OrderDelete m) = Some (stock_locate m, Delete (OrderDeleteMessage.order_reference_number m))"
| "book_op (OrderReplace m) = Some (stock_locate m, Replace (OrderReplaceMessage.original_order_reference_number m)
     (OrderReplaceMessage.new_order_reference_number m) (OrderReplaceMessage.shares m) (OrderReplaceMessage.price m))"
| "book_op _ = None"

fun add_symbol :: "Message \<Rightarrow> string option" where
  "add_symbol (AddOrder m) = Some (to_string (AddOrderMessage.stock m) STOCK_LEN)"
| "add_symbol (AddOrderMPIDAttribution m) = Some (to_string (AddOrderMPIDAttributionMessage.stock m) STOCK_LEN)"
| "add_symbol _ = None"

fun book_update ::
  "string set \<Rightarrow> string option \<Rightarrow> BookOp \<Rightarrow> (string \<times> Order list) option \<Rightarrow> (string \<times> Order list) option" where
  "book_update U None op slot = map_option (\<lambda>(name, os). (name, spec_step op os)) slot"
| "book_update U (Some symbol) op None = (if U = {} \<or> symbol \<in> U then Some (symbol, spec_step op []) else None)"
| "book_update U (Some symbol) op (Some (name, os)) = Some (if name = [] then symbol else name, spec_step op os)"

definition market_step :: "string set \<Rightarrow> Message \<Rightarrow> Market \<Rightarrow> Market" where
  "market_step U m M = M
     \<lparr>books := (case book_op m of None \<Rightarrow> books M
        | Some (l, op) \<Rightarrow> (books M)(l := book_update U (add_symbol m) op (books M l))),
      directory := (case m of
          StockDirectory d \<Rightarrow> (directory M)(stock_locate d := to_string (StockDirectoryMessage.stock d) STOCK_LEN)
        | _ \<Rightarrow> directory M)\<rparr>"

text \<open>The trade a message reports, given the books before it.\<close>

fun trade_of :: "(u16 \<Rightarrow> (string \<times> Order list) option) \<Rightarrow> Message \<Rightarrow> Trade option" where
  "trade_of bs (OrderExecuted m) = do {
     (name, os) \<leftarrow> bs (stock_locate m);
     ord \<leftarrow> lookup_order (OrderExecutedMessage.order_reference_number m) os;
     Some \<lparr>trade_timestamp = timestamp m, trade_stock_locate = stock_locate m, trade_symbol = name,
       trade_price = StandardPrice (o_price ord), trade_shares = ucast (OrderExecutedMessage.executed_shares m),
       trade_match_number = OrderExecutedMessage.match_number m, trade_side = char_of_side (o_side ord),
       trade_printable = True, trade_is_cross = False, trade_cross_type = CHR 0x00\<rparr> }"
| "trade_of bs (OrderExecutedWithPrice m) = do {
     (name, os) \<leftarrow> bs (stock_locate m);
     Some \<lparr>trade_timestamp = timestamp m, trade_stock_locate = stock_locate m, trade_symbol = name,
       trade_price = StandardPrice (OrderExecutedWithPriceMessage.execution_price m),
       trade_shares = ucast (OrderExecutedWithPriceMessage.executed_shares m),
       trade_match_number = OrderExecutedWithPriceMessage.match_number m,
       trade_side = side_char (map_option o_side (lookup_order (OrderExecutedWithPriceMessage.order_reference_number m) os)),
       trade_printable = (OrderExecutedWithPriceMessage.printable m = CHR ''Y''), trade_is_cross = False,
       trade_cross_type = CHR 0x00\<rparr> }"
| "trade_of bs (NonCrossTrade m) = Some
     \<lparr>trade_timestamp = timestamp m, trade_stock_locate = stock_locate m,
       trade_symbol = to_string (NonCrossTradeMessage.stock m) STOCK_LEN,
       trade_price = StandardPrice (NonCrossTradeMessage.price m), trade_shares = ucast (NonCrossTradeMessage.shares m),
       trade_match_number = NonCrossTradeMessage.match_number m,
       trade_side = NonCrossTradeMessage.buy_sell_indicator m, trade_printable = True, trade_is_cross = False,
       trade_cross_type = CHR 0x00\<rparr>"
| "trade_of bs (CrossTrade m) = Some
     \<lparr>trade_timestamp = timestamp m, trade_stock_locate = stock_locate m,
       trade_symbol = to_string (CrossTradeMessage.stock m) STOCK_LEN,
       trade_price = StandardPrice (CrossTradeMessage.cross_price m), trade_shares = CrossTradeMessage.shares m,
       trade_match_number = CrossTradeMessage.match_number m, trade_side = CHR 0x00, trade_printable = True,
       trade_is_cross = True, trade_cross_type = CrossTradeMessage.cross_type m\<rparr>"
| "trade_of bs _ = None"

section \<open>The refinement relation\<close>

fun entry_rel :: "BookEntry option \<Rightarrow> (string \<times> Order list) option \<Rightarrow> bool" where
  "entry_rel None None \<longleftrightarrow> True"
| "entry_rel (Some e) (Some (name, os)) \<longleftrightarrow>
     l3_refines (entry_book e) os \<and> m_symbol (entry_book e) = name \<and> last_bbo e = bbo (entry_book e)"
| "entry_rel _ _ \<longleftrightarrow> False"

definition directory_name :: "'s BookManager \<Rightarrow> u16 \<Rightarrow> string" where
  "directory_name mgr l =
     (if unat l < length (m_symbol_by_locate mgr) then m_symbol_by_locate mgr ! unat l else [])"

definition market_rel :: "'s BookManager \<Rightarrow> Market \<Rightarrow> bool" where
  "market_rel mgr M \<longleftrightarrow> (\<forall>l. entry_rel (entry mgr l) (books M l)) \<and>
     (\<forall>l. directory_name mgr l = directory M l) \<and> m_book_count mgr = card (dom (books M))"

text \<open>The settings of a manager, which processing never changes.\<close>

definition settings :: "'s BookManager \<Rightarrow>
  string set \<times> ('s \<Rightarrow> L3Book \<Rightarrow> Bbo \<Rightarrow> 's) option \<times> ('s \<Rightarrow> Trade \<Rightarrow> 's) option" where
  "settings mgr = (m_universe mgr, m_bbo_callback mgr, m_trade_callback mgr)"

lemma unat_locate_inject: "unat (l :: u16) = unat l' \<longleftrightarrow> l = l'"
  by (rule word_unat_eq_iff [symmetric])

lemma entry_put [simp]:
  "unat l < length (m_books_by_locate mgr) \<Longrightarrow> entry (put_entry l e mgr) l' = (if l' = l then Some e else entry mgr l')"
  by (auto simp: entry_def put_entry_def nth_list_update unat_locate_inject)

lemma put_entry_simps [simp]:
  "m_symbol_by_locate (put_entry l e mgr) = m_symbol_by_locate mgr"
  "m_book_count (put_entry l e mgr) = m_book_count mgr"
  "length (m_books_by_locate (put_entry l e mgr)) = length (m_books_by_locate mgr)"
  "settings (put_entry l e mgr) = settings mgr"
  "m_bbo_callback (put_entry l e mgr) = m_bbo_callback mgr"
  "m_trade_callback (put_entry l e mgr) = m_trade_callback mgr"
  "m_universe (put_entry l e mgr) = m_universe mgr"
  "directory_name (put_entry l e mgr) = directory_name mgr"
  by (auto simp: put_entry_def settings_def directory_name_def)

lemma count_update_simps [simp]:
  "entry (mgr\<lparr>m_book_count := n\<rparr>) = entry mgr"
  "directory_name (mgr\<lparr>m_book_count := n\<rparr>) = directory_name mgr"
  "settings (mgr\<lparr>m_book_count := n\<rparr>) = settings mgr"
  by (auto simp: entry_def directory_name_def settings_def)

lemma entry_less: "entry mgr l = Some e \<Longrightarrow> unat l < length (m_books_by_locate mgr)"
  by (simp add: entry_def split: if_splits)

lemma entry_relD: "market_rel mgr M \<Longrightarrow> entry_rel (entry mgr l) (books M l)"
  by (simp add: market_rel_def)

lemma market_slot:
  assumes "market_rel mgr M" "entry mgr l = Some e"
  obtains name os where "books M l = Some (name, os)" "l3_refines (entry_book e) os"
    "m_symbol (entry_book e) = name" "last_bbo e = bbo (entry_book e)"
  using entry_relD [OF assms(1), of l] assms(2) that by (cases "books M l") auto

lemma market_no_slot: "market_rel mgr M \<Longrightarrow> entry mgr l = None \<Longrightarrow> books M l = None"
  using entry_relD [of mgr M l] by (cases "books M l") auto

lemma rel_put:
  assumes "market_rel mgr M" "unat l < length (m_books_by_locate mgr)" "entry_rel (Some e) (Some x)"
    "n = card (dom ((books M)(l \<mapsto> x)))"
  shows "market_rel ((put_entry l e mgr)\<lparr>m_book_count := n\<rparr>) (M\<lparr>books := (books M)(l \<mapsto> x)\<rparr>)"
  using assms by (simp add: market_rel_def)

lemma rel_put_old:
  assumes "market_rel mgr M" "books M l = Some y" "unat l < length (m_books_by_locate mgr)"
    "entry_rel (Some e) (Some x)"
  shows "market_rel (put_entry l e mgr) (M\<lparr>books := (books M)(l \<mapsto> x)\<rparr>)"
proof -
  have "m_book_count (put_entry l e mgr) = card (dom ((books M)(l \<mapsto> x)))"
    using assms(1,2) by (simp add: market_rel_def insert_absorb domI)
  moreover have "put_entry l e mgr = (put_entry l e mgr)\<lparr>m_book_count := m_book_count (put_entry l e mgr)\<rparr>"
    by simp
  ultimately show ?thesis
    using rel_put [OF assms(1,3,4)] by metis
qed

section \<open>One message\<close>

text \<open>What the callback for the best bid and offer does when a book had the quote \<open>old\<close> before.\<close>

definition notify_bbo ::
  "('s \<Rightarrow> L3Book \<Rightarrow> Bbo \<Rightarrow> 's) option \<Rightarrow> Bbo \<Rightarrow> L3Book \<Rightarrow> 's \<Rightarrow> 's" where
  "notify_bbo callback old b s =
     (case callback of Some cb \<Rightarrow> if bbo b \<noteq> old then cb s b (bbo b) else s | None \<Rightarrow> s)"

definition notify_trade :: "('s \<Rightarrow> Trade \<Rightarrow> 's) option \<Rightarrow> Trade option \<Rightarrow> 's \<Rightarrow> 's" where
  "notify_trade callback trade s =
     (case callback of Some cb \<Rightarrow> (case trade of Some t \<Rightarrow> cb s t | None \<Rightarrow> s) | None \<Rightarrow> s)"

definition quote_before :: "'s BookManager \<Rightarrow> u16 \<Rightarrow> Bbo" where
  "quote_before mgr l = (case book mgr l of None \<Rightarrow> blank_bbo | Some b \<Rightarrow> bbo b)"

text \<open>The effect of a message on the caller state: first the trade, then the quote.\<close>

definition events :: "'s BookManager \<Rightarrow> Market \<Rightarrow> Message \<Rightarrow> 's BookManager \<Rightarrow> 's \<Rightarrow> 's" where
  "events mgr M m mgr' s =
     (let s = notify_trade (m_trade_callback mgr) (trade_of (books M) m) s
      in case book_op m of None \<Rightarrow> s
         | Some (l, _) \<Rightarrow> (case book mgr' l of None \<Rightarrow> s
             | Some b \<Rightarrow> notify_bbo (m_bbo_callback mgr) (quote_before mgr l) b s))"

lemma emit_bbo:
  "emit_bbo_if_changed l target (mgr, s) =
    (put_entry l (target\<lparr>last_bbo := bbo (entry_book target)\<rparr>) mgr,
     notify_bbo (m_bbo_callback mgr) (last_bbo target) (entry_book target) s)"
proof (cases "bbo (entry_book target) = last_bbo target")
  case True
  then have "target\<lparr>last_bbo := bbo (entry_book target)\<rparr> = target"
    by simp
  then show ?thesis
    using True by (simp add: emit_bbo_if_changed_def notify_bbo_def split: option.split)
qed (simp add: emit_bbo_if_changed_def notify_bbo_def Let_def split: option.split)

lemma book_step_refines:
  assumes "l3_refines b os" "length os < 2 ^ 32 - 1"
  shows "\<exists>b'. book_step op b = Some b' \<and> l3_refines b' (spec_step op os) \<and> m_symbol b' = m_symbol b"
proof (cases op)
  case (Add r s sh p)
  then show ?thesis
    using add_order_refines [OF assms] by fastforce
next
  case (Execute r sh)
  then show ?thesis
    using execute_order_refines [OF assms(1), of r sh] by auto
next
  case (Reduce r sh)
  then show ?thesis
    using execute_order_refines [OF assms(1), of r sh] by (auto simp: reduce_order_def)
next
  case (Delete r)
  then show ?thesis
    using delete_order_refines [OF assms(1)] by fastforce
next
  case (Replace old_r new_r sh p)
  then show ?thesis
    using replace_order_refines [OF assms] by fastforce
qed

lemma bind_map_snd: "Option.bind (map_option snd x) f = Option.bind x (\<lambda>(_, b). f b)"
  by (cases x) (auto split: prod.split)

text \<open>Every handler of an existing order is the operation on the book of the locate.\<close>

lemma process_existing:
  assumes "book_op m = Some (l, op)" "add_symbol m = None" "market_rel mgr M"
  shows "process m (mgr, s) = (case entry mgr l of
      None \<Rightarrow> Some (mgr, s)
    | Some e \<Rightarrow> do {
        b \<leftarrow> book_step op (entry_book e);
        Some (emit_bbo_if_changed l (e\<lparr>entry_book := b\<rparr>)
          (mgr, notify_trade (m_trade_callback mgr) (trade_of (books M) m) s)) })"
proof (cases "entry mgr l")
  case None
  then show ?thesis
    using assms(1,2) by (cases m)
      (simp_all add: handle_order_executed_def handle_order_executed_with_price_def handle_order_cancel_def
        handle_order_delete_def handle_order_replace_def)
next
  case (Some e)
  obtain name os where slot: "books M l = Some (name, os)"
    and rel: "l3_refines (entry_book e) os" "m_symbol (entry_book e) = name"
    using market_slot [OF assms(3) Some] .
  note attr = order_attributes_refine(1,2) [OF rel(1)]
  show ?thesis
  proof (cases m)
    case (OrderExecuted x)
    then have "book_op m = Some (l, op) \<longleftrightarrow> l = stock_locate x \<and> op = snd (the (book_op (OrderExecuted x)))"
      by auto
    then show ?thesis
      using OrderExecuted assms(1) Some slot rel(2)
      by (cases "lookup_order (OrderExecutedMessage.order_reference_number x) os"; cases "m_trade_callback mgr")
        (simp_all add: handle_order_executed_def notify_trade_def blank_trade_def side_char_def Let_def bind_map_snd attr)
  next
    case (OrderExecutedWithPrice x)
    then have "book_op m = Some (l, op) \<longleftrightarrow> l = stock_locate x \<and> op = snd (the (book_op (OrderExecutedWithPrice x)))"
      by auto
    then show ?thesis
      using OrderExecutedWithPrice assms(1) Some slot rel(2)
      by (cases "m_trade_callback mgr")
        (simp_all add: handle_order_executed_with_price_def notify_trade_def blank_trade_def Let_def bind_map_snd attr)
  next
    case (OrderCancel x)
    then have "book_op m = Some (l, op) \<longleftrightarrow> l = stock_locate x \<and> op = snd (the (book_op (OrderCancel x)))"
      by auto
    then show ?thesis
      using OrderCancel assms(1) Some by (cases "m_trade_callback mgr") (simp_all add: handle_order_cancel_def notify_trade_def bind_map_snd)
  next
    case (OrderDelete x)
    then have "book_op m = Some (l, op) \<longleftrightarrow> l = stock_locate x \<and> op = snd (the (book_op (OrderDelete x)))"
      by auto
    then show ?thesis
      using OrderDelete assms(1) Some by (cases "m_trade_callback mgr") (simp_all add: handle_order_delete_def notify_trade_def)
  next
    case (OrderReplace x)
    then have "book_op m = Some (l, op) \<longleftrightarrow> l = stock_locate x \<and> op = snd (the (book_op (OrderReplace x)))"
      by auto
    then show ?thesis
      using OrderReplace assms(1) Some by (cases "m_trade_callback mgr") (simp_all add: handle_order_replace_def notify_trade_def)
  qed (use assms(1,2) in simp_all)
qed

lemma trade_of_no_book: "book_op m = Some (l, op) \<Longrightarrow> bs l = None \<Longrightarrow> trade_of bs m = None"
  by (cases m) simp_all

lemma process_add:
  assumes "book_op m = Some (l, op)" "add_symbol m = Some symbol"
  shows "process m (mgr, s) = (case ensure_entry l symbol mgr of
      (None, mgr) \<Rightarrow> Some (mgr, s)
    | (Some e, mgr) \<Rightarrow> do {
        b \<leftarrow> book_step op (entry_book e);
        Some (emit_bbo_if_changed l (e\<lparr>entry_book := b\<rparr>) (mgr, s)) })"
    "trade_of bs m = None"
proof -
  have "handle_add_order l stk r indicator sh p (mgr, s) = (case ensure_entry l (to_string stk STOCK_LEN) mgr of
      (None, mgr) \<Rightarrow> Some (mgr, s)
    | (Some e, mgr) \<Rightarrow> do {
        b \<leftarrow> book_step (Add r (to_side indicator) sh p) (entry_book e);
        Some (emit_bbo_if_changed l (e\<lparr>entry_book := b\<rparr>) (mgr, s)) })" for stk r indicator sh p
    by (simp only: handle_add_order_def book_step.simps prod.case)
  then show "process m (mgr, s) = (case ensure_entry l symbol mgr of
      (None, mgr) \<Rightarrow> Some (mgr, s)
    | (Some e, mgr) \<Rightarrow> do {
        b \<leftarrow> book_step op (entry_book e);
        Some (emit_bbo_if_changed l (e\<lparr>entry_book := b\<rparr>) (mgr, s)) })"
    using assms by (cases m) (simp_all del: book_step.simps, fastforce+)
  show "trade_of bs m = None"
    using assms(2) by (cases m) simp_all
qed

text \<open>The table grown to hold a locate.\<close>

definition with_slot :: "u16 \<Rightarrow> 's BookManager \<Rightarrow> 's BookManager" where
  "with_slot l mgr = (if unat l \<ge> length (m_books_by_locate mgr)
     then mgr\<lparr>m_books_by_locate := grow (unat l + 1) None (m_books_by_locate mgr)\<rparr> else mgr)"

lemma with_slot_simps [simp]:
  "entry (with_slot l mgr) = entry mgr" "directory_name (with_slot l mgr) = directory_name mgr"
  "settings (with_slot l mgr) = settings mgr" "m_bbo_callback (with_slot l mgr) = m_bbo_callback mgr"
  "m_universe (with_slot l mgr) = m_universe mgr" "m_book_count (with_slot l mgr) = m_book_count mgr"
  "unat l < length (m_books_by_locate (with_slot l mgr))"
proof -
  show "entry (with_slot l mgr) = entry mgr"
    by (auto simp: with_slot_def entry_def grow_def nth_append)
  show "directory_name (with_slot l mgr) = directory_name mgr"
    by (auto simp: with_slot_def directory_name_def)
  show "unat l < length (m_books_by_locate (with_slot l mgr))"
    by (simp add: with_slot_def grow_def)
qed (simp_all add: with_slot_def settings_def)

lemma ensure_entry_slot:
  "ensure_entry l symbol mgr = (case entry mgr l of
     Some slot \<Rightarrow>
       (let slot = (if m_symbol (entry_book slot) = [] \<and> symbol \<noteq> []
                    then slot\<lparr>entry_book := set_symbol (entry_book slot) symbol\<rparr> else slot)
        in (Some slot, put_entry l slot (with_slot l mgr)))
   | None \<Rightarrow>
       if \<not> in_universe mgr symbol then (None, with_slot l mgr)
       else (let e = \<lparr>entry_book = set_symbol (L3Book_new []) symbol, last_bbo = blank_bbo\<rparr>
             in (Some e, (put_entry l e (with_slot l mgr))\<lparr>m_book_count := m_book_count mgr + 1\<rparr>)))"
proof -
  have "m_books_by_locate (with_slot l mgr) ! unat l = entry mgr l"
    using with_slot_simps(7) [of l mgr] unfolding with_slot_simps(1) [of l mgr, symmetric] entry_def
    by (simp add: not_le [symmetric])
  moreover have "in_universe (with_slot l mgr) symbol = in_universe mgr symbol"
    by (simp add: in_universe_def)
  ultimately show ?thesis
    unfolding ensure_entry_def Let_def with_slot_def [of l mgr, symmetric]
    by (simp split: option.split)
qed

lemma put_put [simp]: "put_entry l e' (put_entry l e mgr) = put_entry l e' mgr"
  by (simp add: put_entry_def)

lemma put_count [simp]: "put_entry l e (mgr\<lparr>m_book_count := n\<rparr>) = (put_entry l e mgr)\<lparr>m_book_count := n\<rparr>"
  by (simp add: put_entry_def)

lemma target_step:
  assumes "l3_refines (entry_book e) os" "length os < 2 ^ 32 - 1"
  obtains e' where "do { b \<leftarrow> book_step op (entry_book e); Some (emit_bbo_if_changed l (e\<lparr>entry_book := b\<rparr>) (mgr, s)) } =
      Some (put_entry l e' mgr, notify_bbo (m_bbo_callback mgr) (last_bbo e) (entry_book e') s)"
    "entry_rel (Some e') (Some (m_symbol (entry_book e), spec_step op os))"
proof -
  obtain b where b: "book_step op (entry_book e) = Some b" "l3_refines b (spec_step op os)"
    "m_symbol b = m_symbol (entry_book e)"
    using book_step_refines [OF assms] by blast
  then show thesis
    using that [of "e\<lparr>entry_book := b, last_bbo := bbo b\<rparr>"] by (simp add: emit_bbo)
qed

section \<open>Processing refines the market\<close>

text \<open>The number of resting orders of all books.\<close>

definition order_total :: "Market \<Rightarrow> nat" where
  "order_total M = (\<Sum>l\<in>UNIV. case books M l of None \<Rightarrow> 0 | Some (name, os) \<Rightarrow> length os)"

lemma order_total_book: "books M l = Some (name, os) \<Longrightarrow> length os \<le> order_total M"
  unfolding order_total_def by (rule order_trans [OF _ member_le_sum [of l]]) simp_all

lemma market_step_books:
  "book_op m = Some (l, op) \<Longrightarrow> market_step U m M = M\<lparr>books := (books M)(l := book_update U (add_symbol m) op (books M l))\<rparr>"
  by (cases m) (simp_all add: market_step_def)

lemma market_rel_with_slot [simp]: "market_rel (with_slot l mgr) M = market_rel mgr M"
  by (simp add: market_rel_def)

lemma events_book:
  assumes "book_op m = Some (l, op)" "book mgr' l = Some b" "quote_before mgr l = old"
  shows "events mgr M m mgr' s =
    notify_bbo (m_bbo_callback mgr) old b (notify_trade (m_trade_callback mgr) (trade_of (books M) m) s)"
  using assms by (simp add: events_def Let_def)

lemma process_existing_sim:
  assumes "book_op m = Some (l, op)" "add_symbol m = None" "market_rel mgr M" "order_total M < 2 ^ 32 - 1"
  shows "\<exists>mgr'. process m (mgr, s) = Some (mgr', events mgr M m mgr' s) \<and>
    market_rel mgr' (market_step (m_universe mgr) m M) \<and> settings mgr' = settings mgr"
proof (cases "entry mgr l")
  case None
  have "books M l = None"
    using market_no_slot [OF assms(3) None] .
  moreover have "M\<lparr>books := (books M)(l := None)\<rparr> = M" if "books M l = None"
    using that by (simp add: fun_upd_idem)
  moreover have "events mgr M m mgr s = s"
    using None assms(1) trade_of_no_book [of m l op "books M"] \<open>books M l = None\<close>
    by (simp add: events_def book_def notify_trade_def split: option.split)
  ultimately show ?thesis
    using None assms by (simp add: process_existing market_step_books)
next
  case (Some e)
  obtain name os where slot: "books M l = Some (name, os)" "l3_refines (entry_book e) os"
    "m_symbol (entry_book e) = name" "last_bbo e = bbo (entry_book e)"
    using market_slot [OF assms(3) Some] .
  let ?s = "notify_trade (m_trade_callback mgr) (trade_of (books M) m) s"
  obtain e' where e': "do { b \<leftarrow> book_step op (entry_book e); Some (emit_bbo_if_changed l (e\<lparr>entry_book := b\<rparr>) (mgr, ?s)) } =
      Some (put_entry l e' mgr, notify_bbo (m_bbo_callback mgr) (last_bbo e) (entry_book e') ?s)"
    "entry_rel (Some e') (Some (name, spec_step op os))"
    using target_step [OF slot(2), of op l mgr ?s] order_total_book [OF slot(1)] assms(4) slot(3) by auto
  note less = entry_less [OF Some]
  have "events mgr M m (put_entry l e' mgr) s = notify_bbo (m_bbo_callback mgr) (last_bbo e) (entry_book e') ?s"
    using less Some slot(4) by (intro events_book [OF assms(1)]) (simp_all add: book_def quote_before_def)
  moreover have "market_rel (put_entry l e' mgr) (market_step (m_universe mgr) m M)"
    using rel_put_old [OF assms(3) slot(1) less e'(2)] assms(2) slot(1) by (simp add: market_step_books [OF assms(1)])
  ultimately show ?thesis
    using e'(1) Some by (simp add: process_existing [OF assms(1,2,3)])
qed

lemma process_add_sim:
  assumes "book_op m = Some (l, op)" "add_symbol m = Some symbol" "market_rel mgr M" "order_total M < 2 ^ 32 - 1"
  shows "\<exists>mgr'. process m (mgr, s) = Some (mgr', events mgr M m mgr' s) \<and>
    market_rel mgr' (market_step (m_universe mgr) m M) \<and> settings mgr' = settings mgr"
proof (cases "entry mgr l")
  case None
  have slot: "books M l = None"
    using market_no_slot [OF assms(3) None] .
  show ?thesis
  proof (cases "in_universe mgr symbol")
    case False
    have "M\<lparr>books := (books M)(l := None)\<rparr> = M"
      using slot by (simp add: fun_upd_idem)
    then have "market_step (m_universe mgr) m M = M"
      using False slot by (simp add: market_step_books [OF assms(1)] assms(2) in_universe_def)
    moreover have "events mgr M m (with_slot l mgr) s = s"
      using None by (simp add: events_def book_def assms(1) process_add(2) [OF assms(1,2)] notify_trade_def split: option.split)
    ultimately show ?thesis
      using False None assms(3) by (simp add: process_add(1) [OF assms(1,2)] ensure_entry_slot)
  next
    case True
    let ?e = "\<lparr>entry_book = set_symbol (L3Book_new []) symbol, last_bbo = blank_bbo\<rparr>"
    let ?mgr = "(put_entry l ?e (with_slot l mgr))\<lparr>m_book_count := m_book_count mgr + 1\<rparr>"
    have new: "l3_refines (entry_book ?e) []" "m_symbol (entry_book ?e) = symbol"
      using set_symbol_refines [OF new_refines] by (simp_all add: set_symbol_def)
    obtain e' where e': "do { b \<leftarrow> book_step op (entry_book ?e); Some (emit_bbo_if_changed l (?e\<lparr>entry_book := b\<rparr>) (?mgr, s)) } =
        Some (put_entry l e' ?mgr, notify_bbo (m_bbo_callback ?mgr) (last_bbo ?e) (entry_book e') s)"
      "entry_rel (Some e') (Some (symbol, spec_step op []))"
      using target_step [OF new(1), of op l ?mgr s] new(2) by auto
    let ?mgr' = "(put_entry l e' (with_slot l mgr))\<lparr>m_book_count := m_book_count mgr + 1\<rparr>"
    have "events mgr M m ?mgr' s = notify_bbo (m_bbo_callback mgr) blank_bbo (entry_book e')
        (notify_trade (m_trade_callback mgr) (trade_of (books M) m) s)"
      using None by (intro events_book [OF assms(1)]) (simp_all add: book_def quote_before_def)
    moreover have "m_book_count mgr + 1 = card (dom ((books M)(l \<mapsto> (symbol, spec_step op []))))"
      using assms(3) slot by (simp add: market_rel_def card_insert_if domIff)
    from rel_put [of "with_slot l mgr" M l e' _ _, OF _ _ e'(2) this]
    have "market_rel ?mgr' (market_step (m_universe mgr) m M)"
      using assms(3) True slot by (simp add: market_step_books [OF assms(1)] assms(2) in_universe_def)
    ultimately show ?thesis
      using e'(1) True None
      by (simp add: process_add [OF assms(1,2)] ensure_entry_slot notify_trade_def Let_def split: option.split)
  qed
next
  case (Some e)
  obtain name os where slot: "books M l = Some (name, os)" "l3_refines (entry_book e) os"
    "m_symbol (entry_book e) = name" "last_bbo e = bbo (entry_book e)"
    using market_slot [OF assms(3) Some] .
  define e0 where "e0 = (if m_symbol (entry_book e) = [] \<and> symbol \<noteq> []
    then e\<lparr>entry_book := set_symbol (entry_book e) symbol\<rparr> else e)"
  have e0: "l3_refines (entry_book e0) os" "m_symbol (entry_book e0) = (if name = [] then symbol else name)"
    "last_bbo e0 = bbo (entry_book e)"
    using slot set_symbol_refines [OF slot(2)] by (auto simp: e0_def set_symbol_def)
  let ?mgr = "put_entry l e0 (with_slot l mgr)"
  obtain e' where e': "do { b \<leftarrow> book_step op (entry_book e0); Some (emit_bbo_if_changed l (e0\<lparr>entry_book := b\<rparr>) (?mgr, s)) } =
      Some (put_entry l e' ?mgr, notify_bbo (m_bbo_callback ?mgr) (last_bbo e0) (entry_book e') s)"
    "entry_rel (Some e') (Some (if name = [] then symbol else name, spec_step op os))"
    using target_step [OF e0(1), of op l ?mgr s] order_total_book [OF slot(1)] assms(4) e0(2) by auto
  let ?mgr' = "put_entry l e' (with_slot l mgr)"
  have "events mgr M m ?mgr' s = notify_bbo (m_bbo_callback mgr) (last_bbo e0) (entry_book e')
      (notify_trade (m_trade_callback mgr) (trade_of (books M) m) s)"
    using Some e0(3) by (intro events_book [OF assms(1)]) (simp_all add: book_def quote_before_def)
  moreover have "market_rel ?mgr' (market_step (m_universe mgr) m M)"
    using rel_put_old [of "with_slot l mgr" M, OF _ slot(1) _ e'(2)] assms(3) slot(1)
    by (simp add: market_step_books [OF assms(1)] assms(2))
  ultimately show ?thesis
    using e'(1) Some
    by (simp add: process_add [OF assms(1,2)] ensure_entry_slot e0_def [symmetric] notify_trade_def Let_def split: option.split)
qed

lemma stock_directory_rel:
  assumes "market_rel mgr M"
  shows "market_rel (handle_stock_directory d mgr) (market_step U (StockDirectory d) M)"
proof -
  have "directory_name (handle_stock_directory d mgr) =
      (directory_name mgr)(stock_locate d := to_string (StockDirectoryMessage.stock d) STOCK_LEN)"
    by (auto simp: directory_name_def handle_stock_directory_def grow_def Let_def nth_append nth_list_update
        unat_locate_inject fun_eq_iff)
  moreover have "entry (handle_stock_directory d mgr) = entry mgr"
    "m_book_count (handle_stock_directory d mgr) = m_book_count mgr"
    by (auto simp: entry_def handle_stock_directory_def Let_def)
  ultimately show ?thesis
    using assms by (simp add: market_rel_def market_step_def)
qed

lemma process_other_sim:
  assumes "book_op m = None" "market_rel mgr M"
  shows "\<exists>mgr'. process m (mgr, s) = Some (mgr', events mgr M m mgr' s) \<and>
    market_rel mgr' (market_step (m_universe mgr) m M) \<and> settings mgr' = settings mgr"
proof (cases "\<exists>d. m = StockDirectory d")
  case True
  then obtain d where d: "m = StockDirectory d" ..
  have "settings (handle_stock_directory d mgr) = settings mgr"
    by (simp add: settings_def handle_stock_directory_def Let_def)
  then show ?thesis
    using stock_directory_rel [OF assms(2)]
    by (simp add: d events_def notify_trade_def split: option.split)
next
  case False
  then have "market_step (m_universe mgr) m M = M"
    using assms(1) by (cases m) (simp_all add: market_step_def)
  moreover have "process m (mgr, s) = Some (mgr, notify_trade (m_trade_callback mgr) (trade_of (books M) m) s)"
    using assms(1) False by (cases m; cases "m_trade_callback mgr")
      (simp_all add: notify_trade_def handle_non_cross_trade_def handle_cross_trade_def blank_trade_def)
  ultimately show ?thesis
    using assms by (simp add: events_def)
qed

lemma process_sim:
  assumes "market_rel mgr M" "order_total M < 2 ^ 32 - 1"
  shows "\<exists>mgr'. process m (mgr, s) = Some (mgr', events mgr M m mgr' s) \<and>
    market_rel mgr' (market_step (m_universe mgr) m M) \<and> settings mgr' = settings mgr"
proof (cases "book_op m")
  case None
  then show ?thesis
    using process_other_sim [OF _ assms(1)] by blast
next
  case (Some lop)
  obtain l op where "book_op m = Some (l, op)"
    using Some by (cases lop) simp
  then show ?thesis
    using process_existing_sim [OF _ _ assms] process_add_sim [OF _ _ assms] by (cases "add_symbol m") blast+
qed

lemma book_update_length:
  "(case book_update U symbol op slot of None \<Rightarrow> 0 | Some (name, os) \<Rightarrow> length os) \<le>
    (case slot of None \<Rightarrow> 0 | Some (name, os) \<Rightarrow> length os) + 1"
proof -
  have "length (spec_step op os) \<le> length os + 1" for os
    by (rule l3.spec_grows)
  from this [of "[]"] this show ?thesis
    by (cases symbol; cases slot) auto
qed

lemma market_step_grows: "order_total (market_step U m M) \<le> order_total M + 1"
proof (cases "book_op m")
  case None
  then show ?thesis
    by (simp add: market_step_def order_total_def)
next
  case (Some lop)
  obtain l op where op: "book_op m = Some (l, op)"
    using Some by (cases lop) simp
  let ?n = "\<lambda>x :: (string \<times> Order list) option. case x of None \<Rightarrow> 0 | Some (name, os) \<Rightarrow> length os"
  have remove: "(\<Sum>l\<in>UNIV. ?n (f l)) = ?n (f l) + (\<Sum>l'\<in>UNIV - {l}. ?n (f l'))" for f
    by (rule sum.remove) simp_all
  have "(\<Sum>l'\<in>UNIV - {l}. ?n (((books M)(l := x)) l')) = (\<Sum>l'\<in>UNIV - {l}. ?n (books M l'))" for x
    by (rule sum.cong) auto
  then show ?thesis
    using book_update_length [of U "add_symbol m" op "books M l"]
      remove [of "(books M)(l := book_update U (add_symbol m) op (books M l))"] remove [of "books M"]
    by (simp add: market_step_books [OF op] order_total_def)
qed

definition manager_rel ::
  "string set \<times> ('s \<Rightarrow> L3Book \<Rightarrow> Bbo \<Rightarrow> 's) option \<times> ('s \<Rightarrow> Trade \<Rightarrow> 's) option \<Rightarrow>
    's BookManager \<times> 's \<Rightarrow> Market \<Rightarrow> bool" where
  "manager_rel st ms M \<longleftrightarrow> market_rel (fst ms) M \<and> settings (fst ms) = st"

interpretation mk: bounded_simulation process "market_step (fst st)" "manager_rel st" order_total "2 ^ 32 - 1" for st
proof
  fix ms M m
  show "\<exists>ms'. process m ms = Some ms' \<and> manager_rel st ms' (market_step (fst st) m M)"
    if "manager_rel st ms M" "order_total M < 2 ^ 32 - 1"
    using process_sim [OF _ that(2), of "fst ms" m "snd ms"] that(1)
    by (auto simp: manager_rel_def settings_def)
qed (rule market_step_grows)

section \<open>Histories of messages\<close>

definition manager ::
  "string list \<Rightarrow> ('s \<Rightarrow> L3Book \<Rightarrow> Bbo \<Rightarrow> 's) option \<Rightarrow> ('s \<Rightarrow> Trade \<Rightarrow> 's) option \<Rightarrow> 's BookManager" where
  "manager symbols bc tc =
     set_trade_callback tc (set_bbo_callback bc (fold track_symbol symbols BookManager_new))"

definition market :: "string set \<Rightarrow> Message list \<Rightarrow> Market" where
  "market U ms = fold (market_step U) ms empty_market"

lemma track_symbols:
  "fold track_symbol symbols mgr = mgr\<lparr>m_universe := set symbols \<union> m_universe mgr\<rparr>"
  by (induction symbols arbitrary: mgr) (auto simp: track_symbol_def)

lemma manager_new_rel:
  "market_rel (manager symbols bc tc) empty_market" "settings (manager symbols bc tc) = (set symbols, bc, tc)"
  by (auto simp: manager_def track_symbols set_trade_callback_def set_bbo_callback_def BookManager_new_def
      market_rel_def empty_market_def entry_def directory_name_def settings_def)

lemma manager_run:
  assumes "length ms \<le> 2 ^ 32 - 1"
  shows "\<exists>mgr s'. run_steps process ms (manager symbols bc tc, s) = Some (mgr, s') \<and>
    market_rel mgr (market (set symbols) ms) \<and> settings mgr = (set symbols, bc, tc)"
proof -
  have "order_total empty_market = 0"
    by (simp add: order_total_def empty_market_def)
  then show ?thesis
    using mk.run_sim [of "(set symbols, bc, tc)" "(manager symbols bc tc, s)" empty_market ms] assms
    by (simp add: manager_new_rel manager_rel_def market_def)
qed

text \<open>
  The operations the book of a locate sees: those of its messages, from the first add on whose
  symbol belongs to the universe (the empty universe holds every symbol).
\<close>

definition opens_book :: "string set \<Rightarrow> Message \<Rightarrow> bool" where
  "opens_book U m = (case add_symbol m of None \<Rightarrow> False | Some symbol \<Rightarrow> U = {} \<or> symbol \<in> U)"

definition locate_messages :: "u16 \<Rightarrow> Message list \<Rightarrow> Message list" where
  "locate_messages l ms = filter (\<lambda>m. case book_op m of None \<Rightarrow> False | Some (l', _) \<Rightarrow> l' = l) ms"

definition locate_ops :: "string set \<Rightarrow> u16 \<Rightarrow> Message list \<Rightarrow> BookOp list" where
  "locate_ops U l ms =
     map (\<lambda>m. snd (the (book_op m))) (dropWhile (\<lambda>m. \<not> opens_book U m) (locate_messages l ms))"

lemma dropWhile_snoc:
  "dropWhile P (xs @ [x]) = (if dropWhile P xs = [] then (if P x then [] else [x]) else dropWhile P xs @ [x])"
  by (induction xs) auto

lemma locate_ops_snoc:
  "locate_ops U l (ms @ [m]) = (case book_op m of None \<Rightarrow> locate_ops U l ms
     | Some (l', op) \<Rightarrow> if l' \<noteq> l then locate_ops U l ms
         else if locate_ops U l ms = [] \<and> \<not> opens_book U m then [] else locate_ops U l ms @ [op])"
  by (auto simp: locate_ops_def locate_messages_def dropWhile_snoc split: option.split)

lemma market_snoc: "market U (ms @ [m]) = market_step U m (market U ms)"
  by (simp add: market_def)

lemma market_books:
  "map_option snd (books (market U ms) l) = (if locate_ops U l ms = [] then None else Some (resting (locate_ops U l ms)))"
proof (induction ms rule: rev_induct)
  case Nil
  then show ?case
    by (simp add: market_def empty_market_def locate_ops_def locate_messages_def)
next
  case (snoc m ms)
  show ?case
  proof (cases "book_op m")
    case None
    then show ?thesis
      using snoc by (simp add: market_snoc market_step_def locate_ops_snoc)
  next
    case (Some lop)
    obtain l' op where op: "book_op m = Some (l', op)"
      using Some by (cases lop) simp
    show ?thesis
    proof (cases "books (market U ms) l")
      case None
      then have "locate_ops U l ms = []"
        using snoc by (simp split: if_splits)
      then show ?thesis
        using None by (cases "add_symbol m")
          (auto simp: market_snoc market_step_books [OF op] locate_ops_snoc op opens_book_def resting_def split: if_splits)
    next
      case (Some x)
      obtain name os where x: "x = (name, os)"
        by (cases x)
      have "locate_ops U l ms \<noteq> []" "os = resting (locate_ops U l ms)"
        using snoc Some x by (simp_all split: if_splits)
      then show ?thesis
        using Some x by (cases "add_symbol m")
          (auto simp: market_snoc market_step_books [OF op] locate_ops_snoc op resting_snoc)
    qed
  qed
qed

lemma manager_next:
  assumes "length ms < 2 ^ 32 - 1"
  shows "\<exists>mgr s1 mgr'. run_steps process ms (manager symbols bc tc, s) = Some (mgr, s1) \<and>
    process m (mgr, s1) = Some (mgr', events mgr (market (set symbols) ms) m mgr' s1) \<and>
    settings mgr = (set symbols, bc, tc)"
proof -
  obtain mgr s1 where run: "run_steps process ms (manager symbols bc tc, s) = Some (mgr, s1)"
    "market_rel mgr (market (set symbols) ms)" "settings mgr = (set symbols, bc, tc)"
    using manager_run [of ms symbols bc tc s] assms by auto
  have "order_total (market (set symbols) ms) \<le> length ms"
  proof (induction ms rule: rev_induct)
    case Nil
    then show ?case
      by (simp add: market_def order_total_def empty_market_def)
  next
    case (snoc m ms)
    then show ?case
      using market_step_grows [of "set symbols" m "market (set symbols) ms"] by (simp add: market_snoc)
  qed
  then show ?thesis
    using process_sim [OF run(2), of m s1] run(1,3) assms by auto
qed

lemma market_dom: "{l. locate_ops U l ms \<noteq> []} = dom (books (market U ms))"
proof (rule set_eqI)
  show "l \<in> {l. locate_ops U l ms \<noteq> []} \<longleftrightarrow> l \<in> dom (books (market U ms))" for l
    using market_books [of U ms l] by (cases "books (market U ms) l") (auto split: if_splits)
qed

text \<open>Messages for examples.\<close>

definition add_message :: "u16 \<Rightarrow> string \<Rightarrow> u64 \<Rightarrow> char \<Rightarrow> u32 \<Rightarrow> u32 \<Rightarrow> Message" where
  "add_message l stk r ind sh p = AddOrder \<lparr>message_type = CHR ''A'', stock_locate = l, tracking_number = 0,
     timestamp = 0, AddOrderMessage.order_reference_number = r, AddOrderMessage.buy_sell_indicator = ind,
     AddOrderMessage.shares = sh, AddOrderMessage.stock = stk, AddOrderMessage.price = p\<rparr>"

definition executed_message :: "u16 \<Rightarrow> u64 \<Rightarrow> u32 \<Rightarrow> Message" where
  "executed_message l r sh = OrderExecuted \<lparr>message_type = CHR ''E'', stock_locate = l, tracking_number = 0,
     timestamp = 0, OrderExecutedMessage.order_reference_number = r, OrderExecutedMessage.executed_shares = sh,
     OrderExecutedMessage.match_number = 9\<rparr>"

definition sample_messages :: "Message list" where
  "sample_messages = [add_message 5 ''ABC     '' 1 (CHR ''B'') 100 50, add_message 6 ''XYZ     '' 2 (CHR ''S'') 10 60,
     executed_message 5 1 30]"

lemmas sample_message_defs = sample_messages_def add_message_def executed_message_def

lemma sample_symbols: "to_string ''ABC     '' STOCK_LEN = ''ABC''" "to_string ''XYZ     '' STOCK_LEN = ''XYZ''"
  by (simp_all add: to_string_def STOCK_LEN_def eval_nat_numeral is_pad_def)

section \<open>Properties\<close>

text \<open>The callback an application gives a decoder: hand each message to its book manager.\<close>

definition to_manager :: "('s BookManager \<times> 's) option \<Rightarrow> Message \<Rightarrow> ('s BookManager \<times> 's) option" where
  "to_manager st m = Option.bind st (process m)"

lemma fold_to_manager: "fold (\<lambda>m s. to_manager s m) ms (Some st) = run_steps process ms st"
proof (induction ms arbitrary: st)
  case (Cons m ms)
  have "fold (\<lambda>m s. to_manager s m) ms None = None"
    by (induction ms) (simp_all add: to_manager_def)
  then show ?case
    using Cons by (cases "process m st") (simp_all add: to_manager_def)
qed simp

lemma manager_books:
  assumes "length ms \<le> 2 ^ 32 - 1"
  shows "\<exists>mgr s'. run_steps process ms (manager symbols bc tc, s) = Some (mgr, s') \<and>
    (\<forall>l. case book mgr l of
        None \<Rightarrow> locate_ops (set symbols) l ms = []
      | Some b \<Rightarrow> locate_ops (set symbols) l ms \<noteq> [] \<and>
          (\<forall>sd n. map depth_entry (depth b sd n) = spec_depth sd n (resting (locate_ops (set symbols) l ms))) \<and>
          (\<forall>sd p. orders_at b sd p = Some (map view_of (spec_queue sd p (resting (locate_ops (set symbols) l ms)))))) \<and>
    m_book_count mgr = card {l. locate_ops (set symbols) l ms \<noteq> []}"
proof -
  let ?ops = "\<lambda>l. locate_ops (set symbols) l ms"
  obtain mgr s' where run: "run_steps process ms (manager symbols bc tc, s) = Some (mgr, s')"
    "market_rel mgr (market (set symbols) ms)"
    using manager_run [OF assms, of symbols bc tc s] by blast
  have "case book mgr l of None \<Rightarrow> ?ops l = [] | Some b \<Rightarrow> ?ops l \<noteq> [] \<and>
      (\<forall>sd n. map depth_entry (depth b sd n) = spec_depth sd n (resting (?ops l))) \<and>
      (\<forall>sd p. orders_at b sd p = Some (map view_of (spec_queue sd p (resting (?ops l)))))" for l
  proof (cases "entry mgr l")
    case None
    then show ?thesis
      using market_no_slot [OF run(2) None] market_books [of "set symbols" ms l] by (simp add: book_def split: if_splits)
  next
    case (Some e)
    obtain name os where slot: "books (market (set symbols) ms) l = Some (name, os)" "l3_refines (entry_book e) os"
      using market_slot [OF run(2) Some] by metis
    then have "?ops l \<noteq> []" "os = resting (?ops l)"
      using market_books [of "set symbols" ms l] by (simp_all split: if_splits)
    then show ?thesis
      using Some depth_refines [OF slot(2)] orders_at_refines [OF slot(2)] by (simp add: book_def)
  qed
  moreover have "m_book_count mgr = card {l. ?ops l \<noteq> []}"
    using run(2) market_dom [of "set symbols" ms] by (simp add: market_rel_def)
  ultimately show ?thesis
    using run(1) by blast
qed

text \<open>
  C8. Routing and refinement: after any history of messages (fewer than 2^32), for any universe of
  symbols and any callbacks, a locate has a book exactly when one of its add messages carried a
  symbol of the universe; its depth and the queue of every price are then those of the orders
  that result from its own messages alone, from that add on; messages of other locates have no
  influence, and the book count is the number of such locates.
\<close>

theorem manager_books_refine:
  assumes "length ms \<le> 2 ^ 32 - 1"
  shows "\<exists>mgr s'. run_steps process ms (manager symbols bc tc, s) = Some (mgr, s') \<and>
    (\<forall>l. case book mgr l of
        None \<Rightarrow> locate_ops (set symbols) l ms = []
      | Some b \<Rightarrow> locate_ops (set symbols) l ms \<noteq> [] \<and>
          (\<forall>sd n. map depth_entry (depth b sd n) = spec_depth sd n (resting (locate_ops (set symbols) l ms))) \<and>
          (\<forall>sd p. orders_at b sd p = Some (map view_of (spec_queue sd p (resting (locate_ops (set symbols) l ms)))))) \<and>
    m_book_count mgr = card {l. locate_ops (set symbols) l ms \<noteq> []}"
  by (rule manager_books [OF assms])

theorem manager_books_refine_witness:
  "length sample_messages \<le> 2 ^ 32 - 1 \<and>
   (\<exists>mgr s'. run_steps process sample_messages (manager [''ABC''] None None, ()) = Some (mgr, s') \<and>
     book mgr 6 = None \<and> (\<exists>b. book mgr 5 = Some b \<and> map depth_entry (depth b Buy 0) = [(50, 70, 1)]))"
proof -
  have ops: "locate_ops {''ABC''} 6 sample_messages = []"
    "locate_ops {''ABC''} 5 sample_messages = [Add 1 Buy 100 50, Execute 1 30]"
    by (simp_all add: locate_ops_def locate_messages_def sample_message_defs opens_book_def to_side_def sample_symbols)
  have depth: "spec_depth Buy 0 (resting [Add 1 Buy 100 50, Execute 1 30]) = [(50, 70, 1)]"
    by code_simp
  have len: "length sample_messages \<le> 2 ^ 32 - 1"
    by (simp add: sample_messages_def)
  obtain mgr s' where run: "run_steps process sample_messages (manager [''ABC''] None None, ()) = Some (mgr, s')"
    and each: "\<And>l. case book mgr l of
        None \<Rightarrow> locate_ops {''ABC''} l sample_messages = []
      | Some b \<Rightarrow> locate_ops {''ABC''} l sample_messages \<noteq> [] \<and>
          (\<forall>sd n. map depth_entry (depth b sd n) = spec_depth sd n (resting (locate_ops {''ABC''} l sample_messages)))"
    using manager_books_refine [OF len, of "[''ABC'']" None None "()"] by (force split: option.splits)
  have "book mgr 6 = None"
    using each [of 6] ops(1) by (cases "book mgr 6") simp_all
  moreover have "\<exists>b. book mgr 5 = Some b \<and> map depth_entry (depth b Buy 0) = [(50, 70, 1)]"
    using each [of 5] depth unfolding ops(2) by (cases "book mgr 5") simp_all
  ultimately show ?thesis
    using run len by (intro conjI exI [of _ mgr] exI [of _ s'])
qed

text \<open>
  C10. Events: on a manager reached by any history, with any callbacks, a message first reports the
  trade it stands for (if any), priced from the resting order of the abstract book, and then
  reports the quote of its book exactly when the best bid or offer differs from the one before
  the message (the empty quote for a book that is new); nothing else reaches the callbacks.
\<close>

theorem manager_events:
  assumes "length ms < 2 ^ 32 - 1"
  shows "\<exists>mgr s1 mgr'. run_steps process ms (manager symbols bc tc, s) = Some (mgr, s1) \<and>
    process m (mgr, s1) = Some (mgr',
      (let s2 = (case (tc, trade_of (books (market (set symbols) ms)) m) of (Some cb, Some t) \<Rightarrow> cb s1 t | _ \<Rightarrow> s1)
       in case book_op m of None \<Rightarrow> s2
          | Some (l, _) \<Rightarrow> (case (book mgr' l, bc) of
              (Some b, Some cb) \<Rightarrow> if bbo b \<noteq> quote_before mgr l then cb s2 b (bbo b) else s2
            | _ \<Rightarrow> s2)))"
proof -
  obtain mgr s1 mgr' where run: "run_steps process ms (manager symbols bc tc, s) = Some (mgr, s1)"
    "process m (mgr, s1) = Some (mgr', events mgr (market (set symbols) ms) m mgr' s1)"
    and st: "m_bbo_callback mgr = bc" "m_trade_callback mgr = tc"
    using manager_next [OF assms, of symbols bc tc s m] by (auto simp: settings_def)
  show ?thesis
    using run by (intro exI [of _ mgr] exI [of _ s1] exI [of _ mgr'])
      (auto simp: events_def st notify_trade_def notify_bbo_def Let_def split: option.split)
qed

theorem manager_events_witness:
  "length [add_message 5 ''ABC     '' 1 (CHR ''B'') 100 50] < 2 ^ 32 - 1 \<and>
   (\<exists>mgr s1 mgr'. run_steps process [add_message 5 ''ABC     '' 1 (CHR ''B'') 100 50]
       (manager [] None (Some (\<lambda>prices t. raw (trade_price t) # prices)), []) = Some (mgr, s1) \<and>
     process (executed_message 5 1 30) (mgr, s1) = Some (mgr', 50 # s1))"
proof -
  let ?ms = "[add_message 5 ''ABC     '' 1 (CHR ''B'') 100 50]"
  let ?m = "executed_message 5 1 30"
  have len: "length ?ms < 2 ^ 32 - 1"
    by simp
  have "map_option (\<lambda>t. raw (trade_price t)) (trade_of (books (market {} ?ms)) ?m) = Some 50"
    by (simp add: sample_message_defs market_def market_step_def empty_market_def spec_add_def lookup_order_def)
  then obtain t where t: "trade_of (books (market (set []) ?ms)) ?m = Some t" "raw (trade_price t) = 50"
    unfolding map_option_eq_Some by auto
  have op: "book_op ?m = Some (5, Execute 1 30)"
    by (simp add: executed_message_def)
  have none: "(case x of None \<Rightarrow> y | Some _ \<Rightarrow> y) = y" for x :: "L3Book option" and y :: "u32 list"
    by (cases x) simp_all
  obtain mgr s1 mgr' where "run_steps process ?ms (manager [] None (Some (\<lambda>prices t. raw (trade_price t) # prices)), []) = Some (mgr, s1)"
    "process ?m (mgr, s1) = Some (mgr', raw (trade_price t) # s1)"
    using manager_events [OF len, of "[]" None "Some (\<lambda>prices t. raw (trade_price t) # prices)" "[]" ?m]
    unfolding t(1) op Let_def option.case prod.case by (simp only: none) blast
  then show ?thesis
    using t(2) len by auto
qed

text \<open>
  C9. Trade tape: a manager whose trade callback records what it is given has recorded, after any
  history, exactly one entry per execution of a resting order, per execution with a price of a
  tracked book, per non-cross and per cross trade, in the order of the messages, each with the
  data of its message and the symbol, price and side of the book at that moment.
\<close>

theorem manager_trade_tape:
  assumes "length ms \<le> 2 ^ 32 - 1"
  shows "\<exists>mgr. run_steps process ms (manager symbols None (Some (\<lambda>tape t. tape @ [t])), []) =
    Some (mgr, List.map_filter (\<lambda>i. trade_of (books (market (set symbols) (take i ms))) (ms ! i)) [0..<length ms])"
  using assms
proof (induction ms rule: rev_induct)
  case Nil
  then show ?case
    by (simp add: List.map_filter_def)
next
  case (snoc m ms)
  let ?tape = "\<lambda>ms. List.map_filter (\<lambda>i. trade_of (books (market (set symbols) (take i ms))) (ms ! i)) [0..<length ms]"
  have "?tape (ms @ [m]) = ?tape ms @ (case trade_of (books (market (set symbols) ms)) m of None \<Rightarrow> [] | Some t \<Rightarrow> [t])"
    by (auto simp: List.map_filter_def nth_append intro!: arg_cong2 [where f = append] map_cong filter_cong split: option.split)
  then show ?case
    using manager_next [of ms symbols None "Some (\<lambda>tape t. tape @ [t])" "[]" m] snoc
    by (auto simp: run_steps_append events_def notify_trade_def notify_bbo_def settings_def Let_def split: option.split)
qed

theorem manager_trade_tape_witness:
  "length sample_messages \<le> 2 ^ 32 - 1 \<and>
   (\<exists>mgr tape. run_steps process sample_messages (manager [] None (Some (\<lambda>tape t. tape @ [t])), []) = Some (mgr, tape) \<and>
     map trade_symbol tape = [''ABC''] \<and> map trade_shares tape = [30])"
proof -
  have len: "length sample_messages \<le> 2 ^ 32 - 1"
    by (simp add: sample_messages_def)
  let ?tape = "List.map_filter (\<lambda>i. trade_of (books (market {} (take i sample_messages))) (sample_messages ! i))
    [0..<length sample_messages]"
  have "map trade_symbol ?tape = [''ABC'']" "map trade_shares ?tape = [30]"
    by (simp_all add: sample_message_defs List.map_filter_def market_def market_step_def empty_market_def spec_add_def
        lookup_order_def upt_rec sample_symbols)
  then show ?thesis
    using manager_trade_tape [OF len, of "[]"] len by auto
qed

end
