(* ===== verification/Limit_Order_Book.thy ===== *)
theory Limit_Order_Book
  imports Market
begin

text \<open>
  \<^verbatim>\<open>LimitOrderBook\<close> of \<^verbatim>\<open>include/itch/order_book.hpp\<close> and \<^verbatim>\<open>src/order_book.cpp\<close>: the first order
  book of the library, for one symbol, built on \<^verbatim>\<open>std::map\<close>, \<^verbatim>\<open>std::list\<close> and shared order
  objects. Order objects live in a heap and are named by their position in it; a list node (and
  an iterator to it) is named by the order it holds; the address of a price level is its side and
  price, since \<^verbatim>\<open>std::map\<close> nodes do not move. \<open>None\<close> is an access through a dangling reference.
  Its \<^verbatim>\<open>print\<close> is in \<open>Book_Printer\<close>.
\<close>

section \<open>Orders and price levels\<close>

record LobOrder =
  lo_order_reference_number :: u64
  lo_buy_sell_indicator :: char
  lo_shares :: u32
  lo_price :: u32
  lo_level :: "(Side \<times> u32) option"
  lo_stock :: string

definition LobOrder_new :: "u64 \<Rightarrow> char \<Rightarrow> u32 \<Rightarrow> u32 \<Rightarrow> string \<Rightarrow> LobOrder" where
  "LobOrder_new ref_num sd shrs prc stk = \<lparr>lo_order_reference_number = ref_num, lo_buy_sell_indicator = sd,
     lo_shares = shrs, lo_price = prc, lo_level = None, lo_stock = stk\<rparr>"

record PriceLevel =
  pl_total_shares :: u32
  pl_orders :: "nat list"

definition PriceLevel_init :: PriceLevel where
  "PriceLevel_init = \<lparr>pl_total_shares = 0, pl_orders = []\<rparr>"

definition level_add_order :: "nat \<Rightarrow> LobOrder \<Rightarrow> PriceLevel \<Rightarrow> PriceLevel" where
  "level_add_order node ord lv =
     lv\<lparr>pl_total_shares := pl_total_shares lv + lo_shares ord, pl_orders := pl_orders lv @ [node]\<rparr>"

definition level_remove_order :: "nat \<Rightarrow> PriceLevel \<Rightarrow> PriceLevel" where
  "level_remove_order node lv = lv\<lparr>pl_orders := remove1 node (pl_orders lv)\<rparr>"

section \<open>The book\<close>

record LimitOrderBook =
  m_stock_symbol :: string
  m_bids :: "u32 \<Rightarrow> PriceLevel option"
  m_asks :: "u32 \<Rightarrow> PriceLevel option"
  m_orders :: "u64 \<Rightarrow> nat option"
  m_heap :: "LobOrder list"

definition LimitOrderBook_new :: "string \<Rightarrow> LimitOrderBook" where
  "LimitOrderBook_new stock_symbol = \<lparr>m_stock_symbol = stock_symbol, m_bids = Map.empty, m_asks = Map.empty,
     m_orders = Map.empty, m_heap = []\<rparr>"

definition book_messages :: "char set" where
  "book_messages = {CHR ''A'', CHR ''F'', CHR ''E'', CHR ''C'', CHR ''X'', CHR ''D'', CHR ''U''}"

definition level_at :: "LimitOrderBook \<Rightarrow> Side \<Rightarrow> u32 \<Rightarrow> PriceLevel option" where
  "level_at b sd p = (case sd of Buy \<Rightarrow> m_bids b p | Sell \<Rightarrow> m_asks b p)"

definition set_level :: "Side \<Rightarrow> u32 \<Rightarrow> PriceLevel option \<Rightarrow> LimitOrderBook \<Rightarrow> LimitOrderBook" where
  "set_level sd p lv b = (case sd of Buy \<Rightarrow> b\<lparr>m_bids := (m_bids b)(p := lv)\<rparr> | Sell \<Rightarrow> b\<lparr>m_asks := (m_asks b)(p := lv)\<rparr>)"

definition lob_add_order :: "u64 \<Rightarrow> char \<Rightarrow> u32 \<Rightarrow> u32 \<Rightarrow> string \<Rightarrow> LimitOrderBook \<Rightarrow> LimitOrderBook" where
  "lob_add_order order_ref sd sh p stk b =
     (let order = LobOrder_new order_ref sd sh p stk;
          side = (if sd = CHR ''B'' then Buy else Sell);
          level = (case level_at b side p of None \<Rightarrow> PriceLevel_init | Some level \<Rightarrow> level);
          order = order\<lparr>lo_level := Some (side, p)\<rparr>;
          node = length (m_heap b);
          b = set_level side p (Some (level_add_order node order level)) b;
          b = b\<lparr>m_heap := m_heap b @ [order]\<rparr>
      in b\<lparr>m_orders := (m_orders b)(order_ref \<mapsto> node)\<rparr>)"

definition lob_remove_order :: "u64 \<Rightarrow> u32 \<Rightarrow> LimitOrderBook \<Rightarrow> LimitOrderBook option" where
  "lob_remove_order order_ref canceled_shares b = (case m_orders b order_ref of
     None \<Rightarrow> Some b
   | Some node \<Rightarrow> do {
       order \<leftarrow> vec_at (m_heap b) node;
       (side, p) \<leftarrow> lo_level order;
       level \<leftarrow> level_at b side p;
       let level = level\<lparr>pl_total_shares := pl_total_shares level - canceled_shares\<rparr>;
       let order = order\<lparr>lo_shares := lo_shares order - canceled_shares\<rparr>;
       let b = (set_level side p (Some level) b)\<lparr>m_heap := (m_heap b)[node := order]\<rparr>;
       if lo_shares order = 0 then do {
         let level = level_remove_order node level;
         let b = set_level side p (Some level) b;
         let b = (if pl_orders level = []
           then set_level (if lo_buy_sell_indicator order = CHR ''B'' then Buy else Sell) (lo_price order) None b else b);
         Some (b\<lparr>m_orders := (m_orders b)(order_ref := None)\<rparr>) }
       else Some b })"

text \<open>The order a handler finds, when it belongs to the symbol of the book.\<close>

definition own_order :: "LimitOrderBook \<Rightarrow> u64 \<Rightarrow> LobOrder option option" where
  "own_order b r = (case m_orders b r of
     None \<Rightarrow> Some None
   | Some node \<Rightarrow> do {
       order \<leftarrow> vec_at (m_heap b) node;
       Some (if lo_stock order \<noteq> m_stock_symbol b then None else Some order) })"

definition lob_handle_add ::
  "char list \<Rightarrow> u64 \<Rightarrow> char \<Rightarrow> u32 \<Rightarrow> u32 \<Rightarrow> LimitOrderBook \<Rightarrow> LimitOrderBook option" where
  "lob_handle_add stk r indicator sh p b =
     Some (if to_string stk STOCK_LEN \<noteq> m_stock_symbol b then b
           else lob_add_order r indicator sh p (to_string stk STOCK_LEN) b)"

definition lob_handle_reduce :: "u64 \<Rightarrow> u32 \<Rightarrow> LimitOrderBook \<Rightarrow> LimitOrderBook option" where
  "lob_handle_reduce r sh b = do {
     found \<leftarrow> own_order b r;
     case found of None \<Rightarrow> Some b | Some _ \<Rightarrow> lob_remove_order r sh b }"

definition lob_handle_delete :: "u64 \<Rightarrow> LimitOrderBook \<Rightarrow> LimitOrderBook option" where
  "lob_handle_delete r b = do {
     found \<leftarrow> own_order b r;
     case found of None \<Rightarrow> Some b | Some order \<Rightarrow> lob_remove_order r (lo_shares order) b }"

definition lob_handle_replace :: "u64 \<Rightarrow> u64 \<Rightarrow> u32 \<Rightarrow> u32 \<Rightarrow> LimitOrderBook \<Rightarrow> LimitOrderBook option" where
  "lob_handle_replace old_r new_r sh p b = do {
     found \<leftarrow> own_order b old_r;
     case found of
       None \<Rightarrow> Some b
     | Some old_order \<Rightarrow> do {
         b \<leftarrow> lob_remove_order old_r (lo_shares old_order) b;
         Some (lob_add_order new_r (lo_buy_sell_indicator old_order) sh p (lo_stock old_order) b) } }"

fun handle_message :: "Message \<Rightarrow> LimitOrderBook \<Rightarrow> LimitOrderBook option" where
  "handle_message (AddOrder m) b = lob_handle_add (AddOrderMessage.stock m) (AddOrderMessage.order_reference_number m)
     (AddOrderMessage.buy_sell_indicator m) (AddOrderMessage.shares m) (AddOrderMessage.price m) b"
| "handle_message (AddOrderMPIDAttribution m) b = lob_handle_add (AddOrderMPIDAttributionMessage.stock m)
     (AddOrderMPIDAttributionMessage.order_reference_number m) (AddOrderMPIDAttributionMessage.buy_sell_indicator m)
     (AddOrderMPIDAttributionMessage.shares m) (AddOrderMPIDAttributionMessage.price m) b"
| "handle_message (OrderExecuted m) b =
     lob_handle_reduce (OrderExecutedMessage.order_reference_number m) (OrderExecutedMessage.executed_shares m) b"
| "handle_message (OrderExecutedWithPrice m) b = lob_handle_reduce
     (OrderExecutedWithPriceMessage.order_reference_number m) (OrderExecutedWithPriceMessage.executed_shares m) b"
| "handle_message (OrderCancel m) b =
     lob_handle_reduce (OrderCancelMessage.order_reference_number m) (OrderCancelMessage.cancelled_shares m) b"
| "handle_message (OrderDelete m) b = lob_handle_delete (OrderDeleteMessage.order_reference_number m) b"
| "handle_message (OrderReplace m) b = lob_handle_replace (OrderReplaceMessage.original_order_reference_number m)
     (OrderReplaceMessage.new_order_reference_number m) (OrderReplaceMessage.shares m) (OrderReplaceMessage.price m) b"
| "handle_message _ b = Some b"

definition lob_process :: "Message \<Rightarrow> LimitOrderBook \<Rightarrow> LimitOrderBook option" where
  "lob_process m b = (if message_type (header_of m) \<notin> book_messages then Some b else handle_message m b)"

section \<open>The refinement relation\<close>

text \<open>The abstract order of an order object; the live objects are a list of heap positions.\<close>

definition lob_order :: "LobOrder list \<Rightarrow> nat \<Rightarrow> Order" where
  "lob_order heap i = \<lparr>o_ref = lo_order_reference_number (heap ! i), o_side = to_side (lo_buy_sell_indicator (heap ! i)),
     o_shares = lo_shares (heap ! i), o_price = lo_price (heap ! i)\<rparr>"

definition lob_queue :: "LobOrder list \<Rightarrow> nat list \<Rightarrow> Side \<Rightarrow> u32 \<Rightarrow> nat list" where
  "lob_queue heap xs sd p =
     filter (\<lambda>i. to_side (lo_buy_sell_indicator (heap ! i)) = sd \<and> lo_price (heap ! i) = p) xs"

definition lob_level :: "LobOrder list \<Rightarrow> nat list \<Rightarrow> PriceLevel option" where
  "lob_level heap q =
     (if q = [] then None else Some \<lparr>pl_total_shares = (\<Sum>i\<leftarrow>q. lo_shares (heap ! i)), pl_orders = q\<rparr>)"

definition lob_core :: "LimitOrderBook \<Rightarrow> nat list \<Rightarrow> bool" where
  "lob_core b xs \<longleftrightarrow> distinct xs \<and> distinct (map (\<lambda>i. lo_order_reference_number (m_heap b ! i)) xs) \<and>
     (\<forall>i \<in> set xs. i < length (m_heap b) \<and> lo_stock (m_heap b ! i) = m_stock_symbol b \<and>
        lo_level (m_heap b ! i) = Some (to_side (lo_buy_sell_indicator (m_heap b ! i)), lo_price (m_heap b ! i))) \<and>
     m_orders b = map_of (map (\<lambda>i. (lo_order_reference_number (m_heap b ! i), i)) xs) \<and>
     (\<forall>sd p. level_at b sd p = lob_level (m_heap b) (lob_queue (m_heap b) xs sd p))"

definition lob_refines :: "LimitOrderBook \<Rightarrow> Order list \<Rightarrow> bool" where
  "lob_refines b os \<longleftrightarrow> (\<exists>xs. lob_core b xs \<and> os = map (lob_order (m_heap b)) xs)"

lemma level_at_set_level [simp]:
  "level_at (set_level sd p lv b) sd' p' = (if sd' = sd \<and> p' = p then lv else level_at b sd' p')"
  by (cases sd; cases sd') (auto simp: level_at_def set_level_def)

lemma set_level_fields [simp]:
  "m_heap (set_level sd p lv b) = m_heap b" "m_orders (set_level sd p lv b) = m_orders b"
  "m_stock_symbol (set_level sd p lv b) = m_stock_symbol b"
  by (cases sd; simp add: set_level_def)+

lemma level_at_other_fields [simp]:
  "level_at (b\<lparr>m_heap := h\<rparr>) = level_at b" "level_at (b\<lparr>m_orders := f\<rparr>) = level_at b"
  by (auto simp: level_at_def fun_eq_iff split: Side.split)

lemma to_side_if: "(if c = CHR ''B'' then Buy else Sell) = to_side c"
  by (simp add: to_side_def)

lemma lob_queue_cong:
  "(\<And>i. i \<in> set xs \<Longrightarrow> lo_buy_sell_indicator (h ! i) = lo_buy_sell_indicator (h' ! i) \<and> lo_price (h ! i) = lo_price (h' ! i)) \<Longrightarrow>
    lob_queue h xs sd p = lob_queue h' xs sd p"
  unfolding lob_queue_def by (rule filter_cong) simp_all

lemma lob_level_cong:
  "(\<And>i. i \<in> set q \<Longrightarrow> lo_shares (h ! i) = lo_shares (h' ! i)) \<Longrightarrow> lob_level h q = lob_level h' q"
  by (auto simp: lob_level_def cong: map_cong)

section \<open>Adding an order\<close>

lemma lob_lookup:
  assumes "lob_core b xs"
  shows "lookup_order r (map (lob_order (m_heap b)) xs) = map_option (lob_order (m_heap b)) (m_orders b r)"
proof -
  have "List.find (\<lambda>ord. o_ref ord = r) (map (lob_order h) ys) =
      map_option (lob_order h) (map_of (map (\<lambda>i. (lo_order_reference_number (h ! i), i)) ys) r)" for h ys
    by (induction ys) (simp_all add: lob_order_def)
  then show ?thesis
    using assms by (simp add: lookup_order_def lob_core_def)
qed

lemma lob_add_core:
  assumes "lob_core b xs" "m_orders b r = None" "stk = m_stock_symbol b"
  shows "lob_core (lob_add_order r c sh p stk b) (xs @ [length (m_heap b)])"
    "map (lob_order (m_heap (lob_add_order r c sh p stk b))) (xs @ [length (m_heap b)]) =
      map (lob_order (m_heap b)) xs @ [\<lparr>o_ref = r, o_side = to_side c, o_shares = sh, o_price = p\<rparr>]"
    "m_stock_symbol (lob_add_order r c sh p stk b) = m_stock_symbol b"
proof -
  let ?n = "length (m_heap b)"
  let ?new = "(LobOrder_new r c sh p stk)\<lparr>lo_level := Some (to_side c, p)\<rparr>"
  let ?heap = "m_heap b @ [?new]"
  have live: "\<And>i. i \<in> set xs \<Longrightarrow> i < ?n"
    using assms(1) by (simp add: lob_core_def)
  then have old: "\<And>i. i \<in> set xs \<Longrightarrow> ?heap ! i = m_heap b ! i" and new: "?heap ! ?n = ?new"
    by (simp_all add: nth_append)
  have fresh: "r \<notin> (\<lambda>i. lo_order_reference_number (m_heap b ! i)) ` set xs"
    using assms(1,2) by (force simp: lob_core_def map_of_eq_None_iff)
  have queue: "lob_queue ?heap (xs @ [?n]) sd q = lob_queue (m_heap b) xs sd q @ (if to_side c = sd \<and> p = q then [?n] else [])" for sd q
    using lob_queue_cong [of xs ?heap "m_heap b" sd q] old new by (simp add: lob_queue_def LobOrder_new_def)
  have level: "lob_level ?heap (lob_queue (m_heap b) xs sd q) = lob_level (m_heap b) (lob_queue (m_heap b) xs sd q)" for sd q
    using old by (intro lob_level_cong) (auto simp: lob_queue_def)
  show "lob_core (lob_add_order r c sh p stk b) (xs @ [?n])"
    unfolding lob_core_def
  proof (intro conjI allI ballI)
    have b': "m_heap (lob_add_order r c sh p stk b) = ?heap" "m_stock_symbol (lob_add_order r c sh p stk b) = m_stock_symbol b"
      "m_orders (lob_add_order r c sh p stk b) = (m_orders b)(r \<mapsto> ?n)"
      by (simp_all add: lob_add_order_def Let_def to_side_if)
    have refs: "map (\<lambda>i. f (?heap ! i) i) (xs @ [?n]) = map (\<lambda>i. f (m_heap b ! i) i) xs @ [f ?new ?n]" for f :: "LobOrder \<Rightarrow> nat \<Rightarrow> 'z"
      using old new by simp
    show "distinct (xs @ [?n])"
      using assms(1) live by (auto simp: lob_core_def)
    show "distinct (map (\<lambda>i. lo_order_reference_number (m_heap (lob_add_order r c sh p stk b) ! i)) (xs @ [?n]))"
      unfolding b' refs [of "\<lambda>ord i. lo_order_reference_number ord"] using assms(1) fresh
      by (simp add: lob_core_def LobOrder_new_def)
    show "m_orders (lob_add_order r c sh p stk b) =
        map_of (map (\<lambda>i. (lo_order_reference_number (m_heap (lob_add_order r c sh p stk b) ! i), i)) (xs @ [?n]))"
      unfolding b' refs [of "\<lambda>ord i. (lo_order_reference_number ord, i)"] using assms(1) fresh
      by (subst map_of_snoc) (auto simp: lob_core_def LobOrder_new_def map_of_graph_None)
    show "level_at (lob_add_order r c sh p stk b) sd q =
        lob_level (m_heap (lob_add_order r c sh p stk b)) (lob_queue (m_heap (lob_add_order r c sh p stk b)) (xs @ [?n]) sd q)" for sd q
    proof (cases "to_side c = sd \<and> p = q")
      case True
      have "level_at b sd q = lob_level ?heap (lob_queue (m_heap b) xs sd q)"
        using assms(1) level by (simp add: lob_core_def)
      then show ?thesis
        unfolding b' queue using True new
        by (cases "lob_queue (m_heap b) xs sd q")
          (auto simp: lob_add_order_def Let_def to_side_if lob_level_def level_add_order_def PriceLevel_init_def LobOrder_new_def add.commute add.left_commute)
    next
      case False
      then have "level_at (lob_add_order r c sh p stk b) sd q = level_at b sd q"
        by (auto simp: lob_add_order_def Let_def to_side_if)
      then show ?thesis
        unfolding b' queue using assms(1) False level by (auto simp: lob_core_def)
    qed
    fix i assume i: "i \<in> set (xs @ [?n])"
    show "i < length (m_heap (lob_add_order r c sh p stk b))"
      "lo_stock (m_heap (lob_add_order r c sh p stk b) ! i) = m_stock_symbol (lob_add_order r c sh p stk b)"
      "lo_level (m_heap (lob_add_order r c sh p stk b) ! i) =
        Some (to_side (lo_buy_sell_indicator (m_heap (lob_add_order r c sh p stk b) ! i)),
          lo_price (m_heap (lob_add_order r c sh p stk b) ! i))"
      unfolding b' using i assms(1,3) old new live
      by (auto simp: lob_core_def LobOrder_new_def intro: less_SucI)
  qed
  show "map (lob_order (m_heap (lob_add_order r c sh p stk b))) (xs @ [?n]) =
      map (lob_order (m_heap b)) xs @ [\<lparr>o_ref = r, o_side = to_side c, o_shares = sh, o_price = p\<rparr>]"
    using old new by (simp add: lob_add_order_def Let_def to_side_if lob_order_def LobOrder_new_def)
  show "m_stock_symbol (lob_add_order r c sh p stk b) = m_stock_symbol b"
    by (simp add: lob_add_order_def Let_def)
qed

section \<open>Reducing and removing an order\<close>

lemma lob_coreD:
  assumes "lob_core b xs" "i \<in> set xs"
  shows "i < length (m_heap b)" "lo_stock (m_heap b ! i) = m_stock_symbol b"
    "lo_level (m_heap b ! i) = Some (to_side (lo_buy_sell_indicator (m_heap b ! i)), lo_price (m_heap b ! i))"
    "m_orders b (lo_order_reference_number (m_heap b ! i)) = Some i"
  using assms map_of_graph [of "\<lambda>i. lo_order_reference_number (m_heap b ! i)" xs i "\<lambda>i. i"] by (simp_all add: lob_core_def)

lemma lob_level_at:
  assumes "lob_core b xs" "i \<in> set xs"
  defines "q \<equiv> lob_queue (m_heap b) xs (to_side (lo_buy_sell_indicator (m_heap b ! i))) (lo_price (m_heap b ! i))"
  shows "level_at b (to_side (lo_buy_sell_indicator (m_heap b ! i))) (lo_price (m_heap b ! i)) =
      Some \<lparr>pl_total_shares = (\<Sum>j\<leftarrow>q. lo_shares (m_heap b ! j)), pl_orders = q\<rparr>" "i \<in> set q" "distinct q"
proof -
  show "i \<in> set q" "distinct q"
    using assms(1,2) by (auto simp: q_def lob_queue_def lob_core_def)
  then show "level_at b (to_side (lo_buy_sell_indicator (m_heap b ! i))) (lo_price (m_heap b ! i)) =
      Some \<lparr>pl_total_shares = (\<Sum>j\<leftarrow>q. lo_shares (m_heap b ! j)), pl_orders = q\<rparr>"
    using assms(1) by (auto simp: lob_core_def q_def lob_level_def)
qed

text \<open>Shares of an order change together with the total of its level.\<close>

lemma lob_reduce_core:
  assumes "lob_core b xs" "i \<in> set xs" "sd = to_side (lo_buy_sell_indicator (m_heap b ! i))" "p = lo_price (m_heap b ! i)"
    "level_at b sd p = Some lv"
  shows "lob_core ((set_level sd p (Some (lv\<lparr>pl_total_shares := pl_total_shares lv - c\<rparr>)) b)
    \<lparr>m_heap := (m_heap b)[i := (m_heap b ! i)\<lparr>lo_shares := lo_shares (m_heap b ! i) - c\<rparr>]\<rparr>) xs"
    (is "lob_core ?b xs")
proof -
  let ?h = "m_heap b" and ?h' = "m_heap ?b"
  have h': "?h' = ?h[i := (?h ! i)\<lparr>lo_shares := lo_shares (?h ! i) - c\<rparr>]"
    by simp
  have i: "i < length ?h"
    using lob_coreD [OF assms(1,2)] by simp
  have same: "lo_order_reference_number (?h' ! j) = lo_order_reference_number (?h ! j)"
    "lo_buy_sell_indicator (?h' ! j) = lo_buy_sell_indicator (?h ! j)" "lo_price (?h' ! j) = lo_price (?h ! j)"
    "lo_stock (?h' ! j) = lo_stock (?h ! j)" "lo_level (?h' ! j) = lo_level (?h ! j)" for j
    using i by (cases "j = i"; simp add: h')+
  have shares: "lo_shares (?h' ! j) = (if j = i then lo_shares (?h ! i) - c else lo_shares (?h ! j))" for j
    using i by (simp add: h')
  have queue: "lob_queue ?h' xs sd' p' = lob_queue ?h xs sd' p'" for sd' p'
    by (rule lob_queue_cong) (simp only: same)
  let ?q = "lob_queue ?h xs sd p"
  have lv: "lv = \<lparr>pl_total_shares = (\<Sum>j\<leftarrow>?q. lo_shares (?h ! j)), pl_orders = ?q\<rparr>" "i \<in> set ?q" "distinct ?q"
    using lob_level_at [OF assms(1,2)] assms(3-5) by simp_all
  have sum: "(\<Sum>j\<leftarrow>q. lo_shares (?h' ! j)) = (\<Sum>j\<leftarrow>q. lo_shares (?h ! j)) - (if i \<in> set q then c else 0)" if "distinct q" for q
    using that i by (induction q) (auto simp: nth_list_update)
  have level: "level_at ?b sd' p' = lob_level ?h' (lob_queue ?h' xs sd' p')" for sd' p'
  proof (cases "sd' = sd \<and> p' = p")
    case True
    then show ?thesis
      using lv sum [OF lv(3)] unfolding queue by (auto simp: lob_level_def)
  next
    case False
    then have "i \<notin> set (lob_queue ?h xs sd' p')"
      using assms(3,4) by (auto simp: lob_queue_def)
    then have "lob_level ?h' (lob_queue ?h xs sd' p') = lob_level ?h (lob_queue ?h xs sd' p')"
      using i by (intro lob_level_cong) (auto simp: nth_list_update)
    then show ?thesis
      using assms(1) False unfolding queue by (auto simp: lob_core_def)
  qed
  have fields: "m_orders ?b = m_orders b" "m_stock_symbol ?b = m_stock_symbol b" "length ?h' = length ?h"
    by simp_all
  note core = assms(1) [unfolded lob_core_def]
  show ?thesis
    unfolding lob_core_def same fields by (intro conjI allI ballI level) (use core in blast)+
qed

lemma remove1_filter: "distinct xs \<Longrightarrow> remove1 x (filter P xs) = filter P (remove1 x xs)"
  by (simp add: distinct_remove1_removeAll removeAll_filter_not_eq conj_commute)

lemma remove1_distinct_key:
  assumes "distinct xs" "distinct (map f xs)" "i \<in> set xs"
  shows "remove1 i xs = filter (\<lambda>j. f j \<noteq> f i) xs"
  unfolding distinct_remove1_removeAll [OF assms(1)] removeAll_filter_not_eq
  using assms(2,3) by (intro filter_cong) (auto simp: distinct_map dest: inj_onD)

text \<open>An order without shares leaves the book, an empty level with it.\<close>

lemma lob_drop_core:
  assumes "lob_core b xs" "i \<in> set xs" "sd = to_side (lo_buy_sell_indicator (m_heap b ! i))" "p = lo_price (m_heap b ! i)"
    "level_at b sd p = Some lv" "lo_shares (m_heap b ! i) = 0" "r = lo_order_reference_number (m_heap b ! i)"
  defines "lv' \<equiv> level_remove_order i lv"
  shows "lob_core ((set_level sd p (if pl_orders lv' = [] then None else Some lv') b)
    \<lparr>m_orders := (m_orders b)(r := None)\<rparr>) (remove1 i xs)"
    (is "lob_core ?b _")
proof -
  let ?h = "m_heap b" and ?q = "lob_queue (m_heap b) xs sd p"
  have dist: "distinct xs" "distinct (map (\<lambda>i. lo_order_reference_number (?h ! i)) xs)"
    using assms(1) by (simp_all add: lob_core_def)
  have lv: "lv = \<lparr>pl_total_shares = (\<Sum>j\<leftarrow>?q. lo_shares (?h ! j)), pl_orders = ?q\<rparr>" "i \<in> set ?q" "distinct ?q"
    using lob_level_at [OF assms(1,2)] assms(3-5) by simp_all
  have sum: "(\<Sum>j\<leftarrow>remove1 i q. lo_shares (?h ! j)) = (\<Sum>j\<leftarrow>q. lo_shares (?h ! j))" for q
    using assms(6) by (induction q) auto
  have queue: "lob_queue ?h (remove1 i xs) sd' p' = remove1 i (lob_queue ?h xs sd' p')" for sd' p'
    by (simp add: lob_queue_def remove1_filter [OF dist(1)])
  have level: "level_at ?b sd' p' = lob_level ?h (lob_queue ?h (remove1 i xs) sd' p')" for sd' p'
  proof (cases "sd' = sd \<and> p' = p")
    case True
    then show ?thesis
      unfolding queue by (simp add: lv'_def lv(1) level_remove_order_def lob_level_def sum)
  next
    case False
    then have "i \<notin> set (lob_queue ?h xs sd' p')"
      using assms(3,4) by (auto simp: lob_queue_def)
    then show ?thesis
      using assms(1) False unfolding queue by (auto simp: lob_core_def remove1_idem)
  qed
  have rest: "remove1 i xs = filter (\<lambda>j. lo_order_reference_number (?h ! j) \<noteq> r) xs"
    using remove1_distinct_key [OF dist assms(2)] assms(7) by simp
  have "(m_orders b)(r := None) = map_of (map (\<lambda>i. (lo_order_reference_number (?h ! i), i)) (remove1 i xs))"
    unfolding rest using assms(1) map_of_graph_delete [of "\<lambda>i. lo_order_reference_number (?h ! i)" "\<lambda>i. i" xs r]
    by (simp add: lob_core_def)
  moreover have "distinct (map (\<lambda>i. lo_order_reference_number (?h ! i)) (remove1 i xs))" "distinct (remove1 i xs)"
    using dist by (auto simp: distinct_map dest: inj_on_subset [OF _ set_remove1_subset])
  ultimately show ?thesis
    using assms(1) level set_remove1_subset [of i xs] unfolding lob_core_def by auto
qed

text \<open>Taking \<open>c\<close> shares from a resting order, as the word arithmetic of the code does it.\<close>

definition spec_take :: "u64 \<Rightarrow> u32 \<Rightarrow> Order list \<Rightarrow> Order list" where
  "spec_take r c os = (case lookup_order r os of
     None \<Rightarrow> os
   | Some ord \<Rightarrow> if o_shares ord = c then spec_delete r os
       else map (\<lambda>ord. if o_ref ord = r then ord\<lparr>o_shares := o_shares ord - c\<rparr> else ord) os)"

lemma lob_found:
  assumes "lob_core b xs" "m_orders b r = Some i"
  shows "i \<in> set xs" "lo_order_reference_number (m_heap b ! i) = r"
proof -
  have "map_of (map (\<lambda>i. (lo_order_reference_number (m_heap b ! i), i)) xs) r = Some i"
    using assms by (simp add: lob_core_def)
  then show "i \<in> set xs" "lo_order_reference_number (m_heap b ! i) = r"
    by (auto dest: map_of_SomeD)
qed

text \<open>The abstract effect of the two outcomes on the live orders.\<close>

lemma lob_orders_reduced:
  fixes c :: u32
  assumes "lob_core b xs" "m_orders b r = Some i"
  defines "h \<equiv> (m_heap b)[i := (m_heap b ! i)\<lparr>lo_shares := lo_shares (m_heap b ! i) - c\<rparr>]"
  shows "spec_take r c (map (lob_order (m_heap b)) xs) =
    map (lob_order h) (if lo_shares (m_heap b ! i) = c then remove1 i xs else xs)"
proof -
  note i = lob_found [OF assms(1,2)]
  have dist: "distinct xs" "distinct (map (\<lambda>i. lo_order_reference_number (m_heap b ! i)) xs)"
    using assms(1) by (simp_all add: lob_core_def)
  have inj: "lo_order_reference_number (m_heap b ! j) = r \<longleftrightarrow> j = i" if "j \<in> set xs" for j
    using dist(2) that i by (auto simp: distinct_map dest: inj_onD)
  have look: "lookup_order r (map (lob_order (m_heap b)) xs) = Some (lob_order (m_heap b) i)"
    using lob_lookup [OF assms(1), of r] assms(2) by simp
  have "spec_delete r (map (lob_order (m_heap b)) xs) = map (lob_order (m_heap b)) (remove1 i xs)"
    unfolding spec_delete_def remove1_distinct_key [OF dist i(1)] i(2) by (simp add: filter_map comp_def lob_order_def)
  moreover have "map (lob_order (m_heap b)) (remove1 i xs) = map (lob_order h) (remove1 i xs)"
    using dist(1) by (auto simp: h_def lob_order_def)
  moreover have "map (\<lambda>ord. if o_ref ord = r then ord\<lparr>o_shares := o_shares ord - c\<rparr> else ord)
      (map (lob_order (m_heap b)) xs) = map (lob_order h) xs"
    using inj lob_coreD(1) [OF assms(1) i(1)] by (auto simp: lob_order_def h_def nth_list_update)
  ultimately show ?thesis
    using look by (simp add: spec_take_def lob_order_def)
qed

lemma lob_remove_refines:
  assumes "lob_refines b os"
  shows "\<exists>b'. lob_remove_order r c b = Some b' \<and> lob_refines b' (spec_take r c os) \<and> m_stock_symbol b' = m_stock_symbol b"
proof -
  obtain xs where core: "lob_core b xs" and os: "os = map (lob_order (m_heap b)) xs"
    using assms by (auto simp: lob_refines_def)
  show ?thesis
  proof (cases "m_orders b r")
    case None
    then show ?thesis
      using assms lob_lookup [OF core, of r] by (simp add: lob_remove_order_def spec_take_def os)
  next
    case (Some i)
    define ord where "ord = m_heap b ! i"
    define sd where "sd = to_side (lo_buy_sell_indicator ord)"
    define p where "p = lo_price ord"
    define h where "h = (m_heap b)[i := ord\<lparr>lo_shares := lo_shares ord - c\<rparr>]"
    note i = lob_found [OF core Some] and names = ord_def [symmetric] sd_def [symmetric] p_def [symmetric]
    note live = lob_coreD [OF core i(1), unfolded names] and orders = lob_orders_reduced [OF core Some, of c, unfolded names, folded h_def os]
    obtain lv where lv: "level_at b sd p = Some lv"
      using lob_level_at(1) [OF core i(1)] by (simp add: names)
    define lv1 where "lv1 = lv\<lparr>pl_total_shares := pl_total_shares lv - c\<rparr>"
    define b1 where "b1 = (set_level sd p (Some lv1) b)\<lparr>m_heap := h\<rparr>"
    have core1: "lob_core b1 xs"
      using lob_reduce_core [OF core i(1) _ _ lv, of c] unfolding b1_def lv1_def h_def by (simp add: names)
    have b1: "m_heap b1 = h" "level_at b1 sd p = Some lv1" "h ! i = ord\<lparr>lo_shares := lo_shares ord - c\<rparr>"
      using live(1) by (simp_all add: b1_def h_def)
    show ?thesis
    proof (cases "lo_shares ord = c")
      case True
      define b2 where "b2 = (let lv' = level_remove_order i lv1 in
        (set_level sd p (if pl_orders lv' = [] then None else Some lv') b1)\<lparr>m_orders := (m_orders b1)(r := None)\<rparr>)"
      have "lob_remove_order r c b = Some b2"
        using Some live(1,3) lv True
        by (cases sd) (auto simp: lob_remove_order_def vec_at_def Let_def b2_def b1_def lv1_def h_def names to_side_if set_level_def)
      moreover have "lob_core b2 (remove1 i xs)"
        using lob_drop_core [OF core1 i(1) _ _ b1(2)] b1(3) i(2) True unfolding b1(1) b2_def Let_def by (simp add: names)
      moreover have "m_heap b2 = h" "m_stock_symbol b2 = m_stock_symbol b"
        by (simp_all add: b2_def b1_def Let_def)
      ultimately show ?thesis
        using orders True by (auto simp: lob_refines_def)
    next
      case False
      then have "lob_remove_order r c b = Some b1"
        using Some live(1,3) lv by (simp add: lob_remove_order_def vec_at_def Let_def b1_def lv1_def h_def names)
      then show ?thesis
        using orders False core1 b1(1) by (auto simp: lob_refines_def b1_def)
    qed
  qed
qed

section \<open>The handlers\<close>

lemma lob_own_order:
  assumes "lob_refines b os"
  shows "\<exists>found. own_order b r = Some found \<and> lookup_order r os =
    map_option (\<lambda>ord. \<lparr>o_ref = lo_order_reference_number ord, o_side = to_side (lo_buy_sell_indicator ord),
      o_shares = lo_shares ord, o_price = lo_price ord\<rparr>) found \<and>
    (\<forall>ord. found = Some ord \<longrightarrow> lo_stock ord = m_stock_symbol b)"
proof -
  obtain xs where core: "lob_core b xs" and os: "os = map (lob_order (m_heap b)) xs"
    using assms by (auto simp: lob_refines_def)
  note look = lob_lookup [OF core, of r, folded os]
  show ?thesis
  proof (cases "m_orders b r")
    case None
    then show ?thesis
      using look by (simp add: own_order_def)
  next
    case (Some i)
    then show ?thesis
      using look lob_coreD(1,2) [OF core lob_found(1) [OF core Some]] by (simp add: own_order_def vec_at_def lob_order_def)
  qed
qed

lemma lob_add_refines:
  assumes "lob_refines b os" "lookup_order r os = None" "stk = m_stock_symbol b"
  shows "lob_refines (lob_add_order r c sh p stk b) (spec_add r (to_side c) sh p os)"
    "m_stock_symbol (lob_add_order r c sh p stk b) = m_stock_symbol b"
proof -
  obtain xs where core: "lob_core b xs" and os: "os = map (lob_order (m_heap b)) xs"
    using assms(1) by (auto simp: lob_refines_def)
  have "m_orders b r = None"
    using assms(2) lob_lookup [OF core, of r] by (simp add: os)
  note add = lob_add_core [OF core this assms(3), of c sh p]
  have "spec_add r (to_side c) sh p os = os @ [\<lparr>o_ref = r, o_side = to_side c, o_shares = sh, o_price = p\<rparr>]"
    using assms(2) by (simp add: spec_add_def)
  then show "lob_refines (lob_add_order r c sh p stk b) (spec_add r (to_side c) sh p os)"
    unfolding lob_refines_def using add(1,2) os by metis
  show "m_stock_symbol (lob_add_order r c sh p stk b) = m_stock_symbol b"
    by (rule add(3))
qed

lemma spec_take_all: "lookup_order r os = Some ord \<Longrightarrow> spec_take r (o_shares ord) os = spec_delete r os"
  by (simp add: spec_take_def)

lemma spec_take_none: "lookup_order r os = None \<Longrightarrow> spec_take r c os = os"
  by (simp add: spec_take_def)

lemma lob_handle_reduce_refines:
  assumes "lob_refines b os"
  shows "\<exists>b'. lob_handle_reduce r c b = Some b' \<and> lob_refines b' (spec_take r c os) \<and> m_stock_symbol b' = m_stock_symbol b"
proof -
  obtain found where f: "own_order b r = Some found" "lookup_order r os = None \<longleftrightarrow> found = None"
    using lob_own_order [OF assms, of r] by auto
  show ?thesis
  proof (cases found)
    case None
    then show ?thesis
      using f assms by (simp add: lob_handle_reduce_def spec_take_none)
  next
    case (Some ord)
    then show ?thesis
      using f lob_remove_refines [OF assms, of r c] by (simp add: lob_handle_reduce_def)
  qed
qed

lemma lob_handle_delete_refines:
  assumes "lob_refines b os"
  shows "\<exists>b'. lob_handle_delete r b = Some b' \<and> lob_refines b' (spec_delete r os) \<and> m_stock_symbol b' = m_stock_symbol b"
proof -
  obtain found where f: "own_order b r = Some found" "lookup_order r os =
    map_option (\<lambda>ord. \<lparr>o_ref = lo_order_reference_number ord, o_side = to_side (lo_buy_sell_indicator ord),
      o_shares = lo_shares ord, o_price = lo_price ord\<rparr>) found"
    using lob_own_order [OF assms, of r] by auto
  show ?thesis
  proof (cases found)
    case None
    then have "spec_delete r os = os"
      using f(2) by (auto simp: spec_delete_def lookup_order_def find_None_iff intro: filter_True)
    then show ?thesis
      using None f assms by (simp add: lob_handle_delete_def)
  next
    case (Some ord)
    then show ?thesis
      using f lob_remove_refines [OF assms, of r "lo_shares ord"] spec_take_all [of r os]
      by (simp add: lob_handle_delete_def)
  qed
qed

lemma lob_handle_replace_refines:
  assumes "lob_refines b os" "lookup_order old_r os \<noteq> None \<Longrightarrow> lookup_order new_r (spec_delete old_r os) = None"
  shows "\<exists>b'. lob_handle_replace old_r new_r sh p b = Some b' \<and> lob_refines b' (spec_replace old_r new_r sh p os) \<and>
    m_stock_symbol b' = m_stock_symbol b"
proof -
  obtain found where f: "own_order b old_r = Some found" "lookup_order old_r os =
    map_option (\<lambda>ord. \<lparr>o_ref = lo_order_reference_number ord, o_side = to_side (lo_buy_sell_indicator ord),
      o_shares = lo_shares ord, o_price = lo_price ord\<rparr>) found" "\<forall>ord. found = Some ord \<longrightarrow> lo_stock ord = m_stock_symbol b"
    using lob_own_order [OF assms(1), of old_r] by auto
  show ?thesis
  proof (cases found)
    case None
    then show ?thesis
      using f assms by (simp add: lob_handle_replace_def spec_replace_def)
  next
    case (Some ord)
    obtain b1 where b1: "lob_remove_order old_r (lo_shares ord) b = Some b1" "lob_refines b1 (spec_delete old_r os)"
      "m_stock_symbol b1 = m_stock_symbol b"
      using lob_remove_refines [OF assms(1), of old_r "lo_shares ord"] f(2) Some spec_take_all [of old_r os] by auto
    have fresh: "lookup_order new_r (spec_delete old_r os) = None" and stk: "lo_stock ord = m_stock_symbol b1"
      using assms(2) f(2,3) Some b1(3) by simp_all
    show ?thesis
      using lob_add_refines [OF b1(2) fresh stk, of "lo_buy_sell_indicator ord" sh p] f Some b1
      by (simp add: lob_handle_replace_def spec_replace_def)
  qed
qed

section \<open>Histories of messages\<close>

text \<open>The operation a message asks of the book of one symbol: an add of another symbol asks nothing.\<close>

definition lob_op :: "string \<Rightarrow> Message \<Rightarrow> BookOp option" where
  "lob_op symbol m = (if add_symbol m = None \<or> add_symbol m = Some symbol then map_option snd (book_op m) else None)"

text \<open>
  What a feed guarantees of an operation: a reference number is not reused while its order
  rests, and no more shares are executed or cancelled than rest.
\<close>

fun regular :: "Order list \<Rightarrow> BookOp \<Rightarrow> bool" where
  "regular os (Add r s sh p) \<longleftrightarrow> lookup_order r os = None"
| "regular os (Execute r sh) \<longleftrightarrow> (case lookup_order r os of None \<Rightarrow> True | Some ord \<Rightarrow> sh \<le> o_shares ord)"
| "regular os (Reduce r sh) \<longleftrightarrow> (case lookup_order r os of None \<Rightarrow> True | Some ord \<Rightarrow> sh \<le> o_shares ord)"
| "regular os (Delete r) \<longleftrightarrow> True"
| "regular os (Replace old_r new_r sh p) \<longleftrightarrow>
     (case lookup_order old_r os of None \<Rightarrow> True | Some _ \<Rightarrow> lookup_order new_r (spec_delete old_r os) = None)"

fun regular_run :: "Order list \<Rightarrow> BookOp list \<Rightarrow> bool" where
  "regular_run os [] \<longleftrightarrow> True"
| "regular_run os (op # ops) \<longleftrightarrow> regular os op \<and> regular_run (spec_step op os) ops"

definition typed :: "Message \<Rightarrow> bool" where
  "typed m \<longleftrightarrow> message_type (header_of m) = type_byte (msg_type m)"

definition lob_history :: "string \<Rightarrow> Message list \<Rightarrow> LimitOrderBook option" where
  "lob_history symbol ms = run_steps lob_process ms (LimitOrderBook_new symbol)"

definition lob_ops :: "string \<Rightarrow> Message list \<Rightarrow> BookOp list" where
  "lob_ops symbol ms = List.map_filter (lob_op symbol) ms"

lemma spec_take_regular:
  "(case lookup_order r os of None \<Rightarrow> True | Some ord \<Rightarrow> sh \<le> o_shares ord) \<Longrightarrow> spec_take r sh os = snd (spec_execute r sh os)"
  by (auto simp: spec_take_def spec_execute_def split: option.splits)

lemma lob_process_typed: "typed m \<Longrightarrow> lob_process m b = handle_message m b"
  by (cases m) (auto simp: typed_def lob_process_def book_messages_def)

lemma handle_message_refines:
  assumes "lob_refines b os" "\<And>op. lob_op (m_stock_symbol b) m = Some op \<Longrightarrow> regular os op"
  shows "\<exists>b'. handle_message m b = Some b' \<and> m_stock_symbol b' = m_stock_symbol b \<and>
    lob_refines b' (case lob_op (m_stock_symbol b) m of None \<Rightarrow> os | Some op \<Rightarrow> spec_step op os)"
proof -
  have add: "\<exists>b'. lob_handle_add stk r c sh p b = Some b' \<and> m_stock_symbol b' = m_stock_symbol b \<and>
      lob_refines b' (if to_string stk STOCK_LEN = m_stock_symbol b then spec_add r (to_side c) sh p os else os)"
    if "to_string stk STOCK_LEN = m_stock_symbol b \<Longrightarrow> lookup_order r os = None" for stk r c sh p
    using that assms(1) lob_add_refines [OF assms(1), of r "to_string stk STOCK_LEN" c sh p] by (auto simp: lob_handle_add_def)
  have red: "\<exists>b'. lob_handle_reduce r sh b = Some b' \<and> m_stock_symbol b' = m_stock_symbol b \<and>
      lob_refines b' (snd (spec_execute r sh os))"
    if "case lookup_order r os of None \<Rightarrow> True | Some ord \<Rightarrow> sh \<le> o_shares ord" for r sh
    using lob_handle_reduce_refines [OF assms(1), of r sh] spec_take_regular [OF that] by auto
  show ?thesis
  proof (cases m)
    case (AddOrder x)
    then show ?thesis
      using assms(2) add [of "AddOrderMessage.stock x" "AddOrderMessage.order_reference_number x"
          "AddOrderMessage.buy_sell_indicator x" "AddOrderMessage.shares x" "AddOrderMessage.price x"]
      by (auto simp: lob_op_def split: if_splits)
  next
    case (AddOrderMPIDAttribution x)
    then show ?thesis
      using assms(2) add [of "AddOrderMPIDAttributionMessage.stock x" "AddOrderMPIDAttributionMessage.order_reference_number x"
          "AddOrderMPIDAttributionMessage.buy_sell_indicator x" "AddOrderMPIDAttributionMessage.shares x"
          "AddOrderMPIDAttributionMessage.price x"]
      by (auto simp: lob_op_def split: if_splits)
  next
    case (OrderExecuted x)
    then show ?thesis
      using assms(2) red [of "OrderExecutedMessage.executed_shares x" "OrderExecutedMessage.order_reference_number x"]
      by (simp add: lob_op_def)
  next
    case (OrderExecutedWithPrice x)
    then show ?thesis
      using assms(2) red [of "OrderExecutedWithPriceMessage.executed_shares x"
          "OrderExecutedWithPriceMessage.order_reference_number x"]
      by (simp add: lob_op_def)
  next
    case (OrderCancel x)
    then show ?thesis
      using assms(2) red [of "OrderCancelMessage.cancelled_shares x" "OrderCancelMessage.order_reference_number x"]
      by (simp add: lob_op_def)
  next
    case (OrderDelete x)
    then show ?thesis
      using lob_handle_delete_refines [OF assms(1), of "OrderDeleteMessage.order_reference_number x"] by (auto simp: lob_op_def)
  next
    case (OrderReplace x)
    then show ?thesis
      using lob_handle_replace_refines [OF assms(1), of "OrderReplaceMessage.original_order_reference_number x"
          "OrderReplaceMessage.new_order_reference_number x" "OrderReplaceMessage.shares x" "OrderReplaceMessage.price x"]
        assms(2)
      by (force simp: lob_op_def split: option.splits)
  qed (use assms(1) in \<open>simp_all add: lob_op_def\<close>)
qed

lemma lob_run_refines:
  assumes "lob_refines b os" "\<forall>m \<in> set ms. typed m" "regular_run os (lob_ops (m_stock_symbol b) ms)"
  shows "\<exists>b'. run_steps lob_process ms b = Some b' \<and> lob_refines b' (fold spec_step (lob_ops (m_stock_symbol b) ms) os)"
  using assms
proof (induction ms arbitrary: b os)
  case Nil
  then show ?case
    by (simp add: lob_ops_def map_filter_simps)
next
  case (Cons m ms)
  let ?op = "lob_op (m_stock_symbol b) m"
  let ?os = "case ?op of None \<Rightarrow> os | Some op \<Rightarrow> spec_step op os"
  have ops: "lob_ops (m_stock_symbol b) (m # ms) = (case ?op of None \<Rightarrow> [] | Some op \<Rightarrow> [op]) @ lob_ops (m_stock_symbol b) ms"
    by (simp add: lob_ops_def map_filter_simps split: option.split)
  have "regular os op" if "?op = Some op" for op
    using Cons.prems(3) that by (simp add: ops)
  then obtain b1 where b1: "lob_process m b = Some b1" "m_stock_symbol b1 = m_stock_symbol b" "lob_refines b1 ?os"
    using handle_message_refines [OF Cons.prems(1), of m] lob_process_typed [of m b] Cons.prems(2) by auto
  have "regular_run ?os (lob_ops (m_stock_symbol b1) ms)"
    using Cons.prems(3) b1(2) by (simp add: ops split: option.splits)
  then show ?case
    using Cons.IH [OF b1(3)] Cons.prems(2) b1(1,2) by (auto simp: ops split: option.splits)
qed

lemma lob_new_refines: "lob_refines (LimitOrderBook_new symbol) []"
  by (simp add: lob_refines_def lob_core_def LimitOrderBook_new_def level_at_def lob_level_def lob_queue_def split: Side.split)

lemma lob_history_refines:
  assumes "\<forall>m \<in> set ms. typed m" "regular_run [] (lob_ops symbol ms)"
  shows "\<exists>b. lob_history symbol ms = Some b \<and> lob_refines b (resting (lob_ops symbol ms))"
  using lob_run_refines [OF lob_new_refines, of ms symbol] assms
  by (simp add: lob_history_def resting_def LimitOrderBook_new_def)

text \<open>What the level maps of a book answer.\<close>

lemma lob_levels:
  assumes "lob_refines b os"
  shows "map_option (\<lambda>lv. (pl_total_shares lv, map (lob_order (m_heap b)) (pl_orders lv))) (level_at b sd p) =
    (if spec_queue sd p os = [] then None else Some (of_nat (spec_total sd p os), spec_queue sd p os))"
proof -
  obtain xs where core: "lob_core b xs" and os: "os = map (lob_order (m_heap b)) xs"
    using assms by (auto simp: lob_refines_def)
  have q: "spec_queue sd p os = map (lob_order (m_heap b)) (lob_queue (m_heap b) xs sd p)"
    by (simp add: os spec_queue_def lob_queue_def filter_map comp_def lob_order_def)
  have "(of_nat (\<Sum>x\<leftarrow>ys. unat (o_shares (lob_order h x))) :: u32) = (\<Sum>i\<leftarrow>ys. lo_shares (h ! i))" for h ys
    by (induction ys) (simp_all add: lob_order_def)
  then show ?thesis
    using core by (simp add: lob_core_def lob_level_def spec_total_def q comp_def)
qed

section \<open>Properties\<close>

text \<open>
  C13. The single-symbol book: for every sequence of messages as the parser delivers them, of any
  length, in which no reference number is reused while its order rests and no more shares are
  executed or cancelled than rest, processing never follows a dangling reference; a price has a
  level exactly when orders of the symbol rest there, the queue of the level holds those orders
  in their order of arrival, and its total is their number of shares modulo 2^32.
\<close>

theorem lob_levels_correct:
  assumes "\<forall>m \<in> set ms. typed m" "regular_run [] (lob_ops symbol ms)"
  shows "\<exists>b. lob_history symbol ms = Some b \<and> (\<forall>sd p.
    map_option (\<lambda>lv. (pl_total_shares lv, map (lob_order (m_heap b)) (pl_orders lv))) (level_at b sd p) =
    (let os = resting (lob_ops symbol ms)
     in if spec_queue sd p os = [] then None else Some (of_nat (spec_total sd p os), spec_queue sd p os)))"
  unfolding Let_def using lob_history_refines [OF assms] lob_levels by blast

text \<open>The operations of the example messages on the book of one of their symbols.\<close>

lemma sample_lob_ops: "lob_ops ''ABC'' sample_messages = [Add 1 Buy 100 50, Execute 1 30]"
  by (simp add: sample_message_defs sample_symbols lob_ops_def lob_op_def map_filter_simps to_side_def)

lemma sample_typed: "\<forall>m \<in> set sample_messages. typed m"
  by (simp add: sample_message_defs typed_def MessageHeader.truncate_def)

theorem lob_levels_correct_witness:
  "list_all typed sample_messages \<and> regular_run [] (lob_ops ''ABC'' sample_messages) \<and>
   (\<exists>b. lob_history ''ABC'' sample_messages = Some b \<and> map_option pl_total_shares (level_at b Buy 50) = Some 70)"
proof -
  have reg: "regular_run [] (lob_ops ''ABC'' sample_messages)"
    unfolding sample_lob_ops by code_simp
  have os: "resting (lob_ops ''ABC'' sample_messages) = [\<lparr>o_ref = 1, o_side = Buy, o_shares = 70, o_price = 50\<rparr>]"
    unfolding sample_lob_ops by code_simp
  let ?os = "[\<lparr>o_ref = 1, o_side = Buy, o_shares = 70, o_price = 50\<rparr>]"
  obtain b where b: "lob_history ''ABC'' sample_messages = Some b"
    "map_option (\<lambda>lv. (pl_total_shares lv, map (lob_order (m_heap b)) (pl_orders lv))) (level_at b Buy 50) =
      (if spec_queue Buy 50 ?os = [] then None else Some (of_nat (spec_total Buy 50 ?os), spec_queue Buy 50 ?os))"
    using lob_levels_correct [OF sample_typed reg] unfolding os Let_def by blast
  then have "map_option pl_total_shares (level_at b Buy 50) = Some 70"
    by (auto simp: spec_queue_def spec_total_def)
  then show ?thesis
    using sample_typed reg b(1) by (simp add: list_all_iff)
qed

text \<open>
  C23. Over-execution: the same book subtracts executed or cancelled shares without comparing
  them with what rests. After such a sequence, an execution of more shares than the order has
  leaves the order resting with its size wrapped around modulo 2^32, which is larger than 2^32
  less the executed amount, instead of removing it.
\<close>

theorem lob_over_execution_wraps:
  assumes "\<forall>m \<in> set ms. typed m" "regular_run [] (lob_ops symbol ms)"
    and "lookup_order r (resting (lob_ops symbol ms)) = Some ord" "o_shares ord < c"
  shows "\<exists>b b'. lob_history symbol ms = Some b \<and> lob_handle_reduce r c b = Some b' \<and>
    lob_refines b' (map (\<lambda>ord. if o_ref ord = r then ord\<lparr>o_shares := o_shares ord - c\<rparr> else ord)
      (resting (lob_ops symbol ms))) \<and>
    unat (o_shares ord - c) = unat (o_shares ord) + 2 ^ 32 - unat c"
proof -
  obtain b where b: "lob_history symbol ms = Some b" "lob_refines b (resting (lob_ops symbol ms))"
    using lob_history_refines [OF assms(1,2)] by blast
  have "o_shares ord \<noteq> c"
    using assms(4) by simp
  then have "spec_take r c (resting (lob_ops symbol ms)) =
      map (\<lambda>ord. if o_ref ord = r then ord\<lparr>o_shares := o_shares ord - c\<rparr> else ord) (resting (lob_ops symbol ms))"
    using assms(3) by (simp add: spec_take_def)
  moreover have "unat (o_shares ord - c) = unat (o_shares ord) + 2 ^ 32 - unat c"
    using assms(4) unat_sub_if' [of "o_shares ord" c] by (simp add: word_less_nat_alt split: if_splits)
  ultimately show ?thesis
    using b lob_handle_reduce_refines [OF b(2), of r c] by auto
qed

theorem lob_over_execution_wraps_witness:
  "\<exists>b b'. lob_history ''ABC'' sample_messages = Some b \<and> lob_handle_reduce 1 71 b = Some b' \<and>
    lob_refines b' [\<lparr>o_ref = 1, o_side = Buy, o_shares = - 1, o_price = 50\<rparr>]"
proof -
  have reg: "regular_run [] (lob_ops ''ABC'' sample_messages)"
    unfolding sample_lob_ops by code_simp
  have os: "resting (lob_ops ''ABC'' sample_messages) = [\<lparr>o_ref = 1, o_side = Buy, o_shares = 70, o_price = 50\<rparr>]"
    unfolding sample_lob_ops by code_simp
  have "lookup_order 1 (resting (lob_ops ''ABC'' sample_messages)) = Some \<lparr>o_ref = 1, o_side = Buy, o_shares = 70, o_price = 50\<rparr>"
    by (simp add: os lookup_order_def)
  then show ?thesis
    using lob_over_execution_wraps [OF sample_typed reg, of 1 _ 71] by (auto simp: os)
qed

end
