(* ===== verification/Indicators.thy ===== *)
theory Indicators
  imports L3_Refinement "HOL-Library.List_Lexorder"
begin

text \<open>
  The lookup tables of \<^verbatim>\<open>include/itch/indicators.hpp\<close>: the class \<^verbatim>\<open>FrozenMap\<close>, which sorts its
  entries when it is built and searches them by bisection, and the tables of indicator codes. The
  order of the keys is that of \<^verbatim>\<open>char\<close> (signed) and of \<^verbatim>\<open>std::string_view\<close> (lexicographic on
  unsigned bytes), given by an injective key function. The theory shows that a lookup answers
  exactly the listed entries, whatever order they are listed in.
\<close>

section \<open>The class FrozenMap\<close>

definition char_key :: "char \<Rightarrow> int" where
  "char_key c = (if of_char c < (128 :: int) then of_char c else of_char c - 256)"

definition string_key :: "string \<Rightarrow> nat list" where
  "string_key s = map of_char s"

definition FrozenMap_new :: "('k \<Rightarrow> 'o :: linorder) \<Rightarrow> ('k \<times> string) list \<Rightarrow> ('k \<times> string) list" where
  "FrozenMap_new key entries = sort_key (\<lambda>e. key (fst e)) entries"

definition frozen_find :: "('k \<Rightarrow> 'o :: linorder) \<Rightarrow> ('k \<times> string) list \<Rightarrow> 'k \<Rightarrow> string option" where
  "frozen_find key m k =
     (let iter = lower_bound (\<lambda>e. key (fst e) < key k) m 0 (length m)
      in if iter \<noteq> length m \<and> fst (m ! iter) = k then Some (snd (m ! iter)) else None)"

definition at_or :: "('k \<Rightarrow> 'o :: linorder) \<Rightarrow> ('k \<times> string) list \<Rightarrow> 'k \<Rightarrow> string \<Rightarrow> string" where
  "at_or key m k fallback = (case frozen_find key m k of Some v \<Rightarrow> v | None \<Rightarrow> fallback)"

section \<open>The tables\<close>

definition SYSTEM_EVENT_CODES :: "(char \<times> string) list" where
  "SYSTEM_EVENT_CODES =
   [(CHR ''O'', ''Start of Messages''),
    (CHR ''S'', ''Start of System hours''),
    (CHR ''Q'', ''Start of Market hours''),
    (CHR ''M'', ''End of Market hours''),
    (CHR ''E'', ''End of System hours''),
    (CHR ''C'', ''End of Messages'')]"

definition MARKET_CATEGORY :: "(char \<times> string) list" where
  "MARKET_CATEGORY =
   [(CHR ''N'', ''NYSE''),
    (CHR ''A'', ''AMEX''),
    (CHR ''P'', ''Arca''),
    (CHR ''Q'', ''NASDAQ Global Select''),
    (CHR ''G'', ''NASDAQ Global Market''),
    (CHR ''S'', ''NASDAQ Capital Market''),
    (CHR ''Z'', ''BATS''),
    (CHR ''V'', ''Investors Exchange''),
    (CHR '' '', ''Not available'')]"

definition FINANCIAL_STATUS_INDICATOR :: "(char \<times> string) list" where
  "FINANCIAL_STATUS_INDICATOR =
   [(CHR ''D'', ''Deficient''),
    (CHR ''E'', ''Delinquent''),
    (CHR ''Q'', ''Bankrupt''),
    (CHR ''S'', ''Suspended''),
    (CHR ''G'', ''Deficient and Bankrupt''),
    (CHR ''H'', ''Deficient and Delinquent''),
    (CHR ''J'', ''Delinquent and Bankrupt''),
    (CHR ''K'', ''Deficient, Delinquent and Bankrupt''),
    (CHR ''C'', ''Creations and/or Redemptions Suspended for Exchange Traded Product''),
    (CHR ''N'', ''Normal (Default): Issuer is NOT Deficient, Delinquent, or Bankrupt''),
    (CHR '' '', ''Not available. Firms should refer to SIAC feeds for code if needed'')]"

definition ISSUE_CLASSIFICATION_VALUES :: "(char \<times> string) list" where
  "ISSUE_CLASSIFICATION_VALUES =
   [(CHR ''A'', ''American Depositary Share''),
    (CHR ''B'', ''Bond''),
    (CHR ''C'', ''Common Stock''),
    (CHR ''F'', ''Depository Receipt''),
    (CHR ''I'', ''144A''),
    (CHR ''L'', ''Limited Partnership''),
    (CHR ''N'', ''Notes''),
    (CHR ''O'', ''Ordinary Share''),
    (CHR ''P'', ''Preferred Stock''),
    (CHR ''Q'', ''Other Securities''),
    (CHR ''R'', ''Right''),
    (CHR ''S'', ''Shares of Beneficial Interest''),
    (CHR ''T'', ''Convertible Debenture''),
    (CHR ''U'', ''Unit''),
    (CHR ''V'', ''Units/Beneficial Interest''),
    (CHR ''W'', ''Warrant'')]"

definition ISSUE_SUB_TYPE_VALUES :: "(string \<times> string) list" where
  "ISSUE_SUB_TYPE_VALUES =
   [(''A'', ''Preferred Trust Securities''),
    (''AI'', ''Alpha Index ETNs''),
    (''B'', ''Index Based Derivative''),
    (''C'', ''Common Shares''),
    (''CB'', ''Commodity Based Trust Shares''),
    (''CF'', ''Commodity Futures Trust Shares''),
    (''CL'', ''Commodity-Linked Securities''),
    (''CM'', ''Commodity Index Trust Shares''),
    (''CO'', ''Collateralized Mortgage Obligation''),
    (''CT'', ''Currency Trust Shares''),
    (''CU'', ''Commodity-Currency-Linked Securities''),
    (''CW'', ''Currency Warrants''),
    (''D'', ''Global Depositary Shares''),
    (''E'', ''ETF-Portfolio Depositary Receipt''),
    (''EG'', ''Equity Gold Shares''),
    (''EI'', ''ETN-Equity Index-Linked Securities''),
    (''EM'', ''NextShares Exchange Traded Managed Fund*''),
    (''EN'', ''Exchange Traded Notes''),
    (''EU'', ''Equity Units''),
    (''F'', ''HOLDRS''),
    (''FI'', ''ETN-Fixed Income-Linked Securities''),
    (''FL'', ''ETN-Futures-Linked Securities''),
    (''G'', ''Global Shares''),
    (''I'', ''ETF-Index Fund Shares''),
    (''IR'', ''Interest Rate''),
    (''IW'', ''Index Warrant''),
    (''IX'', ''Index-Linked Exchangeable Notes''),
    (''J'', ''Corporate Backed Trust Security''),
    (''L'', ''Contingent Litigation Right''),
    (''LL'', ''Limited Liability Company (LLC)''),
    (''M'', ''Equity-Based Derivative''),
    (''MF'', ''Managed Fund Shares''),
    (''ML'', ''ETN-Multi-Factor Index-Linked Securities''),
    (''MT'', ''Managed Trust Securities''),
    (''N'', ''NY Registry Shares''),
    (''O'', ''Open Ended Mutual Fund''),
    (''P'', ''Privately Held Security''),
    (''PP'', ''Poison Pill''),
    (''PU'', ''Partnership Units''),
    (''Q'', ''Closed-End Funds''),
    (''R'', ''Reg-S''),
    (''RC'', ''Commodity-Redeemable Commodity-Linked Securities''),
    (''RF'', ''ETN-Redeemable Futures-Linked Securities''),
    (''RT'', ''REIT''),
    (''RU'', ''Commodity-Redeemable Currency-Linked Securities''),
    (''S'', ''SEED''),
    (''SC'', ''Spot Rate Closing''),
    (''SI'', ''Spot Rate Intraday''),
    (''T'', ''Tracking Stock''),
    (''TC'', ''Trust Certificates''),
    (''TU'', ''Trust Units''),
    (''U'', ''Portal''),
    (''V'', ''Contingent Value Right''),
    (''W'', ''Trust Issued Receipts''),
    (''WC'', ''World Currency Option''),
    (''X'', ''Trust''),
    (''Y'', ''Other''),
    (''Z'', ''Not Applicable'')]"

definition TRADING_ACTION_REASON_CODES :: "(string \<times> string) list" where
  "TRADING_ACTION_REASON_CODES =
   [(''T1'', ''Halt News Pending''),
    (''T2'', ''Halt News Disseminated''),
    (''T3'', ''News and Resumption Times''),
    (''T5'', ''Single Security Trading Pause In Effect''),
    (''T6'', ''Regulatory Halt - Extraordinary Market Activity''),
    (''T7'', ''Single Security Trading Pause / Quotation Only Period''),
    (''T8'', ''Halt ETF''),
    (''T12'', ''Trading Halted; For Information Requested by Listing Market''),
    (''H4'', ''Halt Non-Compliance''),
    (''H9'', ''Halt Filings Not Current''),
    (''H10'', ''Halt SEC Trading Suspension''),
    (''H11'', ''Halt Regulatory Concern''),
    (''O1'', ''Operations Halt; Contact Market Operations''),
    (''LUDP'', ''Volatility Trading Pause''),
    (''LUDS'', ''Volatility Trading Pause - Straddle Condition''),
    (''MWC0'', ''Market Wide Circuit Breaker Halt - Carry over from previous day''),
    (''MWC1'', ''Market Wide Circuit Breaker Halt - Level 1''),
    (''MWC2'', ''Market Wide Circuit Breaker Halt - Level 2''),
    (''MWC3'', ''Market Wide Circuit Breaker Halt - Level 3''),
    (''MWCQ'', ''Market Wide Circuit Breaker Resumption''),
    (''IPO1'', ''IPO Issue Not Yet Trading''),
    (''IPOQ'', ''IPO Security Released for Quotation (Nasdaq Securities Only)''),
    (''IPOE'', ''IPO Security - Positioning Window Extension (Nasdaq Securities Only)''),
    (''M1'', ''Corporate Action''),
    (''M2'', ''Quotation Not Available''),
    (''R1'', ''New Issue Available''),
    (''R2'', ''Issue Available''),
    (''R4'', ''Qualifications Issues Reviewed/Resolved; Quotations/Trading to Resume''),
    (''R9'', ''Filing Requirements Satisfied/Resolved; Quotations/Trading To Resume''),
    (''C3'', ''Issuer News Not Forthcoming; Quotations/Trading To Resume''),
    (''C4'', ''Qualifications Halt Ended; Maintenance Requirements Met; Resume''),
    (''C9'', ''Qualifications Halt Concluded; Filings Met; Quotes/Trades To Resume''),
    (''C11'', ''Trade Halt Concluded By Other Regulatory Authority; Quotes/Trades Resume''),
    ('' '', ''Reason Not Available'')]"

definition TRADING_STATES :: "(char \<times> string) list" where
  "TRADING_STATES =
   [(CHR ''H'', ''Halted across all U.S. equity markets / SROs''),
    (CHR ''P'', ''Paused across all U.S. equity markets / SROs''),
    (CHR ''Q'', ''Quotation only period for cross-SRO halt or pause''),
    (CHR ''T'', ''Trading on NASDAQ'')]"

definition MARKET_MAKER_MODE :: "(char \<times> string) list" where
  "MARKET_MAKER_MODE =
   [(CHR ''N'', ''Normal''),
    (CHR ''P'', ''Passive''),
    (CHR ''S'', ''Syndicate''),
    (CHR ''R'', ''Pre-syndicate''),
    (CHR ''L'', ''Penalty'')]"

definition MARKET_PARTICIPANT_STATE :: "(char \<times> string) list" where
  "MARKET_PARTICIPANT_STATE =
   [(CHR ''A'', ''Active''),
    (CHR ''E'', ''Excused''),
    (CHR ''W'', ''Withdrawn''),
    (CHR ''S'', ''Suspended''),
    (CHR ''D'', ''Deleted'')]"

definition PRICE_VARIATION_INDICATOR :: "(char \<times> string) list" where
  "PRICE_VARIATION_INDICATOR =
   [(CHR ''L'', ''Less than 1%''),
    (CHR ''1'', ''1 to 1.99%''),
    (CHR ''2'', ''2 to 2.99%''),
    (CHR ''3'', ''3 to 3.99%''),
    (CHR ''4'', ''4 to 4.99%''),
    (CHR ''5'', ''5 to 5.99%''),
    (CHR ''6'', ''6 to 6.99%''),
    (CHR ''7'', ''7 to 7.99%''),
    (CHR ''8'', ''8 to 8.99%''),
    (CHR ''9'', ''9 to 9.99%''),
    (CHR ''A'', ''10 to 19.99%''),
    (CHR ''B'', ''20 to 29.99%''),
    (CHR ''C'', ''30% or greater''),
    (CHR '' '', ''Cannot be calculated'')]"

section \<open>Lookups\<close>

text \<open>What a table needs of the order of its keys: different keys compare as different.\<close>

locale key_order =
  fixes key :: "'k \<Rightarrow> 'o :: linorder"
  assumes key_inj: "key k = key k' \<Longrightarrow> k = k'"
begin

lemma find_sorted:
  assumes "sorted (map (\<lambda>e. key (fst e)) m)" "distinct (map fst m)"
  shows "frozen_find key m k = map_of m k"
proof -
  let ?n = "lower_bound (\<lambda>e. key (fst e) < key k) m 0 (length m)"
  have mono: "key (fst (m ! i)) \<le> key (fst (m ! j))" if "i < j" "j < length m" for i j
    using sorted_nth_mono [OF assms(1), of i j] that by simp
  then have down: "\<forall>i j. i < j \<and> j < length m \<and> key (fst (m ! j)) < key k \<longrightarrow> key (fst (m ! i)) < key k"
    by (meson le_less_trans)
  have "?n \<le> length m \<and> (\<forall>i<?n. key (fst (m ! i)) < key k) \<and>
      (\<forall>i. ?n \<le> i \<and> i < length m \<longrightarrow> \<not> key (fst (m ! i)) < key k)"
    by (rule lower_bound_split [OF _ _ _ down]) auto
  then have n: "?n \<le> length m" "\<forall>i<?n. key (fst (m ! i)) < key k" "\<forall>i. ?n \<le> i \<and> i < length m \<longrightarrow> \<not> key (fst (m ! i)) < key k"
    by blast+
  show ?thesis
  proof (cases "\<exists>i < length m. fst (m ! i) = k")
    case True
    then obtain i where i: "i < length m" "fst (m ! i) = k"
      by blast
    then have "?n \<le> i"
      using n(2) by (intro leI notI) auto
    then have less: "?n < length m" and "key (fst (m ! ?n)) \<le> key k"
      using i mono [of ?n i] by (auto simp: le_less)
    moreover have "\<not> key (fst (m ! ?n)) < key k"
      using n(3) less by simp
    ultimately have found: "fst (m ! ?n) = k"
      using key_inj by fastforce
    then have "(k, snd (m ! ?n)) \<in> set m"
      using nth_mem [OF less] by (metis prod.collapse)
    then have "map_of m k = Some (snd (m ! ?n))"
      using assms(2) by simp
    then show ?thesis
      using found less by (simp add: frozen_find_def)
  next
    case False
    then have "map_of m k = None"
      by (force simp: map_of_eq_None_iff in_set_conv_nth)
    then show ?thesis
      using False n(1) by (auto simp: frozen_find_def Let_def)
  qed
qed

lemma find_new: "distinct (map fst entries) \<Longrightarrow> frozen_find key (FrozenMap_new key entries) k = map_of entries k"
proof -
  assume "distinct (map fst entries)"
  then have dist: "distinct (map fst (FrozenMap_new key entries))"
    by (simp add: FrozenMap_new_def distinct_map)
  have "sorted (map (\<lambda>e. key (fst e)) (FrozenMap_new key entries))"
    by (simp add: FrozenMap_new_def)
  then have "frozen_find key (FrozenMap_new key entries) k = map_of (FrozenMap_new key entries) k"
    using dist by (rule find_sorted)
  also have "\<dots> = map_of entries k"
    using \<open>distinct (map fst entries)\<close> dist map_of_inject_set [of "FrozenMap_new key entries" entries]
    by (simp add: FrozenMap_new_def)
  finally show ?thesis .
qed

lemma at_or_new:
  "distinct (map fst entries) \<Longrightarrow>
    at_or key (FrozenMap_new key entries) k fallback = (case map_of entries k of Some v \<Rightarrow> v | None \<Rightarrow> fallback)"
  by (simp add: at_or_def find_new)

end

lemma char_key_inj: "char_key c = char_key c' \<Longrightarrow> c = c'"
proof -
  have b: "of_char x < (256 :: int)" "0 \<le> (of_char x :: int)" for x :: char
    using nat_of_char_less_256 [of x] of_nat_of_char [of x, where 'a = int] by linarith+
  assume "char_key c = char_key c'"
  then have "(of_char c :: int) = of_char c'"
    using b [of c] b [of c'] by (auto simp: char_key_def split: if_splits)
  then show "c = c'"
    by simp
qed

interpretation ck: key_order char_key
  by unfold_locales (rule char_key_inj)

interpretation sk: key_order string_key
  by unfold_locales (simp add: string_key_def inj_map_eq_map inj_def)

section \<open>Properties\<close>

lemmas char_table_defs = SYSTEM_EVENT_CODES_def MARKET_CATEGORY_def FINANCIAL_STATUS_INDICATOR_def ISSUE_CLASSIFICATION_VALUES_def TRADING_STATES_def MARKET_MAKER_MODE_def MARKET_PARTICIPANT_STATE_def PRICE_VARIATION_INDICATOR_def

lemma char_tables_distinct:
  "distinct (map fst SYSTEM_EVENT_CODES)"
  "distinct (map fst MARKET_CATEGORY)"
  "distinct (map fst FINANCIAL_STATUS_INDICATOR)"
  "distinct (map fst ISSUE_CLASSIFICATION_VALUES)"
  "distinct (map fst TRADING_STATES)"
  "distinct (map fst MARKET_MAKER_MODE)"
  "distinct (map fst MARKET_PARTICIPANT_STATE)"
  "distinct (map fst PRICE_VARIATION_INDICATOR)"
  by (simp_all add: char_table_defs)

lemma string_tables_distinct:
  "distinct (map fst ISSUE_SUB_TYPE_VALUES)"
  "distinct (map fst TRADING_ACTION_REASON_CODES)"
  by (simp_all add: ISSUE_SUB_TYPE_VALUES_def TRADING_ACTION_REASON_CODES_def)

text \<open>
  The indicator tables: for every key, the bisection over the sorted entries of each of the
  ten tables finds the description the source lists for that key, and nothing for a key the
  source does not list.
\<close>

theorem indicator_tables_find:
  "frozen_find char_key (FrozenMap_new char_key SYSTEM_EVENT_CODES) c = map_of SYSTEM_EVENT_CODES c \<and>
   frozen_find char_key (FrozenMap_new char_key MARKET_CATEGORY) c = map_of MARKET_CATEGORY c \<and>
   frozen_find char_key (FrozenMap_new char_key FINANCIAL_STATUS_INDICATOR) c = map_of FINANCIAL_STATUS_INDICATOR c \<and>
   frozen_find char_key (FrozenMap_new char_key ISSUE_CLASSIFICATION_VALUES) c = map_of ISSUE_CLASSIFICATION_VALUES c \<and>
   frozen_find char_key (FrozenMap_new char_key TRADING_STATES) c = map_of TRADING_STATES c \<and>
   frozen_find char_key (FrozenMap_new char_key MARKET_MAKER_MODE) c = map_of MARKET_MAKER_MODE c \<and>
   frozen_find char_key (FrozenMap_new char_key MARKET_PARTICIPANT_STATE) c = map_of MARKET_PARTICIPANT_STATE c \<and>
   frozen_find char_key (FrozenMap_new char_key PRICE_VARIATION_INDICATOR) c = map_of PRICE_VARIATION_INDICATOR c \<and>
   frozen_find string_key (FrozenMap_new string_key ISSUE_SUB_TYPE_VALUES) s = map_of ISSUE_SUB_TYPE_VALUES s \<and>
   frozen_find string_key (FrozenMap_new string_key TRADING_ACTION_REASON_CODES) s = map_of TRADING_ACTION_REASON_CODES s"
  by (intro conjI ck.find_new sk.find_new char_tables_distinct string_tables_distinct)

end
