(* ===== verification/Auctions.thy ===== *)
theory Auctions
  imports Indicators Prices Messages
begin

text \<open>
  \<^verbatim>\<open>include/itch/analytics/imbalance.hpp\<close> and \<^verbatim>\<open>include/itch/analytics/auctions.hpp\<close>: the decoded
  view of an imbalance message and the tracker that pairs every cross with the imbalance that
  preceded it. The callback is a function on the state of the caller, as in the book manager. The
  theory shows that the auctions a stream reports are exactly its crosses, each with the latest
  imbalance of its own locate.
\<close>

section \<open>Imbalances\<close>

record ImbalanceInfo =
  info_timestamp :: u64
  info_stock_locate :: u16
  info_stock :: string
  info_paired_shares :: u64
  info_imbalance_shares :: u64
  info_imbalance_direction :: char
  info_far_price :: StandardPrice
  info_near_price :: StandardPrice
  info_current_reference_price :: StandardPrice
  info_cross_type :: char
  info_price_variation_indicator :: char

definition make_imbalance_info :: "NOIIMessage \<Rightarrow> ImbalanceInfo" where
  "make_imbalance_info msg = \<lparr>info_timestamp = timestamp msg, info_stock_locate = stock_locate msg,
     info_stock = to_string (NOIIMessage.stock msg) STOCK_LEN,
     info_paired_shares = NOIIMessage.paired_shares msg, info_imbalance_shares = NOIIMessage.imbalance_shares msg,
     info_imbalance_direction = NOIIMessage.imbalance_direction msg,
     info_far_price = StandardPrice (NOIIMessage.far_price msg),
     info_near_price = StandardPrice (NOIIMessage.near_price msg),
     info_current_reference_price = StandardPrice (NOIIMessage.current_reference_price msg),
     info_cross_type = NOIIMessage.cross_type msg,
     info_price_variation_indicator = NOIIMessage.price_variation_indicator msg\<rparr>"

definition imbalance_directions :: "(char \<times> string) list" where
  "imbalance_directions =
   [(CHR ''B'', ''Buy imbalance''),
    (CHR ''S'', ''Sell imbalance''),
    (CHR ''N'', ''No imbalance''),
    (CHR ''O'', ''Insufficient orders to calculate''),
    (CHR ''P'', ''Paused'')]"

definition imbalance_direction_name :: "char \<Rightarrow> string" where
  "imbalance_direction_name direction =
     at_or char_key (FrozenMap_new char_key imbalance_directions) direction ''Unknown''"

section \<open>Auctions\<close>

record Auction =
  auction_timestamp :: u64
  auction_stock_locate :: u16
  auction_stock :: string
  auction_cross_type :: char
  auction_cross_price :: StandardPrice
  auction_cross_shares :: u64
  auction_paired_shares :: u64
  auction_imbalance_shares :: u64
  auction_imbalance_direction :: char
  auction_had_imbalance :: bool

definition blank_auction :: Auction where
  "blank_auction = \<lparr>auction_timestamp = 0, auction_stock_locate = 0, auction_stock = [],
     auction_cross_type = CHR 0x00, auction_cross_price = StandardPrice 0, auction_cross_shares = 0,
     auction_paired_shares = 0, auction_imbalance_shares = 0, auction_imbalance_direction = CHR 0x00,
     auction_had_imbalance = False\<rparr>"

definition cross_types :: "(char \<times> string) list" where
  "cross_types =
   [(CHR ''O'', ''Opening Cross''),
    (CHR ''C'', ''Closing Cross''),
    (CHR ''H'', ''Cross for halted/paused security''),
    (CHR ''I'', ''Intraday/IPO Cross'')]"

definition cross_type_name :: "char \<Rightarrow> string" where
  "cross_type_name ct = at_or char_key (FrozenMap_new char_key cross_types) ct ''Unknown''"

record 's AuctionTracker =
  m_latest_imbalance :: "u16 \<Rightarrow> ImbalanceInfo option"
  m_auction_callback :: "('s \<Rightarrow> Auction \<Rightarrow> 's) option"

definition AuctionTracker_new :: "'s AuctionTracker" where
  "AuctionTracker_new = \<lparr>m_latest_imbalance = Map.empty, m_auction_callback = None\<rparr>"

definition set_auction_callback :: "('s \<Rightarrow> Auction \<Rightarrow> 's) option \<Rightarrow> 's AuctionTracker \<Rightarrow> 's AuctionTracker" where
  "set_auction_callback callback t = t\<lparr>m_auction_callback := callback\<rparr>"

fun auction_process :: "Message \<Rightarrow> 's AuctionTracker \<times> 's \<Rightarrow> 's AuctionTracker \<times> 's" where
  "auction_process message (t, s) = (case message of
     NOII noii \<Rightarrow> (t\<lparr>m_latest_imbalance := (m_latest_imbalance t)(stock_locate noii \<mapsto> make_imbalance_info noii)\<rparr>, s)
   | CrossTrade cross \<Rightarrow>
       (let auction = blank_auction
              \<lparr>auction_timestamp := timestamp cross, auction_stock_locate := stock_locate cross,
               auction_stock := to_string (CrossTradeMessage.stock cross) STOCK_LEN,
               auction_cross_type := CrossTradeMessage.cross_type cross,
               auction_cross_price := StandardPrice (CrossTradeMessage.cross_price cross),
               auction_cross_shares := CrossTradeMessage.shares cross\<rparr>;
            auction = (case m_latest_imbalance t (stock_locate cross) of
                Some info \<Rightarrow> auction
                  \<lparr>auction_paired_shares := info_paired_shares info,
                   auction_imbalance_shares := info_imbalance_shares info,
                   auction_imbalance_direction := info_imbalance_direction info,
                   auction_had_imbalance := True\<rparr>
              | None \<Rightarrow> auction)
        in (t, case m_auction_callback t of Some callback \<Rightarrow> callback s auction | None \<Rightarrow> s))
   | _ \<Rightarrow> (t, s))"

section \<open>The auctions of a stream\<close>

text \<open>The last imbalance message of a locate in a list of messages.\<close>

fun noii_for :: "u16 \<Rightarrow> Message \<Rightarrow> NOIIMessage option" where
  "noii_for l (NOII m) = (if stock_locate m = l then Some m else None)"
| "noii_for l _ = None"

definition latest_noii :: "u16 \<Rightarrow> Message list \<Rightarrow> NOIIMessage option" where
  "latest_noii l ms = (let ns = List.map_filter (noii_for l) ms in if ns = [] then None else Some (last ns))"

definition auction_of :: "Message list \<Rightarrow> CrossTradeMessage \<Rightarrow> Auction" where
  "auction_of past cross = (let noii = latest_noii (stock_locate cross) past in
     \<lparr>auction_timestamp = timestamp cross, auction_stock_locate = stock_locate cross,
      auction_stock = to_string (CrossTradeMessage.stock cross) STOCK_LEN,
      auction_cross_type = CrossTradeMessage.cross_type cross,
      auction_cross_price = StandardPrice (CrossTradeMessage.cross_price cross),
      auction_cross_shares = CrossTradeMessage.shares cross,
      auction_paired_shares = (case noii of None \<Rightarrow> 0 | Some m \<Rightarrow> NOIIMessage.paired_shares m),
      auction_imbalance_shares = (case noii of None \<Rightarrow> 0 | Some m \<Rightarrow> NOIIMessage.imbalance_shares m),
      auction_imbalance_direction = (case noii of None \<Rightarrow> CHR 0x00 | Some m \<Rightarrow> NOIIMessage.imbalance_direction m),
      auction_had_imbalance = (noii \<noteq> None)\<rparr>)"

text \<open>The auctions of a stream, by position: the \<open>n\<close>-th message with the messages before it.\<close>

definition stream_auctions :: "Message list \<Rightarrow> Auction list" where
  "stream_auctions ms = concat (map (\<lambda>n. case ms ! n of CrossTrade c \<Rightarrow> [auction_of (take n ms) c] | _ \<Rightarrow> []) [0..<length ms])"

lemma latest_noii_snoc:
  "latest_noii l (ms @ [m]) = (case noii_for l m of Some n \<Rightarrow> Some n | None \<Rightarrow> latest_noii l ms)"
  by (simp add: latest_noii_def map_filter_def Let_def split: option.split)

lemma stream_auctions_snoc:
  "stream_auctions (ms @ [m]) = stream_auctions ms @ (case m of CrossTrade c \<Rightarrow> [auction_of ms c] | _ \<Rightarrow> [])"
proof -
  have "map (\<lambda>n. case (ms @ [m]) ! n of CrossTrade c \<Rightarrow> [auction_of (take n (ms @ [m])) c] | _ \<Rightarrow> []) [0..<length ms] =
      map (\<lambda>n. case ms ! n of CrossTrade c \<Rightarrow> [auction_of (take n ms) c] | _ \<Rightarrow> []) [0..<length ms]"
    by (rule map_cong) (simp_all add: nth_append split: Message.split)
  then show ?thesis
    by (simp add: stream_auctions_def del: map_eq_conv split: Message.split)
qed

lemma make_imbalance_info_simps [simp]:
  "info_paired_shares (make_imbalance_info m) = NOIIMessage.paired_shares m"
  "info_imbalance_shares (make_imbalance_info m) = NOIIMessage.imbalance_shares m"
  "info_imbalance_direction (make_imbalance_info m) = NOIIMessage.imbalance_direction m"
  by (simp_all add: make_imbalance_info_def)

lemma auction_run:
  assumes "m_auction_callback t = Some cb" "m_latest_imbalance t = Map.empty"
  shows "\<exists>t'. fold auction_process ms (t, s) = (t', fold (\<lambda>a s. cb s a) (stream_auctions ms) s) \<and>
    m_auction_callback t' = Some cb \<and>
    m_latest_imbalance t' = (\<lambda>l. map_option make_imbalance_info (latest_noii l ms))"
proof (induction ms rule: rev_induct)
  case Nil
  then show ?case
    using assms by (simp add: stream_auctions_def latest_noii_def map_filter_def fun_eq_iff)
next
  case (snoc m ms)
  then obtain t' where t': "fold auction_process ms (t, s) = (t', fold (\<lambda>a s. cb s a) (stream_auctions ms) s)"
    "m_auction_callback t' = Some cb" "m_latest_imbalance t' = (\<lambda>l. map_option make_imbalance_info (latest_noii l ms))"
    by blast
  show ?case
  proof (cases m)
    case (NOII n)
    then show ?thesis
      using t' by (auto simp: stream_auctions_snoc latest_noii_snoc fun_eq_iff)
  next
    case (CrossTrade c)
    then show ?thesis
      using t' by (cases "latest_noii (stock_locate c) ms")
        (simp_all add: stream_auctions_snoc latest_noii_snoc auction_of_def blank_auction_def Let_def)
  qed (use t' in \<open>simp_all add: stream_auctions_snoc latest_noii_snoc\<close>)
qed

section \<open>Properties\<close>

text \<open>
  C31. Auctions: for every stream of messages the callback sees one auction per cross trade, in
  stream order, with the fields of the cross and the paired shares, imbalance shares and
  direction of the last imbalance message of the same locate before it; a cross without an
  earlier imbalance reports none.
\<close>

theorem auctions_of_stream:
  "snd (fold auction_process ms (set_auction_callback (Some (\<lambda>as a. as @ [a])) AuctionTracker_new, [])) = stream_auctions ms"
proof -
  have "fold (\<lambda>a as. as @ [a]) xs ys = ys @ xs" for xs ys :: "Auction list"
    by (induction xs arbitrary: ys) simp_all
  then show ?thesis
    using auction_run [of "set_auction_callback (Some (\<lambda>as a. as @ [a])) AuctionTracker_new" _ ms "[]"]
    by (auto simp: set_auction_callback_def AuctionTracker_new_def)
qed

text \<open>The two name functions return the listed description, and \<^verbatim>\<open>Unknown\<close> for any other character.\<close>

lemma code_names:
  "imbalance_direction_name c = (case map_of imbalance_directions c of Some v \<Rightarrow> v | None \<Rightarrow> ''Unknown'') \<and>
   cross_type_name c = (case map_of cross_types c of Some v \<Rightarrow> v | None \<Rightarrow> ''Unknown'')"
  unfolding imbalance_direction_name_def cross_type_name_def
  by (intro conjI ck.at_or_new) (simp_all add: imbalance_directions_def cross_types_def)

end
