(* ===== verification/Bars.thy ===== *)
theory Bars
  imports Book_Manager
begin

text \<open>
  \<^verbatim>\<open>include/itch/analytics/bars.hpp\<close>: the builder of price bars from the trade tape and its three
  clocks. A clock is a function of the trade, of the volume and of the number of trades before
  it; \<open>None\<close> is the division by zero of a clock with interval 0. The theory shows that the bars of
  a tape are the summaries of its maximal runs of trades with the same bucket.
\<close>

section \<open>Bars and clocks\<close>

record Bar =
  bar_bucket :: u64
  bar_start_timestamp :: u64
  bar_end_timestamp :: u64
  bar_open :: StandardPrice
  bar_high :: StandardPrice
  bar_low :: StandardPrice
  bar_close :: StandardPrice
  bar_volume :: u64
  bar_trade_count :: u64

definition blank_bar :: Bar where
  "blank_bar = \<lparr>bar_bucket = 0, bar_start_timestamp = 0, bar_end_timestamp = 0, bar_open = StandardPrice 0,
     bar_high = StandardPrice 0, bar_low = StandardPrice 0, bar_close = StandardPrice 0, bar_volume = 0,
     bar_trade_count = 0\<rparr>"

type_synonym clock = "Trade \<Rightarrow> u64 \<Rightarrow> u64 \<Rightarrow> u64 option"

definition TimeClock :: "u64 \<Rightarrow> clock" where
  "TimeClock interval_ns t cumulative_volume tick_index =
     (if interval_ns = 0 then None else Some (trade_timestamp t div interval_ns))"

definition TickClock :: "u64 \<Rightarrow> clock" where
  "TickClock ticks_per_bar t cumulative_volume tick_index =
     (if ticks_per_bar = 0 then None else Some (tick_index div ticks_per_bar))"

definition VolumeClock :: "u64 \<Rightarrow> clock" where
  "VolumeClock volume_per_bar t cumulative_volume tick_index =
     (if volume_per_bar = 0 then None else Some (cumulative_volume div volume_per_bar))"

section \<open>The builder\<close>

record 's BarBuilder =
  m_clock :: clock
  m_bar_callback :: "('s \<Rightarrow> Bar \<Rightarrow> 's) option"
  m_bar :: Bar
  m_has_bar :: bool
  m_cumulative_volume :: u64
  m_tick_index :: u64

definition BarBuilder_new :: "clock \<Rightarrow> ('s \<Rightarrow> Bar \<Rightarrow> 's) option \<Rightarrow> 's BarBuilder" where
  "BarBuilder_new clock callback = \<lparr>m_clock = clock, m_bar_callback = callback, m_bar = blank_bar, m_has_bar = False,
     m_cumulative_volume = 0, m_tick_index = 0\<rparr>"

definition bar_emit :: "'s BarBuilder \<times> 's \<Rightarrow> 's BarBuilder \<times> 's" where
  "bar_emit = (\<lambda>(b, s).
     let s = (case m_bar_callback b of Some callback \<Rightarrow> callback s (m_bar b) | None \<Rightarrow> s)
     in (b\<lparr>m_has_bar := False\<rparr>, s))"

definition open_bar :: "u64 \<Rightarrow> Trade \<Rightarrow> 's BarBuilder \<Rightarrow> 's BarBuilder" where
  "open_bar bucket t b = b
     \<lparr>m_bar := blank_bar\<lparr>bar_bucket := bucket, bar_start_timestamp := trade_timestamp t, bar_open := trade_price t,
        bar_high := trade_price t, bar_low := trade_price t\<rparr>,
      m_has_bar := True\<rparr>"

definition fold_trade :: "Trade \<Rightarrow> Bar \<Rightarrow> Bar" where
  "fold_trade t bar = bar
     \<lparr>bar_high := max (bar_high bar) (trade_price t), bar_low := min (bar_low bar) (trade_price t),
      bar_close := trade_price t, bar_end_timestamp := trade_timestamp t,
      bar_volume := bar_volume bar + trade_shares t, bar_trade_count := bar_trade_count bar + 1\<rparr>"

fun bar_add :: "Trade \<Rightarrow> 's BarBuilder \<times> 's \<Rightarrow> ('s BarBuilder \<times> 's) option" where
  "bar_add t (b, s) = do {
     bucket \<leftarrow> m_clock b t (m_cumulative_volume b) (m_tick_index b);
     let (b, s) = (if m_has_bar b \<and> bucket \<noteq> bar_bucket (m_bar b) then bar_emit (b, s) else (b, s));
     let b = (if \<not> m_has_bar b then open_bar bucket t b else b);
     let b = b\<lparr>m_bar := fold_trade t (m_bar b)\<rparr>;
     Some (b\<lparr>m_cumulative_volume := m_cumulative_volume b + trade_shares t, m_tick_index := m_tick_index b + 1\<rparr>, s) }"

definition bar_flush :: "'s BarBuilder \<times> 's \<Rightarrow> 's BarBuilder \<times> 's" where
  "bar_flush = (\<lambda>(b, s). if m_has_bar b then bar_emit (b, s) else (b, s))"

section \<open>The bars of a tape\<close>

text \<open>The trades with the bucket the clock gives each, from a volume and a number of trades on.\<close>

fun tagged :: "clock \<Rightarrow> u64 \<Rightarrow> u64 \<Rightarrow> Trade list \<Rightarrow> (u64 \<times> Trade) list option" where
  "tagged clock vol n [] = Some []"
| "tagged clock vol n (t # ts) = do {
     bucket \<leftarrow> clock t vol n;
     rest \<leftarrow> tagged clock (vol + trade_shares t) (n + 1) ts;
     Some ((bucket, t) # rest) }"

text \<open>Maximal runs of equal buckets, and the summary of a run.\<close>

fun runs :: "(u64 \<times> Trade) list \<Rightarrow> (u64 \<times> Trade list) list" where
  "runs [] = []"
| "runs ((bucket, t) # xs) = (case runs xs of
     [] \<Rightarrow> [(bucket, [t])]
   | (bucket', ts) # rest \<Rightarrow>
       if bucket' = bucket then (bucket, t # ts) # rest else (bucket, [t]) # (bucket', ts) # rest)"

definition bar_of :: "u64 \<times> Trade list \<Rightarrow> Bar" where
  "bar_of = (\<lambda>(bucket, ts).
     \<lparr>bar_bucket = bucket, bar_start_timestamp = trade_timestamp (hd ts), bar_end_timestamp = trade_timestamp (last ts),
      bar_open = trade_price (hd ts), bar_high = Max (set (map trade_price ts)), bar_low = Min (set (map trade_price ts)),
      bar_close = trade_price (last ts), bar_volume = (\<Sum>t\<leftarrow>ts. trade_shares t), bar_trade_count = of_nat (length ts)\<rparr>)"

text \<open>The runs that follow when the run \<open>cur\<close> of \<open>bucket\<close> is open.\<close>

definition continue :: "u64 \<Rightarrow> Trade list \<Rightarrow> (u64 \<times> Trade) list \<Rightarrow> (u64 \<times> Trade list) list" where
  "continue bucket cur xs = (case runs xs of
     [] \<Rightarrow> [(bucket, cur)]
   | (bucket', ts) # rest \<Rightarrow> if bucket' = bucket then (bucket, cur @ ts) # rest else (bucket, cur) # runs xs)"

lemma continue_Cons:
  "continue bucket cur ((bucket', t) # xs) =
    (if bucket' = bucket then continue bucket (cur @ [t]) xs else (bucket, cur) # continue bucket' [t] xs)"
  by (auto simp: continue_def split: list.split)

lemma runs_Cons: "runs ((bucket, t) # xs) = continue bucket [t] xs"
  by (auto simp: continue_def split: list.split)

lemma bar_of_single: "fold_trade t (m_bar (open_bar bucket t b)) = bar_of (bucket, [t])"
  by (simp add: fold_trade_def open_bar_def bar_of_def blank_bar_def)

lemma bar_of_snoc: "cur \<noteq> [] \<Longrightarrow> fold_trade t (bar_of (bucket, cur)) = bar_of (bucket, cur @ [t])"
  by (simp add: fold_trade_def bar_of_def max.commute min.commute Max_insert Min_insert)

lemma bar_run_open:
  assumes "m_has_bar b" "m_bar b = bar_of (bucket, cur)" "cur \<noteq> []" "m_bar_callback b = Some cb"
    "tagged (m_clock b) (m_cumulative_volume b) (m_tick_index b) ts = Some xs"
  shows "\<exists>b' s'. run_steps bar_add ts (b, s) = Some (b', s') \<and>
    snd (bar_flush (b', s')) = fold (\<lambda>r s. cb s (bar_of r)) (continue bucket cur xs) s"
  using assms
proof (induction ts arbitrary: b bucket cur xs s)
  case Nil
  then show ?case
    by (simp add: bar_flush_def bar_emit_def continue_def)
next
  case (Cons t ts)
  obtain bucket' rest where xs: "m_clock b t (m_cumulative_volume b) (m_tick_index b) = Some bucket'"
    "tagged (m_clock b) (m_cumulative_volume b + trade_shares t) (m_tick_index b + 1) ts = Some rest"
    "xs = (bucket', t) # rest"
    using Cons.prems(5) by (auto simp: Option.bind_eq_Some_conv)
  let ?next = "b\<lparr>m_cumulative_volume := m_cumulative_volume b + trade_shares t, m_tick_index := m_tick_index b + 1\<rparr>"
  have bucket: "bar_bucket (m_bar b) = bucket"
    using Cons.prems(2) by (simp add: bar_of_def)
  show ?case
  proof (cases "bucket' = bucket")
    case True
    let ?b = "?next\<lparr>m_bar := bar_of (bucket, cur @ [t])\<rparr>"
    have "bar_add t (b, s) = Some (?b, s)"
      using True Cons.prems(1,2) xs(1) bucket bar_of_snoc [OF Cons.prems(3), of t bucket] by simp
    moreover have "\<exists>b' s'. run_steps bar_add ts (?b, s) = Some (b', s') \<and>
        snd (bar_flush (b', s')) = fold (\<lambda>r s. cb s (bar_of r)) (continue bucket (cur @ [t]) rest) s"
      by (rule Cons.IH) (use Cons.prems xs(2) in simp_all)
    ultimately show ?thesis
      using True by (simp add: xs(3) continue_Cons)
  next
    case False
    let ?b = "?next\<lparr>m_bar := bar_of (bucket', [t]), m_has_bar := True\<rparr>"
    have "bar_add t (b, s) = Some (?b, cb s (bar_of (bucket, cur)))"
      using False Cons.prems(1,2,4) xs(1) bucket bar_of_single [of t bucket' "b\<lparr>m_has_bar := False\<rparr>"]
      by (simp add: bar_emit_def open_bar_def)
    moreover have "\<exists>b' s'. run_steps bar_add ts (?b, cb s (bar_of (bucket, cur))) = Some (b', s') \<and>
        snd (bar_flush (b', s')) = fold (\<lambda>r s. cb s (bar_of r)) (continue bucket' [t] rest) (cb s (bar_of (bucket, cur)))"
      by (rule Cons.IH) (use Cons.prems xs(2) in simp_all)
    ultimately show ?thesis
      using False by (simp add: xs(3) continue_Cons)
  qed
qed

lemma bar_run_new:
  assumes "tagged clock 0 0 ts = Some xs"
  shows "\<exists>b s'. run_steps bar_add ts (BarBuilder_new clock (Some cb), s) = Some (b, s') \<and>
    snd (bar_flush (b, s')) = fold (\<lambda>r s. cb s (bar_of r)) (runs xs) s"
proof (cases ts)
  case Nil
  then show ?thesis
    using assms by (simp add: bar_flush_def BarBuilder_new_def)
next
  case (Cons t ts')
  obtain bucket rest where xs: "clock t 0 0 = Some bucket" "tagged clock (trade_shares t) 1 ts' = Some rest"
    "xs = (bucket, t) # rest"
    using assms Cons by (auto simp: Option.bind_eq_Some_conv)
  let ?b = "(BarBuilder_new clock (Some cb))\<lparr>m_bar := bar_of (bucket, [t]), m_has_bar := True,
    m_cumulative_volume := trade_shares t, m_tick_index := 1\<rparr>"
  have "bar_add t (BarBuilder_new clock (Some cb), s) = Some (?b, s)"
    using xs(1) bar_of_single [of t bucket "BarBuilder_new clock (Some cb)"] by (simp add: BarBuilder_new_def open_bar_def)
  moreover have "\<exists>b s'. run_steps bar_add ts' (?b, s) = Some (b, s') \<and>
      snd (bar_flush (b, s')) = fold (\<lambda>r s. cb s (bar_of r)) (continue bucket [t] rest) s"
    by (rule bar_run_open) (use xs(2) in \<open>simp_all add: BarBuilder_new_def\<close>)
  ultimately show ?thesis
    by (simp add: Cons xs(3) runs_Cons del: runs.simps)
qed

text \<open>What the runs are: they partition the tape in order, none is empty, and neighbours differ.\<close>

lemma runs_partition:
  "concat (map snd (runs xs)) = map snd xs \<and> (\<forall>r \<in> set (runs xs). snd r \<noteq> []) \<and>
    concat (map (\<lambda>(bucket, ts). map (\<lambda>t. bucket) ts) (runs xs)) = map fst xs"
proof (induction xs rule: runs.induct)
  case (2 bucket t xs)
  then show ?case
    by (cases "runs xs") auto
qed simp

lemma runs_neighbours: "Suc i < length (runs xs) \<Longrightarrow> fst (runs xs ! i) \<noteq> fst (runs xs ! Suc i)"
proof (induction xs arbitrary: i rule: runs.induct)
  case (2 bucket t xs)
  then show ?case
    by (cases "runs xs"; cases i) (force split: if_splits)+
qed simp

lemma tagged_trades: "tagged clock vol n ts = Some xs \<Longrightarrow> map snd xs = ts"
  by (induction ts arbitrary: vol n xs) (auto simp: Option.bind_eq_Some_conv)

lemma runs_totals:
  "(\<Sum>r\<leftarrow>runs xs. bar_volume (bar_of r)) = (\<Sum>x\<leftarrow>xs. trade_shares (snd x))"
  "(\<Sum>r\<leftarrow>runs xs. bar_trade_count (bar_of r)) = of_nat (length xs)"
proof -
  have "(\<Sum>r\<leftarrow>rs. bar_volume (bar_of r)) = (\<Sum>t\<leftarrow>concat (map snd rs). trade_shares t)"
    "(\<Sum>r\<leftarrow>rs. bar_trade_count (bar_of r)) = of_nat (length (concat (map snd rs)))" for rs
    by (induction rs) (auto simp: bar_of_def)
  then show "(\<Sum>r\<leftarrow>runs xs. bar_volume (bar_of r)) = (\<Sum>x\<leftarrow>xs. trade_shares (snd x))"
    "(\<Sum>r\<leftarrow>runs xs. bar_trade_count (bar_of r)) = of_nat (length xs)"
    using runs_partition [of xs] by (simp_all add: comp_def)
qed

lemma tagged_volume:
  "n \<noteq> 0 \<Longrightarrow> \<exists>xs. tagged (VolumeClock n) vol k ts = Some xs \<and> length xs = length ts \<and>
    (\<forall>i < length ts. fst (xs ! i) = (vol + (\<Sum>t\<leftarrow>take i ts. trade_shares t)) div n)"
proof (induction ts arbitrary: vol k)
  case (Cons t ts)
  obtain xs where xs: "tagged (VolumeClock n) (vol + trade_shares t) (k + 1) ts = Some xs" "length xs = length ts"
    "\<forall>i < length ts. fst (xs ! i) = (vol + trade_shares t + (\<Sum>t\<leftarrow>take i ts. trade_shares t)) div n"
    using Cons by blast
  have "\<forall>i < length (t # ts). fst (((vol div n, t) # xs) ! i) = (vol + (\<Sum>t\<leftarrow>take i (t # ts). trade_shares t)) div n"
    using xs(3) by (auto simp: nth_Cons add.assoc split: nat.split)
  moreover have "VolumeClock n t vol k = Some (vol div n)"
    using Cons.prems by (simp add: VolumeClock_def)
  then have "tagged (VolumeClock n) vol k (t # ts) = Some ((vol div n, t) # xs)"
    using xs(1) by simp
  ultimately show ?case
    using xs(2) by (metis length_Cons)
qed simp

section \<open>Properties\<close>

lemma fold_collect: "fold (\<lambda>r as. as @ [f r]) rs as = as @ map f rs"
  by (induction rs arbitrary: as) simp_all

text \<open>
  C32. Bars: for every clock and every tape on which it is defined, adding the trades and flushing
  delivers, in order, the summaries of the maximal runs of trades with the same bucket: the first
  and last price and time, the highest and lowest price, the volume (modulo 2^64) and the number
  of trades of the run. The runs partition the tape and neighbours differ in their bucket.
\<close>

theorem bars_of_tape:
  assumes "tagged clock 0 0 ts = Some xs"
  shows "\<exists>b as. run_steps bar_add ts (BarBuilder_new clock (Some (\<lambda>as a. as @ [a])), []) = Some (b, as) \<and>
    snd (bar_flush (b, as)) = map bar_of (runs xs) \<and> concat (map snd (runs xs)) = ts \<and>
    (\<forall>i. Suc i < length (runs xs) \<longrightarrow> fst (runs xs ! i) \<noteq> fst (runs xs ! Suc i))"
  using bar_run_new [OF assms, of "\<lambda>as a. as @ [a]" "[]"] runs_partition [of xs] tagged_trades [OF assms] runs_neighbours
  by (simp add: fold_collect)

definition sample_trade :: "u64 \<Rightarrow> u32 \<Rightarrow> u64 \<Rightarrow> Trade" where
  "sample_trade time p sh = blank_trade\<lparr>trade_timestamp := time, trade_price := StandardPrice p, trade_shares := sh\<rparr>"

definition sample_tape :: "Trade list" where
  "sample_tape = [sample_trade 5 10 100, sample_trade 6 30 50, sample_trade 12 20 7]"

theorem bars_of_tape_witness:
  "\<exists>b as. run_steps bar_add sample_tape (BarBuilder_new (TimeClock 10) (Some (\<lambda>as a. as @ [a])), []) = Some (b, as) \<and>
    map bar_high (snd (bar_flush (b, as))) = [StandardPrice 30, StandardPrice 20] \<and>
    map bar_volume (snd (bar_flush (b, as))) = [150, 7]"
proof -
  let ?xs = "[(0, sample_trade 5 10 100), (0, sample_trade 6 30 50), (1, sample_trade 12 20 7)]"
  have "tagged (TimeClock 10) 0 0 sample_tape = Some ?xs"
    by code_simp
  moreover have "map bar_high (map bar_of (runs ?xs)) = [StandardPrice 30, StandardPrice 20]"
    "map bar_volume (map bar_of (runs ?xs)) = [150, 7]"
    by code_simp+
  ultimately show ?thesis
    using bars_of_tape [of "TimeClock 10" sample_tape ?xs] by fastforce
qed

text \<open>The bars account for every trade once: volumes and counts add up (modulo 2^64).\<close>

lemma bars_conserve_volume:
  assumes "tagged clock 0 0 ts = Some xs"
  shows "\<exists>b as. run_steps bar_add ts (BarBuilder_new clock (Some (\<lambda>as a. as @ [a])), []) = Some (b, as) \<and>
    (\<Sum>a\<leftarrow>snd (bar_flush (b, as)). bar_volume a) = (\<Sum>t\<leftarrow>ts. trade_shares t) \<and>
    (\<Sum>a\<leftarrow>snd (bar_flush (b, as)). bar_trade_count a) = of_nat (length ts)"
proof -
  have ts: "ts = map snd xs"
    using tagged_trades [OF assms] by simp
  show ?thesis
    using bar_run_new [OF assms, of "\<lambda>as a. as @ [a]" "[]"] runs_totals [of xs]
    by (auto simp: fold_collect ts comp_def)
qed

lemma runs_buckets: "map fst (runs xs) = remdups_adj (map fst xs)"
proof (induction xs rule: runs.induct)
  case (2 bucket t xs)
  then show ?case
    by (cases "runs xs") (auto simp: remdups_adj_Cons split: list.splits)
qed simp

text \<open>
  The volume clock: with a positive volume per bar the buckets of the delivered bars are, for
  each trade in turn, the volume of the trades before it divided by the volume per bar, without
  repetitions of neighbours. The trade itself is not included, so a first trade falls into bucket
  0 however large it is.
\<close>

theorem bars_volume_clock:
  assumes "n \<noteq> 0"
  shows "\<exists>b as. run_steps bar_add ts (BarBuilder_new (VolumeClock n) (Some (\<lambda>as a. as @ [a])), []) = Some (b, as) \<and>
    map bar_bucket (snd (bar_flush (b, as))) =
      remdups_adj (map (\<lambda>i. (\<Sum>t\<leftarrow>take i ts. trade_shares t) div n) [0..<length ts])"
proof -
  obtain xs where xs: "tagged (VolumeClock n) 0 0 ts = Some xs" "length xs = length ts"
    "\<forall>i < length ts. fst (xs ! i) = (\<Sum>t\<leftarrow>take i ts. trade_shares t) div n"
    using tagged_volume [OF assms, of 0 0 ts] by auto
  have "map fst xs = map (\<lambda>i. (\<Sum>t\<leftarrow>take i ts. trade_shares t) div n) [0..<length ts]"
    using xs(2,3) by (intro nth_equalityI) simp_all
  moreover have "map bar_bucket (map bar_of (runs xs)) = map fst (runs xs)"
    by (auto simp: bar_of_def)
  ultimately show ?thesis
    using bar_run_new [OF xs(1), of "\<lambda>as a. as @ [a]" "[]"] runs_buckets [of xs] by (auto simp: fold_collect)
qed

theorem bars_volume_clock_witness:
  "\<exists>b as. run_steps bar_add sample_tape (BarBuilder_new (VolumeClock 10) (Some (\<lambda>as a. as @ [a])), []) = Some (b, as) \<and>
    map bar_bucket (snd (bar_flush (b, as))) = [0, 10, 15]"
proof -
  have "remdups_adj (map (\<lambda>i. (\<Sum>t\<leftarrow>take i sample_tape. trade_shares t) div 10) [0..<length sample_tape]) = [0, 10, 15]"
    by code_simp
  then show ?thesis
    using bars_volume_clock [of 10 sample_tape] by auto
qed

end
