(* ===== verification/Wire.thy ===== *)
theory Wire
  imports Messages
begin

text \<open>
  The wire layout shared by the parser, the overlay, the encoder and the transports: the
  byte-order helpers of namespace \<^verbatim>\<open>itch::utils\<close> (\<^verbatim>\<open>include/itch/parser.hpp\<close>,
  \<^verbatim>\<open>src/parser.cpp\<close>), the field writers of \<^verbatim>\<open>ByteWriter\<close> (\<^verbatim>\<open>src/encoder.cpp\<close>) and the
  message-type registry of \<^verbatim>\<open>include/itch/detail/wire.hpp\<close>. The lemmas say that both sides
  use big-endian order whatever the byte order of the host, and that a reader applied to what
  a writer produced returns the value written.
\<close>

section \<open>Byte order\<close>

text \<open>\<^verbatim>\<open>swap_bytes\<close>: reverse the bytes of the object representation (\<^verbatim>\<open>std::bit_cast\<close>).\<close>

definition swap_bytes_on :: "endian \<Rightarrow> 'a::len word \<Rightarrow> 'a word" where
  "swap_bytes_on e value = object_of e (rev (bytes_of e value))"

definition from_big_endian_on :: "endian \<Rightarrow> 'a::len word \<Rightarrow> 'a word" where
  "from_big_endian_on e value = (if e = Little then swap_bytes_on e value else value)"

definition swap_bytes :: "'a::len word \<Rightarrow> 'a word" where
  "swap_bytes value = swap_bytes_on native value"

definition from_big_endian :: "'a::len word \<Rightarrow> 'a word" where
  "from_big_endian value = from_big_endian_on native value"

lemma object_of_flip: "object_of Little (rev bs) = object_of Big bs"
  by (simp add: object_of_def)

lemma bytes_of_flip: "rev (bytes_of Little w) = bytes_of Big w"
  by (simp add: bytes_of_def)

lemma from_big_endian_on_load:
  assumes "whole TYPE('a::len word)" and "length bs = LENGTH('a) div 8"
  shows "from_big_endian_on e (object_of e bs :: 'a word) = object_of Big bs"
  by (cases e) (simp_all add: from_big_endian_on_def swap_bytes_on_def bytes_of_object_of [OF assms]
      object_of_flip)

lemma bytes_of_from_big_endian_on:
  fixes w :: "'a::len word"
  assumes "whole TYPE('a word)"
  shows "bytes_of e (from_big_endian_on e w) = bytes_of Big w"
proof (cases e)
  case Little
  have "length (bytes_of Big w) = LENGTH('a) div 8"
    by (simp add: sizeof_def)
  then have "bytes_of Little (object_of Little (bytes_of Big w) :: 'a word) = bytes_of Big w"
    by (rule bytes_of_object_of [OF assms])
  with Little show ?thesis
    by (simp add: from_big_endian_on_def swap_bytes_on_def bytes_of_flip)
next
  case Big
  then show ?thesis
    by (simp add: from_big_endian_on_def)
qed

lemma swap_bytes_involution:
  fixes w :: "'a::len word"
  assumes "whole TYPE('a word)"
  shows "swap_bytes (swap_bytes w) = w"
proof -
  have "length (rev (bytes_of native w)) = LENGTH('a) div 8"
    by (simp add: sizeof_def)
  then show ?thesis
    by (simp add: swap_bytes_def swap_bytes_on_def bytes_of_object_of [OF assms]
        object_of_bytes_of [OF assms])
qed

section \<open>Field readers\<close>

text \<open>
  \<^verbatim>\<open>utils::unpack<T>\<close> for a multi-byte integer, for \<^verbatim>\<open>char\<close>, and the two special readers. The
  offset is a reference argument in the sources and part of the result here.
\<close>

definition unpack :: "byte list \<Rightarrow> nat \<Rightarrow> ('a::len word \<times> nat) option" where
  "unpack buffer offset = do {
     bs \<leftarrow> memcpy_from buffer offset (LENGTH('a) div 8);
     let value = object_of native bs;
     Some (from_big_endian value, offset + LENGTH('a) div 8) }"

definition unpack_char :: "byte list \<Rightarrow> nat \<Rightarrow> (char \<times> nat) option" where
  "unpack_char buffer offset = do {
     bs \<leftarrow> memcpy_from buffer offset 1;
     Some (char_of_byte (hd bs), offset + 1) }"

definition unpack_string :: "byte list \<Rightarrow> nat \<Rightarrow> nat \<Rightarrow> (char list \<times> nat) option" where
  "unpack_string buffer offset n = do {
     bs \<leftarrow> memcpy_from buffer offset n;
     Some (map char_of_byte bs, offset + n) }"

definition unpack_timestamp :: "byte list \<Rightarrow> nat \<Rightarrow> (u64 \<times> nat) option" where
  "unpack_timestamp buffer offset = do {
     high_bytes \<leftarrow> memcpy_from buffer offset 2;
     low_bytes \<leftarrow> memcpy_from buffer (offset + 2) 4;
     let high = from_big_endian (object_of native high_bytes :: u16);
     let low = from_big_endian (object_of native low_bytes :: u32);
     Some (push_bit 32 (ucast high) OR ucast low, offset + 2 + 4) }"

section \<open>Field writers\<close>

text \<open>The methods of \<^verbatim>\<open>ByteWriter\<close>: each returns the bytes it appends to the buffer.\<close>

definition put :: "'a::len word \<Rightarrow> byte list" where
  "put value = bytes_of native (from_big_endian value)"

definition put_char :: "char \<Rightarrow> byte list" where
  "put_char value = [byte_of_char value]"

definition put_chars :: "char list \<Rightarrow> nat \<Rightarrow> byte list" where
  "put_chars source n = map byte_of_char (take n source)"

definition put_timestamp :: "u64 \<Rightarrow> byte list" where
  "put_timestamp ts =
     put (ucast (drop_bit 32 ts) :: u16) @ put (ucast (ts AND 0xFFFFFFFF) :: u32)"

section \<open>Readers against writers\<close>

lemma put_big:
  fixes w :: "'a::len word"
  shows "whole TYPE('a word) \<Longrightarrow> put w = bytes_of Big w"
  by (simp add: put_def from_big_endian_def bytes_of_from_big_endian_on)

lemma length_put [simp, width_simps]: "length (put w) = sizeof w"
  by (simp add: put_def sizeof_def)

lemma length_put_char [simp, width_simps]: "length (put_char c) = 1"
  by (simp add: put_char_def)

lemma length_put_chars [simp, width_simps]:
  "length source = n \<Longrightarrow> length (put_chars source n) = n"
  by (simp add: put_chars_def)

lemma length_put_timestamp [simp, width_simps]: "length (put_timestamp ts) = 6"
  by (simp add: put_timestamp_def)

lemma unpack_eq:
  assumes "whole TYPE('a::len word)"
  shows "unpack buffer offset =
    (if offset + LENGTH('a) div 8 \<le> length buffer
     then Some (object_of Big (take (LENGTH('a) div 8) (drop offset buffer)) :: 'a word,
                offset + LENGTH('a) div 8)
     else None)"
  using from_big_endian_on_load [OF assms, of "take (LENGTH('a) div 8) (drop offset buffer)" native]
  by (simp add: unpack_def memcpy_from_def from_big_endian_def)

lemma object_of_put [simp]:
  fixes w :: "'a::len word"
  assumes "whole TYPE('a word)"
  shows "object_of Big (put w) = w"
  by (simp add: put_big [OF assms] object_of_bytes_of [OF assms])

text \<open>
  The reader laws in the form the round-trip proofs use: the buffer from the offset on starts
  with the bytes a writer produced.
\<close>

lemma take_drop_at:
  assumes "drop offset buffer = bs @ rest" and "length bs = n" and "0 < n"
  shows "offset + n \<le> length buffer" and "take n (drop offset buffer) = bs"
proof -
  have "length (drop offset buffer) = n + length rest"
    using assms(1,2) by simp
  with assms(3) show "offset + n \<le> length buffer"
    by simp
  show "take n (drop offset buffer) = bs"
    using assms(1,2) by simp
qed

lemma unpack_put:
  fixes w :: "'a::len word"
  assumes "drop offset buffer = put w @ rest" and "whole TYPE('a word)" and "8 \<le> LENGTH('a)"
  shows "unpack buffer offset = Some (w, offset + sizeof w)"
proof -
  have n: "length (put w) = LENGTH('a) div 8" and pos: "0 < LENGTH('a) div 8"
    using assms(3) by (simp_all add: sizeof_def)
  show ?thesis
    using take_drop_at [OF assms(1) n pos] assms(2)
    by (simp add: unpack_eq sizeof_def)
qed

lemma unpack_put_char:
  assumes "drop offset buffer = put_char c @ rest"
  shows "unpack_char buffer offset = Some (c, offset + 1)"
  using take_drop_at [OF assms, of 1] by (simp add: unpack_char_def put_char_def)

lemma unpack_put_chars:
  assumes "drop offset buffer = put_chars cs n @ rest" and "length cs = n" and "0 < n"
  shows "unpack_string buffer offset n = Some (cs, offset + n)"
  using take_drop_at [OF assms(1) _ assms(3)] assms(2)
  by (simp add: unpack_string_def put_chars_def)

lemma timestamp_join:
  "push_bit 32 (ucast (ucast (drop_bit 32 ts) :: u16) :: u64)
     OR ucast (ucast (ts AND 0xFFFFFFFF) :: u32) = take_bit 48 (ts :: u64)"
proof -
  have mask: "(0xFFFFFFFF :: u64) = mask 32"
    by (simp add: mask_eq_exp_minus_1)
  show ?thesis
    by (rule bit_word_eqI) (auto simp: mask bit_simps)
qed

lemma unpack_put_timestamp:
  assumes "drop offset buffer = put_timestamp ts @ rest"
  shows "unpack_timestamp buffer offset = Some (take_bit 48 ts, offset + 6)"
proof -
  let ?hi = "ucast (drop_bit 32 ts) :: u16"
  let ?lo = "ucast (ts AND 0xFFFFFFFF) :: u32"
  have hi: "drop offset buffer = put ?hi @ put ?lo @ rest"
    using assms by (simp add: put_timestamp_def)
  then have "drop 2 (drop offset buffer) = put ?lo @ rest"
    by simp
  then have lo: "drop (offset + 2) buffer = put ?lo @ rest"
    by (simp add: add.commute)
  show ?thesis
    using take_drop_at [OF hi, of 2] take_drop_at [OF lo, of 4]
      from_big_endian_on_load [of "put ?hi" native, where 'a = 16]
      from_big_endian_on_load [of "put ?lo" native, where 'a = 32]
    by (simp add: unpack_timestamp_def from_big_endian_def timestamp_join)
qed

lemma take_bit_48_self: "unat (ts :: u64) < 2 ^ 48 \<Longrightarrow> take_bit 48 ts = ts"
  by (simp add: word_unat_eq_iff unsigned_take_bit_eq take_bit_nat_eq_self)

lemma drop_put:
  assumes "drop offset buffer = bs @ rest"
  shows "drop (offset + length bs) buffer = rest"
proof -
  have "drop (offset + length bs) buffer = drop (length bs) (drop offset buffer)"
    by (simp add: add.commute)
  with assms show ?thesis
    by simp
qed

section \<open>The message-type registry\<close>

definition TIMESTAMP_STRUCT_PADDING :: nat where
  "TIMESTAMP_STRUCT_PADDING = sizeof (0 :: u64) - 6"

definition WIRE_SIZE :: "MsgType \<Rightarrow> nat" where
  "WIRE_SIZE t = struct_sizeof t - TIMESTAMP_STRUCT_PADDING"

definition for_each_message_type :: "(char \<times> MsgType) list" where
  "for_each_message_type = [
     (CHR ''S'', SystemEventT),
     (CHR ''R'', StockDirectoryT),
     (CHR ''H'', StockTradingActionT),
     (CHR ''Y'', RegSHOT),
     (CHR ''L'', MarketParticipantPositionT),
     (CHR ''V'', MWCBDeclineLevelT),
     (CHR ''W'', MWCBStatusT),
     (CHR ''K'', IPOQuotingPeriodUpdateT),
     (CHR ''J'', LULDAuctionCollarT),
     (CHR ''h'', OperationalHaltT),
     (CHR ''A'', AddOrderT),
     (CHR ''F'', AddOrderMPIDAttributionT),
     (CHR ''E'', OrderExecutedT),
     (CHR ''C'', OrderExecutedWithPriceT),
     (CHR ''X'', OrderCancelT),
     (CHR ''D'', OrderDeleteT),
     (CHR ''U'', OrderReplaceT),
     (CHR ''P'', NonCrossTradeT),
     (CHR ''Q'', CrossTradeT),
     (CHR ''B'', BrokenTradeT),
     (CHR ''I'', NOIIT),
     (CHR ''N'', RetailPriceImprovementIndicatorT),
     (CHR ''O'', DLCRT)]"

text \<open>The compile-time assertions of the header, and the largest message.\<close>

lemma wire_size_asserts:
  "WIRE_SIZE SystemEventT = 12" "WIRE_SIZE StockDirectoryT = 39" "WIRE_SIZE AddOrderT = 36"
  "WIRE_SIZE NOIIT = 50" "WIRE_SIZE DLCRT = 48"
  by (simp_all add: WIRE_SIZE_def TIMESTAMP_STRUCT_PADDING_def header_sizeof_def)

lemma WIRE_SIZE_bounds: "11 < WIRE_SIZE t" "WIRE_SIZE t \<le> 50"
  by (cases t; simp add: WIRE_SIZE_def TIMESTAMP_STRUCT_PADDING_def header_sizeof_def)+

text \<open>Every message type is registered once, under its own type byte, and no byte twice.\<close>

lemma registry_distinct: "distinct (map fst for_each_message_type)"
  by (simp add: for_each_message_type_def)

lemma registry_complete: "(c, t) \<in> set for_each_message_type \<longleftrightarrow> c = type_byte t"
proof
  assume "(c, t) \<in> set for_each_message_type"
  then show "c = type_byte t"
    by (auto simp: for_each_message_type_def)
next
  assume "c = type_byte t"
  then show "(c, t) \<in> set for_each_message_type"
    by (cases t) (simp_all add: for_each_message_type_def)
qed

lemma registry_lookup: "map_of for_each_message_type c = Some t \<longleftrightarrow> c = type_byte t"
  by (simp add: registry_distinct registry_complete)

lemma type_byte_inject [simp]: "type_byte s = type_byte t \<longleftrightarrow> s = t"
  by (metis option.inject registry_lookup)

end
