(* ===== verification/Parser.thy ===== *)
theory Parser
  imports Wire
begin

text \<open>
  The eager parser of \<^verbatim>\<open>src/parser.cpp\<close>: the per-type field decoders, the dispatch table, and
  the framing loop with its diagnostics. A callback is a state transformer on the client's
  state, so the collecting, filtering and counting overloads are instances of one loop. The
  result \<^term>\<open>None\<close> stands for a read outside the frame; \<open>parse_impl_total\<close> shows that it
  never happens.
\<close>

section \<open>Field decoders\<close>

definition unpack_SystemEvent :: "SystemEventMessage \<Rightarrow> byte list \<Rightarrow> nat \<Rightarrow> (SystemEventMessage \<times> nat) option" where
  "unpack_SystemEvent msg buffer offset = do {
     (v, offset) \<leftarrow> unpack_char buffer offset;
     let msg = msg\<lparr>SystemEventMessage.event_code := v\<rparr>;
     Some (msg, offset) }"

definition unpack_StockDirectory :: "StockDirectoryMessage \<Rightarrow> byte list \<Rightarrow> nat \<Rightarrow> (StockDirectoryMessage \<times> nat) option" where
  "unpack_StockDirectory msg buffer offset = do {
     (v, offset) \<leftarrow> unpack_string buffer offset STOCK_LEN;
     let msg = msg\<lparr>StockDirectoryMessage.stock := v\<rparr>;
     (v, offset) \<leftarrow> unpack_char buffer offset;
     let msg = msg\<lparr>StockDirectoryMessage.market_category := v\<rparr>;
     (v, offset) \<leftarrow> unpack_char buffer offset;
     let msg = msg\<lparr>StockDirectoryMessage.financial_status_indicator := v\<rparr>;
     (v, offset) \<leftarrow> unpack buffer offset;
     let msg = msg\<lparr>StockDirectoryMessage.round_lot_size := v\<rparr>;
     (v, offset) \<leftarrow> unpack_char buffer offset;
     let msg = msg\<lparr>StockDirectoryMessage.round_lots_only := v\<rparr>;
     (v, offset) \<leftarrow> unpack_char buffer offset;
     let msg = msg\<lparr>StockDirectoryMessage.issue_classification := v\<rparr>;
     (v, offset) \<leftarrow> unpack_string buffer offset 2;
     let msg = msg\<lparr>StockDirectoryMessage.issue_sub_type := v\<rparr>;
     (v, offset) \<leftarrow> unpack_char buffer offset;
     let msg = msg\<lparr>StockDirectoryMessage.authenticity := v\<rparr>;
     (v, offset) \<leftarrow> unpack_char buffer offset;
     let msg = msg\<lparr>StockDirectoryMessage.short_sale_threshold_indicator := v\<rparr>;
     (v, offset) \<leftarrow> unpack_char buffer offset;
     let msg = msg\<lparr>StockDirectoryMessage.ipo_flag := v\<rparr>;
     (v, offset) \<leftarrow> unpack_char buffer offset;
     let msg = msg\<lparr>StockDirectoryMessage.luld_ref := v\<rparr>;
     (v, offset) \<leftarrow> unpack_char buffer offset;
     let msg = msg\<lparr>StockDirectoryMessage.etp_flag := v\<rparr>;
     (v, offset) \<leftarrow> unpack buffer offset;
     let msg = msg\<lparr>StockDirectoryMessage.etp_leverage_factor := v\<rparr>;
     (v, offset) \<leftarrow> unpack_char buffer offset;
     let msg = msg\<lparr>StockDirectoryMessage.inverse_indicator := v\<rparr>;
     Some (msg, offset) }"

definition unpack_StockTradingAction :: "StockTradingActionMessage \<Rightarrow> byte list \<Rightarrow> nat \<Rightarrow> (StockTradingActionMessage \<times> nat) option" where
  "unpack_StockTradingAction msg buffer offset = do {
     (v, offset) \<leftarrow> unpack_string buffer offset STOCK_LEN;
     let msg = msg\<lparr>StockTradingActionMessage.stock := v\<rparr>;
     (v, offset) \<leftarrow> unpack_char buffer offset;
     let msg = msg\<lparr>StockTradingActionMessage.trading_state := v\<rparr>;
     (v, offset) \<leftarrow> unpack_char buffer offset;
     let msg = msg\<lparr>StockTradingActionMessage.reserved := v\<rparr>;
     (v, offset) \<leftarrow> unpack_string buffer offset 4;
     let msg = msg\<lparr>StockTradingActionMessage.reason := v\<rparr>;
     Some (msg, offset) }"

definition unpack_RegSHO :: "RegSHOMessage \<Rightarrow> byte list \<Rightarrow> nat \<Rightarrow> (RegSHOMessage \<times> nat) option" where
  "unpack_RegSHO msg buffer offset = do {
     (v, offset) \<leftarrow> unpack_string buffer offset STOCK_LEN;
     let msg = msg\<lparr>RegSHOMessage.stock := v\<rparr>;
     (v, offset) \<leftarrow> unpack_char buffer offset;
     let msg = msg\<lparr>RegSHOMessage.reg_sho_action := v\<rparr>;
     Some (msg, offset) }"

definition unpack_MarketParticipantPosition :: "MarketParticipantPositionMessage \<Rightarrow> byte list \<Rightarrow> nat \<Rightarrow> (MarketParticipantPositionMessage \<times> nat) option" where
  "unpack_MarketParticipantPosition msg buffer offset = do {
     (v, offset) \<leftarrow> unpack_string buffer offset 4;
     let msg = msg\<lparr>MarketParticipantPositionMessage.mpid := v\<rparr>;
     (v, offset) \<leftarrow> unpack_string buffer offset STOCK_LEN;
     let msg = msg\<lparr>MarketParticipantPositionMessage.stock := v\<rparr>;
     (v, offset) \<leftarrow> unpack_char buffer offset;
     let msg = msg\<lparr>MarketParticipantPositionMessage.primary_market_maker := v\<rparr>;
     (v, offset) \<leftarrow> unpack_char buffer offset;
     let msg = msg\<lparr>MarketParticipantPositionMessage.market_maker_mode := v\<rparr>;
     (v, offset) \<leftarrow> unpack_char buffer offset;
     let msg = msg\<lparr>MarketParticipantPositionMessage.market_participant_state := v\<rparr>;
     Some (msg, offset) }"

definition unpack_MWCBDeclineLevel :: "MWCBDeclineLevelMessage \<Rightarrow> byte list \<Rightarrow> nat \<Rightarrow> (MWCBDeclineLevelMessage \<times> nat) option" where
  "unpack_MWCBDeclineLevel msg buffer offset = do {
     (v, offset) \<leftarrow> unpack buffer offset;
     let msg = msg\<lparr>MWCBDeclineLevelMessage.level1 := v\<rparr>;
     (v, offset) \<leftarrow> unpack buffer offset;
     let msg = msg\<lparr>MWCBDeclineLevelMessage.level2 := v\<rparr>;
     (v, offset) \<leftarrow> unpack buffer offset;
     let msg = msg\<lparr>MWCBDeclineLevelMessage.level3 := v\<rparr>;
     Some (msg, offset) }"

definition unpack_MWCBStatus :: "MWCBStatusMessage \<Rightarrow> byte list \<Rightarrow> nat \<Rightarrow> (MWCBStatusMessage \<times> nat) option" where
  "unpack_MWCBStatus msg buffer offset = do {
     (v, offset) \<leftarrow> unpack_char buffer offset;
     let msg = msg\<lparr>MWCBStatusMessage.breached_level := v\<rparr>;
     Some (msg, offset) }"

definition unpack_IPOQuotingPeriodUpdate :: "IPOQuotingPeriodUpdateMessage \<Rightarrow> byte list \<Rightarrow> nat \<Rightarrow> (IPOQuotingPeriodUpdateMessage \<times> nat) option" where
  "unpack_IPOQuotingPeriodUpdate msg buffer offset = do {
     (v, offset) \<leftarrow> unpack_string buffer offset STOCK_LEN;
     let msg = msg\<lparr>IPOQuotingPeriodUpdateMessage.stock := v\<rparr>;
     (v, offset) \<leftarrow> unpack buffer offset;
     let msg = msg\<lparr>IPOQuotingPeriodUpdateMessage.ipo_quotation_release_time := v\<rparr>;
     (v, offset) \<leftarrow> unpack_char buffer offset;
     let msg = msg\<lparr>IPOQuotingPeriodUpdateMessage.ipo_quotation_release_qualifier := v\<rparr>;
     (v, offset) \<leftarrow> unpack buffer offset;
     let msg = msg\<lparr>IPOQuotingPeriodUpdateMessage.ipo_price := v\<rparr>;
     Some (msg, offset) }"

definition unpack_LULDAuctionCollar :: "LULDAuctionCollarMessage \<Rightarrow> byte list \<Rightarrow> nat \<Rightarrow> (LULDAuctionCollarMessage \<times> nat) option" where
  "unpack_LULDAuctionCollar msg buffer offset = do {
     (v, offset) \<leftarrow> unpack_string buffer offset STOCK_LEN;
     let msg = msg\<lparr>LULDAuctionCollarMessage.stock := v\<rparr>;
     (v, offset) \<leftarrow> unpack buffer offset;
     let msg = msg\<lparr>LULDAuctionCollarMessage.auction_collar_reference_price := v\<rparr>;
     (v, offset) \<leftarrow> unpack buffer offset;
     let msg = msg\<lparr>LULDAuctionCollarMessage.upper_auction_collar_price := v\<rparr>;
     (v, offset) \<leftarrow> unpack buffer offset;
     let msg = msg\<lparr>LULDAuctionCollarMessage.lower_auction_collar_price := v\<rparr>;
     (v, offset) \<leftarrow> unpack buffer offset;
     let msg = msg\<lparr>LULDAuctionCollarMessage.auction_collar_extension := v\<rparr>;
     Some (msg, offset) }"

definition unpack_OperationalHalt :: "OperationalHaltMessage \<Rightarrow> byte list \<Rightarrow> nat \<Rightarrow> (OperationalHaltMessage \<times> nat) option" where
  "unpack_OperationalHalt msg buffer offset = do {
     (v, offset) \<leftarrow> unpack_string buffer offset STOCK_LEN;
     let msg = msg\<lparr>OperationalHaltMessage.stock := v\<rparr>;
     (v, offset) \<leftarrow> unpack_char buffer offset;
     let msg = msg\<lparr>OperationalHaltMessage.market_code := v\<rparr>;
     (v, offset) \<leftarrow> unpack_char buffer offset;
     let msg = msg\<lparr>OperationalHaltMessage.operational_halt_action := v\<rparr>;
     Some (msg, offset) }"

definition unpack_AddOrder :: "AddOrderMessage \<Rightarrow> byte list \<Rightarrow> nat \<Rightarrow> (AddOrderMessage \<times> nat) option" where
  "unpack_AddOrder msg buffer offset = do {
     (v, offset) \<leftarrow> unpack buffer offset;
     let msg = msg\<lparr>AddOrderMessage.order_reference_number := v\<rparr>;
     (v, offset) \<leftarrow> unpack_char buffer offset;
     let msg = msg\<lparr>AddOrderMessage.buy_sell_indicator := v\<rparr>;
     (v, offset) \<leftarrow> unpack buffer offset;
     let msg = msg\<lparr>AddOrderMessage.shares := v\<rparr>;
     (v, offset) \<leftarrow> unpack_string buffer offset STOCK_LEN;
     let msg = msg\<lparr>AddOrderMessage.stock := v\<rparr>;
     (v, offset) \<leftarrow> unpack buffer offset;
     let msg = msg\<lparr>AddOrderMessage.price := v\<rparr>;
     Some (msg, offset) }"

definition unpack_AddOrderMPIDAttribution :: "AddOrderMPIDAttributionMessage \<Rightarrow> byte list \<Rightarrow> nat \<Rightarrow> (AddOrderMPIDAttributionMessage \<times> nat) option" where
  "unpack_AddOrderMPIDAttribution msg buffer offset = do {
     (v, offset) \<leftarrow> unpack buffer offset;
     let msg = msg\<lparr>AddOrderMPIDAttributionMessage.order_reference_number := v\<rparr>;
     (v, offset) \<leftarrow> unpack_char buffer offset;
     let msg = msg\<lparr>AddOrderMPIDAttributionMessage.buy_sell_indicator := v\<rparr>;
     (v, offset) \<leftarrow> unpack buffer offset;
     let msg = msg\<lparr>AddOrderMPIDAttributionMessage.shares := v\<rparr>;
     (v, offset) \<leftarrow> unpack_string buffer offset STOCK_LEN;
     let msg = msg\<lparr>AddOrderMPIDAttributionMessage.stock := v\<rparr>;
     (v, offset) \<leftarrow> unpack buffer offset;
     let msg = msg\<lparr>AddOrderMPIDAttributionMessage.price := v\<rparr>;
     (v, offset) \<leftarrow> unpack_string buffer offset 4;
     let msg = msg\<lparr>AddOrderMPIDAttributionMessage.attribution := v\<rparr>;
     Some (msg, offset) }"

definition unpack_OrderExecuted :: "OrderExecutedMessage \<Rightarrow> byte list \<Rightarrow> nat \<Rightarrow> (OrderExecutedMessage \<times> nat) option" where
  "unpack_OrderExecuted msg buffer offset = do {
     (v, offset) \<leftarrow> unpack buffer offset;
     let msg = msg\<lparr>OrderExecutedMessage.order_reference_number := v\<rparr>;
     (v, offset) \<leftarrow> unpack buffer offset;
     let msg = msg\<lparr>OrderExecutedMessage.executed_shares := v\<rparr>;
     (v, offset) \<leftarrow> unpack buffer offset;
     let msg = msg\<lparr>OrderExecutedMessage.match_number := v\<rparr>;
     Some (msg, offset) }"

definition unpack_OrderExecutedWithPrice :: "OrderExecutedWithPriceMessage \<Rightarrow> byte list \<Rightarrow> nat \<Rightarrow> (OrderExecutedWithPriceMessage \<times> nat) option" where
  "unpack_OrderExecutedWithPrice msg buffer offset = do {
     (v, offset) \<leftarrow> unpack buffer offset;
     let msg = msg\<lparr>OrderExecutedWithPriceMessage.order_reference_number := v\<rparr>;
     (v, offset) \<leftarrow> unpack buffer offset;
     let msg = msg\<lparr>OrderExecutedWithPriceMessage.executed_shares := v\<rparr>;
     (v, offset) \<leftarrow> unpack buffer offset;
     let msg = msg\<lparr>OrderExecutedWithPriceMessage.match_number := v\<rparr>;
     (v, offset) \<leftarrow> unpack_char buffer offset;
     let msg = msg\<lparr>OrderExecutedWithPriceMessage.printable := v\<rparr>;
     (v, offset) \<leftarrow> unpack buffer offset;
     let msg = msg\<lparr>OrderExecutedWithPriceMessage.execution_price := v\<rparr>;
     Some (msg, offset) }"

definition unpack_OrderCancel :: "OrderCancelMessage \<Rightarrow> byte list \<Rightarrow> nat \<Rightarrow> (OrderCancelMessage \<times> nat) option" where
  "unpack_OrderCancel msg buffer offset = do {
     (v, offset) \<leftarrow> unpack buffer offset;
     let msg = msg\<lparr>OrderCancelMessage.order_reference_number := v\<rparr>;
     (v, offset) \<leftarrow> unpack buffer offset;
     let msg = msg\<lparr>OrderCancelMessage.cancelled_shares := v\<rparr>;
     Some (msg, offset) }"

definition unpack_OrderDelete :: "OrderDeleteMessage \<Rightarrow> byte list \<Rightarrow> nat \<Rightarrow> (OrderDeleteMessage \<times> nat) option" where
  "unpack_OrderDelete msg buffer offset = do {
     (v, offset) \<leftarrow> unpack buffer offset;
     let msg = msg\<lparr>OrderDeleteMessage.order_reference_number := v\<rparr>;
     Some (msg, offset) }"

definition unpack_OrderReplace :: "OrderReplaceMessage \<Rightarrow> byte list \<Rightarrow> nat \<Rightarrow> (OrderReplaceMessage \<times> nat) option" where
  "unpack_OrderReplace msg buffer offset = do {
     (v, offset) \<leftarrow> unpack buffer offset;
     let msg = msg\<lparr>OrderReplaceMessage.original_order_reference_number := v\<rparr>;
     (v, offset) \<leftarrow> unpack buffer offset;
     let msg = msg\<lparr>OrderReplaceMessage.new_order_reference_number := v\<rparr>;
     (v, offset) \<leftarrow> unpack buffer offset;
     let msg = msg\<lparr>OrderReplaceMessage.shares := v\<rparr>;
     (v, offset) \<leftarrow> unpack buffer offset;
     let msg = msg\<lparr>OrderReplaceMessage.price := v\<rparr>;
     Some (msg, offset) }"

definition unpack_NonCrossTrade :: "NonCrossTradeMessage \<Rightarrow> byte list \<Rightarrow> nat \<Rightarrow> (NonCrossTradeMessage \<times> nat) option" where
  "unpack_NonCrossTrade msg buffer offset = do {
     (v, offset) \<leftarrow> unpack buffer offset;
     let msg = msg\<lparr>NonCrossTradeMessage.order_reference_number := v\<rparr>;
     (v, offset) \<leftarrow> unpack_char buffer offset;
     let msg = msg\<lparr>NonCrossTradeMessage.buy_sell_indicator := v\<rparr>;
     (v, offset) \<leftarrow> unpack buffer offset;
     let msg = msg\<lparr>NonCrossTradeMessage.shares := v\<rparr>;
     (v, offset) \<leftarrow> unpack_string buffer offset STOCK_LEN;
     let msg = msg\<lparr>NonCrossTradeMessage.stock := v\<rparr>;
     (v, offset) \<leftarrow> unpack buffer offset;
     let msg = msg\<lparr>NonCrossTradeMessage.price := v\<rparr>;
     (v, offset) \<leftarrow> unpack buffer offset;
     let msg = msg\<lparr>NonCrossTradeMessage.match_number := v\<rparr>;
     Some (msg, offset) }"

definition unpack_CrossTrade :: "CrossTradeMessage \<Rightarrow> byte list \<Rightarrow> nat \<Rightarrow> (CrossTradeMessage \<times> nat) option" where
  "unpack_CrossTrade msg buffer offset = do {
     (v, offset) \<leftarrow> unpack buffer offset;
     let msg = msg\<lparr>CrossTradeMessage.shares := v\<rparr>;
     (v, offset) \<leftarrow> unpack_string buffer offset STOCK_LEN;
     let msg = msg\<lparr>CrossTradeMessage.stock := v\<rparr>;
     (v, offset) \<leftarrow> unpack buffer offset;
     let msg = msg\<lparr>CrossTradeMessage.cross_price := v\<rparr>;
     (v, offset) \<leftarrow> unpack buffer offset;
     let msg = msg\<lparr>CrossTradeMessage.match_number := v\<rparr>;
     (v, offset) \<leftarrow> unpack_char buffer offset;
     let msg = msg\<lparr>CrossTradeMessage.cross_type := v\<rparr>;
     Some (msg, offset) }"

definition unpack_BrokenTrade :: "BrokenTradeMessage \<Rightarrow> byte list \<Rightarrow> nat \<Rightarrow> (BrokenTradeMessage \<times> nat) option" where
  "unpack_BrokenTrade msg buffer offset = do {
     (v, offset) \<leftarrow> unpack buffer offset;
     let msg = msg\<lparr>BrokenTradeMessage.match_number := v\<rparr>;
     Some (msg, offset) }"

definition unpack_NOII :: "NOIIMessage \<Rightarrow> byte list \<Rightarrow> nat \<Rightarrow> (NOIIMessage \<times> nat) option" where
  "unpack_NOII msg buffer offset = do {
     (v, offset) \<leftarrow> unpack buffer offset;
     let msg = msg\<lparr>NOIIMessage.paired_shares := v\<rparr>;
     (v, offset) \<leftarrow> unpack buffer offset;
     let msg = msg\<lparr>NOIIMessage.imbalance_shares := v\<rparr>;
     (v, offset) \<leftarrow> unpack_char buffer offset;
     let msg = msg\<lparr>NOIIMessage.imbalance_direction := v\<rparr>;
     (v, offset) \<leftarrow> unpack_string buffer offset STOCK_LEN;
     let msg = msg\<lparr>NOIIMessage.stock := v\<rparr>;
     (v, offset) \<leftarrow> unpack buffer offset;
     let msg = msg\<lparr>NOIIMessage.far_price := v\<rparr>;
     (v, offset) \<leftarrow> unpack buffer offset;
     let msg = msg\<lparr>NOIIMessage.near_price := v\<rparr>;
     (v, offset) \<leftarrow> unpack buffer offset;
     let msg = msg\<lparr>NOIIMessage.current_reference_price := v\<rparr>;
     (v, offset) \<leftarrow> unpack_char buffer offset;
     let msg = msg\<lparr>NOIIMessage.cross_type := v\<rparr>;
     (v, offset) \<leftarrow> unpack_char buffer offset;
     let msg = msg\<lparr>NOIIMessage.price_variation_indicator := v\<rparr>;
     Some (msg, offset) }"

definition unpack_RetailPriceImprovementIndicator :: "RetailPriceImprovementIndicatorMessage \<Rightarrow> byte list \<Rightarrow> nat \<Rightarrow> (RetailPriceImprovementIndicatorMessage \<times> nat) option" where
  "unpack_RetailPriceImprovementIndicator msg buffer offset = do {
     (v, offset) \<leftarrow> unpack_string buffer offset STOCK_LEN;
     let msg = msg\<lparr>RetailPriceImprovementIndicatorMessage.stock := v\<rparr>;
     (v, offset) \<leftarrow> unpack_char buffer offset;
     let msg = msg\<lparr>RetailPriceImprovementIndicatorMessage.interest_flag := v\<rparr>;
     Some (msg, offset) }"

definition unpack_DLCR :: "DLCRMessage \<Rightarrow> byte list \<Rightarrow> nat \<Rightarrow> (DLCRMessage \<times> nat) option" where
  "unpack_DLCR msg buffer offset = do {
     (v, offset) \<leftarrow> unpack_string buffer offset STOCK_LEN;
     let msg = msg\<lparr>DLCRMessage.stock := v\<rparr>;
     (v, offset) \<leftarrow> unpack_char buffer offset;
     let msg = msg\<lparr>DLCRMessage.open_eligibility_status := v\<rparr>;
     (v, offset) \<leftarrow> unpack buffer offset;
     let msg = msg\<lparr>DLCRMessage.minimum_allowable_price := v\<rparr>;
     (v, offset) \<leftarrow> unpack buffer offset;
     let msg = msg\<lparr>DLCRMessage.maximum_allowable_price := v\<rparr>;
     (v, offset) \<leftarrow> unpack buffer offset;
     let msg = msg\<lparr>DLCRMessage.near_execution_price := v\<rparr>;
     (v, offset) \<leftarrow> unpack buffer offset;
     let msg = msg\<lparr>DLCRMessage.near_execution_time := v\<rparr>;
     (v, offset) \<leftarrow> unpack buffer offset;
     let msg = msg\<lparr>DLCRMessage.lower_price_range_collar := v\<rparr>;
     (v, offset) \<leftarrow> unpack buffer offset;
     let msg = msg\<lparr>DLCRMessage.upper_price_range_collar := v\<rparr>;
     Some (msg, offset) }"

section \<open>Decoding one frame\<close>

text \<open>
  The struct a decoder starts from: only the type byte has an initialiser in the sources, the
  other fields are indeterminate until they are assigned. They are zero here, and the decoders
  assign every one of them.
\<close>

definition blank_SystemEvent :: SystemEventMessage where
  "blank_SystemEvent = \<lparr>message_type = CHR ''S'', stock_locate = 0, tracking_number = 0, timestamp = 0,
     SystemEventMessage.event_code = CHR 0x00\<rparr>"

definition blank_StockDirectory :: StockDirectoryMessage where
  "blank_StockDirectory = \<lparr>message_type = CHR ''R'', stock_locate = 0, tracking_number = 0, timestamp = 0,
     StockDirectoryMessage.stock = replicate 8 (CHR 0x00), StockDirectoryMessage.market_category = CHR 0x00, StockDirectoryMessage.financial_status_indicator = CHR 0x00,
     StockDirectoryMessage.round_lot_size = 0, StockDirectoryMessage.round_lots_only = CHR 0x00, StockDirectoryMessage.issue_classification = CHR 0x00,
     StockDirectoryMessage.issue_sub_type = replicate 2 (CHR 0x00), StockDirectoryMessage.authenticity = CHR 0x00, StockDirectoryMessage.short_sale_threshold_indicator = CHR 0x00,
     StockDirectoryMessage.ipo_flag = CHR 0x00, StockDirectoryMessage.luld_ref = CHR 0x00, StockDirectoryMessage.etp_flag = CHR 0x00,
     StockDirectoryMessage.etp_leverage_factor = 0, StockDirectoryMessage.inverse_indicator = CHR 0x00\<rparr>"

definition blank_StockTradingAction :: StockTradingActionMessage where
  "blank_StockTradingAction = \<lparr>message_type = CHR ''H'', stock_locate = 0, tracking_number = 0, timestamp = 0,
     StockTradingActionMessage.stock = replicate 8 (CHR 0x00), StockTradingActionMessage.trading_state = CHR 0x00, StockTradingActionMessage.reserved = CHR 0x00,
     StockTradingActionMessage.reason = replicate 4 (CHR 0x00)\<rparr>"

definition blank_RegSHO :: RegSHOMessage where
  "blank_RegSHO = \<lparr>message_type = CHR ''Y'', stock_locate = 0, tracking_number = 0, timestamp = 0,
     RegSHOMessage.stock = replicate 8 (CHR 0x00), RegSHOMessage.reg_sho_action = CHR 0x00\<rparr>"

definition blank_MarketParticipantPosition :: MarketParticipantPositionMessage where
  "blank_MarketParticipantPosition = \<lparr>message_type = CHR ''L'', stock_locate = 0, tracking_number = 0, timestamp = 0,
     MarketParticipantPositionMessage.mpid = replicate 4 (CHR 0x00), MarketParticipantPositionMessage.stock = replicate 8 (CHR 0x00), MarketParticipantPositionMessage.primary_market_maker = CHR 0x00,
     MarketParticipantPositionMessage.market_maker_mode = CHR 0x00, MarketParticipantPositionMessage.market_participant_state = CHR 0x00\<rparr>"

definition blank_MWCBDeclineLevel :: MWCBDeclineLevelMessage where
  "blank_MWCBDeclineLevel = \<lparr>message_type = CHR ''V'', stock_locate = 0, tracking_number = 0, timestamp = 0,
     MWCBDeclineLevelMessage.level1 = 0, MWCBDeclineLevelMessage.level2 = 0, MWCBDeclineLevelMessage.level3 = 0\<rparr>"

definition blank_MWCBStatus :: MWCBStatusMessage where
  "blank_MWCBStatus = \<lparr>message_type = CHR ''W'', stock_locate = 0, tracking_number = 0, timestamp = 0,
     MWCBStatusMessage.breached_level = CHR 0x00\<rparr>"

definition blank_IPOQuotingPeriodUpdate :: IPOQuotingPeriodUpdateMessage where
  "blank_IPOQuotingPeriodUpdate = \<lparr>message_type = CHR ''K'', stock_locate = 0, tracking_number = 0, timestamp = 0,
     IPOQuotingPeriodUpdateMessage.stock = replicate 8 (CHR 0x00), IPOQuotingPeriodUpdateMessage.ipo_quotation_release_time = 0, IPOQuotingPeriodUpdateMessage.ipo_quotation_release_qualifier = CHR 0x00,
     IPOQuotingPeriodUpdateMessage.ipo_price = 0\<rparr>"

definition blank_LULDAuctionCollar :: LULDAuctionCollarMessage where
  "blank_LULDAuctionCollar = \<lparr>message_type = CHR ''J'', stock_locate = 0, tracking_number = 0, timestamp = 0,
     LULDAuctionCollarMessage.stock = replicate 8 (CHR 0x00), LULDAuctionCollarMessage.auction_collar_reference_price = 0, LULDAuctionCollarMessage.upper_auction_collar_price = 0,
     LULDAuctionCollarMessage.lower_auction_collar_price = 0, LULDAuctionCollarMessage.auction_collar_extension = 0\<rparr>"

definition blank_OperationalHalt :: OperationalHaltMessage where
  "blank_OperationalHalt = \<lparr>message_type = CHR ''h'', stock_locate = 0, tracking_number = 0, timestamp = 0,
     OperationalHaltMessage.stock = replicate 8 (CHR 0x00), OperationalHaltMessage.market_code = CHR 0x00, OperationalHaltMessage.operational_halt_action = CHR 0x00\<rparr>"

definition blank_AddOrder :: AddOrderMessage where
  "blank_AddOrder = \<lparr>message_type = CHR ''A'', stock_locate = 0, tracking_number = 0, timestamp = 0,
     AddOrderMessage.order_reference_number = 0, AddOrderMessage.buy_sell_indicator = CHR 0x00, AddOrderMessage.shares = 0,
     AddOrderMessage.stock = replicate 8 (CHR 0x00), AddOrderMessage.price = 0\<rparr>"

definition blank_AddOrderMPIDAttribution :: AddOrderMPIDAttributionMessage where
  "blank_AddOrderMPIDAttribution = \<lparr>message_type = CHR ''F'', stock_locate = 0, tracking_number = 0, timestamp = 0,
     AddOrderMPIDAttributionMessage.order_reference_number = 0, AddOrderMPIDAttributionMessage.buy_sell_indicator = CHR 0x00, AddOrderMPIDAttributionMessage.shares = 0,
     AddOrderMPIDAttributionMessage.stock = replicate 8 (CHR 0x00), AddOrderMPIDAttributionMessage.price = 0, AddOrderMPIDAttributionMessage.attribution = replicate 4 (CHR 0x00)\<rparr>"

definition blank_OrderExecuted :: OrderExecutedMessage where
  "blank_OrderExecuted = \<lparr>message_type = CHR ''E'', stock_locate = 0, tracking_number = 0, timestamp = 0,
     OrderExecutedMessage.order_reference_number = 0, OrderExecutedMessage.executed_shares = 0, OrderExecutedMessage.match_number = 0\<rparr>"

definition blank_OrderExecutedWithPrice :: OrderExecutedWithPriceMessage where
  "blank_OrderExecutedWithPrice = \<lparr>message_type = CHR ''C'', stock_locate = 0, tracking_number = 0, timestamp = 0,
     OrderExecutedWithPriceMessage.order_reference_number = 0, OrderExecutedWithPriceMessage.executed_shares = 0, OrderExecutedWithPriceMessage.match_number = 0,
     OrderExecutedWithPriceMessage.printable = CHR 0x00, OrderExecutedWithPriceMessage.execution_price = 0\<rparr>"

definition blank_OrderCancel :: OrderCancelMessage where
  "blank_OrderCancel = \<lparr>message_type = CHR ''X'', stock_locate = 0, tracking_number = 0, timestamp = 0,
     OrderCancelMessage.order_reference_number = 0, OrderCancelMessage.cancelled_shares = 0\<rparr>"

definition blank_OrderDelete :: OrderDeleteMessage where
  "blank_OrderDelete = \<lparr>message_type = CHR ''D'', stock_locate = 0, tracking_number = 0, timestamp = 0,
     OrderDeleteMessage.order_reference_number = 0\<rparr>"

definition blank_OrderReplace :: OrderReplaceMessage where
  "blank_OrderReplace = \<lparr>message_type = CHR ''U'', stock_locate = 0, tracking_number = 0, timestamp = 0,
     OrderReplaceMessage.original_order_reference_number = 0, OrderReplaceMessage.new_order_reference_number = 0, OrderReplaceMessage.shares = 0,
     OrderReplaceMessage.price = 0\<rparr>"

definition blank_NonCrossTrade :: NonCrossTradeMessage where
  "blank_NonCrossTrade = \<lparr>message_type = CHR ''P'', stock_locate = 0, tracking_number = 0, timestamp = 0,
     NonCrossTradeMessage.order_reference_number = 0, NonCrossTradeMessage.buy_sell_indicator = CHR 0x00, NonCrossTradeMessage.shares = 0,
     NonCrossTradeMessage.stock = replicate 8 (CHR 0x00), NonCrossTradeMessage.price = 0, NonCrossTradeMessage.match_number = 0\<rparr>"

definition blank_CrossTrade :: CrossTradeMessage where
  "blank_CrossTrade = \<lparr>message_type = CHR ''Q'', stock_locate = 0, tracking_number = 0, timestamp = 0,
     CrossTradeMessage.shares = 0, CrossTradeMessage.stock = replicate 8 (CHR 0x00), CrossTradeMessage.cross_price = 0,
     CrossTradeMessage.match_number = 0, CrossTradeMessage.cross_type = CHR 0x00\<rparr>"

definition blank_BrokenTrade :: BrokenTradeMessage where
  "blank_BrokenTrade = \<lparr>message_type = CHR ''B'', stock_locate = 0, tracking_number = 0, timestamp = 0,
     BrokenTradeMessage.match_number = 0\<rparr>"

definition blank_NOII :: NOIIMessage where
  "blank_NOII = \<lparr>message_type = CHR ''I'', stock_locate = 0, tracking_number = 0, timestamp = 0,
     NOIIMessage.paired_shares = 0, NOIIMessage.imbalance_shares = 0, NOIIMessage.imbalance_direction = CHR 0x00,
     NOIIMessage.stock = replicate 8 (CHR 0x00), NOIIMessage.far_price = 0, NOIIMessage.near_price = 0,
     NOIIMessage.current_reference_price = 0, NOIIMessage.cross_type = CHR 0x00, NOIIMessage.price_variation_indicator = CHR 0x00\<rparr>"

definition blank_RetailPriceImprovementIndicator :: RetailPriceImprovementIndicatorMessage where
  "blank_RetailPriceImprovementIndicator = \<lparr>message_type = CHR ''N'', stock_locate = 0, tracking_number = 0, timestamp = 0,
     RetailPriceImprovementIndicatorMessage.stock = replicate 8 (CHR 0x00), RetailPriceImprovementIndicatorMessage.interest_flag = CHR 0x00\<rparr>"

definition blank_DLCR :: DLCRMessage where
  "blank_DLCR = \<lparr>message_type = CHR ''O'', stock_locate = 0, tracking_number = 0, timestamp = 0,
     DLCRMessage.stock = replicate 8 (CHR 0x00), DLCRMessage.open_eligibility_status = CHR 0x00, DLCRMessage.minimum_allowable_price = 0,
     DLCRMessage.maximum_allowable_price = 0, DLCRMessage.near_execution_price = 0, DLCRMessage.near_execution_time = 0,
     DLCRMessage.lower_price_range_collar = 0, DLCRMessage.upper_price_range_collar = 0\<rparr>"

definition decode_as ::
  "('a MessageHeader_scheme \<Rightarrow> byte list \<Rightarrow> nat \<Rightarrow> ('a MessageHeader_scheme \<times> nat) option)
     \<Rightarrow> 'a MessageHeader_scheme \<Rightarrow> byte list \<Rightarrow> 'a MessageHeader_scheme option" where
  "decode_as unpack_message msg buffer = do {
     let offset = 1;
     (v, offset) \<leftarrow> unpack buffer offset;
     let msg = msg\<lparr>stock_locate := v\<rparr>;
     (v, offset) \<leftarrow> unpack buffer offset;
     let msg = msg\<lparr>tracking_number := v\<rparr>;
     (v, offset) \<leftarrow> unpack_timestamp buffer offset;
     let msg = msg\<lparr>timestamp := v\<rparr>;
     (msg, offset) \<leftarrow> unpack_message msg buffer offset;
     Some msg }"

fun decode_typed :: "MsgType \<Rightarrow> byte list \<Rightarrow> Message option" where
  "decode_typed SystemEventT buffer =
     map_option SystemEvent (decode_as unpack_SystemEvent blank_SystemEvent buffer)"
| "decode_typed StockDirectoryT buffer =
     map_option StockDirectory (decode_as unpack_StockDirectory blank_StockDirectory buffer)"
| "decode_typed StockTradingActionT buffer =
     map_option StockTradingAction (decode_as unpack_StockTradingAction blank_StockTradingAction buffer)"
| "decode_typed RegSHOT buffer =
     map_option RegSHO (decode_as unpack_RegSHO blank_RegSHO buffer)"
| "decode_typed MarketParticipantPositionT buffer =
     map_option MarketParticipantPosition (decode_as unpack_MarketParticipantPosition blank_MarketParticipantPosition buffer)"
| "decode_typed MWCBDeclineLevelT buffer =
     map_option MWCBDeclineLevel (decode_as unpack_MWCBDeclineLevel blank_MWCBDeclineLevel buffer)"
| "decode_typed MWCBStatusT buffer =
     map_option MWCBStatus (decode_as unpack_MWCBStatus blank_MWCBStatus buffer)"
| "decode_typed IPOQuotingPeriodUpdateT buffer =
     map_option IPOQuotingPeriodUpdate (decode_as unpack_IPOQuotingPeriodUpdate blank_IPOQuotingPeriodUpdate buffer)"
| "decode_typed LULDAuctionCollarT buffer =
     map_option LULDAuctionCollar (decode_as unpack_LULDAuctionCollar blank_LULDAuctionCollar buffer)"
| "decode_typed OperationalHaltT buffer =
     map_option OperationalHalt (decode_as unpack_OperationalHalt blank_OperationalHalt buffer)"
| "decode_typed AddOrderT buffer =
     map_option AddOrder (decode_as unpack_AddOrder blank_AddOrder buffer)"
| "decode_typed AddOrderMPIDAttributionT buffer =
     map_option AddOrderMPIDAttribution (decode_as unpack_AddOrderMPIDAttribution blank_AddOrderMPIDAttribution buffer)"
| "decode_typed OrderExecutedT buffer =
     map_option OrderExecuted (decode_as unpack_OrderExecuted blank_OrderExecuted buffer)"
| "decode_typed OrderExecutedWithPriceT buffer =
     map_option OrderExecutedWithPrice (decode_as unpack_OrderExecutedWithPrice blank_OrderExecutedWithPrice buffer)"
| "decode_typed OrderCancelT buffer =
     map_option OrderCancel (decode_as unpack_OrderCancel blank_OrderCancel buffer)"
| "decode_typed OrderDeleteT buffer =
     map_option OrderDelete (decode_as unpack_OrderDelete blank_OrderDelete buffer)"
| "decode_typed OrderReplaceT buffer =
     map_option OrderReplace (decode_as unpack_OrderReplace blank_OrderReplace buffer)"
| "decode_typed NonCrossTradeT buffer =
     map_option NonCrossTrade (decode_as unpack_NonCrossTrade blank_NonCrossTrade buffer)"
| "decode_typed CrossTradeT buffer =
     map_option CrossTrade (decode_as unpack_CrossTrade blank_CrossTrade buffer)"
| "decode_typed BrokenTradeT buffer =
     map_option BrokenTrade (decode_as unpack_BrokenTrade blank_BrokenTrade buffer)"
| "decode_typed NOIIT buffer =
     map_option NOII (decode_as unpack_NOII blank_NOII buffer)"
| "decode_typed RetailPriceImprovementIndicatorT buffer =
     map_option RetailPriceImprovementIndicator (decode_as unpack_RetailPriceImprovementIndicator blank_RetailPriceImprovementIndicator buffer)"
| "decode_typed DLCRT buffer =
     map_option DLCR (decode_as unpack_DLCR blank_DLCR buffer)"

section \<open>The dispatch table\<close>

text \<open>The function pointer of an entry is the template argument it was instantiated with.\<close>

record DispatchEntry =
  wire_size :: u16
  decode :: "MsgType option"

definition unknown_entry :: DispatchEntry where
  "unknown_entry = \<lparr>wire_size = 0, decode = None\<rparr>"

definition DISPATCH_TABLE_SIZE :: nat where
  "DISPATCH_TABLE_SIZE = 256"

definition table_index :: "char \<Rightarrow> nat" where
  "table_index c = unat (byte_of_char c)"

definition build_dispatch_table :: "DispatchEntry list" where
  "build_dispatch_table =
     fold (\<lambda>(c, t) table. table[table_index c := \<lparr>wire_size = of_nat (WIRE_SIZE t), decode = Some t\<rparr>])
       for_each_message_type (replicate DISPATCH_TABLE_SIZE unknown_entry)"

section \<open>The framing loop\<close>

datatype ParseError = truncated | unknown_type | size_mismatch

record 's Parser =
  m_error_callback :: "('s \<Rightarrow> ParseError \<Rightarrow> char \<Rightarrow> 's) option"
  m_unknown_message_count :: u64
  m_malformed_message_count :: u64

definition Parser_init :: "'s Parser" where
  "Parser_init = \<lparr>m_error_callback = None, m_unknown_message_count = 0,
     m_malformed_message_count = 0\<rparr>"

definition set_error_callback ::
  "('s \<Rightarrow> ParseError \<Rightarrow> char \<Rightarrow> 's) option \<Rightarrow> 's Parser \<Rightarrow> 's Parser" where
  "set_error_callback callback p = p\<lparr>m_error_callback := callback\<rparr>"

definition reset_diagnostics :: "'s Parser \<Rightarrow> 's Parser" where
  "reset_diagnostics p = p\<lparr>m_unknown_message_count := 0, m_malformed_message_count := 0\<rparr>"

definition count_error :: "ParseError \<Rightarrow> 's Parser \<Rightarrow> 's Parser" where
  "count_error e p = (case e of
     unknown_type \<Rightarrow> p\<lparr>m_unknown_message_count := m_unknown_message_count p + 1\<rparr>
   | _ \<Rightarrow> p\<lparr>m_malformed_message_count := m_malformed_message_count p + 1\<rparr>)"

definition report_error :: "ParseError \<Rightarrow> char \<Rightarrow> 's Parser \<times> 's \<Rightarrow> 's Parser \<times> 's" where
  "report_error e c = (\<lambda>(p, s).
     let p = count_error e p in
     (p, case m_error_callback p of Some cb \<Rightarrow> cb s e c | None \<Rightarrow> s))"

text \<open>
  One turn of the loop body, on a non-empty frame: look the type byte up, check the declared
  length against the wire size, decode, deliver.
\<close>

definition dispatch_frame ::
  "('s \<Rightarrow> Message \<Rightarrow> 's) \<Rightarrow> byte list \<Rightarrow> 's Parser \<times> 's \<Rightarrow> ('s Parser \<times> 's) option" where
  "dispatch_frame callback frame = (\<lambda>(p, s). do {
     b \<leftarrow> vec_at frame 0;
     let c = char_of_byte b;
     entry \<leftarrow> vec_at build_dispatch_table (table_index c);
     (case decode entry of
        None \<Rightarrow> Some (report_error unknown_type c (p, s))
      | Some t \<Rightarrow>
          if length frame < unat (wire_size entry)
          then Some (report_error size_mismatch c (p, s))
          else do { m \<leftarrow> decode_typed t frame; Some (p, callback s m) }) })"

text \<open>The 2-byte length prefix, read as the loop reads it.\<close>

definition read_length :: "byte list \<Rightarrow> nat \<Rightarrow> u16 option" where
  "read_length data offset = do {
     bs \<leftarrow> memcpy_from data offset 2;
     Some (from_big_endian (object_of native bs)) }"

text \<open>The message of a frame is the view of the buffer at \<^verbatim>\<open>message\<close> with the declared length.\<close>

function parse_loop ::
  "('s \<Rightarrow> Message \<Rightarrow> 's) \<Rightarrow> byte list \<Rightarrow> nat \<Rightarrow> 's Parser \<times> 's
     \<Rightarrow> (ParseError option \<times> 's Parser \<times> 's) option" where
  "parse_loop callback data offset ps =
     (if \<not> offset < length data then Some (None, ps)
      else if offset + 2 > length data then Some (Some truncated, report_error truncated (CHR 0x00) ps)
      else case read_length data offset of
        None \<Rightarrow> None
      | Some len \<Rightarrow>
          if len = 0 then parse_loop callback data (offset + 2) ps
          else if offset + 2 + unat len > length data
          then Some (Some truncated, report_error truncated (CHR 0x00) ps)
          else case subspan data (offset + 2) (unat len) of
            None \<Rightarrow> None
          | Some message \<Rightarrow>
              (case dispatch_frame callback message ps of
                 None \<Rightarrow> None
               | Some ps' \<Rightarrow> parse_loop callback data (offset + 2 + unat len) ps'))"
  by pat_completeness auto
termination
  by (relation "measure (\<lambda>(callback, data, offset, ps). length data - offset)") auto

declare parse_loop.simps [simp del]

definition parse_impl ::
  "('s \<Rightarrow> Message \<Rightarrow> 's) \<Rightarrow> byte list \<Rightarrow> 's Parser \<Rightarrow> 's
     \<Rightarrow> (ParseError option \<times> 's Parser \<times> 's) option" where
  "parse_impl callback data p s = parse_loop callback data 0 (p, s)"

section \<open>The entry points\<close>

text \<open>
  The throwing overloads turn any error of the loop into \<^verbatim>\<open>std::runtime_error\<close>; the client
  state and the counters keep what happened before the throw. \<^verbatim>\<open>try_parse\<close> returns the error.
\<close>

datatype exn = Incomplete_message

definition parse ::
  "('s \<Rightarrow> Message \<Rightarrow> 's) \<Rightarrow> byte list \<Rightarrow> 's Parser \<Rightarrow> 's
     \<Rightarrow> ((exn + unit) \<times> 's Parser \<times> 's) option" where
  "parse callback data p s = do {
     (r, p, s) \<leftarrow> parse_impl callback data p s;
     Some (case r of Some _ \<Rightarrow> Inl Incomplete_message | None \<Rightarrow> Inr (), p, s) }"

definition parse_all ::
  "byte list \<Rightarrow> Message list Parser \<Rightarrow> ((exn + Message list) \<times> Message list Parser) option" where
  "parse_all data p = do {
     (r, p, messages) \<leftarrow> parse (\<lambda>ms m. ms @ [m]) data p [];
     Some (case r of Inl e \<Rightarrow> Inl e | Inr _ \<Rightarrow> Inr messages, p) }"

definition parse_filtered ::
  "byte list \<Rightarrow> char list \<Rightarrow> Message list Parser
     \<Rightarrow> ((exn + Message list) \<times> Message list Parser) option" where
  "parse_filtered data messages p =
     (if messages = [] then Some (Inr [], p)
      else do {
        (r, p, results) \<leftarrow>
          parse (\<lambda>ms m. if message_type_of m \<in> set messages then ms @ [m] else ms) data p [];
        Some (case r of Inl e \<Rightarrow> Inl e | Inr _ \<Rightarrow> Inr results, p) })"

definition try_parse ::
  "('s \<Rightarrow> Message \<Rightarrow> 's) \<Rightarrow> byte list \<Rightarrow> 's Parser \<Rightarrow> 's
     \<Rightarrow> ((ParseError + unit) \<times> 's Parser \<times> 's) option" where
  "try_parse callback data p s = do {
     (r, p, s) \<leftarrow> parse_impl callback data p s;
     Some (case r of Some e \<Rightarrow> Inl e | None \<Rightarrow> Inr (), p, s) }"

definition try_parse_all ::
  "byte list \<Rightarrow> Message list Parser \<Rightarrow> ((ParseError + Message list) \<times> Message list Parser) option" where
  "try_parse_all data p = do {
     (r, p, messages) \<leftarrow> parse_impl (\<lambda>ms m. ms @ [m]) data p [];
     Some (case r of Some e \<Rightarrow> Inl e | None \<Rightarrow> Inr messages, p) }"

section \<open>Field readers as guarded reads\<close>

lemma unpack_char_eq:
  "unpack_char buffer offset =
     (if offset + 1 \<le> length buffer then Some (char_of_byte (buffer ! offset), offset + 1) else None)"
  by (simp add: unpack_char_def memcpy_from_def take_Suc_conv_app_nth hd_drop_conv_nth)

lemma unpack_string_eq:
  "unpack_string buffer offset n =
     (if offset + n \<le> length buffer
      then Some (map char_of_byte (take n (drop offset buffer)), offset + n) else None)"
  by (simp add: unpack_string_def memcpy_from_def)

text \<open>The value of the six timestamp bytes.\<close>

definition timestamp_value :: "byte list \<Rightarrow> u64" where
  "timestamp_value bs =
     push_bit 32 (ucast (object_of Big (take 2 bs) :: u16)) OR ucast (object_of Big (drop 2 bs) :: u32)"

lemma unpack_timestamp_eq:
  "unpack_timestamp buffer offset =
     (if offset + 6 \<le> length buffer
      then Some (timestamp_value (take 6 (drop offset buffer)), offset + 6) else None)"
proof (cases "offset + 6 \<le> length buffer")
  case True
  have "drop 2 (take 6 (drop offset buffer)) = take 4 (drop (offset + 2) buffer)"
    by (simp add: drop_take add.commute)
  moreover have "take 2 (take 6 (drop offset buffer)) = take 2 (drop offset buffer)"
    by simp
  ultimately show ?thesis
    using True
      from_big_endian_on_load [of "take 2 (drop offset buffer)" native, where 'a = 16]
      from_big_endian_on_load [of "take 4 (drop (offset + 2) buffer)" native, where 'a = 32]
    by (simp add: unpack_timestamp_def timestamp_value_def from_big_endian_def)
next
  case False
  then show ?thesis
    by (auto simp: unpack_timestamp_def memcpy_from_def)
qed

lemma timestamp_value_less: "unat (timestamp_value bs) < 2 ^ 48"
proof -
  have "take_bit 48 (timestamp_value bs) = timestamp_value bs"
    by (rule bit_word_eqI)
      (auto simp: timestamp_value_def bit_simps dest: bit_imp_le_length)
  then have "unat (timestamp_value bs) = take_bit 48 (unat (timestamp_value bs))"
    by (metis unsigned_take_bit_eq)
  then show ?thesis
    by (metis take_bit_nat_less_exp)
qed

lemma unpack_word_eq [simp]:
  "unpack buffer offset = (if offset + 2 \<le> length buffer
     then Some (object_of Big (take 2 (drop offset buffer)) :: u16, offset + 2) else None)"
  "unpack buffer offset = (if offset + 4 \<le> length buffer
     then Some (object_of Big (take 4 (drop offset buffer)) :: u32, offset + 4) else None)"
  "unpack buffer offset = (if offset + 8 \<le> length buffer
     then Some (object_of Big (take 8 (drop offset buffer)) :: u64, offset + 8) else None)"
  by (simp_all add: unpack_eq)

lemmas reader_eqs = unpack_char_eq unpack_string_eq unpack_timestamp_eq

lemmas unpack_defs =
  unpack_SystemEvent_def unpack_StockDirectory_def unpack_StockTradingAction_def unpack_RegSHO_def
  unpack_MarketParticipantPosition_def unpack_MWCBDeclineLevel_def unpack_MWCBStatus_def
  unpack_IPOQuotingPeriodUpdate_def unpack_LULDAuctionCollar_def unpack_OperationalHalt_def
  unpack_AddOrder_def unpack_AddOrderMPIDAttribution_def unpack_OrderExecuted_def
  unpack_OrderExecutedWithPrice_def unpack_OrderCancel_def unpack_OrderDelete_def
  unpack_OrderReplace_def unpack_NonCrossTrade_def unpack_CrossTrade_def unpack_BrokenTrade_def
  unpack_NOII_def unpack_RetailPriceImprovementIndicator_def unpack_DLCR_def

lemmas blank_defs =
  blank_SystemEvent_def blank_StockDirectory_def blank_StockTradingAction_def blank_RegSHO_def
  blank_MarketParticipantPosition_def blank_MWCBDeclineLevel_def blank_MWCBStatus_def
  blank_IPOQuotingPeriodUpdate_def blank_LULDAuctionCollar_def blank_OperationalHalt_def
  blank_AddOrder_def blank_AddOrderMPIDAttribution_def blank_OrderExecuted_def
  blank_OrderExecutedWithPrice_def blank_OrderCancel_def blank_OrderDelete_def
  blank_OrderReplace_def blank_NonCrossTrade_def blank_CrossTrade_def blank_BrokenTrade_def
  blank_NOII_def blank_RetailPriceImprovementIndicator_def blank_DLCR_def

lemmas layout_defs = WIRE_SIZE_def TIMESTAMP_STRUCT_PADDING_def header_sizeof_def STOCK_LEN_def

lemma decode_typed_None:
  "length frame < WIRE_SIZE t \<Longrightarrow> decode_typed t frame = None"
  by (cases t)
    (auto simp: layout_defs decode_as_def unpack_defs reader_eqs bind_eq_None_conv)
lemma decode_typed_Some:
  "WIRE_SIZE t \<le> length frame \<Longrightarrow> \<exists>m. decode_typed t frame = Some m \<and> msg_type m = t \<and> wf_message m"
  by (cases t)
    (simp_all add: layout_defs decode_as_def unpack_defs blank_defs reader_eqs wf_message_def wf_header_def
      timestamp_value_less [simplified])

text \<open>
  A frame longer than its type requires is tolerated: only the bytes of the wire size are
  read, so trailing bytes never change the message.
\<close>

lemma decode_typed_append:
  "WIRE_SIZE t \<le> length frame \<Longrightarrow> decode_typed t (frame @ extra) = decode_typed t frame"
  by (cases t)
    (simp_all add: layout_defs decode_as_def unpack_defs reader_eqs nth_append take_append drop_append)

section \<open>The dispatch table is the registry\<close>

lemma table_index_less [simp]: "table_index c < 256"
  by (simp add: table_index_def)

lemma table_index_inject [simp]: "table_index c = table_index d \<longleftrightarrow> c = d"
  by (metis byte_of_char_of_byte char_of_byte_of_char table_index_def word_unat_eq_iff)

lemma fold_table_nth:
  assumes "distinct (map fst reg)" and "length table = 256"
  shows "fold (\<lambda>(c, t) table. table[table_index c := g t]) reg table ! table_index c
       = (case map_of reg c of Some t \<Rightarrow> g t | None \<Rightarrow> table ! table_index c)"
  using assms
proof (induction reg arbitrary: table)
  case Nil
  then show ?case by simp
next
  case (Cons x reg)
  obtain d t where x: "x = (d, t)"
    by (cases x)
  from Cons.prems have "d \<notin> fst ` set reg"
    by (simp add: x)
  then have "map_of reg d = None"
    by (simp add: map_of_eq_None_iff)
  with Cons show ?case
    by (auto simp: x nth_list_update split: option.splits)
qed

lemma length_fold_table:
  "length (fold (\<lambda>(c, t) table. table[table_index c := g t]) reg table) = length table"
  by (induction reg arbitrary: table) auto

lemma length_dispatch_table [simp]: "length build_dispatch_table = 256"
  by (simp add: build_dispatch_table_def length_fold_table DISPATCH_TABLE_SIZE_def)

lemma dispatch_table_lookup:
  "vec_at build_dispatch_table (table_index c) = Some
     (case map_of for_each_message_type c of
        Some t \<Rightarrow> \<lparr>wire_size = of_nat (WIRE_SIZE t), decode = Some t\<rparr>
      | None \<Rightarrow> unknown_entry)"
proof -
  have "build_dispatch_table ! table_index c =
     (case map_of for_each_message_type c of
        Some t \<Rightarrow> \<lparr>wire_size = of_nat (WIRE_SIZE t), decode = Some t\<rparr>
      | None \<Rightarrow> replicate 256 unknown_entry ! table_index c)"
    unfolding build_dispatch_table_def DISPATCH_TABLE_SIZE_def
    by (rule fold_table_nth) (simp_all add: registry_distinct)
  then show ?thesis
    by (simp split: option.split)
qed

lemma unat_of_nat_WIRE_SIZE: "unat (of_nat (WIRE_SIZE t) :: u16) = WIRE_SIZE t"
  using WIRE_SIZE_bounds(2) [of t] by (simp add: unat_of_nat take_bit_nat_eq_self)

section \<open>Reference semantics of a frame and of a buffer\<close>

text \<open>
  What one frame means, without the table: an unknown type, a frame too short for its type, or
  a message. And what a buffer means: its non-empty frames in order, and whether the buffer
  ends at a frame boundary.
\<close>

definition decode_frame :: "byte list \<Rightarrow> ParseError + Message" where
  "decode_frame frame = (case map_of for_each_message_type (char_of_byte (hd frame)) of
     None \<Rightarrow> Inl unknown_type
   | Some t \<Rightarrow> (case decode_typed t frame of None \<Rightarrow> Inl size_mismatch | Some m \<Rightarrow> Inr m))"

definition frame_effect ::
  "('s \<Rightarrow> Message \<Rightarrow> 's) \<Rightarrow> byte list \<Rightarrow> 's Parser \<times> 's \<Rightarrow> 's Parser \<times> 's" where
  "frame_effect callback frame ps = (case decode_frame frame of
     Inl e \<Rightarrow> report_error e (char_of_byte (hd frame)) ps
   | Inr m \<Rightarrow> (fst ps, callback (snd ps) m))"

definition be16 :: "byte \<Rightarrow> byte \<Rightarrow> nat" where
  "be16 h l = 256 * unat h + unat l"

function split_frames :: "byte list \<Rightarrow> byte list list \<times> bool" where
  "split_frames [] = ([], True)"
| "split_frames [b] = ([], False)"
| "split_frames (h # l # rest) =
     (let n = be16 h l in
      if length rest < n then ([], False)
      else let (fs, complete) = split_frames (drop n rest)
           in (if n = 0 then fs else take n rest # fs, complete))"
  by pat_completeness auto
termination
  by (relation "measure length") auto

lemma dispatch_frame_effect:
  assumes "frame \<noteq> []"
  shows "dispatch_frame callback frame ps = Some (frame_effect callback frame ps)"
proof (cases ps)
  case (Pair p s)
  let ?c = "char_of_byte (hd frame)"
  from assms have hd: "vec_at frame 0 = Some (hd frame)"
    by (simp add: hd_conv_nth)
  show ?thesis
  proof (cases "map_of for_each_message_type ?c")
    case None
    then show ?thesis
      by (simp add: Pair dispatch_frame_def frame_effect_def decode_frame_def hd
          dispatch_table_lookup unknown_entry_def)
  next
    case (Some t)
    show ?thesis
      using Some decode_typed_None [of frame t] decode_typed_Some [of t frame]
      by (auto simp: Pair dispatch_frame_def frame_effect_def decode_frame_def hd not_less
          dispatch_table_lookup unat_of_nat_WIRE_SIZE split: option.split)
  qed
qed

lemma object_of_Big_2: "unat (object_of Big [h, l] :: u16) = be16 h l"
proof -
  have "be16 h l < 65536"
    unfolding be16_def using unat_byte_less [of h] unat_byte_less [of l] by linarith
  moreover have "le_value (rev [h, l]) = be16 h l"
    by (simp add: be16_def)
  ultimately show ?thesis
    by (simp add: object_of_def unat_of_nat take_bit_nat_eq_self)
qed

lemma read_length_at:
  assumes "drop offset data = h # l # rest"
  shows "\<exists>len. read_length data offset = Some len \<and> unat len = be16 h l"
proof -
  have "drop offset data = [h, l] @ rest"
    using assms by simp
  from take_drop_at [OF this, of 2]
  have "memcpy_from data offset 2 = Some [h, l]"
    by simp
  then show ?thesis
    using from_big_endian_on_load [of "[h, l]" native, where 'a = 16]
    by (simp add: read_length_def from_big_endian_def object_of_Big_2)
qed

text \<open>
  The framing loop computes the reference semantics, from any offset: it never reads outside
  the buffer, visits every frame once and in order, and stops at the end or at a truncation.
\<close>

definition run_frames ::
  "('s \<Rightarrow> Message \<Rightarrow> 's) \<Rightarrow> byte list list \<times> bool \<Rightarrow> 's Parser \<times> 's
     \<Rightarrow> ParseError option \<times> 's Parser \<times> 's" where
  "run_frames callback fc ps =
     (let ps' = fold (frame_effect callback) (fst fc) ps in
      if snd fc then (None, ps')
      else (Some truncated, report_error truncated (CHR 0x00) ps'))"

lemma run_frames_step:
  "run_frames callback (split_frames (h # l # rest)) ps =
     (if length rest < be16 h l then (Some truncated, report_error truncated (CHR 0x00) ps)
      else run_frames callback (split_frames (drop (be16 h l) rest))
        (if be16 h l = 0 then ps else frame_effect callback (take (be16 h l) rest) ps))"
  by (simp add: run_frames_def Let_def split: prod.split)

lemma parse_loop_step:
  assumes "drop offset data = h # l # rest"
  shows "parse_loop callback data offset ps =
     (if length rest < be16 h l then Some (Some truncated, report_error truncated (CHR 0x00) ps)
      else parse_loop callback data (offset + 2 + be16 h l)
        (if be16 h l = 0 then ps else frame_effect callback (take (be16 h l) rest) ps))"
proof -
  obtain len where len: "read_length data offset = Some len" "unat len = be16 h l"
    using read_length_at [OF assms] by blast
  have rest: "drop (offset + 2) data = rest"
    using drop_put [of offset data "[h, l]" rest] assms by simp
  have size: "length data = offset + 2 + length rest"
    using arg_cong [OF assms, of length] by simp
  have zero: "len = 0 \<longleftrightarrow> be16 h l = 0"
    by (simp add: len(2) [symmetric] unsigned_eq_0_iff)
  have "dispatch_frame callback (take (be16 h l) rest) ps
      = Some (frame_effect callback (take (be16 h l) rest) ps)"
    if "be16 h l \<noteq> 0" "\<not> length rest < be16 h l"
    using that by (intro dispatch_frame_effect) auto
  then show ?thesis
    by (subst parse_loop.simps)
      (simp add: len zero rest size del: add_2_eq_Suc add_2_eq_Suc')
qed

lemma parse_loop_frames:
  "parse_loop callback data offset ps =
     Some (run_frames callback (split_frames (drop offset data)) ps)"
proof (induction "length data - offset" arbitrary: offset ps rule: less_induct)
  case less
  consider (end_) "drop offset data = []" | (one) b where "drop offset data = [b]"
    | (frame) h l rest where "drop offset data = h # l # rest"
    by (metis neq_Nil_conv)
  then show ?case
  proof cases
    case end_
    then show ?thesis
      by (subst parse_loop.simps) (simp add: run_frames_def)
  next
    case one
    from arg_cong [OF one, of length] have "length data - offset = 1"
      by simp
    with one show ?thesis
      by (subst parse_loop.simps) (auto simp: run_frames_def)
  next
    case frame
    have size: "length data - offset = 2 + length rest"
      using arg_cong [OF frame, of length] by simp
    have skip: "drop (offset + 2 + be16 h l) data = drop (be16 h l) rest"
      using drop_put [of offset data "[h, l]" rest] frame
      by (metis add.commute append_Cons append_Nil drop_drop length_Cons list.size(3) numeral_2_eq_2)
    show ?thesis
      using less [of "offset + 2 + be16 h l"] size
      by (simp only: parse_loop_step [OF frame] frame run_frames_step skip) simp
  qed
qed

lemma parse_impl_frames:
  "parse_impl callback data p s = Some (run_frames callback (split_frames data) (p, s))"
  by (simp add: parse_impl_def parse_loop_frames)

section \<open>Messages, errors and counters of a buffer\<close>

definition frame_messages :: "byte list list \<Rightarrow> Message list" where
  "frame_messages fs = concat (map (\<lambda>f. case decode_frame f of Inl _ \<Rightarrow> [] | Inr m \<Rightarrow> [m]) fs)"

definition frame_errors :: "byte list list \<Rightarrow> ParseError list" where
  "frame_errors fs = concat (map (\<lambda>f. case decode_frame f of Inl e \<Rightarrow> [e] | Inr _ \<Rightarrow> []) fs)"

lemma count_error_callback [simp]: "m_error_callback (count_error e p) = m_error_callback p"
  by (simp add: count_error_def split: ParseError.split)

lemma fold_count_error_callback [simp]:
  "m_error_callback (fold count_error es p) = m_error_callback p"
  by (induction es arbitrary: p) auto

text \<open>With no error callback installed, the messages and the counters do not interact.\<close>

lemma fold_frame_effect:
  assumes "m_error_callback p = None"
  shows "fold (frame_effect callback) fs (p, s) =
    (fold count_error (frame_errors fs) p, fold (\<lambda>m s. callback s m) (frame_messages fs) s)"
  using assms
proof (induction fs arbitrary: p s)
  case Nil
  then show ?case by (simp add: frame_errors_def frame_messages_def)
next
  case (Cons f fs)
  then show ?case
    by (simp add: frame_effect_def frame_errors_def frame_messages_def report_error_def Let_def
        split: sum.split)
qed

lemma fold_append_messages: "fold (\<lambda>m ms. ms @ [m]) ms acc = acc @ ms"
  by (induction ms arbitrary: acc) auto

lemma fold_append_filter: "fold (\<lambda>m ms. if P m then ms @ [m] else ms) ms acc = acc @ filter P ms"
  by (induction ms arbitrary: acc) auto

lemma count_error_counts:
  "m_unknown_message_count (count_error e p) =
     m_unknown_message_count p + of_bool (e = unknown_type)"
  "m_malformed_message_count (count_error e p) =
     m_malformed_message_count p + of_bool (e \<noteq> unknown_type)"
  by (simp_all add: count_error_def split: ParseError.split)

lemma fold_count_unknown:
  "m_unknown_message_count (fold count_error es p) =
     m_unknown_message_count p + of_nat (length (filter (\<lambda>e. e = unknown_type) es))"
  by (induction es arbitrary: p) (simp_all add: count_error_counts)

lemma fold_count_malformed:
  "m_malformed_message_count (fold count_error es p) =
     m_malformed_message_count p + of_nat (length (filter (\<lambda>e. e \<noteq> unknown_type) es))"
  by (induction es arbitrary: p) (simp_all add: count_error_counts)

lemma parse_collect:
  assumes "m_error_callback p = None"
  shows "parse_impl callback data p s =
    (let fs = fst (split_frames data);
         p' = fold count_error (frame_errors fs) p;
         s' = fold (\<lambda>m s. callback s m) (frame_messages fs) s
     in Some (if snd (split_frames data) then (None, p', s')
              else (Some truncated, count_error truncated p', s')))"
  using assms
  by (simp add: parse_impl_frames run_frames_def fold_frame_effect report_error_def Let_def)

lemma split_frames_append:
  assumes "split_frames a = (fs, True)"
  shows "split_frames (a @ b) = (case split_frames b of (gs, c) \<Rightarrow> (fs @ gs, c))"
  using assms
proof (induction a arbitrary: fs rule: split_frames.induct)
  case (3 h l rest)
  then show ?case
    by (auto simp: Let_def split: if_splits prod.splits)
qed (auto split: prod.split)

lemma Parser_init_no_callback [simp]: "m_error_callback Parser_init = None"
  by (simp add: Parser_init_def)

lemma parse_Some: "\<exists>r. parse callback data p s = Some r"
  by (auto simp: parse_def parse_impl_frames split: prod.split)

section \<open>Properties\<close>

text \<open>
  C1. For every buffer, callback and parser state the framing loop returns, without reading a
  byte outside the buffer or outside the frame it decodes, and its outcome is the reference
  semantics: the frames of the buffer are processed once each, in order; an unknown type and a
  short frame are reported and skipped; only a truncated tail ends the parse with an error.
\<close>

theorem parse_impl_reference:
  "parse_impl callback data p s = Some (run_frames callback (split_frames data) (p, s))"
  by (rule parse_impl_frames)

text \<open>
  A decoder succeeds exactly on the frames that have at least the wire size of its message
  type; the bytes after the wire size do not change the message.
\<close>

theorem decode_typed_bounds:
  "(decode_typed t frame = None \<longleftrightarrow> length frame < WIRE_SIZE t) \<and>
   decode_typed t frame = decode_typed t (take (WIRE_SIZE t) frame)"
proof (cases "length frame < WIRE_SIZE t")
  case True
  then show ?thesis
    by (simp add: decode_typed_None)
next
  case False
  then have "decode_typed t (take (WIRE_SIZE t) frame @ drop (WIRE_SIZE t) frame)
      = decode_typed t (take (WIRE_SIZE t) frame)"
    by (intro decode_typed_append) simp
  then show ?thesis
    using False decode_typed_Some [of t frame] by auto
qed

text \<open>
  C24. Every decoded message is well formed: it is the variant alternative of the requested
  type, carries that type's byte, has full-length character arrays and a 48-bit timestamp.
\<close>

theorem decode_typed_wf:
  "decode_typed t frame = Some m \<Longrightarrow> msg_type m = t \<and> wf_message m"
  using decode_typed_None [of frame t] decode_typed_Some [of t frame]
  by (cases "length frame < WIRE_SIZE t") auto

lemma decode_zeros:
  "decode_typed SystemEventT (b # replicate 11 0) = Some (SystemEvent blank_SystemEvent)"
  by (simp add: decode_as_def unpack_SystemEvent_def blank_SystemEvent_def reader_eqs
      timestamp_value_def object_of_def eval_nat_numeral char_of_byte_def char_of_def)

theorem decode_typed_wf_witness:
  "msg_type (SystemEvent blank_SystemEvent) = SystemEventT \<and> wf_message (SystemEvent blank_SystemEvent)"
  by (rule decode_typed_wf [OF decode_zeros])

text \<open>
  C25. The diagnostics counters of a fresh parser after a parse: the unknown-type counter is the
  number of frames with an unregistered type byte, the malformed counter is the number of short
  frames plus one if the buffer ends inside a frame (both modulo \<open>2 ^ 64\<close>).
\<close>

theorem parse_diagnostics:
  "\<exists>r p' s'. parse_impl callback data Parser_init s = Some (r, p', s') \<and>
     m_unknown_message_count p' =
       of_nat (length (filter (\<lambda>e. e = unknown_type) (frame_errors (fst (split_frames data))))) \<and>
     m_malformed_message_count p' =
       of_nat (length (filter (\<lambda>e. e \<noteq> unknown_type) (frame_errors (fst (split_frames data))))
         + (if snd (split_frames data) then 0 else 1))"
  by (simp add: parse_collect Let_def fold_count_unknown fold_count_malformed count_error_counts)
    (simp add: Parser_init_def)

text \<open>
  The filtering overload returns the messages of the unfiltered parse whose type byte is
  requested, in order, and nothing when no type is requested.
\<close>

theorem parse_filtered_filter:
  assumes "m_error_callback p = None" and "parse_all data p = Some (Inr ms, p')"
  shows "parse_filtered data types p =
    Some (Inr (filter (\<lambda>m. message_type_of m \<in> set types) ms), if types = [] then p else p')"
  using assms
  by (auto simp: parse_filtered_def parse_all_def parse_def parse_collect Let_def
      fold_append_messages fold_append_filter split: if_splits)

lemma frame_of_zeros:
  "split_frames (0 # 12 # byte_of_char (CHR ''S'') # replicate 11 0) = ([byte_of_char (CHR ''S'') # replicate 11 0], True)"
  by (simp add: be16_def)

lemma messages_of_zeros:
  "frame_messages [byte_of_char (CHR ''S'') # replicate 11 0] = [SystemEvent blank_SystemEvent]"
  "frame_errors [byte_of_char (CHR ''S'') # replicate 11 0] = []"
proof -
  have "decode_frame (byte_of_char (CHR ''S'') # replicate 11 0) = Inr (SystemEvent blank_SystemEvent)"
    by (simp add: decode_frame_def decode_zeros for_each_message_type_def del: decode_typed.simps)
  then show "frame_messages [byte_of_char (CHR ''S'') # replicate 11 0] = [SystemEvent blank_SystemEvent]"
    and "frame_errors [byte_of_char (CHR ''S'') # replicate 11 0] = []"
    by (simp_all add: frame_messages_def frame_errors_def)
qed

theorem parse_filtered_filter_witness:
  "parse_filtered (0 # 12 # byte_of_char (CHR ''S'') # replicate 11 0) [CHR ''S'', CHR ''A''] Parser_init =
     Some (Inr [SystemEvent blank_SystemEvent], Parser_init)"
proof -
  have "parse_all (0 # 12 # byte_of_char (CHR ''S'') # replicate 11 0) Parser_init =
      Some (Inr [SystemEvent blank_SystemEvent], Parser_init)"
    by (simp add: parse_all_def parse_def parse_collect frame_of_zeros messages_of_zeros Let_def
        del: split_frames.simps)
  from parse_filtered_filter [OF Parser_init_no_callback this]
  show ?thesis
    by (simp add: message_type_of_def blank_SystemEvent_def)
qed

end
