(* ===== verification/Overlay.thy ===== *)
theory Overlay
  imports Parser
begin

text \<open>
  The zero-copy views of \<^verbatim>\<open>include/itch/overlay.hpp\<close>. A view points into the buffer: it is the
  bytes from the frame on, up to the end of the buffer, and the size of the frame. An accessor
  that leaves the buffer is \<open>None\<close>. The properties show that the overlay and the eager parser
  agree on every buffer and every field.
\<close>

section \<open>Reading fields\<close>

text \<open>The template \<^verbatim>\<open>read_field\<close> for multi-byte integers and for \<^verbatim>\<open>char\<close>.\<close>

definition read_field :: "byte list \<Rightarrow> nat \<Rightarrow> 'a::len word option" where
  "read_field base offset = do {
     bs \<leftarrow> memcpy_from base offset (LENGTH('a) div 8);
     Some (from_big_endian (object_of native bs)) }"

definition read_char :: "byte list \<Rightarrow> nat \<Rightarrow> char option" where
  "read_char base offset = do {
     bs \<leftarrow> memcpy_from base offset 1;
     Some (char_of_byte (hd bs)) }"

definition read_timestamp :: "byte list \<Rightarrow> nat \<Rightarrow> u64 option" where
  "read_timestamp base offset = do {
     high \<leftarrow> (read_field base offset :: u16 option);
     low \<leftarrow> (read_field base (offset + 2) :: u32 option);
     Some (push_bit 32 (ucast high) OR ucast low) }"

definition read_stock :: "byte list \<Rightarrow> nat \<Rightarrow> char list option" where
  "read_stock base offset = do {
     bs \<leftarrow> memcpy_from base offset 8;
     Some (map char_of_byte bs) }"

definition STOCK_LOCATE_OFFSET :: nat where
  "STOCK_LOCATE_OFFSET = 1"

definition TRACKING_NUMBER_OFFSET :: nat where
  "TRACKING_NUMBER_OFFSET = 3"

definition TIMESTAMP_OFFSET :: nat where
  "TIMESTAMP_OFFSET = 5"

section \<open>Views\<close>

record MessageView =
  m_data :: "byte list"
  m_size :: nat

definition view_type :: "MessageView \<Rightarrow> char option" where
  "view_type v = do { b \<leftarrow> vec_at (m_data v) 0; Some (char_of_byte b) }"

definition view_stock_locate :: "MessageView \<Rightarrow> u16 option" where
  "view_stock_locate v = read_field (m_data v) STOCK_LOCATE_OFFSET"

definition view_tracking_number :: "MessageView \<Rightarrow> u16 option" where
  "view_tracking_number v = read_field (m_data v) TRACKING_NUMBER_OFFSET"

definition view_timestamp :: "MessageView \<Rightarrow> u64 option" where
  "view_timestamp v = read_timestamp (m_data v) TIMESTAMP_OFFSET"

definition view_read :: "MessageView \<Rightarrow> nat \<Rightarrow> 'a::len word option" where
  "view_read v offset = read_field (m_data v) offset"

definition view_read_char :: "MessageView \<Rightarrow> nat \<Rightarrow> char option" where
  "view_read_char v offset = read_char (m_data v) offset"

definition AddOrderView_order_reference_number :: "MessageView \<Rightarrow> u64 option" where
  "AddOrderView_order_reference_number v = view_read v 11"

definition AddOrderView_buy_sell_indicator :: "MessageView \<Rightarrow> char option" where
  "AddOrderView_buy_sell_indicator v = view_read_char v 19"

definition AddOrderView_shares :: "MessageView \<Rightarrow> u32 option" where
  "AddOrderView_shares v = view_read v 20"

definition AddOrderView_stock :: "MessageView \<Rightarrow> char list option" where
  "AddOrderView_stock v = read_stock (m_data v) 24"

definition AddOrderView_price :: "MessageView \<Rightarrow> u32 option" where
  "AddOrderView_price v = view_read v 32"

definition OrderExecutedView_order_reference_number :: "MessageView \<Rightarrow> u64 option" where
  "OrderExecutedView_order_reference_number v = view_read v 11"

definition OrderExecutedView_executed_shares :: "MessageView \<Rightarrow> u32 option" where
  "OrderExecutedView_executed_shares v = view_read v 19"

definition OrderExecutedView_match_number :: "MessageView \<Rightarrow> u64 option" where
  "OrderExecutedView_match_number v = view_read v 23"

definition OrderExecutedWithPriceView_order_reference_number :: "MessageView \<Rightarrow> u64 option" where
  "OrderExecutedWithPriceView_order_reference_number v = view_read v 11"

definition OrderExecutedWithPriceView_executed_shares :: "MessageView \<Rightarrow> u32 option" where
  "OrderExecutedWithPriceView_executed_shares v = view_read v 19"

definition OrderExecutedWithPriceView_match_number :: "MessageView \<Rightarrow> u64 option" where
  "OrderExecutedWithPriceView_match_number v = view_read v 23"

definition OrderExecutedWithPriceView_printable :: "MessageView \<Rightarrow> char option" where
  "OrderExecutedWithPriceView_printable v = view_read_char v 31"

definition OrderExecutedWithPriceView_execution_price :: "MessageView \<Rightarrow> u32 option" where
  "OrderExecutedWithPriceView_execution_price v = view_read v 32"

definition OrderCancelView_order_reference_number :: "MessageView \<Rightarrow> u64 option" where
  "OrderCancelView_order_reference_number v = view_read v 11"

definition OrderCancelView_cancelled_shares :: "MessageView \<Rightarrow> u32 option" where
  "OrderCancelView_cancelled_shares v = view_read v 19"

definition OrderDeleteView_order_reference_number :: "MessageView \<Rightarrow> u64 option" where
  "OrderDeleteView_order_reference_number v = view_read v 11"

definition OrderReplaceView_original_order_reference_number :: "MessageView \<Rightarrow> u64 option" where
  "OrderReplaceView_original_order_reference_number v = view_read v 11"

definition OrderReplaceView_new_order_reference_number :: "MessageView \<Rightarrow> u64 option" where
  "OrderReplaceView_new_order_reference_number v = view_read v 19"

definition OrderReplaceView_shares :: "MessageView \<Rightarrow> u32 option" where
  "OrderReplaceView_shares v = view_read v 27"

definition OrderReplaceView_price :: "MessageView \<Rightarrow> u32 option" where
  "OrderReplaceView_price v = view_read v 31"

definition NonCrossTradeView_order_reference_number :: "MessageView \<Rightarrow> u64 option" where
  "NonCrossTradeView_order_reference_number v = view_read v 11"

definition NonCrossTradeView_buy_sell_indicator :: "MessageView \<Rightarrow> char option" where
  "NonCrossTradeView_buy_sell_indicator v = view_read_char v 19"

definition NonCrossTradeView_shares :: "MessageView \<Rightarrow> u32 option" where
  "NonCrossTradeView_shares v = view_read v 20"

definition NonCrossTradeView_stock :: "MessageView \<Rightarrow> char list option" where
  "NonCrossTradeView_stock v = read_stock (m_data v) 24"

definition NonCrossTradeView_price :: "MessageView \<Rightarrow> u32 option" where
  "NonCrossTradeView_price v = view_read v 32"

definition NonCrossTradeView_match_number :: "MessageView \<Rightarrow> u64 option" where
  "NonCrossTradeView_match_number v = view_read v 36"

lemmas accessor_defs =
  view_type_def view_stock_locate_def view_tracking_number_def view_timestamp_def view_read_def
  view_read_char_def AddOrderView_order_reference_number_def AddOrderView_buy_sell_indicator_def
  AddOrderView_shares_def AddOrderView_stock_def AddOrderView_price_def
  OrderExecutedView_order_reference_number_def OrderExecutedView_executed_shares_def
  OrderExecutedView_match_number_def OrderExecutedWithPriceView_order_reference_number_def
  OrderExecutedWithPriceView_executed_shares_def OrderExecutedWithPriceView_match_number_def
  OrderExecutedWithPriceView_printable_def OrderExecutedWithPriceView_execution_price_def
  OrderCancelView_order_reference_number_def OrderCancelView_cancelled_shares_def
  OrderDeleteView_order_reference_number_def OrderReplaceView_original_order_reference_number_def
  OrderReplaceView_new_order_reference_number_def OrderReplaceView_shares_def OrderReplaceView_price_def
  NonCrossTradeView_order_reference_number_def NonCrossTradeView_buy_sell_indicator_def
  NonCrossTradeView_shares_def NonCrossTradeView_stock_def NonCrossTradeView_price_def
  NonCrossTradeView_match_number_def

section \<open>Framing\<close>

definition build_size_table :: "u16 list" where
  "build_size_table =
     fold (\<lambda>(c, t) table. table[table_index c := of_nat (WIRE_SIZE t)]) for_each_message_type (replicate 256 0)"

definition SIZE_TABLE :: "u16 list" where
  "SIZE_TABLE = build_size_table"

function view_loop ::
  "('s \<Rightarrow> MessageView \<Rightarrow> 's) \<Rightarrow> byte list \<Rightarrow> nat \<Rightarrow> u64 \<times> 's \<Rightarrow> (u64 \<times> 's) option" where
  "view_loop callback data offset ns =
     (if \<not> offset + 2 \<le> length data then Some ns
      else case read_length data offset of
        None \<Rightarrow> None
      | Some len \<Rightarrow>
          if len = 0 then view_loop callback data (offset + 2) ns
          else if offset + 2 + unat len > length data then Some ns
          else case vec_at data (offset + 2) of
            None \<Rightarrow> None
          | Some b \<Rightarrow>
              (case vec_at SIZE_TABLE (unat b) of
                 None \<Rightarrow> None
               | Some expected \<Rightarrow>
                   view_loop callback data (offset + 2 + unat len)
                     (if expected = 0 \<or> len < expected then ns
                      else (fst ns + 1, callback (snd ns) \<lparr>m_data = drop (offset + 2) data, m_size = unat len\<rparr>))))"
  by pat_completeness auto
termination
  by (relation "measure (\<lambda>(callback, data, offset, ns). length data - offset)") auto

declare view_loop.simps [simp del]

definition for_each_message ::
  "('s \<Rightarrow> MessageView \<Rightarrow> 's) \<Rightarrow> byte list \<Rightarrow> 's \<Rightarrow> (u64 \<times> 's) option" where
  "for_each_message callback data s = view_loop callback data 0 (0, s)"

section \<open>Agreement of a view with a message\<close>

definition header_agrees :: "MessageView \<Rightarrow> MessageHeader \<Rightarrow> bool" where
  "header_agrees v h \<longleftrightarrow> view_type v = Some (message_type h) \<and> view_stock_locate v = Some (stock_locate h) \<and>
     view_tracking_number v = Some (tracking_number h) \<and> view_timestamp v = Some (timestamp h)"

fun body_agrees :: "MessageView \<Rightarrow> Message \<Rightarrow> bool" where
  "body_agrees v (AddOrder m) \<longleftrightarrow> AddOrderView_order_reference_number v = Some (AddOrderMessage.order_reference_number m) \<and>
     AddOrderView_buy_sell_indicator v = Some (AddOrderMessage.buy_sell_indicator m) \<and>
     AddOrderView_shares v = Some (AddOrderMessage.shares m) \<and>
     AddOrderView_stock v = Some (AddOrderMessage.stock m) \<and>
     AddOrderView_price v = Some (AddOrderMessage.price m)"
| "body_agrees v (OrderExecuted m) \<longleftrightarrow> OrderExecutedView_order_reference_number v = Some (OrderExecutedMessage.order_reference_number m) \<and>
     OrderExecutedView_executed_shares v = Some (OrderExecutedMessage.executed_shares m) \<and>
     OrderExecutedView_match_number v = Some (OrderExecutedMessage.match_number m)"
| "body_agrees v (OrderExecutedWithPrice m) \<longleftrightarrow> OrderExecutedWithPriceView_order_reference_number v = Some (OrderExecutedWithPriceMessage.order_reference_number m) \<and>
     OrderExecutedWithPriceView_executed_shares v = Some (OrderExecutedWithPriceMessage.executed_shares m) \<and>
     OrderExecutedWithPriceView_match_number v = Some (OrderExecutedWithPriceMessage.match_number m) \<and>
     OrderExecutedWithPriceView_printable v = Some (OrderExecutedWithPriceMessage.printable m) \<and>
     OrderExecutedWithPriceView_execution_price v = Some (OrderExecutedWithPriceMessage.execution_price m)"
| "body_agrees v (OrderCancel m) \<longleftrightarrow> OrderCancelView_order_reference_number v = Some (OrderCancelMessage.order_reference_number m) \<and>
     OrderCancelView_cancelled_shares v = Some (OrderCancelMessage.cancelled_shares m)"
| "body_agrees v (OrderDelete m) \<longleftrightarrow> OrderDeleteView_order_reference_number v = Some (OrderDeleteMessage.order_reference_number m)"
| "body_agrees v (OrderReplace m) \<longleftrightarrow> OrderReplaceView_original_order_reference_number v = Some (OrderReplaceMessage.original_order_reference_number m) \<and>
     OrderReplaceView_new_order_reference_number v = Some (OrderReplaceMessage.new_order_reference_number m) \<and>
     OrderReplaceView_shares v = Some (OrderReplaceMessage.shares m) \<and>
     OrderReplaceView_price v = Some (OrderReplaceMessage.price m)"
| "body_agrees v (NonCrossTrade m) \<longleftrightarrow> NonCrossTradeView_order_reference_number v = Some (NonCrossTradeMessage.order_reference_number m) \<and>
     NonCrossTradeView_buy_sell_indicator v = Some (NonCrossTradeMessage.buy_sell_indicator m) \<and>
     NonCrossTradeView_shares v = Some (NonCrossTradeMessage.shares m) \<and>
     NonCrossTradeView_stock v = Some (NonCrossTradeMessage.stock m) \<and>
     NonCrossTradeView_price v = Some (NonCrossTradeMessage.price m) \<and>
     NonCrossTradeView_match_number v = Some (NonCrossTradeMessage.match_number m)"
| "body_agrees v _ \<longleftrightarrow> True"

text \<open>A view over a frame, wherever the frame lies in the buffer.\<close>

definition view_over :: "MessageView \<Rightarrow> byte list \<Rightarrow> bool" where
  "view_over v frame \<longleftrightarrow> m_size v = length frame \<and> (\<exists>rest. m_data v = frame @ rest)"

lemma read_field_eq:
  "read_field base offset = (if offset + 2 \<le> length base
     then Some (object_of Big (take 2 (drop offset base)) :: u16) else None)"
  "read_field base offset = (if offset + 4 \<le> length base
     then Some (object_of Big (take 4 (drop offset base)) :: u32) else None)"
  "read_field base offset = (if offset + 8 \<le> length base
     then Some (object_of Big (take 8 (drop offset base)) :: u64) else None)"
  using from_big_endian_on_load [of "take 2 (drop offset base)" native, where 'a = 16]
    from_big_endian_on_load [of "take 4 (drop offset base)" native, where 'a = 32]
    from_big_endian_on_load [of "take 8 (drop offset base)" native, where 'a = 64]
  by (simp_all add: read_field_def memcpy_from_def from_big_endian_def)

lemma read_timestamp_eq:
  "read_timestamp base offset = (if offset + 6 \<le> length base
     then Some (timestamp_value (take 6 (drop offset base))) else None)"
  by (auto simp: read_timestamp_def read_field_eq timestamp_value_def drop_take add.commute)

lemma read_char_eq:
  "read_char base offset = (if offset + 1 \<le> length base then Some (char_of_byte (base ! offset)) else None)"
  by (simp add: read_char_def memcpy_from_def hd_conv_nth)

lemma read_stock_eq:
  "read_stock base offset = (if offset + 8 \<le> length base
     then Some (map char_of_byte (take 8 (drop offset base))) else None)"
  by (simp add: read_stock_def memcpy_from_def)

lemmas field_eqs = read_field_eq read_timestamp_eq read_char_eq read_stock_eq

section \<open>The overlay reads what the parser decodes\<close>

lemma header_offsets:
  "STOCK_LOCATE_OFFSET = Suc 0" "TRACKING_NUMBER_OFFSET = Suc (Suc (Suc 0))" "TIMESTAMP_OFFSET = Suc (Suc (Suc (Suc (Suc 0))))"
  by (simp_all add: STOCK_LOCATE_OFFSET_def TRACKING_NUMBER_OFFSET_def TIMESTAMP_OFFSET_def)

lemma decoded_fields:
  "WIRE_SIZE t \<le> length (m_data v) \<Longrightarrow> case decode_typed t (m_data v) of None \<Rightarrow> False | Some m \<Rightarrow>
     body_agrees v m \<and> view_stock_locate v = Some (stock_locate (header_of m)) \<and>
     view_tracking_number v = Some (tracking_number (header_of m)) \<and> view_timestamp v = Some (timestamp (header_of m))"
  by (cases t)
    (simp_all add: layout_defs decode_as_def unpack_defs blank_defs reader_eqs field_eqs accessor_defs
      header_offsets)

lemma view_agrees:
  assumes "view_over v frame" "frame \<noteq> []" "decode_frame frame = Inr m"
  shows "header_agrees v (header_of m) \<and> body_agrees v m"
proof -
  obtain t where t: "map_of for_each_message_type (char_of_byte (hd frame)) = Some t" "decode_typed t frame = Some m"
    using assms(3) by (auto simp: decode_frame_def split: option.splits)
  obtain rest where rest: "m_data v = frame @ rest"
    using assms(1) by (auto simp: view_over_def)
  have size: "WIRE_SIZE t \<le> length frame"
    using t(2) decode_typed_None [of frame t] by (cases "length frame < WIRE_SIZE t") auto
  then have "decode_typed t (m_data v) = Some m" "WIRE_SIZE t \<le> length (m_data v)"
    using t(2) decode_typed_append [OF size] by (simp_all add: rest)
  moreover have "char_of_byte (hd frame) = type_byte t"
    using t(1) registry_lookup by simp
  moreover have "msg_type m = t" "wf_message m"
    using decode_typed_Some [OF size] t(2) by auto
  then have "message_type (header_of m) = type_byte t"
    by (simp add: wf_message_def wf_header_def)
  moreover have "view_type v = Some (char_of_byte (hd frame))"
    using assms(2) by (simp add: view_type_def rest nth_append hd_conv_nth)
  ultimately show ?thesis
    using decoded_fields [of t v] by (simp add: header_agrees_def)
qed

lemma size_table_lookup:
  "vec_at SIZE_TABLE (table_index c) = Some (case map_of for_each_message_type c of
     Some t \<Rightarrow> of_nat (WIRE_SIZE t) | None \<Rightarrow> 0)"
  using fold_table_nth [OF registry_distinct, of "replicate 256 0" "\<lambda>t. of_nat (WIRE_SIZE t) :: u16" c] table_index_less [of c]
  by (simp add: SIZE_TABLE_def build_size_table_def length_fold_table vec_at_def split: option.split)

text \<open>The size check of the overlay accepts exactly the frames the parser decodes.\<close>

lemma size_check:
  assumes "frame \<noteq> []" "unat len = length frame" "vec_at SIZE_TABLE (unat (hd frame)) = Some expected"
  shows "(expected = 0 \<or> len < expected) \<longleftrightarrow> (\<forall>m. decode_frame frame \<noteq> Inr m)"
proof -
  let ?c = "char_of_byte (hd frame)"
  have idx: "unat (hd frame) = table_index ?c"
    by (simp add: table_index_def)
  show ?thesis
  proof (cases "map_of for_each_message_type ?c")
    case None
    then show ?thesis
      using assms(3) by (simp add: idx size_table_lookup decode_frame_def)
  next
    case (Some t)
    then have e: "expected = of_nat (WIRE_SIZE t)"
      using assms(3) by (simp add: idx size_table_lookup)
    have "expected \<noteq> 0"
      using WIRE_SIZE_bounds [of t] unat_of_nat_WIRE_SIZE [of t] unfolding e by force
    moreover have "len < expected \<longleftrightarrow> length frame < WIRE_SIZE t"
      unfolding e word_less_nat_alt assms(2) unat_of_nat_WIRE_SIZE ..
    ultimately show ?thesis
      using Some decode_typed_None [of frame t] decode_typed_Some [of t frame]
      by (auto simp: decode_frame_def not_less split: option.split)
  qed
qed

lemma view_loop_step:
  assumes "drop offset data = h # l # rest"
  shows "view_loop callback data offset ns =
    (if length rest < be16 h l then Some ns
     else view_loop callback data (offset + 2 + be16 h l)
       (if be16 h l = 0 \<or> (\<forall>m. decode_frame (take (be16 h l) rest) \<noteq> Inr m) then ns
        else (fst ns + 1, callback (snd ns) \<lparr>m_data = rest, m_size = be16 h l\<rparr>)))"
proof -
  obtain len where len: "read_length data offset = Some len" "unat len = be16 h l"
    using read_length_at [OF assms] by blast
  have rest: "drop (offset + 2) data = rest"
    using drop_put [of offset data "[h, l]" rest] assms by simp
  have size: "length data = offset + 2 + length rest"
    using arg_cong [OF assms, of length] by simp
  have zero: "len = 0 \<longleftrightarrow> be16 h l = 0"
    by (simp add: len(2) [symmetric] unsigned_eq_0_iff)
  show ?thesis
  proof (cases "be16 h l = 0 \<or> length rest < be16 h l")
    case True
    then show ?thesis
      using size by (subst view_loop.simps) (auto simp: len zero)
  next
    case False
    then obtain b rest' where b: "rest = b # rest'"
      by (cases rest) auto
    have at: "vec_at data (offset + 2) = Some b"
      using rest b size by (simp add: nth_via_drop)
    obtain expected where e: "vec_at SIZE_TABLE (unat b) = Some expected"
      using size_table_lookup [of "char_of_byte b"] by (simp add: table_index_def)
    have "(expected = 0 \<or> len < expected) \<longleftrightarrow> (\<forall>m. decode_frame (take (be16 h l) rest) \<noteq> Inr m)"
      using False b e len(2) by (intro size_check) auto
    then show ?thesis
      using False size at e rest by (subst view_loop.simps) (simp add: len zero)
  qed
qed

definition presents :: "MessageView \<Rightarrow> Message \<Rightarrow> bool" where
  "presents v m \<longleftrightarrow> (\<exists>frame. view_over v frame \<and> frame \<noteq> [] \<and> decode_frame frame = Inr m)"

lemma view_loop_views:
  "offset \<le> length data \<Longrightarrow> \<exists>vs. list_all2 presents vs (frame_messages (fst (split_frames (drop offset data)))) \<and>
    (\<forall>callback ns. view_loop callback data offset ns =
      Some (fst ns + of_nat (length vs), fold (\<lambda>v s. callback s v) vs (snd (ns :: u64 \<times> 's))))"
proof (induction "length data - offset" arbitrary: offset rule: less_induct)
  case less
  show ?case
  proof (cases "drop offset data" rule: split_frames.cases)
    case 1
    have "view_loop callback data offset ns = Some ns" for callback and ns :: "u64 \<times> 's"
      using 1 by (subst view_loop.simps) simp
    then show ?thesis
      unfolding 1 by (intro exI [of _ "[]"]) (simp add: frame_messages_def)
  next
    case (2 b)
    have "length (drop offset data) = 1"
      by (simp only: 2 list.size)
    then have "length data = offset + 1"
      using less.prems unfolding length_drop by simp
    then have "view_loop callback data offset ns = Some ns" for callback and ns :: "u64 \<times> 's"
      by (subst view_loop.simps) simp
    then show ?thesis
      unfolding 2 by (intro exI [of _ "[]"]) (simp add: frame_messages_def)
  next
    case (3 h l rest)
    note step = view_loop_step [OF 3]
    have size: "length data = offset + 2 + length rest"
      using arg_cong [OF 3, of length] less.prems by simp
    have next_drop: "drop (offset + 2 + be16 h l) data = drop (be16 h l) rest"
    proof -
      have "drop (offset + 2) data = rest"
        using drop_put [of offset data "[h, l]" rest] 3 by simp
      then show ?thesis
        by (metis add.commute drop_drop)
    qed
    show ?thesis
    proof (cases "length rest < be16 h l")
      case True
      then show ?thesis
        unfolding 3 by (intro exI [of _ "[]"]) (simp add: step frame_messages_def)
    next
      case False
      let ?n = "be16 h l"
      have smaller: "length data - (offset + 2 + ?n) < length data - offset" "offset + 2 + ?n \<le> length data"
        using False size by simp_all
      obtain vs where vs: "list_all2 presents vs (frame_messages (fst (split_frames (drop ?n rest))))"
        "\<And>callback ns. view_loop callback data (offset + 2 + ?n) ns =
          Some (fst ns + of_nat (length vs), fold (\<lambda>v s. callback s v) vs (snd (ns :: u64 \<times> 's)))"
        using less.hyps [OF smaller] unfolding next_drop by blast
      have split: "fst (split_frames (h # l # rest)) =
          (if ?n = 0 then [] else [take ?n rest]) @ fst (split_frames (drop ?n rest))"
        using False by (simp add: Let_def split_beta)
      show ?thesis
      proof (cases "?n = 0 \<or> (\<forall>m. decode_frame (take ?n rest) \<noteq> Inr m)")
        case True
        then have "frame_messages (fst (split_frames (h # l # rest))) = frame_messages (fst (split_frames (drop ?n rest)))"
          unfolding split frame_messages_def by (auto split: sum.split)
        then show ?thesis
          unfolding 3 using vs False True by (intro exI [of _ vs]) (simp add: step)
      next
        case decoded: False
        then obtain m where m: "?n \<noteq> 0" "decode_frame (take ?n rest) = Inr m"
          by auto
        let ?v = "\<lparr>m_data = rest, m_size = ?n\<rparr>"
        have "presents ?v m"
          unfolding presents_def view_over_def using m False
          by (intro exI [of _ "take ?n rest"]) (auto intro: exI [of _ "drop ?n rest"])
        moreover have "frame_messages (fst (split_frames (h # l # rest))) = m # frame_messages (fst (split_frames (drop ?n rest)))"
          using m unfolding split frame_messages_def by simp
        ultimately show ?thesis
          unfolding 3 using vs False decoded by (intro exI [of _ "?v # vs"]) (simp add: step add.assoc)
      qed
    qed
  qed
qed

section \<open>Properties\<close>

text \<open>
  C11. Overlay and parser agree: on every buffer, whatever it holds, the overlay reads nothing
  outside the buffer and calls back once per message the eager parser delivers, in the same
  order, and returns their number; every accessor of a delivered view (type, locate, tracking
  number, timestamp and, for the message types with a view class, every field of that class)
  returns the value the parser decodes for that message.
\<close>

theorem overlay_matches_parser:
  "\<exists>r p ms vs. parse (\<lambda>ms m. ms @ [m]) data Parser_init [] = Some (r, p, ms) \<and>
    (\<forall>callback s. for_each_message callback data s =
      Some (of_nat (length ms), fold (\<lambda>v s. callback s v) vs (s :: 's))) \<and>
    list_all2 (\<lambda>v m. header_agrees v (header_of m) \<and> body_agrees v m) vs ms"
proof -
  let ?ms = "frame_messages (fst (split_frames data))"
  obtain vs where vs: "list_all2 presents vs ?ms"
    "\<And>callback ns. view_loop callback data 0 ns =
      Some (fst ns + of_nat (length vs), fold (\<lambda>v s. callback s v) vs (snd (ns :: u64 \<times> 's)))"
    using view_loop_views [of 0 data, where 's = 's] unfolding drop_0 by blast
  have "list_all2 (\<lambda>v m. header_agrees v (header_of m) \<and> body_agrees v m) vs ?ms"
    using vs(1) view_agrees by (auto simp: presents_def elim!: list_all2_mono)
  moreover have "\<exists>r p. parse (\<lambda>ms m. ms @ [m]) data Parser_init [] = Some (r, p, ?ms)"
    by (simp add: parse_def parse_collect fold_append_messages Let_def)
  moreover have "length vs = length ?ms"
    using vs(1) by (rule list_all2_lengthD)
  ultimately show ?thesis
    using vs(2) by (auto simp: for_each_message_def)
qed

end
