(* ===== verification/Encoder.thy ===== *)
theory Encoder
  imports Parser
begin

text \<open>
  The encoder of \<^verbatim>\<open>src/encoder.cpp\<close> and its two inverses: parsing what was encoded gives the
  message back, and encoding what was decoded gives the frame's bytes back.
\<close>

section \<open>Writers\<close>

definition write_header :: "'a MessageHeader_scheme \<Rightarrow> byte list" where
  "write_header msg =
     put_char (message_type msg) @
     put (stock_locate msg) @
     put (tracking_number msg) @
     put_timestamp (timestamp msg)"

definition write_SystemEvent :: "SystemEventMessage \<Rightarrow> byte list" where
  "write_SystemEvent msg =
     put_char (SystemEventMessage.event_code msg)"

definition write_StockDirectory :: "StockDirectoryMessage \<Rightarrow> byte list" where
  "write_StockDirectory msg =
     put_chars (StockDirectoryMessage.stock msg) STOCK_LEN @
     put_char (StockDirectoryMessage.market_category msg) @
     put_char (StockDirectoryMessage.financial_status_indicator msg) @
     put (StockDirectoryMessage.round_lot_size msg) @
     put_char (StockDirectoryMessage.round_lots_only msg) @
     put_char (StockDirectoryMessage.issue_classification msg) @
     put_chars (StockDirectoryMessage.issue_sub_type msg) 2 @
     put_char (StockDirectoryMessage.authenticity msg) @
     put_char (StockDirectoryMessage.short_sale_threshold_indicator msg) @
     put_char (StockDirectoryMessage.ipo_flag msg) @
     put_char (StockDirectoryMessage.luld_ref msg) @
     put_char (StockDirectoryMessage.etp_flag msg) @
     put (StockDirectoryMessage.etp_leverage_factor msg) @
     put_char (StockDirectoryMessage.inverse_indicator msg)"

definition write_StockTradingAction :: "StockTradingActionMessage \<Rightarrow> byte list" where
  "write_StockTradingAction msg =
     put_chars (StockTradingActionMessage.stock msg) STOCK_LEN @
     put_char (StockTradingActionMessage.trading_state msg) @
     put_char (StockTradingActionMessage.reserved msg) @
     put_chars (StockTradingActionMessage.reason msg) 4"

definition write_RegSHO :: "RegSHOMessage \<Rightarrow> byte list" where
  "write_RegSHO msg =
     put_chars (RegSHOMessage.stock msg) STOCK_LEN @
     put_char (RegSHOMessage.reg_sho_action msg)"

definition write_MarketParticipantPosition :: "MarketParticipantPositionMessage \<Rightarrow> byte list" where
  "write_MarketParticipantPosition msg =
     put_chars (MarketParticipantPositionMessage.mpid msg) 4 @
     put_chars (MarketParticipantPositionMessage.stock msg) STOCK_LEN @
     put_char (MarketParticipantPositionMessage.primary_market_maker msg) @
     put_char (MarketParticipantPositionMessage.market_maker_mode msg) @
     put_char (MarketParticipantPositionMessage.market_participant_state msg)"

definition write_MWCBDeclineLevel :: "MWCBDeclineLevelMessage \<Rightarrow> byte list" where
  "write_MWCBDeclineLevel msg =
     put (MWCBDeclineLevelMessage.level1 msg) @
     put (MWCBDeclineLevelMessage.level2 msg) @
     put (MWCBDeclineLevelMessage.level3 msg)"

definition write_MWCBStatus :: "MWCBStatusMessage \<Rightarrow> byte list" where
  "write_MWCBStatus msg =
     put_char (MWCBStatusMessage.breached_level msg)"

definition write_IPOQuotingPeriodUpdate :: "IPOQuotingPeriodUpdateMessage \<Rightarrow> byte list" where
  "write_IPOQuotingPeriodUpdate msg =
     put_chars (IPOQuotingPeriodUpdateMessage.stock msg) STOCK_LEN @
     put (IPOQuotingPeriodUpdateMessage.ipo_quotation_release_time msg) @
     put_char (IPOQuotingPeriodUpdateMessage.ipo_quotation_release_qualifier msg) @
     put (IPOQuotingPeriodUpdateMessage.ipo_price msg)"

definition write_LULDAuctionCollar :: "LULDAuctionCollarMessage \<Rightarrow> byte list" where
  "write_LULDAuctionCollar msg =
     put_chars (LULDAuctionCollarMessage.stock msg) STOCK_LEN @
     put (LULDAuctionCollarMessage.auction_collar_reference_price msg) @
     put (LULDAuctionCollarMessage.upper_auction_collar_price msg) @
     put (LULDAuctionCollarMessage.lower_auction_collar_price msg) @
     put (LULDAuctionCollarMessage.auction_collar_extension msg)"

definition write_OperationalHalt :: "OperationalHaltMessage \<Rightarrow> byte list" where
  "write_OperationalHalt msg =
     put_chars (OperationalHaltMessage.stock msg) STOCK_LEN @
     put_char (OperationalHaltMessage.market_code msg) @
     put_char (OperationalHaltMessage.operational_halt_action msg)"

definition write_AddOrder :: "AddOrderMessage \<Rightarrow> byte list" where
  "write_AddOrder msg =
     put (AddOrderMessage.order_reference_number msg) @
     put_char (AddOrderMessage.buy_sell_indicator msg) @
     put (AddOrderMessage.shares msg) @
     put_chars (AddOrderMessage.stock msg) STOCK_LEN @
     put (AddOrderMessage.price msg)"

definition write_AddOrderMPIDAttribution :: "AddOrderMPIDAttributionMessage \<Rightarrow> byte list" where
  "write_AddOrderMPIDAttribution msg =
     put (AddOrderMPIDAttributionMessage.order_reference_number msg) @
     put_char (AddOrderMPIDAttributionMessage.buy_sell_indicator msg) @
     put (AddOrderMPIDAttributionMessage.shares msg) @
     put_chars (AddOrderMPIDAttributionMessage.stock msg) STOCK_LEN @
     put (AddOrderMPIDAttributionMessage.price msg) @
     put_chars (AddOrderMPIDAttributionMessage.attribution msg) 4"

definition write_OrderExecuted :: "OrderExecutedMessage \<Rightarrow> byte list" where
  "write_OrderExecuted msg =
     put (OrderExecutedMessage.order_reference_number msg) @
     put (OrderExecutedMessage.executed_shares msg) @
     put (OrderExecutedMessage.match_number msg)"

definition write_OrderExecutedWithPrice :: "OrderExecutedWithPriceMessage \<Rightarrow> byte list" where
  "write_OrderExecutedWithPrice msg =
     put (OrderExecutedWithPriceMessage.order_reference_number msg) @
     put (OrderExecutedWithPriceMessage.executed_shares msg) @
     put (OrderExecutedWithPriceMessage.match_number msg) @
     put_char (OrderExecutedWithPriceMessage.printable msg) @
     put (OrderExecutedWithPriceMessage.execution_price msg)"

definition write_OrderCancel :: "OrderCancelMessage \<Rightarrow> byte list" where
  "write_OrderCancel msg =
     put (OrderCancelMessage.order_reference_number msg) @
     put (OrderCancelMessage.cancelled_shares msg)"

definition write_OrderDelete :: "OrderDeleteMessage \<Rightarrow> byte list" where
  "write_OrderDelete msg =
     put (OrderDeleteMessage.order_reference_number msg)"

definition write_OrderReplace :: "OrderReplaceMessage \<Rightarrow> byte list" where
  "write_OrderReplace msg =
     put (OrderReplaceMessage.original_order_reference_number msg) @
     put (OrderReplaceMessage.new_order_reference_number msg) @
     put (OrderReplaceMessage.shares msg) @
     put (OrderReplaceMessage.price msg)"

definition write_NonCrossTrade :: "NonCrossTradeMessage \<Rightarrow> byte list" where
  "write_NonCrossTrade msg =
     put (NonCrossTradeMessage.order_reference_number msg) @
     put_char (NonCrossTradeMessage.buy_sell_indicator msg) @
     put (NonCrossTradeMessage.shares msg) @
     put_chars (NonCrossTradeMessage.stock msg) STOCK_LEN @
     put (NonCrossTradeMessage.price msg) @
     put (NonCrossTradeMessage.match_number msg)"

definition write_CrossTrade :: "CrossTradeMessage \<Rightarrow> byte list" where
  "write_CrossTrade msg =
     put (CrossTradeMessage.shares msg) @
     put_chars (CrossTradeMessage.stock msg) STOCK_LEN @
     put (CrossTradeMessage.cross_price msg) @
     put (CrossTradeMessage.match_number msg) @
     put_char (CrossTradeMessage.cross_type msg)"

definition write_BrokenTrade :: "BrokenTradeMessage \<Rightarrow> byte list" where
  "write_BrokenTrade msg =
     put (BrokenTradeMessage.match_number msg)"

definition write_NOII :: "NOIIMessage \<Rightarrow> byte list" where
  "write_NOII msg =
     put (NOIIMessage.paired_shares msg) @
     put (NOIIMessage.imbalance_shares msg) @
     put_char (NOIIMessage.imbalance_direction msg) @
     put_chars (NOIIMessage.stock msg) STOCK_LEN @
     put (NOIIMessage.far_price msg) @
     put (NOIIMessage.near_price msg) @
     put (NOIIMessage.current_reference_price msg) @
     put_char (NOIIMessage.cross_type msg) @
     put_char (NOIIMessage.price_variation_indicator msg)"

definition write_RetailPriceImprovementIndicator :: "RetailPriceImprovementIndicatorMessage \<Rightarrow> byte list" where
  "write_RetailPriceImprovementIndicator msg =
     put_chars (RetailPriceImprovementIndicatorMessage.stock msg) STOCK_LEN @
     put_char (RetailPriceImprovementIndicatorMessage.interest_flag msg)"

definition write_DLCR :: "DLCRMessage \<Rightarrow> byte list" where
  "write_DLCR msg =
     put_chars (DLCRMessage.stock msg) STOCK_LEN @
     put_char (DLCRMessage.open_eligibility_status msg) @
     put (DLCRMessage.minimum_allowable_price msg) @
     put (DLCRMessage.maximum_allowable_price msg) @
     put (DLCRMessage.near_execution_price msg) @
     put (DLCRMessage.near_execution_time msg) @
     put (DLCRMessage.lower_price_range_collar msg) @
     put (DLCRMessage.upper_price_range_collar msg)"

fun encode_message :: "Message \<Rightarrow> byte list" where
  "encode_message (SystemEvent concrete) = write_header concrete @ write_SystemEvent concrete"
| "encode_message (StockDirectory concrete) = write_header concrete @ write_StockDirectory concrete"
| "encode_message (StockTradingAction concrete) = write_header concrete @ write_StockTradingAction concrete"
| "encode_message (RegSHO concrete) = write_header concrete @ write_RegSHO concrete"
| "encode_message (MarketParticipantPosition concrete) = write_header concrete @ write_MarketParticipantPosition concrete"
| "encode_message (MWCBDeclineLevel concrete) = write_header concrete @ write_MWCBDeclineLevel concrete"
| "encode_message (MWCBStatus concrete) = write_header concrete @ write_MWCBStatus concrete"
| "encode_message (IPOQuotingPeriodUpdate concrete) = write_header concrete @ write_IPOQuotingPeriodUpdate concrete"
| "encode_message (LULDAuctionCollar concrete) = write_header concrete @ write_LULDAuctionCollar concrete"
| "encode_message (OperationalHalt concrete) = write_header concrete @ write_OperationalHalt concrete"
| "encode_message (AddOrder concrete) = write_header concrete @ write_AddOrder concrete"
| "encode_message (AddOrderMPIDAttribution concrete) = write_header concrete @ write_AddOrderMPIDAttribution concrete"
| "encode_message (OrderExecuted concrete) = write_header concrete @ write_OrderExecuted concrete"
| "encode_message (OrderExecutedWithPrice concrete) = write_header concrete @ write_OrderExecutedWithPrice concrete"
| "encode_message (OrderCancel concrete) = write_header concrete @ write_OrderCancel concrete"
| "encode_message (OrderDelete concrete) = write_header concrete @ write_OrderDelete concrete"
| "encode_message (OrderReplace concrete) = write_header concrete @ write_OrderReplace concrete"
| "encode_message (NonCrossTrade concrete) = write_header concrete @ write_NonCrossTrade concrete"
| "encode_message (CrossTrade concrete) = write_header concrete @ write_CrossTrade concrete"
| "encode_message (BrokenTrade concrete) = write_header concrete @ write_BrokenTrade concrete"
| "encode_message (NOII concrete) = write_header concrete @ write_NOII concrete"
| "encode_message (RetailPriceImprovementIndicator concrete) = write_header concrete @ write_RetailPriceImprovementIndicator concrete"
| "encode_message (DLCR concrete) = write_header concrete @ write_DLCR concrete"

definition encode_frame :: "Message \<Rightarrow> byte list" where
  "encode_frame message =
     (let body = encode_message message in
      put (of_nat (length body) :: u16) @ body)"

lemmas write_defs =
  write_SystemEvent_def write_StockDirectory_def write_StockTradingAction_def write_RegSHO_def
  write_MarketParticipantPosition_def write_MWCBDeclineLevel_def write_MWCBStatus_def
  write_IPOQuotingPeriodUpdate_def write_LULDAuctionCollar_def write_OperationalHalt_def
  write_AddOrder_def write_AddOrderMPIDAttribution_def write_OrderExecuted_def
  write_OrderExecutedWithPrice_def write_OrderCancel_def write_OrderDelete_def
  write_OrderReplace_def write_NonCrossTrade_def write_CrossTrade_def write_BrokenTrade_def
  write_NOII_def write_RetailPriceImprovementIndicator_def write_DLCR_def

section \<open>Sizes\<close>

lemma length_write_header: "length (write_header m) = 11"
  by (simp add: write_header_def)

lemma length_encode_message:
  "wf_arrays m \<Longrightarrow> length (encode_message m) = WIRE_SIZE (msg_type m)"
  by (cases m) (simp_all add: length_write_header write_defs layout_defs)

section \<open>Decoding what was encoded\<close>

text \<open>The bytes at a numeral offset of a concatenation of fields.\<close>

lemmas seek = take_append drop_append nth_append

lemma timestamp_value_put: "timestamp_value (put_timestamp ts) = take_bit 48 ts"
proof -
  have "drop 0 (put_timestamp ts) = put_timestamp ts @ []"
    by simp
  from unpack_put_timestamp [OF this] show ?thesis
    by (simp add: unpack_timestamp_eq)
qed

lemma map_char_put_chars [simp]:
  "length cs = n \<Longrightarrow> map char_of_byte (put_chars cs n) = cs"
  by (simp add: put_chars_def)

lemma nth_put_char [simp]: "put_char c ! 0 = byte_of_char c"
  by (simp add: put_char_def)

lemmas codec_simps = decode_as_def unpack_defs write_defs write_header_def blank_defs
  wf_message_def wf_header_def STOCK_LEN_def reader_eqs timestamp_value_put take_bit_48_self

lemma decode_encode:
  "wf_message m \<Longrightarrow> decode_typed (msg_type m) (encode_message m) = Some m"
  by (cases m) (simp_all add: codec_simps seek)

lemma decode_encode_timestamp:
  "wf_arrays m \<Longrightarrow>
   \<exists>m'. decode_typed (msg_type m) (encode_message m) = Some m' \<and>
        timestamp_of m' = take_bit 48 (timestamp_of m)"
  by (cases m) (simp_all add: codec_simps seek timestamp_of_def)

section \<open>Encoding what was decoded\<close>

lemma put_object_of:
  "length bs = 2 \<Longrightarrow> put (object_of Big bs :: u16) = bs"
  "length bs = 4 \<Longrightarrow> put (object_of Big bs :: u32) = bs"
  "length bs = 8 \<Longrightarrow> put (object_of Big bs :: u64) = bs"
  by (simp_all add: put_big bytes_of_object_of)

lemma timestamp_split:
  "ucast (drop_bit 32 (push_bit 32 (ucast (h :: u16)) OR ucast (l :: u32) :: u64)) = h"
  "ucast ((push_bit 32 (ucast (h :: u16)) OR ucast (l :: u32) :: u64) AND 0xFFFFFFFF) = l"
proof -
  have mask: "(0xFFFFFFFF :: u64) = mask 32"
    by (simp add: mask_eq_exp_minus_1)
  show "ucast (drop_bit 32 (push_bit 32 (ucast h) OR ucast l :: u64)) = h"
    by (rule bit_word_eqI) (auto simp: bit_simps dest: bit_imp_le_length)
  show "ucast ((push_bit 32 (ucast h) OR ucast l :: u64) AND 0xFFFFFFFF) = l"
    by (rule bit_word_eqI) (auto simp: mask bit_simps dest: bit_imp_le_length)
qed

lemma put_timestamp_value: "length bs = 6 \<Longrightarrow> put_timestamp (timestamp_value bs) = bs"
  unfolding put_timestamp_def timestamp_value_def timestamp_split
  by (simp add: put_object_of)

lemma put_chars_map: "length bs = n \<Longrightarrow> put_chars (map char_of_byte bs) n = bs"
  by (simp add: put_chars_def comp_def)

text \<open>Adjacent slices of a frame glue together.\<close>

lemma take_glue:
  "take i xs @ take j (drop i xs) @ ys = take (i + j) xs @ ys"
  "take i xs @ take j (drop i xs) = take (i + j) xs"
  "i < length xs \<Longrightarrow> take i xs @ put_char (char_of_byte (xs ! i)) @ ys = take (i + 1) xs @ ys"
  "i < length xs \<Longrightarrow> take i xs @ put_char (char_of_byte (xs ! i)) = take (i + 1) xs"
  by (simp_all add: take_add put_char_def take_Suc_conv_app_nth)

lemma encode_decode_typed:
  assumes "decode_typed t frame = Some m" and "put_char (type_byte t) = take 1 frame"
  shows "encode_message m = take (WIRE_SIZE t) frame"
proof -
  have "WIRE_SIZE t \<le> length frame"
    using assms(1) decode_typed_None [of frame t] by fastforce
  with assms show ?thesis
    by (cases t)
      (auto simp: codec_simps layout_defs put_object_of put_timestamp_value put_chars_map take_glue)
qed

lemma decode_frame_Inr:
  assumes "decode_frame frame = Inr m"
  shows "char_of_byte (hd frame) = type_byte (msg_type m)"
    and "decode_typed (msg_type m) frame = Some m" and "frame \<noteq> []"
proof -
  obtain t where t: "map_of for_each_message_type (char_of_byte (hd frame)) = Some t"
    and m: "decode_typed t frame = Some m"
    using assms by (auto simp: decode_frame_def split: option.splits)
  have len: "\<not> length frame < WIRE_SIZE t"
    using m decode_typed_None [of frame t] by auto
  then have "msg_type m = t"
    using m decode_typed_Some [of t frame] by auto
  with t m show "char_of_byte (hd frame) = type_byte (msg_type m)"
    and "decode_typed (msg_type m) frame = Some m"
    by (simp_all add: registry_lookup)
  show "frame \<noteq> []"
    using len WIRE_SIZE_bounds(1) [of t] by auto
qed

lemma encode_decode_frame:
  assumes "decode_frame frame = Inr m"
  shows "encode_message m = take (WIRE_SIZE (msg_type m)) frame"
proof -
  note m = decode_frame_Inr [OF assms]
  have "put_char (type_byte (msg_type m)) = take 1 frame"
    using m(1,3) by (cases frame) (simp_all add: put_char_def m(1) [symmetric])
  with m(2) show ?thesis
    by (rule encode_decode_typed)
qed

section \<open>Streams of frames\<close>

lemma hd_encode_message: "\<exists>rest. encode_message m = byte_of_char (message_type_of m) # rest"
  by (cases m) (simp_all add: write_header_def put_char_def message_type_of_def)

lemma decode_frame_encode: "wf_message m \<Longrightarrow> decode_frame (encode_message m) = Inr m"
proof -
  assume wf: "wf_message m"
  then have "message_type_of m = type_byte (msg_type m)"
    by (simp add: wf_message_def wf_header_def message_type_of_def)
  then have "char_of_byte (hd (encode_message m)) = type_byte (msg_type m)"
    using hd_encode_message [of m] by auto
  then have "map_of for_each_message_type (char_of_byte (hd (encode_message m))) = Some (msg_type m)"
    by (simp add: registry_lookup)
  then show ?thesis
    by (simp add: decode_frame_def decode_encode [OF wf])
qed

lemma put_u16_bytes:
  fixes n :: nat
  assumes "n < 65536"
  shows "\<exists>h l. put (of_nat n :: u16) = [h, l] \<and> be16 h l = n"
proof -
  have "length (put (of_nat n :: u16)) = 2"
    by simp
  then obtain h l where hl: "put (of_nat n :: u16) = [h, l]"
    by (metis (no_types, opaque_lifting) One_nat_def Suc_1 length_0_conv length_Suc_conv)
  have "object_of Big (put (of_nat n :: u16)) = (of_nat n :: u16)"
    by simp
  then have "be16 h l = unat (of_nat n :: u16)"
    by (simp add: hl object_of_Big_2 [symmetric])
  with assms hl show ?thesis
    by (simp add: unat_of_nat take_bit_nat_eq_self)
qed

lemma split_frames_encode:
  assumes "wf_arrays m"
  shows "split_frames (encode_frame m @ rest) =
    (case split_frames rest of (fs, c) \<Rightarrow> (encode_message m # fs, c))"
proof -
  let ?b = "encode_message m"
  have len: "11 < length ?b" "length ?b < 65536"
    using WIRE_SIZE_bounds [of "msg_type m"] by (simp_all add: length_encode_message [OF assms])
  obtain h l where "put (of_nat (length ?b) :: u16) = [h, l]" and "be16 h l = length ?b"
    using put_u16_bytes [OF len(2)] by blast
  moreover have "?b \<noteq> []"
    using len by auto
  ultimately show ?thesis
    by (simp add: encode_frame_def Let_def split: prod.split)
qed

lemma split_frames_encode_all:
  "\<forall>m \<in> set ms. wf_arrays m \<Longrightarrow>
   split_frames (concat (map encode_frame ms)) = (map encode_message ms, True)"
  by (induction ms) (simp_all add: split_frames_encode)

lemma frames_of_encoded:
  assumes "\<forall>m \<in> set ms. wf_message m"
  shows "frame_messages (map encode_message ms) = ms" and "frame_errors (map encode_message ms) = []"
  using assms
  by (induction ms) (simp_all add: frame_messages_def frame_errors_def decode_frame_encode)

section \<open>Properties\<close>

text \<open>
  C2. Parsing a stream of encoded frames gives exactly the encoded messages, in order, with no
  diagnostics: the encoder and the parser agree on the layout of all 23 message types.
\<close>

theorem encode_parse_roundtrip:
  assumes "\<forall>m \<in> set ms. wf_message m"
  shows "parse_all (concat (map encode_frame ms)) Parser_init = Some (Inr ms, Parser_init)"
proof -
  have "\<forall>m \<in> set ms. wf_arrays m"
    using assms by (auto simp: wf_message_def)
  then have "split_frames (concat (map encode_frame ms)) = (map encode_message ms, True)"
    by (rule split_frames_encode_all)
  then show ?thesis
    by (simp add: parse_all_def parse_def parse_collect Let_def frames_of_encoded [OF assms]
        fold_append_messages)
qed

definition sample_add :: AddOrderMessage where
  "sample_add = blank_AddOrder
     \<lparr>stock_locate := 7, timestamp := 34200000000000, AddOrderMessage.order_reference_number := 1001,
      AddOrderMessage.buy_sell_indicator := CHR ''B'', AddOrderMessage.shares := 300,
      AddOrderMessage.stock := ''AAPL    '', AddOrderMessage.price := 1500000\<rparr>"

lemma wf_sample_add: "wf_message (AddOrder sample_add)"
  by (simp add: sample_add_def blank_AddOrder_def wf_message_def wf_header_def)

theorem encode_parse_roundtrip_witness:
  "parse_all (concat (map encode_frame [AddOrder sample_add, SystemEvent blank_SystemEvent])) Parser_init
     = Some (Inr [AddOrder sample_add, SystemEvent blank_SystemEvent], Parser_init)"
proof -
  have "wf_message (SystemEvent blank_SystemEvent)"
    by (simp add: blank_SystemEvent_def wf_message_def wf_header_def)
  with wf_sample_add have
    "\<forall>m \<in> set [AddOrder sample_add, SystemEvent blank_SystemEvent]. wf_message m"
    by simp
  then show ?thesis
    by (rule encode_parse_roundtrip)
qed

text \<open>
  C3. Re-encoding a message decoded from a frame gives back the bytes of the frame up to the
  wire size of its type: decoding loses nothing.
\<close>

theorem decode_encode_bytes:
  assumes "decode_frame frame = Inr m"
  shows "encode_message m = take (WIRE_SIZE (msg_type m)) frame"
  by (rule encode_decode_frame [OF assms])

theorem decode_encode_bytes_witness:
  "encode_message (SystemEvent blank_SystemEvent) =
     take (WIRE_SIZE SystemEventT) (byte_of_char (CHR ''S'') # replicate 11 0)"
proof -
  have "decode_frame (byte_of_char (CHR ''S'') # replicate 11 0) = Inr (SystemEvent blank_SystemEvent)"
    by (simp add: decode_frame_def decode_zeros for_each_message_type_def del: decode_typed.simps)
  from decode_encode_bytes [OF this] show ?thesis
    by simp
qed

text \<open>
  The encoder keeps 48 bits of the timestamp: what a decoder reads back is the timestamp
  modulo \<open>2 ^ 48\<close>, so the round trip the header promises for every message holds for timestamps
  below \<open>2 ^ 48\<close> only.
\<close>

theorem encode_timestamp_48:
  assumes "wf_arrays m"
  shows "\<exists>m'. decode_typed (msg_type m) (encode_message m) = Some m' \<and>
    unat (timestamp_of m') = unat (timestamp_of m) mod 2 ^ 48"
proof -
  have "unat (take_bit 48 ts) = unat ts mod 2 ^ 48" for ts :: u64
    using unsigned_take_bit_eq [of 48 ts, where 'a = nat] by (simp only: take_bit_nat_def)
  with decode_encode_timestamp [OF assms] show ?thesis
    by metis
qed

theorem encode_timestamp_48_witness:
  "\<exists>m'. decode_typed SystemEventT (encode_message (SystemEvent (blank_SystemEvent\<lparr>timestamp := 2 ^ 48 + 5\<rparr>)))
       = Some m' \<and> unat (timestamp_of m') = 5"
proof -
  have "wf_arrays (SystemEvent (blank_SystemEvent\<lparr>timestamp := 2 ^ 48 + 5\<rparr>))"
    by simp
  from encode_timestamp_48 [OF this] show ?thesis
    by (simp add: timestamp_of_def del: decode_typed.simps encode_message.simps)
qed

end
