(* ===== verification/Sequencing.thy ===== *)
theory Sequencing
  imports Itch_Prelude
begin

text \<open>
  \<^verbatim>\<open>SequenceTracker\<close> of \<^verbatim>\<open>include/itch/transport/sequencing.hpp\<close>: per-session gap detection shared by
  the transport decoders. Sequence numbers and counters are 64-bit words. The callbacks are
  functions on a client state of type \<open>'s\<close>. The properties account for every sequence number of a
  session: it is counted exactly once, as seen or as missing.
\<close>

section \<open>The tracker\<close>

record 's SequenceTracker =
  m_expected_by_session :: "string \<Rightarrow> u64 option"
  m_gap_callback :: "('s \<Rightarrow> string \<Rightarrow> u64 \<Rightarrow> u64 \<Rightarrow> 's) option"
  m_requester :: "('s \<Rightarrow> string \<Rightarrow> u64 \<Rightarrow> u64 \<Rightarrow> 's) option"
  m_gap_count :: u64
  m_messages_seen :: u64

definition SequenceTracker_init :: "'s SequenceTracker" where
  "SequenceTracker_init = \<lparr>m_expected_by_session = Map.empty, m_gap_callback = None, m_requester = None,
     m_gap_count = 0, m_messages_seen = 0\<rparr>"

definition set_gap_callback ::
  "('s \<Rightarrow> string \<Rightarrow> u64 \<Rightarrow> u64 \<Rightarrow> 's) option \<Rightarrow> 's SequenceTracker \<Rightarrow> 's SequenceTracker" where
  "set_gap_callback callback t = t\<lparr>m_gap_callback := callback\<rparr>"

definition set_retransmit_requester ::
  "('s \<Rightarrow> string \<Rightarrow> u64 \<Rightarrow> u64 \<Rightarrow> 's) option \<Rightarrow> 's SequenceTracker \<Rightarrow> 's SequenceTracker" where
  "set_retransmit_requester requester t = t\<lparr>m_requester := requester\<rparr>"

definition expected_next :: "'s SequenceTracker \<Rightarrow> string \<Rightarrow> u64 option" where
  "expected_next t session = m_expected_by_session t session"

definition tracker_reset :: "'s SequenceTracker \<Rightarrow> 's SequenceTracker" where
  "tracker_reset t = t\<lparr>m_expected_by_session := Map.empty, m_gap_count := 0, m_messages_seen := 0\<rparr>"

text \<open>The notifications of a gap, callback first.\<close>

definition notify_gap ::
  "'s SequenceTracker \<Rightarrow> string \<Rightarrow> u64 \<Rightarrow> u64 \<Rightarrow> 's \<Rightarrow> 's" where
  "notify_gap t session expected first_sequence s =
     (let s = (case m_gap_callback t of None \<Rightarrow> s | Some cb \<Rightarrow> cb s session expected first_sequence)
      in case m_requester t of None \<Rightarrow> s | Some rq \<Rightarrow> rq s session expected (first_sequence - expected))"

definition observe ::
  "string \<Rightarrow> u64 \<Rightarrow> u64 \<Rightarrow> 's SequenceTracker \<times> 's \<Rightarrow> u64 \<times> 's SequenceTracker \<times> 's" where
  "observe session first_sequence count = (\<lambda>(t, s).
     case m_expected_by_session t session of
       None \<Rightarrow>
         (0, t\<lparr>m_expected_by_session := (m_expected_by_session t)(session \<mapsto> first_sequence + count),
               m_messages_seen := m_messages_seen t + count\<rparr>, s)
     | Some expected \<Rightarrow>
         let (gap, t, s) =
               (if first_sequence > expected
                then (let gap = first_sequence - expected
                      in (gap, t\<lparr>m_gap_count := m_gap_count t + gap\<rparr>,
                          notify_gap t session expected first_sequence s))
                else (0, t, s));
             end_sequence = first_sequence + count
         in if end_sequence > expected
            then (let already_seen = (if expected > first_sequence then expected - first_sequence else 0)
                  in (gap, t\<lparr>m_messages_seen := m_messages_seen t + (count - min count already_seen),
                            m_expected_by_session := (m_expected_by_session t)(session \<mapsto> end_sequence)\<rparr>, s))
            else (gap, t, s))"

section \<open>One observation\<close>

text \<open>An observation whose sequence range does not wrap.\<close>

definition no_wrap :: "u64 \<Rightarrow> u64 \<Rightarrow> bool" where
  "no_wrap first_sequence count \<longleftrightarrow> unat first_sequence + unat count < 2 ^ 64"

lemma no_wrap_le: "no_wrap f c \<Longrightarrow> f \<le> f + c"
  unfolding no_wrap_def word_le_nat_alt by (simp add: unat_word_ariths(1))

lemma already_seen_count:
  assumes "no_wrap f c" "f + c > e"
  shows "c - min c (if e > f then e - f else 0) = f + c - (if f > e then f else e)"
proof (cases "e > f")
  case True
  have "unat (e - f) = unat e - unat f"
    using True by (simp add: unat_sub less_imp_le)
  moreover have "unat e < unat f + unat c"
    using assms by (simp add: word_less_nat_alt no_wrap_def unat_word_ariths(1))
  ultimately have "e - f \<le> c"
    by (simp add: word_le_nat_alt)
  then show ?thesis
    using True by (auto simp: min_absorb2 algebra_simps dest: less_asym)
next
  case False
  then show ?thesis
    by (auto simp: not_less)
qed

text \<open>
  What an observation of a known session does: the expectation moves to the larger of itself and
  the end of the packet, and the distance it moves splits into missing and new messages.
\<close>

lemma observe_known:
  assumes "m_expected_by_session t session = Some e" "no_wrap f c"
  defines "gap \<equiv> (if f > e then f - e else 0)"
  defines "e' \<equiv> max e (f + c)"
  shows "observe session f c (t, s) =
    (gap, t\<lparr>m_gap_count := m_gap_count t + gap, m_messages_seen := m_messages_seen t + (e' - e - gap),
       m_expected_by_session := (m_expected_by_session t)(session \<mapsto> e')\<rparr>,
     if f > e then notify_gap t session e f s else s)"
proof -
  have upd: "(m_expected_by_session t)(session \<mapsto> e) = m_expected_by_session t"
    using assms(1) by (simp add: fun_upd_idem)
  show ?thesis
  proof (cases "f > e")
    case True
    then have "f + c > e"
      using no_wrap_le [OF assms(2)] by (rule less_le_trans)
    then show ?thesis
      using True assms(1) by (simp add: observe_def gap_def e'_def max_def not_less Let_def)
  next
    case False
    note already = already_seen_count [OF assms(2), of e]
    show ?thesis
    proof (cases "f + c > e")
      case True
      then show ?thesis
        using False assms(1) already
        by (simp add: observe_def gap_def e'_def max_def Let_def less_imp_le)
    next
      case no: False
      then have "max e (f + c) = e"
        by (simp add: max_def not_less)
      then show ?thesis
        using False no assms(1) upd by (simp add: observe_def gap_def e'_def Let_def)
    qed
  qed
qed

lemma observe_new:
  "m_expected_by_session t session = None \<Longrightarrow> observe session f c (t, s) =
    (0, t\<lparr>m_expected_by_session := (m_expected_by_session t)(session \<mapsto> f + c),
          m_messages_seen := m_messages_seen t + c\<rparr>, s)"
  by (simp add: observe_def)

section \<open>Runs\<close>

text \<open>A list of observations \<open>(session, first sequence, count)\<close>, fed in order.\<close>

type_synonym observation = "string \<times> u64 \<times> u64"

definition track :: "observation list \<Rightarrow> 's SequenceTracker \<times> 's \<Rightarrow> 's SequenceTracker \<times> 's" where
  "track obs ts = fold (\<lambda>(session, f, c) ts. snd (observe session f c ts)) obs ts"

definition obs_ok :: "observation list \<Rightarrow> bool" where
  "obs_ok obs \<longleftrightarrow> (\<forall>(session, f, c) \<in> set obs. no_wrap f c)"

text \<open>The first sequence number of a session, and the largest end of its packets.\<close>

definition anchor :: "observation list \<Rightarrow> string \<Rightarrow> u64 option" where
  "anchor obs k = map_option (\<lambda>(_, f, _). f) (List.find (\<lambda>(k', _, _). k' = k) obs)"

definition last_end :: "observation list \<Rightarrow> string \<Rightarrow> u64 option" where
  "last_end obs k =
     (case filter (\<lambda>(k', _, _). k' = k) obs of [] \<Rightarrow> None
      | (_, f, c) # rest \<Rightarrow> Some (fold (\<lambda>(_, f, c) e. max e (f + c)) rest (f + c)))"

lemma anchor_snoc:
  "anchor (obs @ [(k', f, c)]) k = (case anchor obs k of None \<Rightarrow> if k' = k then Some f else None | Some a \<Rightarrow> Some a)"
  by (induction obs) (auto simp: anchor_def)

lemma last_end_snoc:
  "last_end (obs @ [(k', f, c)]) k =
    (if k' = k then Some (case last_end obs k of None \<Rightarrow> f + c | Some e \<Rightarrow> max e (f + c)) else last_end obs k)"
  by (auto simp: last_end_def split: list.split)

lemma anchor_last_end: "anchor obs k = None \<longleftrightarrow> last_end obs k = None"
  by (induction obs) (auto simp: anchor_def last_end_def split: list.split)

lemma last_end_sessions: "last_end obs k = None \<longleftrightarrow> k \<notin> fst ` set obs"
  by (induction obs) (auto simp: last_end_def split: list.split if_splits)

lemma track_snoc: "track (obs @ [(k, f, c)]) ts = snd (observe k f c (track obs ts))"
  by (simp add: track_def)

lemma obs_ok_snoc: "obs_ok (obs @ [(k, f, c)]) \<longleftrightarrow> obs_ok obs \<and> no_wrap f c"
  by (auto simp: obs_ok_def)

text \<open>The total distance the expectations of all sessions have moved.\<close>

definition distance :: "observation list \<Rightarrow> u64" where
  "distance obs = (\<Sum>k \<in> fst ` set obs. the (last_end obs k) - the (anchor obs k))"

lemma distance_snoc:
  "distance (obs @ [(k, f, c)]) = distance obs +
    (case last_end obs k of None \<Rightarrow> c | Some e \<Rightarrow> max e (f + c) - e)"
proof (cases "last_end obs k")
  case None
  let ?h = "\<lambda>obs k. the (last_end obs k) - the (anchor obs k)"
  have k: "k \<notin> fst ` set obs"
    using None by (simp add: last_end_sessions)
  have "(\<Sum>x \<in> fst ` set obs. ?h (obs @ [(k, f, c)]) x) = (\<Sum>x \<in> fst ` set obs. ?h obs x)"
    using k by (intro sum.cong) (auto simp: last_end_snoc anchor_snoc split: option.splits)
  moreover have "?h (obs @ [(k, f, c)]) k = c"
    using None by (simp add: last_end_snoc anchor_snoc anchor_last_end [THEN iffD2])
  ultimately show ?thesis
    using None k by (simp add: distance_def)
next
  case (Some e)
  let ?h = "\<lambda>obs k. the (last_end obs k) - the (anchor obs k)"
  have k: "k \<in> fst ` set obs"
    using Some last_end_sessions [of obs k] by auto
  obtain a where a: "anchor obs k = Some a"
    using Some anchor_last_end [of obs k] by auto
  have "(\<Sum>x \<in> fst ` set obs - {k}. ?h (obs @ [(k, f, c)]) x) = (\<Sum>x \<in> fst ` set obs - {k}. ?h obs x)"
    by (intro sum.cong) (auto simp: last_end_snoc anchor_snoc split: option.splits)
  moreover have "?h (obs @ [(k, f, c)]) k = ?h obs k + (max e (f + c) - e)"
    using Some a by (simp add: last_end_snoc anchor_snoc)
  moreover have "fst ` set (obs @ [(k, f, c)]) = fst ` set obs"
    using k by (auto simp: insert_absorb)
  ultimately show ?thesis
    using Some k unfolding distance_def by (simp add: sum.remove [of "fst ` set obs" k] del: set_append)
qed

lemma track_state:
  assumes "obs_ok obs" "m_expected_by_session t = Map.empty"
  shows "m_expected_by_session (fst (track obs (t, s))) = last_end obs \<and>
    m_messages_seen (fst (track obs (t, s))) + m_gap_count (fst (track obs (t, s))) =
      m_messages_seen t + m_gap_count t + distance obs"
  using assms(1)
proof (induction obs rule: rev_induct)
  case Nil
  then show ?case
    using assms(2) by (auto simp: track_def last_end_def distance_def)
next
  case (snoc ob obs)
  obtain k f c where ob: "ob = (k, f, c)"
    by (cases ob)
  obtain t1 s1 where t1: "track obs (t, s) = (t1, s1)"
    by (cases "track obs (t, s)")
  have ok: "obs_ok obs" "no_wrap f c"
    using snoc.prems by (simp_all add: ob obs_ok_snoc)
  have IH: "m_expected_by_session t1 = last_end obs"
    "m_messages_seen t1 + m_gap_count t1 = m_messages_seen t + m_gap_count t + distance obs"
    using snoc.IH [OF ok(1)] t1 by simp_all
  show ?case
  proof (cases "last_end obs k")
    case None
    then show ?thesis
      using IH observe_new [of t1 k f c s1]
      by (auto simp: ob track_snoc t1 distance_snoc last_end_snoc fun_eq_iff algebra_simps)
  next
    case (Some e)
    then show ?thesis
      using IH observe_known [of t1 k e f c s1] ok(2)
      by (auto simp: ob track_snoc t1 distance_snoc last_end_snoc fun_eq_iff algebra_simps)
  qed
qed

section \<open>Properties\<close>

text \<open>
  C29. Accounting: for any interleaving of observations of any sessions whose sequence ranges do
  not wrap, and any callbacks, the tracker expects for each session the largest end of its
  packets, and the messages counted as seen plus those counted as missing are exactly the
  sequence numbers between the first observed one and the expected one, summed over the sessions.
\<close>

theorem tracker_accounting:
  assumes "obs_ok obs"
  shows "let t = fst (track obs (set_gap_callback cb (set_retransmit_requester rq SequenceTracker_init), s)) in
    (\<forall>k. expected_next t k = last_end obs k) \<and>
    m_messages_seen t + m_gap_count t = (\<Sum>k \<in> fst ` set obs. the (last_end obs k) - the (anchor obs k))"
  using track_state [OF assms, of "set_gap_callback cb (set_retransmit_requester rq SequenceTracker_init)" s]
  by (simp add: SequenceTracker_init_def set_gap_callback_def set_retransmit_requester_def expected_next_def
      distance_def Let_def)

theorem tracker_accounting_witness:
  "obs_ok [(''A'', 1, 10), (''B'', 5, 2), (''A'', 21, 10)] \<and>
   (let t = fst (track [(''A'', 1, 10), (''B'', 5, 2), (''A'', 21, 10)]
       (set_gap_callback None (set_retransmit_requester None SequenceTracker_init), ())) in
    expected_next t ''A'' = Some 31 \<and> m_messages_seen t + m_gap_count t = 32)"
proof -
  let ?obs = "[(''A'', 1, 10), (''B'', 5, 2), (''A'', 21, 10)] :: observation list"
  have ok: "obs_ok ?obs"
    by (simp add: obs_ok_def no_wrap_def)
  have ends: "last_end ?obs ''A'' = Some 31" "last_end ?obs ''B'' = Some 7"
    "anchor ?obs ''A'' = Some 1" "anchor ?obs ''B'' = Some 5"
    by (simp_all add: last_end_def anchor_def)
  have "fst ` set ?obs = {''A'', ''B''}"
    by auto
  then have "(\<Sum>k \<in> fst ` set ?obs. the (last_end ?obs k) - the (anchor ?obs k)) = 32"
    by (simp add: ends)
  then show ?thesis
    using tracker_accounting [OF ok, of None None "()"] ok ends(1) unfolding Let_def by metis
qed

text \<open>
  Replays: a packet that lies entirely below the expected sequence number of its session
  (a duplicate, or the retransmission of a gap) changes neither the expectation nor a counter,
  reports no gap and notifies nobody.
\<close>

theorem tracker_replay_ignored:
  assumes "expected_next t session = Some e" "no_wrap f c" "f + c \<le> e"
  shows "observe session f c (t, s) = (0, t, s)"
proof -
  have "\<not> f > e"
    using no_wrap_le [OF assms(2)] assms(3) by (simp add: not_less order_trans)
  moreover have "max e (f + c) = e"
    using assms(3) by (simp add: max_def)
  moreover have "(m_expected_by_session t)(session \<mapsto> e) = m_expected_by_session t"
    using assms(1) by (simp add: expected_next_def fun_upd_idem)
  ultimately show ?thesis
    using observe_known [of t session e f c s] assms(1,2) by (simp add: expected_next_def)
qed

theorem tracker_replay_ignored_witness:
  "let t = fst (track [(''A'', 1, 10), (''A'', 21, 10)] (SequenceTracker_init, ())) in
   expected_next t ''A'' = Some 31 \<and> observe ''A'' 11 10 (t, ()) = (0, t, ())"
proof -
  let ?t = "fst (track [(''A'', 1, 10), (''A'', 21, 10)] (SequenceTracker_init, ()))"
  have e: "expected_next ?t ''A'' = Some 31"
    by (simp add: track_def observe_def SequenceTracker_init_def expected_next_def)
  moreover have "no_wrap 11 10" "(11 + 10 :: u64) \<le> 31"
    by (simp_all add: no_wrap_def)
  ultimately show ?thesis
    using tracker_replay_ignored [of ?t "''A''" 31 11 10 "()"] by (simp add: Let_def)
qed

text \<open>
  In-order delivery: when every packet starts at the end of the previous one, no gap is
  reported, no callback runs, and every message is counted as seen.
\<close>

fun in_order :: "u64 \<Rightarrow> u64 list \<Rightarrow> (u64 \<times> u64) list" where
  "in_order f [] = []"
| "in_order f (c # cs) = (f, c) # in_order (f + c) cs"

lemma track_in_order:
  assumes "unat f + sum_list (map unat cs) < 2 ^ 64" "m_expected_by_session t session = Some f"
  shows "track (map (\<lambda>(f, c). (session, f, c)) (in_order f cs)) (t, s) =
    (t\<lparr>m_messages_seen := m_messages_seen t + sum_list cs,
       m_expected_by_session := (m_expected_by_session t)(session \<mapsto> f + sum_list cs)\<rparr>, s)"
  using assms
proof (induction cs arbitrary: f t)
  case Nil
  then show ?case
    by (simp add: track_def fun_upd_idem)
next
  case (Cons c cs)
  have ok: "no_wrap f c" "unat (f + c) = unat f + unat c"
    using Cons.prems(1) by (simp_all add: no_wrap_def unat_word_ariths(1))
  let ?t = "t\<lparr>m_messages_seen := m_messages_seen t + c, m_expected_by_session := (m_expected_by_session t)(session \<mapsto> f + c)\<rparr>"
  have "observe session f c (t, s) = (0, ?t, s)"
    using observe_known [OF Cons.prems(2) ok(1), of s] no_wrap_le [OF ok(1)] by (simp add: max_def)
  then have "track (map (\<lambda>(f, c). (session, f, c)) (in_order f (c # cs))) (t, s) =
      track (map (\<lambda>(f, c). (session, f, c)) (in_order (f + c) cs)) (?t, s)"
    by (simp add: track_def)
  also have "\<dots> = (?t\<lparr>m_messages_seen := m_messages_seen ?t + sum_list cs,
       m_expected_by_session := (m_expected_by_session ?t)(session \<mapsto> f + c + sum_list cs)\<rparr>, s)"
    using Cons.prems(1) ok(2) by (intro Cons.IH) simp_all
  finally show ?case
    by (simp add: add.assoc) (simp add: fun_upd_def)
qed

theorem tracker_in_order_no_gap:
  assumes "unat f + sum_list (map unat cs) < 2 ^ 64" "expected_next t session = Some f"
  shows "track (map (\<lambda>(f, c). (session, f, c)) (in_order f cs)) (t, s) =
    (t\<lparr>m_messages_seen := m_messages_seen t + sum_list cs,
       m_expected_by_session := (m_expected_by_session t)(session \<mapsto> f + sum_list cs)\<rparr>, s)"
  using track_in_order [OF assms(1), of t session s] assms(2) by (simp add: expected_next_def)

theorem tracker_in_order_no_gap_witness:
  "let t = fst (track [(''A'', 1, 3)] (SequenceTracker_init, ())) in
   expected_next t ''A'' = Some 4 \<and>
   m_gap_count (fst (track (map (\<lambda>(f, c). (''A'', f, c)) (in_order 4 [2, 5])) (t, ()))) = 0"
proof -
  let ?t = "fst (track [(''A'', 1, 3)] (SequenceTracker_init, ()))"
  have e: "expected_next ?t ''A'' = Some 4" "m_gap_count ?t = 0"
    by (simp_all add: track_def observe_def SequenceTracker_init_def expected_next_def)
  moreover have "unat (4 :: u64) + sum_list (map unat [2, 5 :: u64]) < 2 ^ 64"
    by simp
  ultimately show ?thesis
    using tracker_in_order_no_gap [of 4 "[2, 5]" ?t "''A''" "()"] by (simp add: Let_def)
qed

end
