(* ===== verification/Mold_UDP64.thy ===== *)
theory Mold_UDP64
  imports Encoder Sequencing
begin

text \<open>
  \<^verbatim>\<open>MoldUdp64Decoder\<close> of \<^verbatim>\<open>include/itch/transport/moldudp64.hpp\<close> and \<^verbatim>\<open>src/transport/moldudp64.cpp\<close>:
  it strips the 20-byte header of a datagram, feeds the sequence tracker and hands the message
  blocks to the parser. The client state of type \<open>'s\<close> is what the message callback changes.
\<close>

section \<open>The decoder\<close>

record MoldUdp64Header =
  session :: "char list"
  sequence_number :: u64
  message_count :: u16

definition END_OF_SESSION :: u16 where
  "END_OF_SESSION = 0xFFFF"

definition HEADER_SIZE :: nat where
  "HEADER_SIZE = 20"

definition session_view :: "MoldUdp64Header \<Rightarrow> string" where
  "session_view h = take (trim_len is_pad (session h) (length (session h))) (session h)"

definition is_heartbeat :: "MoldUdp64Header \<Rightarrow> bool" where
  "is_heartbeat h \<longleftrightarrow> message_count h = 0"

definition is_end_of_session :: "MoldUdp64Header \<Rightarrow> bool" where
  "is_end_of_session h \<longleftrightarrow> message_count h = END_OF_SESSION"

record 's MoldUdp64Decoder =
  m_parser :: "(u64 \<times> 's) Parser"
  m_callback :: "('s \<Rightarrow> Message \<Rightarrow> 's) option"
  m_tracker :: "'s SequenceTracker"
  m_packets_decoded :: u64
  m_messages_decoded :: u64

definition MoldUdp64Decoder_new :: "('s \<Rightarrow> Message \<Rightarrow> 's) option \<Rightarrow> 's MoldUdp64Decoder" where
  "MoldUdp64Decoder_new callback = \<lparr>m_parser = Parser_init, m_callback = callback,
     m_tracker = SequenceTracker_init, m_packets_decoded = 0, m_messages_decoded = 0\<rparr>"

definition read_big_endian :: "byte list \<Rightarrow> nat \<Rightarrow> 'a::len word option" where
  "read_big_endian data offset = do {
     bs \<leftarrow> memcpy_from data offset (LENGTH('a) div 8);
     Some (from_big_endian (object_of native bs)) }"

definition read_header :: "byte list \<Rightarrow> MoldUdp64Header option" where
  "read_header packet = do {
     bs \<leftarrow> memcpy_from packet 0 10;
     sequence \<leftarrow> read_big_endian packet 10;
     count \<leftarrow> read_big_endian packet 18;
     Some \<lparr>session = map char_of_byte bs, sequence_number = sequence, message_count = count\<rparr> }"

text \<open>The lambda handed to the parser: count, then forward.\<close>

definition counting_callback ::
  "('s \<Rightarrow> Message \<Rightarrow> 's) option \<Rightarrow> u64 \<times> 's \<Rightarrow> Message \<Rightarrow> u64 \<times> 's" where
  "counting_callback callback = (\<lambda>(n, s) m. (n + 1, case callback of None \<Rightarrow> s | Some cb \<Rightarrow> cb s m))"

text \<open>The exception of the parser is caught and dropped.\<close>

definition decode_packet ::
  "byte list \<Rightarrow> 's MoldUdp64Decoder \<times> 's \<Rightarrow> (MoldUdp64Header option \<times> 's MoldUdp64Decoder \<times> 's) option" where
  "decode_packet packet = (\<lambda>(d, s).
     if length packet < HEADER_SIZE then Some (None, d, s)
     else do {
       let d = d\<lparr>m_packets_decoded := m_packets_decoded d + 1\<rparr>;
       header \<leftarrow> read_header packet;
       if is_end_of_session header then Some (Some header, d, s)
       else do {
         let (_, tracker, s) =
           observe (session_view header) (sequence_number header) (ucast (message_count header)) (m_tracker d, s);
         let d = d\<lparr>m_tracker := tracker\<rparr>;
         if is_heartbeat header then Some (Some header, d, s)
         else do {
           blocks \<leftarrow> subspan_from packet HEADER_SIZE;
           (_, p, n, s) \<leftarrow> parse (counting_callback (m_callback d)) blocks (m_parser d) (m_messages_decoded d, s);
           Some (Some header, d\<lparr>m_parser := p, m_messages_decoded := n\<rparr>, s) } } })"

section \<open>Reference semantics of a datagram\<close>

definition mold_header :: "byte list \<Rightarrow> MoldUdp64Header" where
  "mold_header packet = \<lparr>session = map char_of_byte (take 10 packet),
     sequence_number = object_of Big (take 8 (drop 10 packet)),
     message_count = object_of Big (take 2 (drop 18 packet))\<rparr>"

text \<open>The messages a data packet carries.\<close>

definition mold_messages :: "byte list \<Rightarrow> Message list" where
  "mold_messages packet = frame_messages (fst (split_frames (drop 20 packet)))"

lemma read_big_endian_eq:
  assumes "whole TYPE('a::len word)" "offset + LENGTH('a) div 8 \<le> length data"
  shows "read_big_endian data offset = Some (object_of Big (take (LENGTH('a) div 8) (drop offset data)) :: 'a word)"
  using from_big_endian_on_load [OF assms(1), of "take (LENGTH('a) div 8) (drop offset data)" native] assms(2)
  by (simp add: read_big_endian_def from_big_endian_def)

lemma read_header_eq: "20 \<le> length packet \<Longrightarrow> read_header packet = Some (mold_header packet)"
  using read_big_endian_eq [where 'a = 64, of 10 packet] read_big_endian_eq [where 'a = 16, of 18 packet]
  by (simp add: read_header_def mold_header_def)

lemma fold_counting:
  "fold (\<lambda>m s. counting_callback callback s m) ms (n, s) =
    (n + of_nat (length ms), fold (\<lambda>m s. case callback of None \<Rightarrow> s | Some cb \<Rightarrow> cb s m) ms s)"
  by (induction ms arbitrary: n s) (simp_all add: counting_callback_def)

text \<open>Nothing installs an error callback on the private parser.\<close>

definition mold_ok :: "'s MoldUdp64Decoder \<Rightarrow> bool" where
  "mold_ok d \<longleftrightarrow> m_error_callback (m_parser d) = None"

lemma parse_counting:
  assumes "m_error_callback p = None"
  shows "\<exists>r p'. parse (counting_callback callback) data p (n, s) = Some (r, p',
      n + of_nat (length (frame_messages (fst (split_frames data)))),
      fold (\<lambda>m s. case callback of None \<Rightarrow> s | Some cb \<Rightarrow> cb s m) (frame_messages (fst (split_frames data))) s) \<and>
    m_error_callback p' = None"
  using assms by (auto simp: parse_def parse_collect Let_def fold_counting)

lemma decode_packet_data:
  assumes "mold_ok d" "20 \<le> length packet"
    and "\<not> is_end_of_session (mold_header packet)" "\<not> is_heartbeat (mold_header packet)"
    and "observe (session_view (mold_header packet)) (sequence_number (mold_header packet))
      (ucast (message_count (mold_header packet))) (m_tracker d, s) = (g, tracker, s1)"
  shows "\<exists>p. decode_packet packet (d, s) = Some (Some (mold_header packet),
      d\<lparr>m_packets_decoded := m_packets_decoded d + 1, m_tracker := tracker, m_parser := p,
        m_messages_decoded := m_messages_decoded d + of_nat (length (mold_messages packet))\<rparr>,
      fold (\<lambda>m s. case m_callback d of None \<Rightarrow> s | Some cb \<Rightarrow> cb s m) (mold_messages packet) s1) \<and>
    m_error_callback p = None"
  using assms parse_counting [of "m_parser d" "m_callback d" "drop 20 packet" "m_messages_decoded d" s1]
  by (auto simp: decode_packet_def HEADER_SIZE_def read_header_eq mold_ok_def mold_messages_def Let_def)

section \<open>Datagrams of encoded messages\<close>

definition datagram :: "char list \<Rightarrow> u64 \<Rightarrow> Message list \<Rightarrow> byte list" where
  "datagram sess seq ms =
     map byte_of_char sess @ put seq @ put (of_nat (length ms) :: u16) @ concat (map encode_frame ms)"

lemma datagram_header:
  assumes "length sess = 10" "length ms < 0xFFFF"
  shows "mold_header (datagram sess seq ms) =
      \<lparr>session = sess, sequence_number = seq, message_count = of_nat (length ms)\<rparr>"
    "drop 20 (datagram sess seq ms) = concat (map encode_frame ms)" "20 \<le> length (datagram sess seq ms)"
  using assms by (simp_all add: mold_header_def datagram_def comp_def)

lemma datagram_messages:
  assumes "length sess = 10" "length ms < 0xFFFF" "\<forall>m \<in> set ms. wf_message m"
  shows "mold_messages (datagram sess seq ms) = ms"
proof -
  have "\<forall>m \<in> set ms. wf_arrays m"
    using assms(3) by (simp add: wf_message_def)
  then show ?thesis
    by (simp add: mold_messages_def datagram_header [OF assms(1,2)] split_frames_encode_all frames_of_encoded [OF assms(3)])
qed

lemma of_nat_u16_cases:
  assumes "n < 0xFFFF"
  shows "(of_nat n :: u16) \<noteq> 0xFFFF" "(of_nat n :: u16) = 0 \<longleftrightarrow> n = 0" "ucast (of_nat n :: u16) = (of_nat n :: u64)"
proof -
  have u: "unat (of_nat n :: u16) = n"
    using assms by (simp add: unat_of_nat take_bit_nat_eq_self)
  then show "(of_nat n :: u16) \<noteq> 0xFFFF" "(of_nat n :: u16) = 0 \<longleftrightarrow> n = 0"
    using assms by (auto simp: word_unat_eq_iff)
  show "ucast (of_nat n :: u16) = (of_nat n :: u64)"
    using u assms by (simp add: word_unat_eq_iff unsigned_ucast_eq unat_of_nat take_bit_nat_eq_self)
qed

text \<open>Consecutive datagrams of one session.\<close>

fun datagrams :: "char list \<Rightarrow> u64 \<Rightarrow> Message list list \<Rightarrow> byte list list" where
  "datagrams sess seq [] = []"
| "datagrams sess seq (ms # mss) = datagram sess seq ms # datagrams sess (seq + of_nat (length ms)) mss"

definition mold_step :: "byte list \<Rightarrow> 's MoldUdp64Decoder \<times> 's \<Rightarrow> ('s MoldUdp64Decoder \<times> 's) option" where
  "mold_step packet ds = map_option snd (decode_packet packet ds)"

text \<open>The decoder is in step with a stream that continues at \<open>seq\<close>.\<close>

definition in_step :: "string \<Rightarrow> u64 \<Rightarrow> 's MoldUdp64Decoder \<Rightarrow> bool" where
  "in_step name seq d \<longleftrightarrow> mold_ok d \<and> expected_next (m_tracker d) name \<in> {None, Some seq}"

lemma mold_step_datagram:
  assumes "length sess = 10" "length ms < 0xFFFF" "\<forall>m \<in> set ms. wf_message m"
    and d: "in_step (session_view \<lparr>session = sess, sequence_number = seq, message_count = of_nat (length ms)\<rparr>) seq d"
    and "unat seq + length ms < 2 ^ 64"
  shows "\<exists>d'. mold_step (datagram sess seq ms) (d, s) =
      Some (d', fold (\<lambda>m s. case m_callback d of None \<Rightarrow> s | Some cb \<Rightarrow> cb s m) ms s) \<and>
    in_step (session_view \<lparr>session = sess, sequence_number = seq, message_count = of_nat (length ms)\<rparr>)
      (seq + of_nat (length ms)) d' \<and> m_callback d' = m_callback d \<and>
    m_gap_count (m_tracker d') = m_gap_count (m_tracker d) \<and>
    m_messages_seen (m_tracker d') = m_messages_seen (m_tracker d) + of_nat (length ms) \<and>
    m_messages_decoded d' = m_messages_decoded d + of_nat (length ms)"
proof -
  let ?h = "\<lparr>session = sess, sequence_number = seq, message_count = of_nat (length ms)\<rparr>"
  let ?n = "of_nat (length ms) :: u64"
  let ?name = "session_view ?h"
  let ?t = "m_tracker d"
  note dg = datagram_header [OF assms(1,2), of seq] and msgs = datagram_messages [OF assms(1-3), of seq]
  note width = of_nat_u16_cases [OF assms(2)]
  have nw: "no_wrap seq ?n"
    using assms(2,5) by (simp add: no_wrap_def unat_of_nat take_bit_nat_eq_self)
  obtain tracker where obs: "observe ?name seq ?n (?t, s) = (0, tracker, s)" "m_gap_count tracker = m_gap_count ?t"
    "m_messages_seen tracker = m_messages_seen ?t + ?n" "expected_next tracker ?name = Some (seq + ?n)"
    using d observe_new [of ?t ?name seq ?n s] observe_known [of ?t ?name seq seq ?n s] nw no_wrap_le [OF nw]
    unfolding in_step_def expected_next_def by (auto simp: max_def)
  show ?thesis
  proof (cases "ms = []")
    case True
    then show ?thesis
      using dg obs d by (simp add: mold_step_def decode_packet_def HEADER_SIZE_def read_header_eq
          is_end_of_session_def END_OF_SESSION_def is_heartbeat_def in_step_def mold_ok_def Let_def)
  next
    case False
    obtain p where "decode_packet (datagram sess seq ms) (d, s) = Some (Some ?h,
      d\<lparr>m_packets_decoded := m_packets_decoded d + 1, m_tracker := tracker, m_parser := p,
        m_messages_decoded := m_messages_decoded d + ?n\<rparr>,
      fold (\<lambda>m s. case m_callback d of None \<Rightarrow> s | Some cb \<Rightarrow> cb s m) ms s)" "m_error_callback p = None"
      using decode_packet_data [of d "datagram sess seq ms" s 0 tracker s] d dg msgs obs width False
      by (auto simp: in_step_def is_end_of_session_def END_OF_SESSION_def is_heartbeat_def)
    then show ?thesis
      using obs(2-4) by (simp add: mold_step_def in_step_def mold_ok_def)
  qed
qed

definition session_name :: "char list \<Rightarrow> string" where
  "session_name sess = take (trim_len is_pad sess (length sess)) sess"

lemma session_view_name: "session_view \<lparr>session = sess, sequence_number = q, message_count = c\<rparr> = session_name sess"
  by (simp add: session_view_def session_name_def)

lemma mold_stream:
  assumes "length sess = 10" "\<forall>ms \<in> set mss. length ms < 0xFFFF \<and> (\<forall>m \<in> set ms. wf_message m)"
    and "in_step (session_name sess) seq d" "unat seq + length (concat mss) < 2 ^ 64"
  shows "\<exists>d'. run_steps mold_step (datagrams sess seq mss) (d, s) =
      Some (d', fold (\<lambda>m s. case m_callback d of None \<Rightarrow> s | Some cb \<Rightarrow> cb s m) (concat mss) s) \<and>
    m_gap_count (m_tracker d') = m_gap_count (m_tracker d) \<and>
    m_messages_seen (m_tracker d') = m_messages_seen (m_tracker d) + of_nat (length (concat mss)) \<and>
    m_messages_decoded d' = m_messages_decoded d + of_nat (length (concat mss))"
  using assms(2-)
proof (induction mss arbitrary: seq d s)
  case (Cons ms mss)
  let ?n = "of_nat (length ms) :: u64"
  let ?s = "fold (\<lambda>m s. case m_callback d of None \<Rightarrow> s | Some cb \<Rightarrow> cb s m) ms s"
  obtain d1 where d1: "mold_step (datagram sess seq ms) (d, s) = Some (d1, ?s)"
    "in_step (session_name sess) (seq + ?n) d1" "m_callback d1 = m_callback d"
    "m_gap_count (m_tracker d1) = m_gap_count (m_tracker d)"
    "m_messages_seen (m_tracker d1) = m_messages_seen (m_tracker d) + ?n"
    "m_messages_decoded d1 = m_messages_decoded d + ?n"
    using mold_step_datagram [OF assms(1), of ms seq d s] Cons.prems by (auto simp: session_view_name)
  have "unat (seq + ?n) + length (concat mss) < 2 ^ 64"
    using Cons.prems(1,3) by (simp add: unat_word_ariths(1) unat_of_nat take_bit_nat_eq_self)
  then show ?case
    using Cons.IH [OF _ d1(2), of ?s] Cons.prems(1) d1 by (auto simp: add.assoc)
qed simp

section \<open>Properties\<close>

text \<open>
  For every datagram and every decoder state the decoder returns without reading outside the
  datagram. A datagram shorter than the header gives no header and changes nothing, not even the
  packet counter. Otherwise the packet is counted and the header returned; an end-of-session
  packet does nothing else; a heartbeat only feeds the tracker; a data packet feeds the tracker
  and then delivers, in order, exactly the messages of its complete, well-formed blocks, a
  truncated tail being dropped.
\<close>

theorem mold_decode_packet:
  assumes "mold_ok d"
  shows "if length packet < 20 then decode_packet packet (d, s) = Some (None, d, s)
    else let h = mold_header packet; d1 = d\<lparr>m_packets_decoded := m_packets_decoded d + 1\<rparr>;
           (g, tracker, s1) = observe (session_view h) (sequence_number h) (ucast (message_count h)) (m_tracker d, s)
      in if message_count h = 0xFFFF then decode_packet packet (d, s) = Some (Some h, d1, s)
         else if message_count h = 0 then decode_packet packet (d, s) = Some (Some h, d1\<lparr>m_tracker := tracker\<rparr>, s1)
         else \<exists>p. decode_packet packet (d, s) = Some (Some h,
             d1\<lparr>m_tracker := tracker, m_parser := p,
                m_messages_decoded := m_messages_decoded d + of_nat (length (mold_messages packet))\<rparr>,
             fold (\<lambda>m s. case m_callback d of None \<Rightarrow> s | Some cb \<Rightarrow> cb s m) (mold_messages packet) s1) \<and>
           mold_ok (d1\<lparr>m_parser := p\<rparr>)"
proof (cases "length packet < 20")
  case False
  obtain g tracker s1 where "observe (session_view (mold_header packet)) (sequence_number (mold_header packet))
      (ucast (message_count (mold_header packet))) (m_tracker d, s) = (g, tracker, s1)"
    by (metis prod_cases3)
  then show ?thesis
    using False decode_packet_data [OF assms, of packet s g tracker s1]
    by (auto simp: decode_packet_def HEADER_SIZE_def read_header_eq is_end_of_session_def END_OF_SESSION_def
        is_heartbeat_def mold_ok_def Let_def)
qed (simp add: decode_packet_def HEADER_SIZE_def)

theorem mold_decode_packet_witness:
  "mold_ok (MoldUdp64Decoder_new (None :: (unit \<Rightarrow> Message \<Rightarrow> unit) option)) \<and>
   decode_packet [1, 2, 3] (MoldUdp64Decoder_new (None :: (unit \<Rightarrow> Message \<Rightarrow> unit) option), ()) =
     Some (None, MoldUdp64Decoder_new None, ())"
proof -
  have ok: "mold_ok (MoldUdp64Decoder_new (None :: (unit \<Rightarrow> Message \<Rightarrow> unit) option))"
    by (simp add: mold_ok_def MoldUdp64Decoder_new_def)
  then show ?thesis
    using mold_decode_packet [OF ok, of "[1, 2, 3]" "()"] by simp
qed

text \<open>
  C28. End to end: when well-formed messages are encoded, packed into consecutive datagrams of one
  session (empty ones, heartbeats, included) and decoded in order, every message reaches the
  callback once and in order, all are counted as decoded and as seen, and no gap is reported.
\<close>

theorem mold_delivers_stream:
  assumes "length sess = 10" "\<forall>ms \<in> set mss. length ms < 0xFFFF \<and> (\<forall>m \<in> set ms. wf_message m)"
    and "unat seq + length (concat mss) < 2 ^ 64"
  shows "\<exists>d. run_steps mold_step (datagrams sess seq mss) (MoldUdp64Decoder_new (Some cb), s) =
      Some (d, fold (\<lambda>m s. cb s m) (concat mss) s) \<and>
    m_gap_count (m_tracker d) = 0 \<and> m_messages_seen (m_tracker d) = of_nat (length (concat mss)) \<and>
    m_messages_decoded d = of_nat (length (concat mss))"
  using mold_stream [OF assms(1,2) _ assms(3), of "MoldUdp64Decoder_new (Some cb)" s]
  by (simp add: in_step_def mold_ok_def expected_next_def MoldUdp64Decoder_new_def SequenceTracker_init_def)

theorem mold_delivers_stream_witness:
  "\<exists>d. run_steps mold_step (datagrams ''SESSION001'' 7 [[AddOrder sample_add], [], [AddOrder sample_add]])
      (MoldUdp64Decoder_new (Some (\<lambda>ms m. ms @ [m])), []) =
      Some (d, [AddOrder sample_add, AddOrder sample_add]) \<and> m_gap_count (m_tracker d) = 0"
proof -
  let ?mss = "[[AddOrder sample_add], [], [AddOrder sample_add]]"
  have "\<forall>ms \<in> set ?mss. length ms < 0xFFFF \<and> (\<forall>m \<in> set ms. wf_message m)"
    using wf_sample_add by simp
  then show ?thesis
    using mold_delivers_stream [of "''SESSION001''" ?mss 7 "\<lambda>ms m. ms @ [m]" "[]"] by auto
qed

end
