(* ===== verification/Pcap.thy ===== *)
theory Pcap
  imports Mold_UDP64
begin

text \<open>
  \<^verbatim>\<open>PcapReader\<close> of \<^verbatim>\<open>include/itch/transport/pcap.hpp\<close> and \<^verbatim>\<open>src/transport/pcap.cpp\<close>: it walks a
  classic pcap or a pcapng capture in memory, unwraps link layer, IP and UDP of every frame and
  hands the UDP payloads to the MoldUDP64 decoder. An outer \<open>None\<close> is an access outside the capture; \<^verbatim>\<open>std::nullopt\<close> is the inner one.
\<close>

section \<open>Reading fields\<close>

definition read_le_or_be :: "byte list \<Rightarrow> nat \<Rightarrow> bool \<Rightarrow> 'a::len word option" where
  "read_le_or_be data offset swapped = do {
     bs \<leftarrow> memcpy_from data offset (LENGTH('a) div 8);
     let value = object_of native bs;
     Some (if swapped then swap_bytes value else value) }"

definition read_net :: "byte list \<Rightarrow> nat \<Rightarrow> 'a::len word option" where
  "read_net data offset = do {
     bs \<leftarrow> memcpy_from data offset (LENGTH('a) div 8);
     Some (from_big_endian (object_of native bs)) }"

definition LINKTYPE_ETHERNET :: u32 where
  "LINKTYPE_ETHERNET = 1"

definition LINKTYPE_RAW :: u32 where
  "LINKTYPE_RAW = 101"

definition LINKTYPE_LINUX_SLL :: u32 where
  "LINKTYPE_LINUX_SLL = 113"

definition ETHERTYPE_IPV4 :: u16 where
  "ETHERTYPE_IPV4 = 0x0800"

definition ETHERTYPE_IPV6 :: u16 where
  "ETHERTYPE_IPV6 = 0x86DD"

definition ETHERTYPE_VLAN :: u16 where
  "ETHERTYPE_VLAN = 0x8100"

definition IP_PROTOCOL_UDP :: byte where
  "IP_PROTOCOL_UDP = 17"

definition ETHERNET_HEADER_SIZE :: nat where
  "ETHERNET_HEADER_SIZE = 14"

definition VLAN_TAG_SIZE :: nat where
  "VLAN_TAG_SIZE = 4"

definition LINUX_SLL_HEADER_SIZE :: nat where
  "LINUX_SLL_HEADER_SIZE = 16"

definition IPV6_HEADER_SIZE :: nat where
  "IPV6_HEADER_SIZE = 40"

definition UDP_HEADER_SIZE :: nat where
  "UDP_HEADER_SIZE = 8"

definition PCAP_MAGIC :: u32 where
  "PCAP_MAGIC = 0xA1B2C3D4"

definition PCAP_MAGIC_SWAPPED :: u32 where
  "PCAP_MAGIC_SWAPPED = 0xD4C3B2A1"

definition PCAP_MAGIC_NANO :: u32 where
  "PCAP_MAGIC_NANO = 0xA1B23C4D"

definition PCAP_MAGIC_NANO_SWP :: u32 where
  "PCAP_MAGIC_NANO_SWP = 0x4D3CB2A1"

definition PCAPNG_BLOCK_SHB :: u32 where
  "PCAPNG_BLOCK_SHB = 0x0A0D0D0A"

lemmas pcap_consts = LINKTYPE_ETHERNET_def LINKTYPE_RAW_def LINKTYPE_LINUX_SLL_def
  ETHERTYPE_IPV4_def ETHERTYPE_IPV6_def ETHERTYPE_VLAN_def IP_PROTOCOL_UDP_def
  PCAP_MAGIC_def PCAP_MAGIC_SWAPPED_def PCAP_MAGIC_NANO_def PCAP_MAGIC_NANO_SWP_def PCAPNG_BLOCK_SHB_def

lemmas pcap_sizes [simp] = ETHERNET_HEADER_SIZE_def VLAN_TAG_SIZE_def LINUX_SLL_HEADER_SIZE_def
  IPV6_HEADER_SIZE_def UDP_HEADER_SIZE_def

section \<open>Link layer, IP and UDP\<close>

function vlan_loop :: "byte list \<Rightarrow> u16 \<Rightarrow> nat \<Rightarrow> (u16 \<times> nat) option" where
  "vlan_loop frame ethertype header =
     (if ethertype = ETHERTYPE_VLAN \<and> length frame \<ge> header + VLAN_TAG_SIZE
      then case read_net frame (header + 2) of
             None \<Rightarrow> None
           | Some ethertype \<Rightarrow> vlan_loop frame ethertype (header + VLAN_TAG_SIZE)
      else Some (ethertype, header))"
  by pat_completeness auto
termination
  by (relation "measure (\<lambda>(frame, ethertype, header). length frame - header)") auto

declare vlan_loop.simps [simp del]

definition strip_link_layer :: "byte list \<Rightarrow> u32 \<Rightarrow> byte list option option" where
  "strip_link_layer frame link_type =
     (if link_type = LINKTYPE_ETHERNET then
        if length frame < ETHERNET_HEADER_SIZE then Some None
        else do {
          ethertype \<leftarrow> read_net frame 12;
          (ethertype, header) \<leftarrow> vlan_loop frame ethertype ETHERNET_HEADER_SIZE;
          if ethertype \<noteq> ETHERTYPE_IPV4 \<and> ethertype \<noteq> ETHERTYPE_IPV6 then Some None
          else do { network \<leftarrow> subspan_from frame header; Some (Some network) } }
      else if link_type = LINKTYPE_LINUX_SLL then
        if length frame < LINUX_SLL_HEADER_SIZE then Some None
        else do { network \<leftarrow> subspan_from frame LINUX_SLL_HEADER_SIZE; Some (Some network) }
      else Some (if link_type \<noteq> LINKTYPE_RAW then None else Some frame))"

record 's PcapReader =
  m_mold :: "'s MoldUdp64Decoder"
  m_port_filter :: "u16 option"
  m_udp_datagrams :: u64

definition PcapReader_new :: "('s \<Rightarrow> Message \<Rightarrow> 's) option \<Rightarrow> 's PcapReader" where
  "PcapReader_new callback =
     \<lparr>m_mold = MoldUdp64Decoder_new callback, m_port_filter = None, m_udp_datagrams = 0\<rparr>"

definition set_udp_port_filter :: "u16 \<Rightarrow> 's PcapReader \<Rightarrow> 's PcapReader" where
  "set_udp_port_filter port r = r\<lparr>m_port_filter := Some port\<rparr>"

definition clear_udp_port_filter :: "'s PcapReader \<Rightarrow> 's PcapReader" where
  "clear_udp_port_filter r = r\<lparr>m_port_filter := None\<rparr>"

text \<open>Protocol and length of the IP header; the inner \<open>None\<close> rejects the packet.\<close>

definition ip_header :: "byte list \<Rightarrow> (byte \<times> nat) option option" where
  "ip_header network = do {
     b \<leftarrow> vec_at network 0;
     let version = drop_bit 4 b;
     if version = 4 then do {
       let ip_header_len = unat (b AND 0x0F) * 4;
       if length network < ip_header_len \<or> ip_header_len < 20 then Some None
       else do { protocol \<leftarrow> vec_at network 9; Some (Some (protocol, ip_header_len)) } }
     else if version = 6 then
       if length network < IPV6_HEADER_SIZE then Some None
       else do { protocol \<leftarrow> vec_at network 6; Some (Some (protocol, IPV6_HEADER_SIZE)) }
     else Some None }"

definition extract_udp_payload :: "'s PcapReader \<Rightarrow> byte list \<Rightarrow> byte list option option" where
  "extract_udp_payload r network =
     (if network = [] then Some None
      else do {
        header \<leftarrow> ip_header network;
        case header of
          None \<Rightarrow> Some None
        | Some (protocol, ip_header_len) \<Rightarrow>
            if protocol \<noteq> IP_PROTOCOL_UDP then Some None
            else do {
              udp \<leftarrow> subspan_from network ip_header_len;
              if length udp < UDP_HEADER_SIZE then Some None
              else do {
                dst_port \<leftarrow> read_net udp 2;
                if m_port_filter r \<noteq> None \<and> dst_port \<noteq> the (m_port_filter r) then Some None
                else do {
                  udp_length \<leftarrow> (read_net udp 4 :: u16 option);
                  let payload_len = size_minus (length udp) UDP_HEADER_SIZE;
                  let payload_len = (if unat udp_length \<ge> UDP_HEADER_SIZE
                    then min payload_len (size_minus (unat udp_length) UDP_HEADER_SIZE) else payload_len);
                  payload \<leftarrow> subspan udp UDP_HEADER_SIZE payload_len;
                  Some (Some payload) } } } })"

definition handle_frame :: "byte list \<Rightarrow> u32 \<Rightarrow> 's PcapReader \<times> 's \<Rightarrow> ('s PcapReader \<times> 's) option" where
  "handle_frame frame link_type = (\<lambda>(r, s). do {
     network \<leftarrow> strip_link_layer frame link_type;
     case network of
       None \<Rightarrow> Some (r, s)
     | Some network \<Rightarrow> do {
         payload \<leftarrow> extract_udp_payload r network;
         case payload of
           None \<Rightarrow> Some (r, s)
         | Some payload \<Rightarrow> do {
             let r = r\<lparr>m_udp_datagrams := m_udp_datagrams r + 1\<rparr>;
             (_, mold, s) \<leftarrow> decode_packet payload (m_mold r, s);
             Some (r\<lparr>m_mold := mold\<rparr>, s) } } })"

section \<open>Classic pcap\<close>

function classic_loop ::
  "byte list \<Rightarrow> bool \<Rightarrow> u32 \<Rightarrow> nat \<Rightarrow> 's PcapReader \<times> 's \<Rightarrow> ('s PcapReader \<times> 's) option" where
  "classic_loop capture swapped link_type offset rs =
     (if \<not> offset + 16 \<le> length capture then Some rs
      else case read_le_or_be capture (offset + 8) swapped of
        None \<Rightarrow> None
      | Some incl_len \<Rightarrow>
          if offset + 16 + unat (incl_len :: u32) > length capture then Some rs
          else case subspan capture (offset + 16) (unat incl_len) of
            None \<Rightarrow> None
          | Some frame \<Rightarrow>
              (case handle_frame frame link_type rs of
                 None \<Rightarrow> None
               | Some rs \<Rightarrow> classic_loop capture swapped link_type (offset + 16 + unat incl_len) rs))"
  by pat_completeness auto
termination
  by (relation "measure (\<lambda>(capture, swapped, link_type, offset, rs). length capture - offset)") auto

declare classic_loop.simps [simp del]

definition read_classic_pcap ::
  "byte list \<Rightarrow> bool \<Rightarrow> 's PcapReader \<times> 's \<Rightarrow> (bool \<times> 's PcapReader \<times> 's) option" where
  "read_classic_pcap capture swapped rs =
     (if length capture < 24 then Some (False, rs)
      else do {
        link_type \<leftarrow> read_le_or_be capture 20 swapped;
        rs \<leftarrow> classic_loop capture swapped link_type 24 rs;
        Some (True, rs) })"

section \<open>Pcapng\<close>

text \<open>The body of the block loop: the new byte order, interfaces and reader state.\<close>

definition pcapng_block ::
  "byte list \<Rightarrow> nat \<Rightarrow> u32 \<Rightarrow> u32 \<Rightarrow> bool \<times> u32 list \<times> 's PcapReader \<times> 's \<Rightarrow>
    (bool \<times> u32 list \<times> 's PcapReader \<times> 's) option" where
  "pcapng_block capture offset block_type total_length = (\<lambda>(swapped, interface_link_types, rs).
     if block_type = PCAPNG_BLOCK_SHB then do {
       bom \<leftarrow> (read_net capture (offset + 8) :: u32 option);
       bs \<leftarrow> memcpy_from capture (offset + 8) 4;
       let bom_native = (object_of native bs :: u32);
       Some (bom_native \<noteq> 0x1A2B3C4D, [], rs) }
     else if block_type = 1 then do {
       link_type \<leftarrow> (read_le_or_be capture (offset + 8) swapped :: u16 option);
       Some (swapped, interface_link_types @ [ucast link_type], rs) }
     else if block_type = 6 then
       if unat total_length \<ge> 28 + 4 then do {
         iface \<leftarrow> (read_le_or_be capture (offset + 8) swapped :: u32 option);
         cap_len \<leftarrow> (read_le_or_be capture (offset + 8 + 12) swapped :: u32 option);
         if offset + 28 + unat cap_len \<le> length capture \<and> unat iface < length interface_link_types
         then do {
           frame \<leftarrow> subspan capture (offset + 28) (unat cap_len);
           link_type \<leftarrow> vec_at interface_link_types (unat iface);
           rs \<leftarrow> handle_frame frame link_type rs;
           Some (swapped, interface_link_types, rs) }
         else Some (swapped, interface_link_types, rs) }
       else Some (swapped, interface_link_types, rs)
     else if block_type = 3 then
       if unat total_length \<ge> 12 + 4 \<and> interface_link_types \<noteq> [] then do {
         let data_len = size_minus (size_minus (unat total_length) 12) 4;
         frame \<leftarrow> subspan capture (offset + 12) data_len;
         link_type \<leftarrow> vec_at interface_link_types 0;
         rs \<leftarrow> handle_frame frame link_type rs;
         Some (swapped, interface_link_types, rs) }
       else Some (swapped, interface_link_types, rs)
     else Some (swapped, interface_link_types, rs))"

function pcapng_loop ::
  "byte list \<Rightarrow> nat \<Rightarrow> bool \<times> u32 list \<times> 's PcapReader \<times> 's \<Rightarrow> (bool \<times> u32 list \<times> 's PcapReader \<times> 's) option" where
  "pcapng_loop capture offset st =
     (if \<not> offset + 8 \<le> length capture then Some st
      else case memcpy_from capture offset 4 of
        None \<Rightarrow> None
      | Some bs \<Rightarrow>
          let block_type = (object_of native bs :: u32);
              block_swapped = (if block_type = PCAPNG_BLOCK_SHB then False else fst st)
          in case read_le_or_be capture (offset + 4) block_swapped of
               None \<Rightarrow> None
             | Some total_length \<Rightarrow>
                 if unat (total_length :: u32) < 8 + 4 \<or> offset + unat total_length > length capture then Some st
                 else case pcapng_block capture offset block_type total_length st of
                   None \<Rightarrow> None
                 | Some st \<Rightarrow> pcapng_loop capture (offset + unat total_length) st)"
  by pat_completeness auto
termination
  by (relation "measure (\<lambda>(capture, offset, st). length capture - offset)") auto

declare pcapng_loop.simps [simp del]

definition read_pcapng :: "byte list \<Rightarrow> 's PcapReader \<times> 's \<Rightarrow> (bool \<times> 's PcapReader \<times> 's) option" where
  "read_pcapng capture rs = do {
     (_, _, rs) \<leftarrow> pcapng_loop capture 0 (False, [], rs);
     Some (True, rs) }"

definition pcap_read :: "byte list \<Rightarrow> 's PcapReader \<times> 's \<Rightarrow> (bool \<times> 's PcapReader \<times> 's) option" where
  "pcap_read capture rs =
     (if length capture < 4 then Some (False, rs)
      else do {
        bs \<leftarrow> memcpy_from capture 0 4;
        let magic = object_of native bs;
        if magic = PCAP_MAGIC \<or> magic = PCAP_MAGIC_NANO then read_classic_pcap capture False rs
        else if magic = PCAP_MAGIC_SWAPPED \<or> magic = PCAP_MAGIC_NANO_SWP then read_classic_pcap capture True rs
        else if magic = PCAPNG_BLOCK_SHB then read_pcapng capture rs
        else Some (False, rs) })"

text \<open>The files that can be opened, with their contents, are a parameter.\<close>

definition pcap_read_file ::
  "(string \<rightharpoonup> byte list) \<Rightarrow> string \<Rightarrow> 's PcapReader \<times> 's \<Rightarrow> (bool \<times> 's PcapReader \<times> 's) option" where
  "pcap_read_file files path rs = (case files path of None \<Rightarrow> Some (False, rs) | Some raw \<Rightarrow> pcap_read raw rs)"

section \<open>Fields of either byte order\<close>

lemma unat_of_nat_small: "n < 2 ^ LENGTH('a) \<Longrightarrow> unat (of_nat n :: 'a::len word) = n"
  by (simp add: unat_of_nat take_bit_nat_eq_self)

lemma read_net_big: "read_net data offset = read_big_endian data offset"
  by (simp add: read_net_def read_big_endian_def)

lemma read_net_at:
  fixes w :: "'a::len word"
  assumes "whole TYPE('a word)" "offset = length a"
  shows "read_net (a @ bytes_of Big w @ b) offset = Some w"
proof -
  have "LENGTH('a) div 8 = sizeof w"
    by (simp add: sizeof_def)
  then show ?thesis
    using read_big_endian_eq [OF assms(1), of offset "a @ bytes_of Big w @ b"] assms(2) object_of_bytes_of [OF assms(1), of Big w]
    by (simp add: read_net_big)
qed

lemma read_le_or_be_at:
  fixes w :: "'a::len word"
  assumes "whole TYPE('a word)" "offset = length a"
  shows "read_le_or_be (a @ bytes_of e w @ b) offset (e \<noteq> native) = Some w"
proof -
  have size: "LENGTH('a) div 8 = sizeof w"
    by (simp add: sizeof_def)
  have "swap_bytes (object_of native (bytes_of Big w) :: 'a word) = object_of Big (bytes_of Big w)"
    using from_big_endian_on_load [OF assms(1), of "bytes_of Big w" Little] size
    by (simp add: swap_bytes_def native_def from_big_endian_on_def)
  then show ?thesis
    using assms size by (cases e) (simp_all add: read_le_or_be_def native_def object_of_bytes_of)
qed

lemma read_net_Some: "offset + LENGTH('a) div 8 \<le> length data \<Longrightarrow> \<exists>v. read_net data offset = Some (v :: 'a::len word)"
  by (simp add: read_net_def)

lemma read_le_or_be_Some:
  "offset + LENGTH('a) div 8 \<le> length data \<Longrightarrow> \<exists>v. read_le_or_be data offset swapped = Some (v :: 'a::len word)"
  by (simp add: read_le_or_be_def Let_def)

section \<open>No access leaves the capture\<close>

lemma vlan_loop_Some:
  "header \<le> length frame \<Longrightarrow> \<exists>t h. vlan_loop frame ethertype header = Some (t, h) \<and> h \<le> length frame"
proof (induction frame ethertype header rule: vlan_loop.induct)
  case (1 frame ethertype header)
  show ?case
  proof (cases "ethertype = ETHERTYPE_VLAN \<and> length frame \<ge> header + VLAN_TAG_SIZE")
    case True
    then obtain v :: u16 where "read_net frame (header + 2) = Some v"
      using read_net_Some [of "header + 2" frame, where 'a = 16] by auto
    then show ?thesis
      using 1 True by (subst vlan_loop.simps) simp
  next
    case False
    then show ?thesis
      using 1 by (subst vlan_loop.simps) auto
  qed
qed

lemma strip_link_layer_Some: "\<exists>x. strip_link_layer frame link_type = Some x"
proof (cases "link_type = LINKTYPE_ETHERNET \<and> \<not> length frame < ETHERNET_HEADER_SIZE")
  case True
  then obtain v :: u16 where v: "read_net frame 12 = Some v"
    using read_net_Some [of 12 frame, where 'a = 16] by auto
  obtain t h where "vlan_loop frame v 14 = Some (t, h)" "h \<le> length frame"
    using vlan_loop_Some [of 14 frame v] True by auto
  then show ?thesis
    using True v by (simp add: strip_link_layer_def)
qed (auto simp: strip_link_layer_def)

lemma ip_header_Some:
  assumes "network \<noteq> []"
  shows "\<exists>x. ip_header network = Some x \<and> (\<forall>p n. x = Some (p, n) \<longrightarrow> n \<le> length network)"
  using assms by (auto simp: ip_header_def Let_def vec_at_def)

lemma extract_udp_payload_Some: "\<exists>x. extract_udp_payload r network = Some x"
proof (cases "network = []")
  case False
  obtain x where x: "ip_header network = Some x" "\<forall>p n. x = Some (p, n) \<longrightarrow> n \<le> length network"
    using ip_header_Some [OF False] by blast
  show ?thesis
  proof (cases x)
    case None
    then show ?thesis
      using False x by (simp add: extract_udp_payload_def)
  next
    case (Some pn)
    obtain p n where pn: "x = Some (p, n)" and le: "n \<le> length network"
      using Some x(2) by (cases pn) simp
    show ?thesis
    proof (cases "length (drop n network) < UDP_HEADER_SIZE")
      case True
      then show ?thesis
        using False x(1) pn le by (simp add: extract_udp_payload_def)
    next
      case big: False
      obtain v w :: u16 where "read_net (drop n network) 2 = Some v" "read_net (drop n network) 4 = Some w"
        using read_net_Some [of 2 "drop n network", where 'a = 16] read_net_Some [of 4 "drop n network", where 'a = 16] big
        by auto
      then show ?thesis
        using False x(1) pn le big by (simp add: extract_udp_payload_def Let_def)
    qed
  qed
qed (simp add: extract_udp_payload_def)

lemma decode_packet_Some: "\<exists>x. decode_packet packet ds = Some x"
proof (cases ds)
  case (Pair d s)
  show ?thesis
  proof (cases "length packet < 20")
    case False
    obtain g t s1 where obs: "observe (session_view (mold_header packet)) (sequence_number (mold_header packet))
        (ucast (message_count (mold_header packet))) (m_tracker d, s) = (g, t, s1)"
      by (metis prod_cases3)
    obtain p r n s2 where "parse (counting_callback (m_callback d)) (drop 20 packet) (m_parser d) (m_messages_decoded d, s1) =
        Some (r, p, n, s2)"
      using parse_Some [of "counting_callback (m_callback d)" "drop 20 packet" "m_parser d" "(m_messages_decoded d, s1)"] by auto
    then show ?thesis
      using False obs by (simp add: Pair decode_packet_def HEADER_SIZE_def read_header_eq Let_def)
  qed (simp add: Pair decode_packet_def HEADER_SIZE_def)
qed

lemma handle_frame_Some: "\<exists>rs'. handle_frame frame link_type rs = Some rs'"
proof (cases rs)
  case (Pair r s)
  obtain x where x: "strip_link_layer frame link_type = Some x"
    using strip_link_layer_Some by blast
  show ?thesis
  proof (cases x)
    case None
    then show ?thesis
      using x by (simp add: Pair handle_frame_def)
  next
    case (Some network)
    obtain y where y: "extract_udp_payload r network = Some y"
      using extract_udp_payload_Some by blast
    show ?thesis
    proof (cases y)
      case None
      then show ?thesis
        using x y Some by (simp add: Pair handle_frame_def)
    next
      case payload: (Some payload)
      obtain z where "decode_packet payload (m_mold r, s) = Some z"
        using decode_packet_Some by blast
      then show ?thesis
        using x y Some payload by (cases z) (simp add: Pair handle_frame_def Let_def)
    qed
  qed
qed

lemma classic_loop_Some: "\<exists>rs'. classic_loop capture swapped link_type offset rs = Some rs'"
proof (induction capture swapped link_type offset rs rule: classic_loop.induct)
  case (1 capture swapped link_type offset rs)
  show ?case
  proof (cases "offset + 16 \<le> length capture")
    case True
    then obtain v :: u32 where v: "read_le_or_be capture (offset + 8) swapped = Some v"
      using read_le_or_be_Some [of "offset + 8" capture swapped, where 'a = 32] by auto
    obtain rs' where "handle_frame (take (unat v) (drop (offset + 16) capture)) link_type rs = Some rs'"
      using handle_frame_Some by blast
    then show ?thesis
      using 1 True v by (subst classic_loop.simps) simp
  qed (subst classic_loop.simps, simp)
qed

lemma pcapng_block_Some:
  assumes "12 \<le> unat total_length" "offset + unat total_length \<le> length capture"
  shows "\<exists>st'. pcapng_block capture offset block_type total_length st = Some st'"
proof -
  obtain swapped types rs where st: "st = (swapped, types, rs)"
    by (cases st)
  have frame: "\<exists>st'. do { rs \<leftarrow> handle_frame f lt rs; Some (swapped, types, rs) } = Some st'" for f lt
    using handle_frame_Some [of f lt rs] by auto
  have "\<exists>v :: u32. read_net capture (offset + 8) = Some v" "\<exists>v :: u16. read_le_or_be capture (offset + 8) swapped = Some v"
    using assms by (auto intro!: read_net_Some read_le_or_be_Some)
  moreover have "\<exists>v :: u32. read_le_or_be capture (offset + 8) swapped = Some v"
    "\<exists>v :: u32. read_le_or_be capture (offset + 8 + 12) swapped = Some v" if "32 \<le> unat total_length"
    using assms that by (auto intro!: read_le_or_be_Some)
  ultimately show ?thesis
    using assms frame unfolding st pcapng_block_def by (auto simp: Let_def simp del: split_paired_Ex)
qed

lemma pcapng_loop_Some: "\<exists>st'. pcapng_loop capture offset st = Some st'"
proof (induction capture offset st rule: pcapng_loop.induct)
  case (1 capture offset st)
  show ?case
  proof (cases "offset + 8 \<le> length capture")
    case True
    let ?t = "object_of native (take 4 (drop offset capture)) :: u32"
    let ?sw = "if ?t = PCAPNG_BLOCK_SHB then False else fst st"
    obtain v :: u32 where v: "read_le_or_be capture (offset + 4) ?sw = Some v"
      using read_le_or_be_Some [of "offset + 4" capture ?sw, where 'a = 32] True by auto
    show ?thesis
    proof (cases "unat v < 8 + 4 \<or> offset + unat v > length capture")
      case False
      then obtain st' where "pcapng_block capture offset ?t v st = Some st'"
        using pcapng_block_Some [of v offset capture ?t st] by auto
      then show ?thesis
        using 1 True v False by (subst pcapng_loop.simps) (simp add: Let_def)
    next
      case True
      then show ?thesis
        using v \<open>offset + 8 \<le> length capture\<close> by (subst pcapng_loop.simps) (simp add: Let_def del: split_paired_Ex)
    qed
  qed (subst pcapng_loop.simps, simp del: split_paired_Ex)
qed

section \<open>Frames that carry a datagram\<close>

text \<open>An IPv4 header (with or without options) or an IPv6 header that announces UDP.\<close>

definition udp_carrier :: "byte list \<Rightarrow> bool" where
  "udp_carrier ip \<longleftrightarrow>
     (20 \<le> length ip \<and> length ip = unat (ip ! 0 AND 0x0F) * 4 \<and> drop_bit 4 (ip ! 0) = 4 \<and> ip ! 9 = 17) \<or>
     (length ip = 40 \<and> drop_bit 4 (ip ! 0) = 6 \<and> ip ! 6 = 17)"

definition udp_packet :: "u16 \<Rightarrow> u16 \<Rightarrow> u16 \<Rightarrow> byte list \<Rightarrow> byte list" where
  "udp_packet src dst checksum payload =
     bytes_of Big src @ bytes_of Big dst @ bytes_of Big (of_nat (length payload + 8) :: u16) @ bytes_of Big checksum @ payload"

lemma ip_header_carrier:
  assumes "udp_carrier ip"
  shows "ip_header (ip @ rest) = Some (Some (17, length ip))"
  using assms by (auto simp: udp_carrier_def ip_header_def nth_append Let_def)

text \<open>The type fields of an Ethernet frame behind any number of VLAN tags, then the packet.\<close>

fun vlan_chain :: "u16 \<Rightarrow> byte list \<Rightarrow> u16 list \<Rightarrow> byte list" where
  "vlan_chain ethertype net [] = bytes_of Big ethertype @ net"
| "vlan_chain ethertype net (tci # tags) = bytes_of Big ETHERTYPE_VLAN @ bytes_of Big tci @ vlan_chain ethertype net tags"

definition first_type :: "u16 \<Rightarrow> u16 list \<Rightarrow> u16" where
  "first_type ethertype tags = (if tags = [] then ethertype else ETHERTYPE_VLAN)"

lemma vlan_chain_type: "\<exists>rest. vlan_chain ethertype net tags = bytes_of Big (first_type ethertype tags) @ rest"
  by (cases tags) (auto simp: first_type_def)

lemma vlan_chain_suffix: "\<exists>u. vlan_chain ethertype net tags = u @ net"
proof (induction tags)
  case (Cons tci tags)
  then obtain u where "vlan_chain ethertype net tags = u @ net" ..
  then have "vlan_chain ethertype net (tci # tags) = (bytes_of Big ETHERTYPE_VLAN @ bytes_of Big tci @ u) @ net"
    by simp
  then show ?case ..
qed simp

lemma vlan_chain_length: "length (vlan_chain ethertype net tags) = 2 + 4 * length tags + length net"
  by (induction tags) simp_all

lemma vlan_loop_chain:
  assumes "ethertype \<noteq> ETHERTYPE_VLAN" "frame = pre @ vlan_chain ethertype net tags" "header = length pre + 2"
  shows "vlan_loop frame (first_type ethertype tags) header = Some (ethertype, length frame - length net)"
  using assms(2,3)
proof (induction tags arbitrary: pre header)
  case Nil
  then show ?case
    using assms(1) by (subst vlan_loop.simps) (simp add: first_type_def)
next
  case (Cons tci tags)
  let ?pre = "pre @ bytes_of Big ETHERTYPE_VLAN @ bytes_of Big tci"
  have frame: "frame = ?pre @ vlan_chain ethertype net tags"
    using Cons.prems(1) by simp
  obtain rest where "vlan_chain ethertype net tags = bytes_of Big (first_type ethertype tags) @ rest"
    using vlan_chain_type by blast
  then have "read_net frame (header + 2) = Some (first_type ethertype tags)"
    using read_net_at [of "header + 2" ?pre "first_type ethertype tags" rest] frame Cons.prems(2) by simp
  moreover have "vlan_loop frame (first_type ethertype tags) (header + 4) = Some (ethertype, length frame - length net)"
    using Cons.prems(2) by (intro Cons.IH [of ?pre] frame) simp
  moreover have "header + 4 \<le> length frame"
    using frame Cons.prems(2) vlan_chain_length [of ethertype net tags] by simp
  ultimately show ?case
    by (subst vlan_loop.simps) (simp add: first_type_def [of _ "tci # tags"])
qed

lemma strip_ethernet:
  assumes "length macs = 12" "ethertype \<in> {ETHERTYPE_IPV4, ETHERTYPE_IPV6}"
  shows "strip_link_layer (macs @ vlan_chain ethertype net tags) LINKTYPE_ETHERNET = Some (Some net)"
proof -
  let ?frame = "macs @ vlan_chain ethertype net tags"
  obtain rest where "vlan_chain ethertype net tags = bytes_of Big (first_type ethertype tags) @ rest"
    using vlan_chain_type by blast
  then have "read_net ?frame 12 = Some (first_type ethertype tags)"
    using read_net_at [of 12 macs "first_type ethertype tags" rest] assms(1) by simp
  moreover have "ethertype \<noteq> ETHERTYPE_VLAN"
    using assms(2) by (auto simp: pcap_consts)
  then have "vlan_loop ?frame (first_type ethertype tags) 14 = Some (ethertype, length ?frame - length net)"
    using assms(1) by (intro vlan_loop_chain) simp_all
  moreover have "drop (length ?frame - length net) ?frame = net"
  proof -
    obtain u where u: "vlan_chain ethertype net tags = u @ net"
      using vlan_chain_suffix by blast
    show ?thesis
      unfolding u by simp
  qed
  ultimately show ?thesis
    using assms vlan_chain_length [of ethertype net tags] by (auto simp: strip_link_layer_def)
qed

section \<open>Which frames carry a datagram\<close>

text \<open>
  The packet of a frame, the UDP part of a packet and the payload of both, as concatenations of the
  fields on the wire; nothing here is read at an offset. The length field of UDP cuts the payload when
  it covers the header; a packet cut short by the capture has a shorter payload.
\<close>

definition carries_network :: "u32 \<Rightarrow> byte list \<Rightarrow> byte list \<Rightarrow> bool" where
  "carries_network link_type frame net \<longleftrightarrow>
     (link_type = LINKTYPE_ETHERNET \<and> (\<exists>macs tags ethertype. length macs = 12 \<and>
        ethertype \<in> {ETHERTYPE_IPV4, ETHERTYPE_IPV6} \<and> frame = macs @ vlan_chain ethertype net tags)) \<or>
     (link_type = LINKTYPE_LINUX_SLL \<and> (\<exists>cooked. length cooked = 16 \<and> frame = cooked @ net)) \<or>
     (link_type = LINKTYPE_RAW \<and> frame = net)"

definition carries_payload :: "u16 option \<Rightarrow> byte list \<Rightarrow> byte list \<Rightarrow> bool" where
  "carries_payload port net payload \<longleftrightarrow> (\<exists>ip src dst len checksum data.
     net = ip @ bytes_of Big (src :: u16) @ bytes_of Big dst @ bytes_of Big (len :: u16) @ bytes_of Big (checksum :: u16) @ data \<and>
     udp_carrier ip \<and> port \<in> {None, Some dst} \<and>
     payload = (if unat len < 8 then data else take (unat len - 8) data))"

definition carries_udp :: "u32 \<Rightarrow> u16 option \<Rightarrow> byte list \<Rightarrow> byte list \<Rightarrow> bool" where
  "carries_udp link_type port frame payload \<longleftrightarrow>
     (\<exists>net. carries_network link_type frame net \<and> carries_payload port net payload)"

lemma read_net_bytes:
  assumes "whole TYPE('a::len word)" "read_net data offset = Some (w :: 'a word)"
  shows "data = take offset data @ bytes_of Big w @ drop (offset + sizeof w) data" "offset + sizeof w \<le> length data"
proof -
  have size: "sizeof w = LENGTH('a) div 8"
    by (simp add: sizeof_def)
  show len: "offset + sizeof w \<le> length data"
    using assms(2) unfolding size read_net_def memcpy_from_def by (auto split: if_splits)
  then have "bytes_of Big w = take (sizeof w) (drop offset data)"
    using read_big_endian_eq [OF assms(1), of offset data] bytes_of_object_of [OF assms(1), of "take (sizeof w) (drop offset data)" Big]
      assms(2) by (simp add: size read_net_big)
  then show "data = take offset data @ bytes_of Big w @ drop (offset + sizeof w) data"
    by (metis append_take_drop_id drop_drop add.commute)
qed

lemma vlan_loop_chained:
  assumes "vlan_loop frame ethertype header = Some (t, h)" "2 \<le> header" "header \<le> length frame"
    and "drop (header - 2) frame = bytes_of Big ethertype @ drop header frame"
  shows "h \<le> length frame \<and> (\<exists>tags. drop (header - 2) frame = vlan_chain t (drop h frame) tags)"
  using assms
proof (induction frame ethertype header rule: vlan_loop.induct)
  case (1 frame ethertype header)
  show ?case
  proof (cases "ethertype = ETHERTYPE_VLAN \<and> length frame \<ge> header + VLAN_TAG_SIZE")
    case True
    then obtain next_type :: u16 where r: "read_net frame (header + 2) = Some next_type"
      using read_net_Some [of "header + 2" frame, where 'a = 16] by auto
    have drop_type: "drop (header + 2) frame = bytes_of Big next_type @ drop (header + 4) frame"
      using arg_cong [OF read_net_bytes(1) [OF _ r], of "drop (header + 2)"] True by (simp add: numeral_eq_Suc)
    define tci :: u16 where "tci = object_of Big (take 2 (drop header frame))"
    have "bytes_of Big tci = take 2 (drop header frame)"
      unfolding tci_def using True by (intro bytes_of_object_of) auto
    then have tci: "drop header frame = bytes_of Big tci @ drop (header + 2) frame"
      by (metis append_take_drop_id drop_drop add.commute)
    have "vlan_loop frame next_type (header + VLAN_TAG_SIZE) = Some (t, h)"
      using "1.prems"(1) True r by (subst (asm) vlan_loop.simps) simp
    then obtain tags where "h \<le> length frame" "drop (header + 2) frame = vlan_chain t (drop h frame) tags"
      using "1.IH" [OF True r] "1.prems"(2) True drop_type by auto
    then have "drop (header - 2) frame = vlan_chain t (drop h frame) (tci # tags)"
      using "1.prems"(4) True tci by simp
    then show ?thesis
      using \<open>h \<le> length frame\<close> by blast
  next
    case False
    then have "(t, h) = (ethertype, header)"
      using "1.prems"(1) by (subst (asm) vlan_loop.simps) (auto split: if_splits)
    then have "t = ethertype" "h = header"
      by simp_all
    then have "drop (header - 2) frame = vlan_chain t (drop h frame) []"
      using "1.prems"(4) by simp
    then show ?thesis
      using \<open>h = header\<close> "1.prems"(3) by blast
  qed
qed

lemma strip_link_layer_iff: "strip_link_layer frame link_type = Some (Some net) \<longleftrightarrow> carries_network link_type frame net"
proof
  assume strip: "strip_link_layer frame link_type = Some (Some net)"
  consider (ethernet) "link_type = LINKTYPE_ETHERNET" | (sll) "link_type = LINKTYPE_LINUX_SLL" | (raw) "link_type = LINKTYPE_RAW"
    using strip by (auto simp: strip_link_layer_def split: if_splits)
  then show "carries_network link_type frame net"
  proof cases
    case ethernet
    then have len: "14 \<le> length frame"
      using strip by (auto simp: strip_link_layer_def not_less split: if_splits)
    obtain ethertype :: u16 where r: "read_net frame 12 = Some ethertype"
      using read_net_Some [of 12 frame, where 'a = 16] len by auto
    obtain t h where loop: "vlan_loop frame ethertype 14 = Some (t, h)" "h \<le> length frame"
      using vlan_loop_Some [of 14 frame ethertype] len by auto
    have t: "t \<in> {ETHERTYPE_IPV4, ETHERTYPE_IPV6}" "net = drop h frame"
      using strip ethernet len r loop by (auto simp: strip_link_layer_def split: if_splits)
    have "drop (14 - 2) frame = bytes_of Big ethertype @ drop 14 frame"
      using arg_cong [OF read_net_bytes(1) [OF _ r], of "drop 12"] len by simp
    then obtain tags where "drop 12 frame = vlan_chain t net tags"
      using vlan_loop_chained [OF loop(1)] len t(2) by auto
    then have "frame = take 12 frame @ vlan_chain t net tags" "length (take 12 frame) = 12"
      using append_take_drop_id [of 12 frame] len by simp_all
    then show ?thesis
      unfolding carries_network_def using ethernet t(1) by blast
  next
    case sll
    then have "16 \<le> length frame" "net = drop 16 frame"
      using strip by (auto simp: strip_link_layer_def pcap_consts split: if_splits)
    then have "length (take 16 frame) = 16" "frame = take 16 frame @ net"
      by simp_all
    then show ?thesis
      unfolding carries_network_def using sll by blast
  next
    case raw
    then show ?thesis
      using strip by (auto simp: strip_link_layer_def pcap_consts carries_network_def)
  qed
next
  assume "carries_network link_type frame net"
  then show "strip_link_layer frame link_type = Some (Some net)"
    unfolding carries_network_def using strip_ethernet
    by (elim disjE exE conjE) (auto simp: strip_link_layer_def LINKTYPE_ETHERNET_def LINKTYPE_LINUX_SLL_def LINKTYPE_RAW_def)
qed

lemma ip_header_iff:
  "ip_header net = Some (Some (17, n)) \<longleftrightarrow> n \<le> length net \<and> udp_carrier (take n net)"
proof (cases net)
  case (Cons b rest)
  then have "take n net ! 0 = b" if "0 < n"
    using that by simp
  then show ?thesis
    using Cons by (cases "n = 0"; auto simp: ip_header_def udp_carrier_def Let_def vec_at_def min_def split: if_splits)
qed (simp add: ip_header_def udp_carrier_def vec_at_def)

lemma udp_header_fields:
  assumes "8 \<le> length udp"
  shows "\<exists>(src :: u16) (dst :: u16) (len :: u16) (checksum :: u16).
    udp = bytes_of Big src @ bytes_of Big dst @ bytes_of Big len @ bytes_of Big checksum @ drop 8 udp"
proof -
  have field: "\<exists>w :: u16. drop k udp = bytes_of Big w @ drop j udp" if "k + 2 = j" "j \<le> length udp" for k j
  proof -
    have "k + LENGTH(16) div 8 \<le> length udp"
      using that by simp
    then obtain w :: u16 where "read_net udp k = Some w"
      using read_net_Some by blast
    then have "drop k udp = bytes_of Big w @ drop (k + 2) udp"
      using arg_cong [OF read_net_bytes(1) [of udp k w], of "drop k"] that by simp
    then show ?thesis
      using that(1) by blast
  qed
  obtain src :: u16 where "drop 0 udp = bytes_of Big src @ drop 2 udp"
    using field [of 0 2] assms by auto
  moreover obtain dst :: u16 where "drop 2 udp = bytes_of Big dst @ drop 4 udp"
    using field [of 2 4] assms by auto
  moreover obtain len :: u16 where "drop 4 udp = bytes_of Big len @ drop 6 udp"
    using field [of 4 6] assms by auto
  moreover obtain checksum :: u16 where "drop 6 udp = bytes_of Big checksum @ drop 8 udp"
    using field [of 6 8] assms by auto
  ultimately show ?thesis
    by (metis drop_0)
qed

lemma extract_fields:
  assumes "udp_carrier ip"
  shows "extract_udp_payload r (ip @ bytes_of Big (src :: u16) @ bytes_of Big dst @ bytes_of Big (len :: u16) @ bytes_of Big (checksum :: u16) @ data) =
    Some (if m_port_filter r \<in> {None, Some dst} then Some (if unat len < 8 then data else take (unat len - 8) data) else None)"
proof -
  define udp where "udp = bytes_of Big src @ bytes_of Big dst @ bytes_of Big len @ bytes_of Big checksum @ data"
  have "ip @ udp \<noteq> []"
    using assms by (auto simp: udp_carrier_def)
  moreover have "read_net udp 2 = Some dst"
    using read_net_at [of 2 "bytes_of Big src" dst] by (simp add: udp_def)
  moreover have "read_net udp 4 = Some len"
    using read_net_at [of 4 "bytes_of Big src @ bytes_of Big dst" len] by (simp add: udp_def)
  moreover have "length udp = 8 + length data" "drop 8 udp = data"
    by (simp_all add: udp_def)
  ultimately show ?thesis
    unfolding udp_def [symmetric]
    by (auto simp: extract_udp_payload_def ip_header_carrier [OF assms] IP_PROTOCOL_UDP_def Let_def min_def)
qed

lemma extract_udp_payload_iff: "extract_udp_payload r net = Some (Some payload) \<longleftrightarrow> carries_payload (m_port_filter r) net payload"
proof
  assume some: "extract_udp_payload r net = Some (Some payload)"
  then obtain n where n: "ip_header net = Some (Some (17, n))"
    by (auto simp: extract_udp_payload_def IP_PROTOCOL_UDP_def split: if_splits bind_splits option.splits)
  then have ip: "n \<le> length net" "udp_carrier (take n net)"
    by (simp_all add: ip_header_iff)
  then have "8 \<le> length (drop n net)"
    using some n by (auto simp: extract_udp_payload_def IP_PROTOCOL_UDP_def not_less split: if_splits)
  then obtain src dst len checksum :: u16 where udp: "drop n net =
      bytes_of Big src @ bytes_of Big dst @ bytes_of Big len @ bytes_of Big checksum @ drop 8 (drop n net)"
    using udp_header_fields by blast
  then have net: "net = take n net @ bytes_of Big src @ bytes_of Big dst @ bytes_of Big len @ bytes_of Big checksum @ drop 8 (drop n net)"
    using append_take_drop_id [of n net] by simp
  then have "m_port_filter r \<in> {None, Some dst}"
    "payload = (if unat len < 8 then drop 8 (drop n net) else take (unat len - 8) (drop 8 (drop n net)))"
    using some extract_fields [OF ip(2), of r src dst len checksum "drop 8 (drop n net)"] by (auto split: if_splits)
  then show "carries_payload (m_port_filter r) net payload"
    unfolding carries_payload_def using net ip(2) by blast
next
  assume "carries_payload (m_port_filter r) net payload"
  then obtain ip dst data and src len checksum :: u16 where
    net: "net = ip @ bytes_of Big src @ bytes_of Big dst @ bytes_of Big len @ bytes_of Big checksum @ data"
      "udp_carrier ip" "m_port_filter r \<in> {None, Some dst}"
    and payload: "payload = (if unat len < 8 then data else take (unat len - 8) data)"
    unfolding carries_payload_def by blast
  show "extract_udp_payload r net = Some (Some payload)"
    unfolding net(1) extract_fields [OF net(2)] payload if_P [OF net(3)] ..
qed

lemma handle_carried:
  assumes "carries_udp link_type (m_port_filter r) frame payload"
  shows "\<exists>mold s'. mold_step payload (m_mold r, s) = Some (mold, s') \<and>
    handle_frame frame link_type (r, s) = Some (r\<lparr>m_udp_datagrams := m_udp_datagrams r + 1, m_mold := mold\<rparr>, s')"
proof -
  obtain net where "strip_link_layer frame link_type = Some (Some net)" "extract_udp_payload r net = Some (Some payload)"
    using assms by (auto simp: carries_udp_def strip_link_layer_iff extract_udp_payload_iff)
  moreover obtain h mold s' where "decode_packet payload (m_mold r, s) = Some (h, mold, s')"
    using decode_packet_Some [of payload "(m_mold r, s)"] by auto
  ultimately show ?thesis
    by (simp add: handle_frame_def mold_step_def Let_def)
qed

lemma handle_skipped:
  assumes "\<nexists>payload. carries_udp link_type (m_port_filter r) frame payload"
  shows "handle_frame frame link_type (r, s) = Some (r, s)"
proof -
  obtain x where x: "strip_link_layer frame link_type = Some x"
    using strip_link_layer_Some by blast
  obtain y where "extract_udp_payload r (the x) = Some y"
    using extract_udp_payload_Some by blast
  then show ?thesis
    using assms x by (cases x; cases y)
      (auto simp: handle_frame_def carries_udp_def strip_link_layer_iff [symmetric] extract_udp_payload_iff [symmetric])
qed

lemma carries_udp_unique:
  assumes "carries_udp link_type port frame p" "carries_udp link_type port frame q"
  shows "p = q"
proof -
  let ?r = "(PcapReader_new None :: unit PcapReader)\<lparr>m_port_filter := port\<rparr>"
  obtain net where "strip_link_layer frame link_type = Some (Some net)" "carries_payload port net p"
    using assms(1) by (auto simp: carries_udp_def strip_link_layer_iff)
  moreover from this have "carries_payload port net q"
    using assms(2) by (auto simp: carries_udp_def strip_link_layer_iff [symmetric])
  ultimately have "extract_udp_payload ?r net = Some (Some p)" "extract_udp_payload ?r net = Some (Some q)"
    by (simp_all add: extract_udp_payload_iff)
  then show ?thesis
    by simp
qed

text \<open>The payloads of a list of frames: those of the frames that carry one, in order.\<close>

inductive frame_payloads :: "u32 \<Rightarrow> u16 option \<Rightarrow> byte list list \<Rightarrow> byte list list \<Rightarrow> bool"
  for link_type port where
  No_frames: "frame_payloads link_type port [] []"
| Carried: "frame_payloads link_type port (frame # frames) (payload # payloads)"
    if "carries_udp link_type port frame payload" "frame_payloads link_type port frames payloads"
| Skipped: "frame_payloads link_type port (frame # frames) payloads"
    if "\<nexists>payload. carries_udp link_type port frame payload" "frame_payloads link_type port frames payloads"

inductive_cases frame_payloads_Nil: "frame_payloads link_type port [] payloads"
inductive_cases frame_payloads_Cons: "frame_payloads link_type port (frame # frames) payloads"

lemma frame_payloads_unique:
  "frame_payloads link_type port frames ps \<Longrightarrow> frame_payloads link_type port frames qs \<Longrightarrow> qs = ps"
proof (induction arbitrary: qs rule: frame_payloads.induct)
  case No_frames
  then show ?case
    by (rule frame_payloads_Nil)
next
  case (Carried frame payload frames payloads)
  from Carried.prems show ?case
  proof (rule frame_payloads_Cons)
    fix payload' payloads'
    assume "qs = payload' # payloads'" "carries_udp link_type port frame payload'" "frame_payloads link_type port frames payloads'"
    then show ?case
      using Carried.hyps(1) Carried.IH carries_udp_unique by blast
  next
    assume "\<forall>payload. \<not> carries_udp link_type port frame payload"
    then show ?case
      using Carried.hyps(1) by blast
  qed
next
  case (Skipped frame frames payloads)
  from Skipped.prems show ?case
  proof (rule frame_payloads_Cons)
    fix payload' payloads'
    assume "carries_udp link_type port frame payload'"
    then show ?case
      using Skipped.hyps(1) by blast
  next
    assume "frame_payloads link_type port frames qs"
    then show ?case
      by (rule Skipped.IH)
  qed
qed

lemma handle_frames:
  "\<exists>payloads r' s'. frame_payloads link_type (m_port_filter r) frames payloads \<and>
    run_steps (\<lambda>frame. handle_frame frame link_type) frames (r, s) = Some (r', s') \<and>
    run_steps mold_step payloads (m_mold r, s) = Some (m_mold r', s') \<and>
    m_udp_datagrams r' = m_udp_datagrams r + of_nat (length payloads) \<and> m_port_filter r' = m_port_filter r"
proof (induction frames arbitrary: r s)
  case Nil
  then show ?case
    using No_frames [of link_type "m_port_filter r"] by (intro exI [of _ "[]"] exI [of _ r] exI [of _ s]) simp
next
  case (Cons frame frames)
  show ?case
  proof (cases "\<exists>payload. carries_udp link_type (m_port_filter r) frame payload")
    case True
    then obtain payload where carried: "carries_udp link_type (m_port_filter r) frame payload" ..
    then obtain mold s1 where step: "mold_step payload (m_mold r, s) = Some (mold, s1)"
      "handle_frame frame link_type (r, s) = Some (r\<lparr>m_udp_datagrams := m_udp_datagrams r + 1, m_mold := mold\<rparr>, s1)"
      using handle_carried [of link_type r frame payload s] by auto
    obtain payloads r' s' where IH: "frame_payloads link_type (m_port_filter r) frames payloads"
      "run_steps (\<lambda>frame. handle_frame frame link_type) frames (r\<lparr>m_udp_datagrams := m_udp_datagrams r + 1, m_mold := mold\<rparr>, s1) = Some (r', s')"
      "run_steps mold_step payloads (mold, s1) = Some (m_mold r', s')"
      "m_udp_datagrams r' = m_udp_datagrams r + 1 + of_nat (length payloads)" "m_port_filter r' = m_port_filter r"
      using Cons.IH [of "r\<lparr>m_udp_datagrams := m_udp_datagrams r + 1, m_mold := mold\<rparr>" s1] by auto
    have "frame_payloads link_type (m_port_filter r) (frame # frames) (payload # payloads)"
      using carried IH(1) by (rule Carried)
    then show ?thesis
      using step IH by (intro exI [of _ "payload # payloads"] exI [of _ r'] exI [of _ s']) simp
  next
    case False
    obtain payloads r' s' where IH: "frame_payloads link_type (m_port_filter r) frames payloads"
      "run_steps (\<lambda>frame. handle_frame frame link_type) frames (r, s) = Some (r', s')"
      "run_steps mold_step payloads (m_mold r, s) = Some (m_mold r', s')"
      "m_udp_datagrams r' = m_udp_datagrams r + of_nat (length payloads)" "m_port_filter r' = m_port_filter r"
      using Cons.IH [of r s] by blast
    have "frame_payloads link_type (m_port_filter r) (frame # frames) payloads"
      using False IH(1) by (rule Skipped)
    then show ?thesis
      using handle_skipped [OF False, of s] IH by (intro exI [of _ payloads] exI [of _ r'] exI [of _ s']) simp
  qed
qed

text \<open>An Ethernet frame with a UDP datagram to \<open>dst\<close>, with or without VLAN tags, options and padding.\<close>

definition udp_frame :: "u16 \<Rightarrow> byte list \<Rightarrow> byte list \<Rightarrow> bool" where
  "udp_frame dst payload frame \<longleftrightarrow> length payload + 8 < 2 ^ 16 \<and>
     (\<exists>macs tags ethertype ip src checksum trailer. length macs = 12 \<and> udp_carrier ip \<and>
        ethertype \<in> {ETHERTYPE_IPV4, ETHERTYPE_IPV6} \<and>
        frame = macs @ vlan_chain ethertype (ip @ udp_packet src dst checksum payload @ trailer) tags)"

lemma udp_frame_carries:
  assumes "udp_frame dst payload frame" "port \<in> {None, Some dst}"
  shows "carries_udp LINKTYPE_ETHERNET port frame payload"
proof -
  obtain macs tags ethertype ip src checksum trailer where f: "length macs = 12" "udp_carrier ip"
    "ethertype \<in> {ETHERTYPE_IPV4, ETHERTYPE_IPV6}" "length payload + 8 < 2 ^ 16"
    and frame: "frame = macs @ vlan_chain ethertype (ip @ udp_packet src dst checksum payload @ trailer) tags"
    using assms(1) unfolding udp_frame_def by blast
  have "unat (of_nat (length payload + 8) :: u16) = length payload + 8"
    using f(4) by (intro unat_of_nat_small) simp
  then have "carries_payload port (ip @ udp_packet src dst checksum payload @ trailer) payload"
    unfolding carries_payload_def
    by (intro exI [of _ ip] exI [of _ src] exI [of _ dst] exI [of _ "of_nat (length payload + 8)"] exI [of _ checksum]
        exI [of _ "payload @ trailer"]) (use f(2) assms(2) in \<open>simp add: udp_packet_def\<close>)
  moreover have "carries_network LINKTYPE_ETHERNET frame (ip @ udp_packet src dst checksum payload @ trailer)"
    unfolding carries_network_def using f(1,3) frame by blast
  ultimately show ?thesis
    unfolding carries_udp_def by blast
qed

lemma handle_udp_frames:
  assumes "list_all2 (udp_frame dst) payloads frames" "m_port_filter r \<in> {None, Some dst}"
  shows "\<exists>r' s'. run_steps (\<lambda>frame. handle_frame frame LINKTYPE_ETHERNET) frames (r, s) = Some (r', s') \<and>
    run_steps mold_step payloads (m_mold r, s) = Some (m_mold r', s') \<and>
    m_udp_datagrams r' = m_udp_datagrams r + of_nat (length payloads) \<and> m_port_filter r' = m_port_filter r"
proof -
  have "frame_payloads LINKTYPE_ETHERNET (m_port_filter r) frames payloads"
    using assms(1) by (induction rule: list_all2_induct) (use assms(2) in \<open>auto intro: frame_payloads.intros udp_frame_carries\<close>)
  then show ?thesis
    using handle_frames [of LINKTYPE_ETHERNET r frames s] frame_payloads_unique by blast
qed

section \<open>Capture files\<close>

text \<open>A record of a classic capture: seconds, fraction, original length, captured bytes.\<close>

type_synonym capture_record = "u32 \<times> u32 \<times> u32 \<times> byte list"

definition record_frame :: "capture_record \<Rightarrow> byte list" where
  "record_frame = (\<lambda>(sec, frac, orig_len, frame). frame)"

definition pcap_record :: "endian \<Rightarrow> capture_record \<Rightarrow> byte list" where
  "pcap_record e = (\<lambda>(sec, frac, orig_len, frame).
     bytes_of e sec @ bytes_of e frac @ bytes_of e (of_nat (length frame) :: u32) @ bytes_of e orig_len @ frame)"

definition pcap_file :: "endian \<Rightarrow> u32 \<Rightarrow> u32 \<Rightarrow> u32 \<Rightarrow> capture_record list \<Rightarrow> byte list" where
  "pcap_file e magic snaplen link_type records =
     bytes_of e magic @ bytes_of e (2 :: u16) @ bytes_of e (4 :: u16) @ bytes_of e (0 :: u32) @ bytes_of e (0 :: u32) @
     bytes_of e snaplen @ bytes_of e link_type @ concat (map (pcap_record e) records)"

text \<open>The end of a capture that was cut: inside a record header, or behind one that announces more bytes than follow.\<close>

definition incomplete_record :: "endian \<Rightarrow> byte list \<Rightarrow> bool" where
  "incomplete_record e tail \<longleftrightarrow> length tail < 16 \<or>
     (\<exists>(sec :: u32) (frac :: u32) (incl_len :: u32) (orig_len :: u32) rest.
        tail = bytes_of e sec @ bytes_of e frac @ bytes_of e incl_len @ bytes_of e orig_len @ rest \<and>
        length rest < unat incl_len)"

lemma incomplete_short [simp]: "length tail < 16 \<Longrightarrow> incomplete_record e tail"
  by (simp add: incomplete_record_def)

lemma classic_loop_incomplete:
  assumes "incomplete_record e tail"
  shows "classic_loop (pre @ tail) (e \<noteq> native) link_type (length pre) rs = Some rs"
proof (cases "length tail < 16")
  case True
  then show ?thesis
    by (subst classic_loop.simps) simp
next
  case False
  then obtain sec frac incl_len orig_len :: u32 and rest where
    tail: "tail = bytes_of e sec @ bytes_of e frac @ bytes_of e incl_len @ bytes_of e orig_len @ rest" "length rest < unat incl_len"
    using assms unfolding incomplete_record_def by blast
  have "read_le_or_be (pre @ tail) (length pre + 8) (e \<noteq> native) = Some incl_len"
    using read_le_or_be_at [of "length pre + 8" "pre @ bytes_of e sec @ bytes_of e frac" e incl_len "bytes_of e orig_len @ rest"]
    by (simp add: tail(1))
  then show ?thesis
    using tail(2) False by (subst classic_loop.simps) (simp add: tail(1))
qed

lemma classic_loop_records:
  fixes rs :: "'a PcapReader \<times> 'a"
  assumes "\<forall>rec \<in> set records. length (record_frame rec) < 2 ^ 32" "incomplete_record e tail"
  shows "classic_loop (pre @ concat (map (pcap_record e) records) @ tail) (e \<noteq> native) link_type (length pre) rs =
    run_steps (\<lambda>frame. handle_frame frame link_type) (map record_frame records) rs"
  using assms
proof (induction records arbitrary: pre rs)
  case Nil
  then show ?case
    using classic_loop_incomplete [of e tail] by simp
next
  case (Cons rec records)
  obtain sec frac orig_len frame where rec: "rec = (sec, frac, orig_len, frame)"
    by (cases rec)
  let ?n = "of_nat (length frame) :: u32"
  let ?rest = "concat (map (pcap_record e) records) @ tail"
  let ?pre = "pre @ pcap_record e rec"
  let ?capture = "pre @ concat (map (pcap_record e) (rec # records)) @ tail"
  have n: "unat ?n = length frame"
    using Cons.prems(1) by (intro unat_of_nat_small) (simp add: rec record_frame_def)
  have "read_le_or_be ?capture (length pre + 8) (e \<noteq> native) = Some ?n"
    using read_le_or_be_at [of "length pre + 8" "pre @ bytes_of e sec @ bytes_of e frac" e ?n "bytes_of e orig_len @ frame @ ?rest"]
    by (simp add: rec pcap_record_def)
  moreover have "drop (length pre + 16) ?capture = frame @ ?rest" "length ?capture = length pre + 16 + length frame + length ?rest"
    by (simp_all add: rec pcap_record_def)
  moreover have "length ?pre = length pre + 16 + length frame"
    by (simp add: rec pcap_record_def)
  moreover have "classic_loop ?capture (e \<noteq> native) link_type (length ?pre) rs' =
      run_steps (\<lambda>frame. handle_frame frame link_type) (map record_frame records) rs'" for rs' :: "'a PcapReader \<times> 'a"
    using Cons.IH [of ?pre rs'] Cons.prems by simp
  ultimately show ?case
    by (subst classic_loop.simps) (cases "handle_frame frame link_type rs", simp_all add: n rec record_frame_def add.assoc)
qed

lemma le_bytes_4: "le_bytes 4 v = [of_nat v, of_nat (v div 256), of_nat (v div 256 div 256), of_nat (v div 256 div 256 div 256)]"
proof -
  have four: "(4 :: nat) = Suc (Suc (Suc (Suc 0)))"
    by simp
  show ?thesis
    unfolding four by simp
qed

lemma magic_bytes:
  "object_of native (bytes_of native PCAP_MAGIC) = PCAP_MAGIC" "object_of native (bytes_of native PCAP_MAGIC_NANO) = PCAP_MAGIC_NANO"
  "object_of native (bytes_of Big PCAP_MAGIC) = PCAP_MAGIC_SWAPPED"
  "object_of native (bytes_of Big PCAP_MAGIC_NANO) = PCAP_MAGIC_NANO_SWP"
  "object_of native (bytes_of native PCAPNG_BLOCK_SHB) = PCAPNG_BLOCK_SHB"
  "object_of native (bytes_of Big PCAPNG_BLOCK_SHB) = PCAPNG_BLOCK_SHB"
  by (simp_all add: native_def object_of_def bytes_of_def le_bytes_4 pcap_consts)

lemma magic_distinct:
  "PCAP_MAGIC \<noteq> PCAP_MAGIC_SWAPPED" "PCAP_MAGIC \<noteq> PCAP_MAGIC_NANO_SWP" "PCAP_MAGIC_NANO \<noteq> PCAP_MAGIC_SWAPPED"
  "PCAP_MAGIC_NANO \<noteq> PCAP_MAGIC_NANO_SWP" "PCAPNG_BLOCK_SHB \<notin> {PCAP_MAGIC, PCAP_MAGIC_NANO, PCAP_MAGIC_SWAPPED, PCAP_MAGIC_NANO_SWP}"
  by (simp_all add: pcap_consts)

lemma read_dispatch:
  assumes "4 \<le> length capture" "take 4 capture = bytes_of e magic" "magic \<in> {PCAP_MAGIC, PCAP_MAGIC_NANO}"
  shows "pcap_read capture rs = read_classic_pcap capture (e \<noteq> native) rs"
proof -
  have "e = native \<or> e = Big" "Big \<noteq> native"
    by (cases e; simp add: native_def)+
  then show ?thesis
    using assms magic_distinct by (auto simp: pcap_read_def Let_def magic_bytes)
qed

lemma read_classic:
  assumes "\<forall>rec \<in> set records. length (record_frame rec) < 2 ^ 32" "incomplete_record e tail"
    and "magic \<in> {PCAP_MAGIC, PCAP_MAGIC_NANO}"
  shows "pcap_read (pcap_file e magic snaplen link_type records @ tail) rs =
    map_option (Pair True) (run_steps (\<lambda>frame. handle_frame frame link_type) (map record_frame records) rs)"
proof -
  let ?head = "bytes_of e magic @ bytes_of e (2 :: u16) @ bytes_of e (4 :: u16) @ bytes_of e (0 :: u32) @ bytes_of e (0 :: u32) @
    bytes_of e snaplen"
  let ?capture = "pcap_file e magic snaplen link_type records @ tail"
  have capture: "?capture = (?head @ bytes_of e link_type) @ concat (map (pcap_record e) records) @ tail"
    by (simp add: pcap_file_def)
  have "read_le_or_be ?capture 20 (e \<noteq> native) = Some link_type"
    using read_le_or_be_at [of 20 ?head e link_type "concat (map (pcap_record e) records) @ tail"]
    by (simp add: pcap_file_def)
  moreover have "classic_loop ?capture (e \<noteq> native) link_type 24 rs =
      run_steps (\<lambda>frame. handle_frame frame link_type) (map record_frame records) rs"
    using classic_loop_records [OF assms(1,2), of "?head @ bytes_of e link_type" link_type rs] unfolding capture by simp
  moreover have len: "24 \<le> length ?capture"
    by (simp add: pcap_file_def)
  ultimately have classic: "read_classic_pcap ?capture (e \<noteq> native) rs =
      map_option (Pair True) (run_steps (\<lambda>frame. handle_frame frame link_type) (map record_frame records) rs)"
    by (cases "run_steps (\<lambda>frame. handle_frame frame link_type) (map record_frame records) rs")
      (simp_all add: read_classic_pcap_def)
  have "take 4 ?capture = bytes_of e magic"
    by (simp add: pcap_file_def)
  then show ?thesis
    using classic read_dispatch [of ?capture e magic rs] len assms(3) by simp
qed

section \<open>Pcapng blocks\<close>

definition block :: "u32 \<Rightarrow> u32 \<Rightarrow> byte list \<Rightarrow> byte list" where
  "block block_type total_length body =
     bytes_of native block_type @ bytes_of native total_length @ body @ bytes_of native total_length"

lemma length_block [simp]: "length (block block_type total_length body) = length body + 12"
  by (simp add: block_def)

lemma pcapng_loop_block:
  assumes n: "unat total_length = length body + 12" and capture_def: "capture = pre @ block block_type total_length body @ rest"
  shows "pcapng_loop capture (length pre) (False, types, rs) = do {
    st \<leftarrow> pcapng_block capture (length pre) block_type total_length (False, types, rs);
    pcapng_loop capture (length pre + (length body + 12)) st }"
proof -
  have "take 4 (drop (length pre) capture) = bytes_of native block_type"
    by (simp add: capture_def block_def)
  then have "object_of native (take 4 (drop (length pre) capture)) = block_type"
    by (simp add: object_of_bytes_of)
  moreover have "read_le_or_be capture (length pre + 4) False = Some total_length"
    using read_le_or_be_at [of "length pre + 4" "pre @ bytes_of native block_type" native total_length
        "body @ bytes_of native total_length @ rest"]
    by (simp add: capture_def block_def)
  moreover have "length pre + (length body + 12) \<le> length capture"
    by (simp add: capture_def)
  ultimately show ?thesis
    by (subst pcapng_loop.simps, cases "block_type = PCAPNG_BLOCK_SHB"; cases "pcapng_block capture (length pre) block_type total_length (False, types, rs)")
      (simp_all add: n Let_def)
qed

text \<open>Section header, interface description and enhanced packet blocks in the byte order of the host.\<close>

definition shb :: "u32 \<Rightarrow> byte list \<Rightarrow> byte list" where
  "shb total_length body = block PCAPNG_BLOCK_SHB total_length (bytes_of native (0x1A2B3C4D :: u32) @ body)"

definition idb :: "u32 \<Rightarrow> u16 \<Rightarrow> byte list \<Rightarrow> byte list" where
  "idb total_length link_type body = block 1 total_length (bytes_of native link_type @ body)"

definition epb :: "u32 \<Rightarrow> u32 \<Rightarrow> u64 \<Rightarrow> u32 \<Rightarrow> u32 \<Rightarrow> byte list \<Rightarrow> byte list" where
  "epb total_length iface stamp cap_len orig_len body = block 6 total_length
     (bytes_of native iface @ bytes_of native stamp @ bytes_of native cap_len @ bytes_of native orig_len @ body)"

lemma pcapng_shb:
  assumes "unat total_length = length body + 16" "capture = pre @ shb total_length body @ rest"
  shows "pcapng_loop capture (length pre) (False, types, rs) =
    pcapng_loop capture (length pre + length (shb total_length body)) (False, [], rs)"
proof -
  let ?bom = "0x1A2B3C4D :: u32"
  have drop: "drop (length pre + 8) capture = bytes_of native ?bom @ body @ bytes_of native total_length @ rest"
    by (simp add: assms(2) shb_def block_def)
  then have "take 4 (drop (length pre + 8) capture) = bytes_of native ?bom" "length pre + 12 \<le> length capture"
    using arg_cong [OF drop, of length] by (simp_all del: length_drop) (simp add: assms(2) shb_def)
  moreover obtain v :: u32 where "read_net capture (length pre + 8) = Some v"
    using read_net_Some [of "length pre + 8" capture, where 'a = 32] calculation(2) by auto
  ultimately have "pcapng_block capture (length pre) PCAPNG_BLOCK_SHB total_length (False, types, rs) = Some (False, [], rs)"
    by (simp add: pcapng_block_def object_of_bytes_of Let_def)
  then show ?thesis
    using pcapng_loop_block [of total_length "bytes_of native ?bom @ body" capture pre PCAPNG_BLOCK_SHB rest types rs] assms
    by (simp add: shb_def)
qed

lemma pcapng_idb:
  assumes "unat total_length = length body + 14" "capture = pre @ idb total_length link_type body @ rest"
  shows "pcapng_loop capture (length pre) (False, types, rs) =
    pcapng_loop capture (length pre + length (idb total_length link_type body)) (False, types @ [ucast link_type], rs)"
proof -
  have "read_le_or_be capture (length pre + 8) False = Some link_type"
    using read_le_or_be_at [of "length pre + 8" "pre @ bytes_of native (1 :: u32) @ bytes_of native total_length" native link_type
        "body @ bytes_of native total_length @ rest"]
    by (simp add: assms(2) idb_def block_def)
  then have "pcapng_block capture (length pre) 1 total_length (False, types, rs) = Some (False, types @ [ucast link_type], rs)"
    by (simp add: pcapng_block_def pcap_consts)
  then show ?thesis
    using pcapng_loop_block [of total_length "bytes_of native link_type @ body" capture pre 1 rest types rs] assms
    by (simp add: idb_def)
qed

lemma pcapng_epb:
  assumes "unat iface < length types" "unat total_length = length body + 32" "unat cap_len \<le> length body"
    and "capture = pre @ epb total_length iface stamp cap_len orig_len body @ rest"
  shows "pcapng_loop capture (length pre) (False, types, rs) = do {
    rs \<leftarrow> handle_frame (take (unat cap_len) body) (types ! unat iface) rs;
    pcapng_loop capture (length pre + length (epb total_length iface stamp cap_len orig_len body)) (False, types, rs) }"
proof -
  let ?body = "bytes_of native iface @ bytes_of native stamp @ bytes_of native cap_len @ bytes_of native orig_len @ body"
  let ?head = "pre @ bytes_of native (6 :: u32) @ bytes_of native total_length"
  have "read_le_or_be capture (length pre + 8) False = Some iface"
    using read_le_or_be_at [of "length pre + 8" ?head native iface
      "bytes_of native stamp @ bytes_of native cap_len @ bytes_of native orig_len @ body @ bytes_of native total_length @ rest"]
    by (simp add: assms(4) epb_def block_def)
  moreover have "read_le_or_be capture (length pre + 20) False = Some cap_len"
    using read_le_or_be_at [of "length pre + 20" "?head @ bytes_of native iface @ bytes_of native stamp" native cap_len
      "bytes_of native orig_len @ body @ bytes_of native total_length @ rest"]
    by (simp add: assms(4) epb_def block_def)
  moreover have "take (unat cap_len) (drop (length pre + 28) capture) = take (unat cap_len) body"
    "length pre + 28 + unat cap_len \<le> length capture"
    using assms(3) by (simp_all add: assms(4) epb_def block_def)
  ultimately have "pcapng_block capture (length pre) 6 total_length (False, types, rs) = do {
      rs \<leftarrow> handle_frame (take (unat cap_len) body) (types ! unat iface) rs; Some (False, types, rs) }"
    using assms(1,2) by (simp add: pcapng_block_def pcap_consts add.assoc)
  then show ?thesis
    using pcapng_loop_block [of total_length ?body capture pre 6 rest types rs] assms(2,4)
    by (cases "handle_frame (take (unat cap_len) body) (types ! unat iface) rs") (simp_all add: epb_def)
qed

text \<open>A packet of the first interface: block length, time stamp, captured and original length, data with padding.\<close>

type_synonym ng_packet = "u32 \<times> u64 \<times> u32 \<times> u32 \<times> byte list"

definition ng_ok :: "ng_packet \<Rightarrow> bool" where
  "ng_ok = (\<lambda>(total_length, stamp, cap_len, orig_len, body).
     unat total_length = length body + 32 \<and> unat cap_len \<le> length body)"

definition ng_block :: "ng_packet \<Rightarrow> byte list" where
  "ng_block = (\<lambda>(total_length, stamp, cap_len, orig_len, body). epb total_length 0 stamp cap_len orig_len body)"

definition ng_frame :: "ng_packet \<Rightarrow> byte list" where
  "ng_frame = (\<lambda>(total_length, stamp, cap_len, orig_len, body). take (unat cap_len) body)"

lemma pcapng_packets:
  assumes "list_all ng_ok ps"
  shows "pcapng_loop (pre @ concat (map ng_block ps)) (length pre) (False, [link_type], rs) =
    map_option (\<lambda>rs. (False, [link_type], rs)) (run_steps (\<lambda>frame. handle_frame frame link_type) (map ng_frame ps) rs)"
  using assms
proof (induction ps arbitrary: pre rs)
  case Nil
  then show ?case
    by (subst pcapng_loop.simps) simp
next
  case (Cons p ps)
  obtain total_length stamp cap_len orig_len body where p: "p = (total_length, stamp, cap_len, orig_len, body)"
    by (cases p)
  let ?capture = "pre @ concat (map ng_block (p # ps))"
  have "?capture = pre @ epb total_length 0 stamp cap_len orig_len body @ concat (map ng_block ps)"
    by (simp add: p ng_block_def)
  then have "pcapng_loop ?capture (length pre) (False, [link_type], rs) = do {
      rs \<leftarrow> handle_frame (ng_frame p) link_type rs;
      pcapng_loop ?capture (length (pre @ ng_block p)) (False, [link_type], rs) }"
    using pcapng_epb [of 0 "[link_type]" total_length body cap_len ?capture pre stamp orig_len "concat (map ng_block ps)" rs] Cons.prems
    by (simp add: p ng_ok_def ng_frame_def ng_block_def)
  then show ?case
    using Cons.IH [of "pre @ ng_block p"] Cons.prems by (cases "handle_frame (ng_frame p) link_type rs") simp_all
qed

text \<open>Frames for examples: an empty MoldUDP64 datagram to a port, with a protocol number, over IPv4.\<close>

definition sample_packet :: "byte \<Rightarrow> u16 \<Rightarrow> byte list" where
  "sample_packet protocol port =
     (0x45 # replicate 8 0 @ [protocol] @ replicate 10 0) @ udp_packet 5 port 0 (replicate 20 0)"

definition sample_frame :: "byte \<Rightarrow> u16 \<Rightarrow> byte list" where
  "sample_frame protocol port = replicate 12 0 @ vlan_chain ETHERTYPE_IPV4 (sample_packet protocol port) []"

lemma sample_frame_length: "length (sample_frame protocol port) = 62"
  by (simp add: sample_frame_def sample_packet_def udp_packet_def)

lemma sample_extract:
  "extract_udp_payload r (sample_packet protocol port) =
    Some (if protocol = 17 \<and> m_port_filter r \<in> {None, Some port} then Some (replicate 20 0) else None)"
proof (cases "protocol = 17")
  case True
  then have "udp_carrier (0x45 # replicate 8 0 @ [protocol] @ replicate 10 0)"
    by (simp add: udp_carrier_def nth_append)
  then show ?thesis
    using extract_fields [of "0x45 # replicate 8 0 @ [protocol] @ replicate 10 0" r 5 port 28 0 "replicate 20 0"] True
    by (simp add: sample_packet_def udp_packet_def)
next
  case False
  have "ip_header (sample_packet protocol port) = Some (Some (protocol, 20))"
    by (simp add: ip_header_def sample_packet_def udp_packet_def nth_append Let_def)
  then show ?thesis
    using False by (simp add: extract_udp_payload_def IP_PROTOCOL_UDP_def sample_packet_def)
qed

lemma sample_frame_carries:
  "carries_udp LINKTYPE_ETHERNET port (sample_frame protocol dst) payload \<longleftrightarrow>
    protocol = 17 \<and> port \<in> {None, Some dst} \<and> payload = replicate 20 0"
proof -
  let ?r = "(PcapReader_new None :: unit PcapReader)\<lparr>m_port_filter := port\<rparr>"
  have "strip_link_layer (sample_frame protocol dst) LINKTYPE_ETHERNET = Some (Some (sample_packet protocol dst))"
    unfolding sample_frame_def by (rule strip_ethernet) simp_all
  then have "carries_network LINKTYPE_ETHERNET (sample_frame protocol dst) net \<longleftrightarrow> net = sample_packet protocol dst" for net
    unfolding strip_link_layer_iff [symmetric] by auto
  moreover have "carries_payload port (sample_packet protocol dst) payload \<longleftrightarrow>
      protocol = 17 \<and> port \<in> {None, Some dst} \<and> payload = replicate 20 0"
    using extract_udp_payload_iff [of ?r "sample_packet protocol dst" payload] sample_extract [of ?r protocol dst] by (auto split: if_splits)
  ultimately show ?thesis
    by (simp add: carries_udp_def)
qed

section \<open>Properties\<close>

lemma pcap_read_Some:
  "\<exists>ok r' s'. pcap_read capture (r, s) = Some (ok, r', s') \<and> (ok \<or> (r' = r \<and> s' = s))"
proof -
  have classic: "\<exists>ok r' s'. read_classic_pcap capture swapped (r, s) = Some (ok, r', s') \<and> (ok \<or> (r' = r \<and> s' = s))" for swapped
  proof (cases "length capture < 24")
    case False
    then obtain v :: u32 where "read_le_or_be capture 20 swapped = Some v"
      using read_le_or_be_Some [of 20 capture swapped, where 'a = 32] by auto
    then show ?thesis
      using False classic_loop_Some [of capture swapped v 24 "(r, s)"] by (auto simp: read_classic_pcap_def)
  qed (auto simp: read_classic_pcap_def)
  have "\<exists>r' s'. read_pcapng capture (r, s) = Some (True, r', s')"
    using pcapng_loop_Some [of capture 0 "(False, [], r, s)"] by (auto simp: read_pcapng_def)
  then show ?thesis
    using classic by (auto simp: pcap_read_def Let_def)
qed

text \<open>
  Robustness: for every byte sequence and every reader state the reader ends (all loops
  terminate), never accesses a byte outside the capture, the frame or a header, and when it
  answers \<^verbatim>\<open>false\<close> it has decoded nothing.
\<close>

theorem pcap_read_total:
  "\<exists>ok r' s'. pcap_read capture (r, s) = Some (ok, r', s') \<and> (ok \<or> (r' = r \<and> s' = s))"
  by (rule pcap_read_Some)

text \<open>
  C30. Classic captures: for a capture file in either byte order, with microsecond or nanosecond
  stamps, of any link type and with any frames in its records, the MoldUDP64 decoder gets, in order,
  exactly the payloads of the frames that carry a UDP datagram to an admitted port: Ethernet frames
  behind any number of VLAN tags, cooked or raw packets, with an IPv4 header (with options or not) or an
  IPv6 header that announces UDP, the payload cut to the length of the UDP header. Every other frame
  (another protocol, port, link type, or a frame too short for its headers) is skipped. The payloads
  are determined by the frames, and counted; a record that was cut at the end of the file is ignored.
\<close>

theorem pcap_classic_delivers:
  assumes "\<forall>rec \<in> set records. length (record_frame rec) < 2 ^ 32" "incomplete_record e tail"
    and "magic \<in> {PCAP_MAGIC, PCAP_MAGIC_NANO}"
  shows "\<exists>payloads r' s'. (\<forall>ps. frame_payloads link_type (m_port_filter r) (map record_frame records) ps \<longleftrightarrow> ps = payloads) \<and>
    pcap_read (pcap_file e magic snaplen link_type records @ tail) (r, s) = Some (True, r', s') \<and>
    run_steps mold_step payloads (m_mold r, s) = Some (m_mold r', s') \<and>
    m_udp_datagrams r' = m_udp_datagrams r + of_nat (length payloads) \<and> m_port_filter r' = m_port_filter r"
proof -
  obtain payloads r' s' where p: "frame_payloads link_type (m_port_filter r) (map record_frame records) payloads"
    "run_steps (\<lambda>frame. handle_frame frame link_type) (map record_frame records) (r, s) = Some (r', s')"
    "run_steps mold_step payloads (m_mold r, s) = Some (m_mold r', s')"
    "m_udp_datagrams r' = m_udp_datagrams r + of_nat (length payloads)" "m_port_filter r' = m_port_filter r"
    using handle_frames [of link_type r "map record_frame records" s] by blast
  moreover have "frame_payloads link_type (m_port_filter r) (map record_frame records) ps \<longleftrightarrow> ps = payloads" for ps
    using frame_payloads_unique [OF p(1)] p(1) by blast
  ultimately show ?thesis
    using read_classic [OF assms, of snaplen link_type "(r, s)"] by auto
qed

theorem pcap_classic_delivers_witness:
  "\<exists>r' s'. pcap_read (pcap_file Big PCAP_MAGIC 65535 LINKTYPE_ETHERNET
        [(0, 0, 62, sample_frame 6 1234), (0, 0, 62, sample_frame 17 1234), (0, 0, 62, sample_frame 17 99)] @
        bytes_of Big (0 :: u32) @ bytes_of Big (0 :: u32) @ bytes_of Big (62 :: u32) @ bytes_of Big (62 :: u32) @ [1, 2, 3])
      (set_udp_port_filter 1234 (PcapReader_new None), ()) = Some (True, r', s') \<and> m_udp_datagrams r' = 1"
proof -
  let ?r = "set_udp_port_filter 1234 (PcapReader_new None :: unit PcapReader)"
  let ?records = "[(0, 0, 62, sample_frame 6 1234), (0, 0, 62, sample_frame 17 1234), (0, 0, 62, sample_frame 17 99)] :: capture_record list"
  let ?tail = "bytes_of Big (0 :: u32) @ bytes_of Big (0 :: u32) @ bytes_of Big (62 :: u32) @ bytes_of Big (62 :: u32) @ [1, 2, 3]"
  have port: "m_port_filter ?r = Some 1234" "m_udp_datagrams ?r = 0"
    by (simp_all add: set_udp_port_filter_def PcapReader_new_def)
  have "frame_payloads LINKTYPE_ETHERNET (Some 1234) [sample_frame 6 1234, sample_frame 17 1234, sample_frame 17 99] [replicate 20 0]"
    by (rule Skipped [OF _ Carried [OF _ Skipped [OF _ No_frames]]]) (simp_all add: sample_frame_carries)
  then have "frame_payloads LINKTYPE_ETHERNET (Some 1234) (map record_frame ?records) [replicate 20 0]"
    by (simp add: record_frame_def)
  moreover have "incomplete_record Big ?tail"
    unfolding incomplete_record_def by (intro disjI2 exI conjI) (rule refl, simp)
  moreover have "\<forall>rec \<in> set ?records. length (record_frame rec) < 2 ^ 32"
    by (simp add: record_frame_def sample_frame_length)
  ultimately show ?thesis
    using pcap_classic_delivers [of ?records Big ?tail PCAP_MAGIC LINKTYPE_ETHERNET ?r 65535 "()"] by (auto simp: port)
qed

text \<open>
  Pcapng captures in the byte order of the host: after a section header and one interface
  description, the captured bytes of every enhanced packet block are handled as a frame of that
  interface, in order, and nothing else is.
\<close>

theorem pcapng_delivers:
  assumes "unat shb_length = length shb_body + 16" "unat idb_length = length idb_body + 14" "list_all ng_ok packets"
  shows "pcap_read (shb shb_length shb_body @ idb idb_length link_type idb_body @ concat (map ng_block packets)) rs =
    map_option (Pair True) (run_steps (\<lambda>frame. handle_frame frame (ucast link_type)) (map ng_frame packets) rs)"
proof -
  let ?head = "shb shb_length shb_body @ idb idb_length link_type idb_body"
  let ?rest = "concat (map ng_block packets)"
  let ?capture = "shb shb_length shb_body @ idb idb_length link_type idb_body @ ?rest"
  have "pcapng_loop ?capture 0 (False, [], rs) = pcapng_loop ?capture (length (shb shb_length shb_body)) (False, [], rs)"
    using pcapng_shb [OF assms(1), where pre = "[]" and rest = "idb idb_length link_type idb_body @ ?rest" and types = "[]" and rs = rs, OF refl] by simp
  also have "\<dots> = pcapng_loop ?capture (length ?head) (False, [ucast link_type], rs)"
    using pcapng_idb [OF assms(2), where pre = "shb shb_length shb_body" and link_type = link_type and rest = ?rest and types = "[]" and rs = rs, OF refl] by simp
  finally have "read_pcapng ?capture rs =
      map_option (Pair True) (run_steps (\<lambda>frame. handle_frame frame (ucast link_type)) (map ng_frame packets) rs)"
    using pcapng_packets [OF assms(3), of ?head "ucast link_type" rs]
    by (cases "run_steps (\<lambda>frame. handle_frame frame (ucast link_type)) (map ng_frame packets) rs")
      (simp_all add: read_pcapng_def)
  moreover have "take 4 ?capture = bytes_of native PCAPNG_BLOCK_SHB"
    by (simp add: shb_def block_def)
  then have "pcap_read ?capture rs = read_pcapng ?capture rs"
    using magic_distinct(5) by (simp add: pcap_read_def magic_bytes shb_def)
  ultimately show ?thesis
    by simp
qed

theorem pcapng_delivers_witness:
  "pcap_read (shb 28 (replicate 12 0) @ idb 20 1 (replicate 6 0) @ concat (map ng_block [(36, 0, 3, 3, [1, 2, 3, 0])]))
      (PcapReader_new None, ()) =
    map_option (Pair True) (run_steps (\<lambda>frame. handle_frame frame 1) [[1, 2, 3]] (PcapReader_new None, ()))"
  using pcapng_delivers [of 28 "replicate 12 0" 20 "replicate 6 0" "[(36, 0, 3, 3, [1, 2, 3, 0])]" 1 "(PcapReader_new None, ())"]
  by (simp add: ng_ok_def ng_frame_def)

text \<open>
  Foreign pcapng: a pcapng capture written in the other byte order (here with a section header
  of fewer than 256 bytes and fewer than 2^24 bytes in all) is reported as read, but not one of
  its packets is decoded: the length of the section header is read in host order and seems to
  exceed the capture.
\<close>

theorem pcapng_foreign_ignored:
  assumes "capture = bytes_of Big PCAPNG_BLOCK_SHB @ bytes_of Big (of_nat n :: u32) @ rest"
    and "0 < n" "n < 256" "length capture < 2 ^ 24"
  shows "pcap_read capture rs = Some (True, rs)"
proof -
  let ?n = "of_nat n :: u32"
  have unat: "unat ?n = n"
    using assms(3) by (intro unat_of_nat_small) simp
  have "bytes_of Big ?n = [0, 0, 0, of_nat n]"
    using assms(3) by (simp add: bytes_of_def unat le_bytes_4)
  moreover have "unat (of_nat n :: byte) = n"
    using assms(3) by (intro unat_of_nat_small) simp
  ultimately have "object_of native (bytes_of Big ?n) = (of_nat (n * 2 ^ 24) :: u32)"
    by (simp add: object_of_def native_def)
  moreover have "take 4 (drop 4 capture) = bytes_of Big ?n" "take 4 capture = bytes_of Big PCAPNG_BLOCK_SHB"
    "8 \<le> length capture"
    by (simp_all add: assms(1))
  moreover have big: "unat (of_nat (n * 2 ^ 24) :: u32) = n * 2 ^ 24"
    using assms(3) by (intro unat_of_nat_small) simp
  ultimately show ?thesis
    using assms(2,4) magic_distinct(5)
    by (subst pcap_read_def, subst read_pcapng_def, subst pcapng_loop.simps)
      (simp add: magic_bytes read_le_or_be_def Let_def)
qed

theorem pcapng_foreign_ignored_witness:
  "pcap_read (bytes_of Big PCAPNG_BLOCK_SHB @ bytes_of Big (of_nat 28 :: u32) @ replicate 100 0) (PcapReader_new None, ()) =
    Some (True, PcapReader_new None, ())"
  by (rule pcapng_foreign_ignored [OF refl]) simp_all

end
