(* ===== verification/Digits.thy ===== *)
theory Digits
  imports Itch_Prelude
begin

text \<open>
  Decimal numerals: the digits of a number as \<^verbatim>\<open>std::to_string\<close> and the formatters of integers write
  them, fields of a fixed number of digits, and their values.
\<close>

definition is_digit :: "char \<Rightarrow> bool" where
  "is_digit c \<longleftrightarrow> 48 \<le> (of_char c :: nat) \<and> (of_char c :: nat) \<le> 57"

definition digits_value :: "char list \<Rightarrow> nat" where
  "digits_value ds = foldl (\<lambda>n c. 10 * n + (of_char c - 48)) 0 ds"

definition digit :: "nat \<Rightarrow> char" where
  "digit n = char_of (48 + n)"

text \<open>Decimal digits, most significant first: without leading zeros, and exactly \<open>k\<close> of them.\<close>

fun decimal :: "nat \<Rightarrow> char list" where
  "decimal n = (if n < 10 then [digit n] else decimal (n div 10) @ [digit (n mod 10)])"

declare decimal.simps [simp del]

fun decimal_field :: "nat \<Rightarrow> nat \<Rightarrow> char list" where
  "decimal_field 0 n = []"
| "decimal_field (Suc k) n = decimal_field k (n div 10) @ [digit (n mod 10)]"

lemma of_char_digit: "n < 10 \<Longrightarrow> (of_char (digit n) :: nat) = 48 + n"
  by (simp add: digit_def of_char_of)

lemma is_digit_digit [simp]: "n < 10 \<Longrightarrow> is_digit (digit n)"
  by (simp add: is_digit_def of_char_digit)

lemma digits_value_Nil [simp]: "digits_value [] = 0"
  by (simp add: digits_value_def)

lemma digits_value_snoc: "digits_value (ds @ [c]) = 10 * digits_value ds + (of_char c - 48)"
  by (simp add: digits_value_def)

lemma digits_value_append: "digits_value (ds @ es) = digits_value ds * 10 ^ length es + digits_value es"
  by (induction es rule: rev_induct) (simp_all add: digits_value_snoc algebra_simps flip: append_assoc)

lemma decimal_digits: "list_all is_digit (decimal n) \<and> decimal n \<noteq> []"
proof (induction n rule: decimal.induct)
  case (1 n)
  then show ?case
    by (subst (1 2) decimal.simps) auto
qed

lemma decimal_value: "digits_value (decimal n) = n"
proof (induction n rule: decimal.induct)
  case (1 n)
  then show ?case
    by (subst decimal.simps) (auto simp: digits_value_def of_char_digit)
qed

lemma length_decimal_field [simp]: "length (decimal_field k n) = k"
  by (induction k arbitrary: n) simp_all

lemma decimal_field_digits: "list_all is_digit (decimal_field k n)"
  by (induction k arbitrary: n) simp_all

lemma decimal_field_value: "digits_value (decimal_field k n) = n mod 10 ^ k"
proof (induction k arbitrary: n)
  case (Suc k)
  have "n mod 10 ^ Suc k = 10 * (n div 10 mod 10 ^ k) + n mod 10"
    by (simp add: mod_mult2_eq)
  then show ?case
    by (simp add: digits_value_snoc Suc of_char_digit)
qed (simp add: digits_value_def)

lemma digit_simps:
  "digit 0 = CHR ''0''" "digit 1 = CHR ''1''" "digit (Suc 0) = CHR ''1''" "digit 2 = CHR ''2''" "digit 3 = CHR ''3''"
  "digit 4 = CHR ''4''" "digit 5 = CHR ''5''" "digit 6 = CHR ''6''" "digit 7 = CHR ''7''" "digit 8 = CHR ''8''" "digit 9 = CHR ''9''"
  by code_simp+

lemma decimal_field_2: "decimal_field 2 n = [digit (n div 10 mod 10), digit (n mod 10)]"
  unfolding numeral_2_eq_2 by simp

text \<open>Numerals are told apart from each other and from separators.\<close>

lemma decimal_inject [simp]: "decimal m = decimal n \<longleftrightarrow> m = n"
  using decimal_value by metis

lemma decimal_no: "\<not> is_digit c \<Longrightarrow> c \<notin> set (decimal n)" "\<not> is_digit c \<Longrightarrow> c \<notin> set (decimal_field k n)"
  using decimal_digits [of n] decimal_field_digits [of k n] by (auto simp: list_all_iff)

lemma not_is_digit [simp]:
  "\<not> is_digit (CHR '','')" "\<not> is_digit (CHR ''.'')" "\<not> is_digit (CHR '' '')" "\<not> is_digit (CHR '':'')"
  "\<not> is_digit (CHR ''-'')" "\<not> is_digit (CHR 0x22)" "\<not> is_digit (CHR 0x0A)" "\<not> is_digit (CHR ''='')"
  by (simp_all add: is_digit_def)

lemma decimal_small: "n < 10 \<Longrightarrow> decimal n = [digit n]"
  by (simp add: decimal.simps)

end
