(* ===== verification/Soup_Bin.thy ===== *)
theory Soup_Bin
  imports Encoder Sequencing Digits
begin

text \<open>
  \<^verbatim>\<open>SoupBinDecoder\<close> of \<^verbatim>\<open>include/itch/transport/soupbintcp.hpp\<close> and \<^verbatim>\<open>src/transport/soupbintcp.cpp\<close>: it
  reassembles a TCP byte stream into packets. The decoder state holds the bytes of an incomplete
  packet between calls of \<^verbatim>\<open>feed\<close>; the properties show that the way the stream is cut into chunks
  does not matter, and that sequenced data packets deliver their messages.
\<close>

section \<open>The decoder\<close>

datatype SoupBinPacketType =
    debug
  | login_accepted
  | login_rejected
  | sequenced_data
  | server_heartbeat
  | end_of_session
  | login_request
  | unsequenced_data
  | client_heartbeat
  | logout_request
  | unnamed_type char

text \<open>The cast of a byte to the enumeration; the cast keeps values without an enumerator.\<close>

definition packet_type :: "char \<Rightarrow> SoupBinPacketType" where
  "packet_type c =
     (if c = CHR ''+'' then debug else if c = CHR ''A'' then login_accepted
      else if c = CHR ''J'' then login_rejected else if c = CHR ''S'' then sequenced_data
      else if c = CHR ''H'' then server_heartbeat else if c = CHR ''Z'' then end_of_session
      else if c = CHR ''L'' then login_request else if c = CHR ''U'' then unsequenced_data
      else if c = CHR ''R'' then client_heartbeat else if c = CHR ''O'' then logout_request
      else unnamed_type c)"

record 's SoupBinDecoder =
  m_parser :: "(u64 \<times> 's) Parser"
  m_callback :: "('s \<Rightarrow> Message \<Rightarrow> 's) option"
  m_event_callback :: "('s \<Rightarrow> SoupBinPacketType \<Rightarrow> byte list \<Rightarrow> 's) option"
  m_tracker :: "'s SequenceTracker"
  m_buffer :: "byte list"
  m_session :: string
  m_next_sequence :: u64
  m_messages_decoded :: u64

definition SoupBinDecoder_new :: "('s \<Rightarrow> Message \<Rightarrow> 's) option \<Rightarrow> 's SoupBinDecoder" where
  "SoupBinDecoder_new callback = \<lparr>m_parser = Parser_init, m_callback = callback, m_event_callback = None,
     m_tracker = SequenceTracker_init, m_buffer = [], m_session = [], m_next_sequence = 1,
     m_messages_decoded = 0\<rparr>"

definition set_event_callback ::
  "('s \<Rightarrow> SoupBinPacketType \<Rightarrow> byte list \<Rightarrow> 's) option \<Rightarrow> 's SoupBinDecoder \<Rightarrow> 's SoupBinDecoder" where
  "set_event_callback callback d = d\<lparr>m_event_callback := callback\<rparr>"

definition LENGTH_PREFIX_SIZE :: nat where
  "LENGTH_PREFIX_SIZE = 2"

definition LOGIN_SESSION_SIZE :: nat where
  "LOGIN_SESSION_SIZE = 10"

definition LOGIN_SEQUENCE_SIZE :: nat where
  "LOGIN_SEQUENCE_SIZE = 20"

definition MAX_WIRE_MESSAGE_LEN :: nat where
  "MAX_WIRE_MESSAGE_LEN = 0xFFFF"

lemmas soup_sizes [simp] = LENGTH_PREFIX_SIZE_def LOGIN_SESSION_SIZE_def LOGIN_SEQUENCE_SIZE_def
  MAX_WIRE_MESSAGE_LEN_def

definition trim_field :: "byte list \<Rightarrow> string" where
  "trim_field field =
     (let text = map char_of_byte field
      in take (trim_len (\<lambda>c. c = CHR '' '') text (length text)) text)"

text \<open>
  \<^verbatim>\<open>std::from_chars\<close> for an unsigned 64-bit target: the value of the leading digits; the target
  keeps its old value when there is no digit or the number does not fit.
\<close>

definition from_chars :: "char list \<Rightarrow> u64 \<Rightarrow> u64" where
  "from_chars text value =
     (let ds = takeWhile is_digit text
      in if ds \<noteq> [] \<and> digits_value ds < 2 ^ 64 then of_nat (digits_value ds) else value)"

definition parse_sequence_field :: "byte list \<Rightarrow> u64" where
  "parse_sequence_field field = from_chars (dropWhile (\<lambda>c. c = CHR '' '') (trim_field field)) 0"

definition counting_callback ::
  "('s \<Rightarrow> Message \<Rightarrow> 's) option \<Rightarrow> u64 \<times> 's \<Rightarrow> Message \<Rightarrow> u64 \<times> 's" where
  "counting_callback callback = (\<lambda>(n, s) m. (n + 1, case callback of None \<Rightarrow> s | Some cb \<Rightarrow> cb s m))"

definition decode_application_message ::
  "byte list \<Rightarrow> 's SoupBinDecoder \<times> 's \<Rightarrow> ('s SoupBinDecoder \<times> 's) option" where
  "decode_application_message payload = (\<lambda>(d, s).
     if payload = [] \<or> length payload > MAX_WIRE_MESSAGE_LEN then Some (d, s)
     else do {
       let big_endian = from_big_endian (of_nat (length payload) :: u16);
       let framed = bytes_of native big_endian @ payload;
       (_, p, n, s) \<leftarrow> parse (counting_callback (m_callback d)) framed (m_parser d) (m_messages_decoded d, s);
       Some (d\<lparr>m_parser := p, m_messages_decoded := n\<rparr>, s) })"

definition login ::
  "byte list \<Rightarrow> 's SoupBinDecoder \<Rightarrow> 's SoupBinDecoder option" where
  "login payload d =
     (if length payload \<ge> LOGIN_SESSION_SIZE + LOGIN_SEQUENCE_SIZE
      then do {
        session \<leftarrow> subspan payload 0 LOGIN_SESSION_SIZE;
        sequence \<leftarrow> subspan payload LOGIN_SESSION_SIZE LOGIN_SEQUENCE_SIZE;
        let d = d\<lparr>m_session := trim_field session, m_next_sequence := parse_sequence_field sequence\<rparr>;
        Some (if m_next_sequence d = 0 then d\<lparr>m_next_sequence := 1\<rparr> else d) }
      else Some d)"

definition notify_event ::
  "SoupBinPacketType \<Rightarrow> byte list \<Rightarrow> 's SoupBinDecoder \<times> 's \<Rightarrow> 's SoupBinDecoder \<times> 's" where
  "notify_event t payload = (\<lambda>(d, s). (d, case m_event_callback d of None \<Rightarrow> s | Some cb \<Rightarrow> cb s t payload))"

definition process_packet ::
  "SoupBinPacketType \<Rightarrow> byte list \<Rightarrow> 's SoupBinDecoder \<times> 's \<Rightarrow> ('s SoupBinDecoder \<times> 's) option" where
  "process_packet t payload = (\<lambda>(d, s). case t of
     login_accepted \<Rightarrow> do { d \<leftarrow> login payload d; Some (notify_event t payload (d, s)) }
   | sequenced_data \<Rightarrow>
       (let (_, tracker, s) = observe (m_session d) (m_next_sequence d) 1 (m_tracker d, s);
            d = d\<lparr>m_tracker := tracker, m_next_sequence := m_next_sequence d + 1\<rparr>
        in decode_application_message payload (d, s))
   | unsequenced_data \<Rightarrow> decode_application_message payload (d, s)
   | _ \<Rightarrow> Some (notify_event t payload (d, s)))"

function feed_loop ::
  "byte list \<Rightarrow> nat \<Rightarrow> 's SoupBinDecoder \<times> 's \<Rightarrow> (nat \<times> 's SoupBinDecoder \<times> 's) option" where
  "feed_loop buffer offset ds =
     (if \<not> size_minus (length buffer) offset \<ge> LENGTH_PREFIX_SIZE then Some (offset, ds)
      else case read_length buffer offset of
        None \<Rightarrow> None
      | Some packet_length \<Rightarrow>
          if packet_length = 0 then feed_loop buffer (offset + LENGTH_PREFIX_SIZE) ds
          else if size_minus (length buffer) offset < LENGTH_PREFIX_SIZE + unat packet_length then Some (offset, ds)
          else case vec_at buffer (offset + LENGTH_PREFIX_SIZE) of
            None \<Rightarrow> None
          | Some b \<Rightarrow>
              (case subspan buffer (offset + LENGTH_PREFIX_SIZE + 1) (size_minus (unat packet_length) 1) of
                 None \<Rightarrow> None
               | Some payload \<Rightarrow>
                   (case process_packet (packet_type (char_of_byte b)) payload ds of
                      None \<Rightarrow> None
                    | Some ds \<Rightarrow> feed_loop buffer (offset + (LENGTH_PREFIX_SIZE + unat packet_length)) ds)))"
  by pat_completeness auto
termination
proof (relation "measure (\<lambda>(buffer, offset, ds). length buffer - offset)", goal_cases)
  case (2 buffer offset ds packet_length)
  then show ?case
    by (auto simp: read_length_def memcpy_from_def split: if_splits bind_splits)
next
  case (3 buffer offset ds packet_length)
  then show ?case
    by (auto simp: read_length_def memcpy_from_def split: if_splits bind_splits)
qed simp

declare feed_loop.simps [simp del]

definition feed :: "byte list \<Rightarrow> 's SoupBinDecoder \<times> 's \<Rightarrow> ('s SoupBinDecoder \<times> 's) option" where
  "feed bytes = (\<lambda>(d, s). do {
     let d = d\<lparr>m_buffer := m_buffer d @ bytes\<rparr>;
     (offset, d, s) \<leftarrow> feed_loop (m_buffer d) 0 (d, s);
     if offset > 0 then do { rest \<leftarrow> subspan_from (m_buffer d) offset; Some (d\<lparr>m_buffer := rest\<rparr>, s) }
     else Some (d, s) })"

section \<open>The packets of a buffer\<close>

text \<open>The complete packets at the front of a buffer, and the bytes behind them.\<close>

function split_packets :: "byte list \<Rightarrow> byte list list \<times> byte list" where
  "split_packets [] = ([], [])"
| "split_packets [b] = ([], [b])"
| "split_packets (h # l # rest) =
     (if length rest < be16 h l then ([], h # l # rest)
      else let (ps, r) = split_packets (drop (be16 h l) rest)
           in (if be16 h l = 0 then ps else take (be16 h l) rest # ps, r))"
  by pat_completeness auto
termination
  by (relation "measure length") auto

lemma split_packets_append:
  "split_packets (a @ b) =
    (let (ps, r) = split_packets a; (qs, r') = split_packets (r @ b) in (ps @ qs, r'))"
proof (induction a rule: split_packets.induct)
  case (3 h l rest)
  show ?case
  proof (cases "length rest < be16 h l")
    case False
    then show ?thesis
      using "3.IH" by (auto simp: Let_def split: prod.splits)
  qed simp
qed (auto split: prod.splits)

lemma split_packets_rest: "split_packets (snd (split_packets a)) = ([], snd (split_packets a))"
  by (induction a rule: split_packets.induct) (auto simp: Let_def split: prod.splits)

lemma split_packets_suffix: "\<exists>u. a = u @ snd (split_packets a)"
proof (induction a rule: split_packets.induct)
  case (3 h l rest)
  show ?case
  proof (cases "length rest < be16 h l")
    case False
    then obtain u where "drop (be16 h l) rest = u @ snd (split_packets (drop (be16 h l) rest))"
      using "3.IH" by blast
    then have "rest = (take (be16 h l) rest @ u) @ snd (split_packets (drop (be16 h l) rest))"
      by (metis append_assoc append_take_drop_id)
    then have "h # l # rest = (h # l # take (be16 h l) rest @ u) @ snd (split_packets (h # l # rest))"
      using False by (simp add: Let_def split_beta)
    then show ?thesis ..
  qed simp
qed simp_all

definition packet_step :: "byte list \<Rightarrow> 's SoupBinDecoder \<times> 's \<Rightarrow> ('s SoupBinDecoder \<times> 's) option" where
  "packet_step packet = process_packet (packet_type (char_of_byte (hd packet))) (tl packet)"

lemma feed_loop_step:
  assumes "drop offset buffer = h # l # rest"
  shows "feed_loop buffer offset ds =
    (if length rest < be16 h l then Some (offset, ds)
     else do {
       ds \<leftarrow> (if be16 h l = 0 then Some ds else packet_step (take (be16 h l) rest) ds);
       feed_loop buffer (offset + 2 + be16 h l) ds })"
proof -
  obtain len where len: "read_length buffer offset = Some len" "unat len = be16 h l"
    using read_length_at [OF assms] by blast
  have rest: "drop (offset + 2) buffer = rest"
    using drop_put [of offset buffer "[h, l]" rest] assms by simp
  have size: "length buffer = offset + 2 + length rest"
    using arg_cong [OF assms, of length] by simp
  have zero: "len = 0 \<longleftrightarrow> be16 h l = 0"
    by (simp add: len(2) [symmetric] unsigned_eq_0_iff)
  show ?thesis
  proof (cases "be16 h l = 0")
    case True
    then show ?thesis
      using size by (subst feed_loop.simps) (simp add: len zero)
  next
    case False
    show ?thesis
    proof (cases "length rest < be16 h l")
      case True
      then show ?thesis
        using False size by (subst feed_loop.simps) (simp add: len zero)
    next
      case fits: False
      then obtain b rest' where b: "rest = b # rest'"
        using False by (cases rest) auto
      have at: "vec_at buffer (offset + 2) = Some b"
        using rest b size by (simp add: nth_via_drop)
      have tl: "drop (offset + 2 + 1) buffer = rest'"
        using rest b by (metis drop_drop drop_Suc_Cons drop_0 One_nat_def add.commute)
      have "take (be16 h l) rest = b # take (be16 h l - 1) rest'"
        using False b by (cases "be16 h l") simp_all
      then have "packet_step (take (be16 h l) rest) ds =
          process_packet (packet_type (char_of_byte b)) (take (be16 h l - 1) rest') ds"
        by (simp add: packet_step_def)
      then show ?thesis
        using False fits size at tl
        by (subst feed_loop.simps) (simp add: len zero add.assoc split: option.split del: add_2_eq_Suc add_2_eq_Suc')
    qed
  qed
qed

lemma feed_loop_packets:
  fixes ds :: "'a SoupBinDecoder \<times> 'a"
  shows "offset \<le> length buffer \<Longrightarrow> feed_loop buffer offset ds =
    (let (ps, r) = split_packets (drop offset buffer)
     in do { ds \<leftarrow> run_steps packet_step ps ds; Some (length buffer - length r, ds) })"
proof (induction "length buffer - offset" arbitrary: offset ds rule: less_induct)
  case less
  show ?case
  proof (cases "drop offset buffer" rule: split_packets.cases)
    case 1
    then show ?thesis
      using less.prems by (subst feed_loop.simps) simp
  next
    case (2 b)
    have "length (drop offset buffer) = 1"
      by (simp only: 2 list.size)
    then have "length buffer = offset + 1"
      using less.prems unfolding length_drop by simp
    then show ?thesis
      using 2 by (subst feed_loop.simps) simp
  next
    case (3 h l rest)
    have size: "length buffer = offset + 2 + length rest"
      using arg_cong [OF 3, of length] less.prems by simp
    have rest: "drop (offset + 2 + be16 h l) buffer = drop (be16 h l) rest"
    proof -
      have "drop (offset + 2) buffer = rest"
        using drop_put [of offset buffer "[h, l]" rest] 3 by simp
      then show ?thesis
        by (metis add.commute drop_drop)
    qed
    show ?thesis
    proof (cases "length rest < be16 h l")
      case True
      then show ?thesis
        using 3 size by (simp add: feed_loop_step [OF 3])
    next
      case False
      have IH: "feed_loop buffer (offset + 2 + be16 h l) ds' =
          (let (ps, r) = split_packets (drop (be16 h l) rest)
           in do { ds \<leftarrow> run_steps packet_step ps ds'; Some (length buffer - length r, ds) })" for ds' :: "'a SoupBinDecoder \<times> 'a"
        using less.hyps [of "offset + 2 + be16 h l" ds'] False size rest by simp
      obtain ps r where "split_packets (drop (be16 h l) rest) = (ps, r)"
        by (cases "split_packets (drop (be16 h l) rest)")
      then show ?thesis
        unfolding feed_loop_step [OF 3] IH using False 3
        by (cases "packet_step (take (be16 h l) rest) ds") auto
    qed
  qed
qed

text \<open>Packets are processed without looking at the buffer.\<close>

definition with_buffer :: "byte list \<Rightarrow> 's SoupBinDecoder \<times> 's \<Rightarrow> 's SoupBinDecoder \<times> 's" where
  "with_buffer x = (\<lambda>(d, s). (d\<lparr>m_buffer := x\<rparr>, s))"

lemma application_buffer:
  "decode_application_message payload (with_buffer x ds) =
    map_option (with_buffer x) (decode_application_message payload ds)"
proof (cases ds)
  case (Pair d s)
  let ?framed = "bytes_of native (from_big_endian (of_nat (length payload) :: u16)) @ payload"
  show ?thesis
    by (cases "parse (counting_callback (m_callback d)) ?framed (m_parser d) (m_messages_decoded d, s)")
      (auto simp: Pair decode_application_message_def with_buffer_def Let_def)
qed

lemma packet_step_buffer:
  "packet_step packet (with_buffer x ds) = map_option (with_buffer x) (packet_step packet ds)"
proof (cases ds)
  case (Pair d s)
  let ?t = "packet_type (char_of_byte (hd packet))"
  obtain g t s1 where obs: "observe (m_session d) (m_next_sequence d) 1 (m_tracker d, s) = (g, t, s1)"
    by (metis prod_cases3)
  have "decode_application_message (tl packet) (d\<lparr>m_buffer := x, m_tracker := t, m_next_sequence := n\<rparr>, s1) =
      map_option (with_buffer x) (decode_application_message (tl packet) (d\<lparr>m_tracker := t, m_next_sequence := n\<rparr>, s1))" for n
  proof -
    have "d\<lparr>m_buffer := x, m_tracker := t, m_next_sequence := n\<rparr> = d\<lparr>m_tracker := t, m_next_sequence := n, m_buffer := x\<rparr>"
      by simp
    then show ?thesis
      using application_buffer [of "tl packet" x "(d\<lparr>m_tracker := t, m_next_sequence := n\<rparr>, s1)"]
      by (simp only: with_buffer_def prod.case)
  qed
  then show ?thesis
    using application_buffer [of "tl packet" x "(d, s)"] obs unfolding packet_step_def Pair
    by (cases ?t) (simp_all add: process_packet_def with_buffer_def notify_event_def login_def Let_def)
qed

lemma run_packets_buffer:
  "run_steps packet_step ps (with_buffer x ds) = map_option (with_buffer x) (run_steps packet_step ps ds)"
proof (induction ps arbitrary: ds)
  case (Cons packet ps)
  then show ?case
    by (cases "packet_step packet ds") (simp_all add: packet_step_buffer)
qed simp

text \<open>\<^verbatim>\<open>feed\<close> processes the complete packets of the stored and the new bytes and keeps the rest.\<close>

lemma feed_packets:
  "feed bytes (d, s) = (let (ps, r) = split_packets (m_buffer d @ bytes)
     in map_option (with_buffer r) (run_steps packet_step ps (d, s)))"
proof -
  let ?buf = "m_buffer d @ bytes"
  obtain ps r where sp: "split_packets ?buf = (ps, r)"
    by (cases "split_packets ?buf")
  have run: "run_steps packet_step ps (d\<lparr>m_buffer := ?buf\<rparr>, s) =
      map_option (with_buffer ?buf) (run_steps packet_step ps (d, s))"
    using run_packets_buffer [of ps ?buf "(d, s)"] by (simp add: with_buffer_def)
  have r: "drop (length ?buf - length r) ?buf = r"
    using split_packets_suffix [of ?buf] sp by (metis append_eq_conv_conj diff_add_inverse2 length_append snd_conv)
  show ?thesis
    using sp r by (cases "run_steps packet_step ps (d, s)")
      (auto simp: feed_def feed_loop_packets run Let_def with_buffer_def)
qed

lemma feed_append: "feed (xs @ ys) ds = do { ds \<leftarrow> feed xs ds; feed ys ds }"
proof (cases ds)
  case (Pair d s)
  obtain ps r where sp: "split_packets (m_buffer d @ xs) = (ps, r)"
    by (cases "split_packets (m_buffer d @ xs)")
  obtain qs r' where sq: "split_packets (r @ ys) = (qs, r')"
    by (cases "split_packets (r @ ys)")
  have all: "split_packets (m_buffer d @ xs @ ys) = (ps @ qs, r')"
    using split_packets_append [of "m_buffer d @ xs" ys] sp sq by simp
  show ?thesis
  proof (cases "run_steps packet_step ps (d, s)")
    case None
    then show ?thesis
      by (simp add: Pair feed_packets sp all run_steps_append)
  next
    case (Some ds1)
    then obtain d1 s1 where ds1: "run_steps packet_step ps (d, s) = Some (d1, s1)"
      by (cases ds1) simp
    have "feed ys (with_buffer r (d1, s1)) =
        map_option (with_buffer r') (map_option (with_buffer r) (run_steps packet_step qs (d1, s1)))"
      using run_packets_buffer [of qs r "(d1, s1)"] sq by (simp add: with_buffer_def feed_packets)
    moreover have "with_buffer r' \<circ> with_buffer r = (with_buffer r' :: 'a SoupBinDecoder \<times> 'a \<Rightarrow> _)"
      by (auto simp: with_buffer_def)
    ultimately show ?thesis
      by (simp add: Pair feed_packets sp all ds1 run_steps_append option.map_comp)
  qed
qed

lemma feed_chunks: "run_steps feed (chunk # chunks) ds = feed (concat (chunk # chunks)) ds"
proof (induction chunks arbitrary: chunk ds)
  case Nil
  then show ?case
    by (cases "feed chunk ds") simp_all
next
  case (Cons c chunks)
  have "feed (concat (chunk # c # chunks)) ds = do { ds \<leftarrow> feed chunk ds; feed (concat (c # chunks)) ds }"
    unfolding concat.simps(2) [of chunk] by (rule feed_append)
  then show ?case
    unfolding run_steps.simps(2) [of feed chunk] using Cons.IH [of c]
    by (cases "feed chunk ds") (simp_all only: Option.bind.simps)
qed

section \<open>Streams of data packets\<close>

text \<open>A packet on the wire: the length of type byte and payload, the type byte, the payload.\<close>

definition soup_packet :: "char \<Rightarrow> byte list \<Rightarrow> byte list" where
  "soup_packet c payload = put (of_nat (length payload + 1) :: u16) @ byte_of_char c # payload"

lemma split_soup_packet:
  assumes "length payload < 0xFFFF"
  shows "split_packets (soup_packet c payload @ rest) =
    (let (ps, r) = split_packets rest in ((byte_of_char c # payload) # ps, r))"
proof -
  obtain h l where hl: "put (of_nat (length payload + 1) :: u16) = [h, l]" "be16 h l = length payload + 1"
    using put_u16_bytes [of "length payload + 1"] assms by auto
  then show ?thesis
    by (simp add: soup_packet_def hl(1) Let_def split: prod.split)
qed

lemma split_soup_packets:
  assumes "\<forall>(c, payload) \<in> set cps. length payload < 0xFFFF"
  shows "split_packets (concat (map (\<lambda>(c, payload). soup_packet c payload) cps)) =
    (map (\<lambda>(c, payload). byte_of_char c # payload) cps, [])"
  using assms by (induction cps) (auto simp: split_soup_packet)

lemma encode_message_length:
  assumes "wf_message m"
  shows "encode_message m \<noteq> []" "length (encode_message m) < 0xFFFF"
proof -
  have len: "length (encode_message m) = WIRE_SIZE (msg_type m)"
    using length_encode_message assms by (simp add: wf_message_def)
  show "length (encode_message m) < 0xFFFF"
    using WIRE_SIZE_bounds [of "msg_type m"] len by simp
  show "encode_message m \<noteq> []"
    using WIRE_SIZE_bounds [of "msg_type m"] len by force
qed

lemma application_encoded:
  assumes "wf_message m" "m_error_callback (m_parser d) = None"
  shows "decode_application_message (encode_message m) (d, s) =
    Some (d\<lparr>m_messages_decoded := m_messages_decoded d + 1\<rparr>,
      case m_callback d of None \<Rightarrow> s | Some cb \<Rightarrow> cb s m)"
proof -
  have "put (of_nat (length (encode_message m)) :: u16) @ encode_message m = encode_frame m"
    by (simp add: encode_frame_def Let_def)
  moreover have "split_frames (encode_frame m) = ([encode_message m], True)"
    using split_frames_encode [of m "[]"] assms(1) by (simp add: wf_message_def)
  moreover have "frame_messages [encode_message m] = [m]" "frame_errors [encode_message m] = []"
    using frames_of_encoded [of "[m]"] assms(1) by simp_all
  ultimately show ?thesis
    using assms(2) encode_message_length [OF assms(1)]
    by (simp add: decode_application_message_def put_def [symmetric] parse_def parse_collect Let_def
        counting_callback_def)
qed

text \<open>The decoder expects the sequence number it will assign next.\<close>

definition in_sequence :: "'s SoupBinDecoder \<Rightarrow> bool" where
  "in_sequence d \<longleftrightarrow> m_error_callback (m_parser d) = None \<and>
     expected_next (m_tracker d) (m_session d) \<in> {None, Some (m_next_sequence d)}"

lemma packet_type_S [simp]: "packet_type (CHR ''S'') = sequenced_data"
  by (simp add: packet_type_def)

lemma sequenced_step:
  assumes "wf_message m" "in_sequence d" "unat (m_next_sequence d) + 1 < 2 ^ 64"
  shows "\<exists>d'. packet_step (byte_of_char (CHR ''S'') # encode_message m) (d, s) =
      Some (d', case m_callback d of None \<Rightarrow> s | Some cb \<Rightarrow> cb s m) \<and>
    in_sequence d' \<and> m_callback d' = m_callback d \<and> m_session d' = m_session d \<and>
    m_next_sequence d' = m_next_sequence d + 1 \<and> m_gap_count (m_tracker d') = m_gap_count (m_tracker d) \<and>
    m_messages_seen (m_tracker d') = m_messages_seen (m_tracker d) + 1 \<and>
    m_messages_decoded d' = m_messages_decoded d + 1"
proof -
  let ?t = "m_tracker d" and ?n = "m_next_sequence d"
  have nw: "no_wrap ?n 1"
    using assms(3) by (simp add: no_wrap_def)
  obtain t where t: "observe (m_session d) ?n 1 (?t, s) = (0, t, s)" "m_gap_count t = m_gap_count ?t"
    "m_messages_seen t = m_messages_seen ?t + 1" "expected_next t (m_session d) = Some (?n + 1)"
    using assms(2) observe_new [of ?t "m_session d" ?n 1 s] observe_known [of ?t "m_session d" ?n ?n 1 s] nw no_wrap_le [OF nw]
    unfolding in_sequence_def expected_next_def by (auto simp: max_def)
  let ?d = "d\<lparr>m_tracker := t, m_next_sequence := ?n + 1\<rparr>"
  have "m_error_callback (m_parser ?d) = None"
    using assms(2) by (simp add: in_sequence_def)
  then show ?thesis
    using application_encoded [OF assms(1), of ?d s] t assms(2)
    by (simp add: packet_step_def process_packet_def in_sequence_def)
qed

lemma sequenced_run:
  assumes "\<forall>m \<in> set ms. wf_message m" "in_sequence d" "unat (m_next_sequence d) + length ms < 2 ^ 64"
  shows "\<exists>d'. run_steps packet_step (map (\<lambda>m. byte_of_char (CHR ''S'') # encode_message m) ms) (d, s) =
      Some (d', fold (\<lambda>m s. case m_callback d of None \<Rightarrow> s | Some cb \<Rightarrow> cb s m) ms s) \<and>
    m_next_sequence d' = m_next_sequence d + of_nat (length ms) \<and>
    m_gap_count (m_tracker d') = m_gap_count (m_tracker d) \<and>
    m_messages_seen (m_tracker d') = m_messages_seen (m_tracker d) + of_nat (length ms) \<and>
    m_messages_decoded d' = m_messages_decoded d + of_nat (length ms)"
  using assms
proof (induction ms arbitrary: d s)
  case (Cons m ms)
  let ?s = "case m_callback d of None \<Rightarrow> s | Some cb \<Rightarrow> cb s m"
  obtain d1 where d1: "packet_step (byte_of_char (CHR ''S'') # encode_message m) (d, s) = Some (d1, ?s)"
    "in_sequence d1" "m_callback d1 = m_callback d" "m_next_sequence d1 = m_next_sequence d + 1"
    "m_gap_count (m_tracker d1) = m_gap_count (m_tracker d)"
    "m_messages_seen (m_tracker d1) = m_messages_seen (m_tracker d) + 1"
    "m_messages_decoded d1 = m_messages_decoded d + 1"
    using sequenced_step [of m d s] Cons.prems by auto
  have "unat (m_next_sequence d1) + length ms < 2 ^ 64"
    using Cons.prems(3) d1(4) by (simp add: unat_word_ariths(1))
  then show ?case
    using Cons.IH [OF _ d1(2), of ?s] Cons.prems(1) d1 by (auto simp: algebra_simps)
qed simp

section \<open>The login sequence field\<close>

lemma is_digit_not_space: "is_digit c \<Longrightarrow> c \<noteq> CHR '' ''"
  by (auto simp: is_digit_def)

lemma trim_len_full: "xs \<noteq> [] \<Longrightarrow> \<not> pad (last xs) \<Longrightarrow> trim_len pad xs (length xs) = length xs"
  by (cases "length xs") (auto simp: last_conv_nth)

lemma dropWhile_replicate: "xs \<noteq> [] \<Longrightarrow> hd xs \<noteq> c \<Longrightarrow> dropWhile (\<lambda>x. x = c) (replicate k c @ xs) = xs"
  by (induction k) (cases xs, auto)

lemma parse_sequence_decimal:
  assumes "n < 2 ^ 64"
  shows "parse_sequence_field (map byte_of_char (replicate k (CHR '' '') @ decimal n)) = of_nat n"
proof -
  have ds: "list_all is_digit (decimal n)" "decimal n \<noteq> []"
    using decimal_digits by blast+
  then have ends: "is_digit (last (decimal n))" "is_digit (hd (decimal n))"
    by (auto simp: list_all_iff)
  have "trim_field (map byte_of_char (replicate k (CHR '' '') @ decimal n)) = replicate k (CHR '' '') @ decimal n"
    using trim_len_full [of "replicate k (CHR '' '') @ decimal n" "\<lambda>c. c = CHR '' ''"] ds(2) ends(1)
    by (auto simp: trim_field_def comp_def dest: is_digit_not_space)
  moreover have "dropWhile (\<lambda>c. c = CHR '' '') (replicate k (CHR '' '') @ decimal n) = decimal n"
    using ds(2) ends(2) by (intro dropWhile_replicate) (auto dest: is_digit_not_space)
  moreover have "takeWhile is_digit (decimal n) = decimal n"
    using ds(1) by (simp add: list_all_iff)
  ultimately show ?thesis
    using assms ds(2) by (simp only: parse_sequence_field_def from_chars_def decimal_value Let_def) simp
qed

section \<open>No call of feed fails\<close>

lemma login_Some: "\<exists>d'. login payload d = Some d'"
  by (simp add: login_def Let_def)

lemma packet_step_Some: "\<exists>ds'. packet_step packet ds = Some ds'"
proof -
  have "\<exists>d'. do { d \<leftarrow> login payload d; Some (notify_event t payload (d, s)) } = Some d'"
    for t payload and d :: "'s SoupBinDecoder" and s
    using login_Some [of payload d] by auto
  moreover
  have "\<exists>ds'. decode_application_message payload ds = Some ds'" for payload and ds :: "'s SoupBinDecoder \<times> 's"
  proof (cases ds)
    case (Pair d s)
    let ?framed = "bytes_of native (from_big_endian (of_nat (length payload) :: u16)) @ payload"
    show ?thesis
      using parse_Some [of "counting_callback (m_callback d)" ?framed "m_parser d" "(m_messages_decoded d, s)"]
      by (auto simp: Pair decode_application_message_def Let_def)
  qed
  ultimately show ?thesis
    by (cases ds; cases "packet_type (char_of_byte (hd packet))")
      (auto simp: packet_step_def process_packet_def Let_def simp del: split_paired_Ex split: prod.split)
qed

lemma run_packets_Some: "\<exists>ds'. run_steps packet_step ps ds = Some ds'"
proof (induction ps arbitrary: ds)
  case (Cons packet ps)
  then show ?case
    using packet_step_Some [of packet ds] by auto
qed simp

lemma be16_le: "be16 h l \<le> 65535"
  unfolding be16_def using unat_byte_less [of h] unat_byte_less [of l] by linarith

lemma split_packets_residue: "length (snd (split_packets a)) \<le> 65536"
proof (induction a rule: split_packets.induct)
  case (3 h l rest)
  then show ?case
    using be16_le [of h l] by (cases "length rest < be16 h l") (simp_all add: Let_def split_beta)
qed simp_all

section \<open>Properties\<close>

text \<open>
  C26. Chunking does not matter: for any decoder state and any way to cut a byte stream into
  chunks (at any byte, also inside a length prefix), feeding the chunks one after the other has
  the same effect as feeding the whole stream at once: same messages, events, gap reports,
  counters and left-over bytes.
\<close>

theorem soup_feed_chunks:
  "run_steps feed (chunk # chunks) ds = feed (concat (chunk # chunks)) ds"
  by (rule feed_chunks)

lemma feed_Some:
  "\<exists>d' s'. feed bytes (d, s) = Some (d', s') \<and> length (m_buffer d') \<le> 65536 \<and>
    split_packets (m_buffer d') = ([], m_buffer d')"
proof -
  obtain ps r where sp: "split_packets (m_buffer d @ bytes) = (ps, r)"
    by (cases "split_packets (m_buffer d @ bytes)")
  obtain d' s' where "run_steps packet_step ps (d, s) = Some (d', s')"
    using run_packets_Some [of ps "(d, s)"] by auto
  then show ?thesis
    using sp split_packets_residue [of "m_buffer d @ bytes"] split_packets_rest [of "m_buffer d @ bytes"]
    by (simp add: feed_packets with_buffer_def)
qed

text \<open>
  C27. Every call of \<^verbatim>\<open>feed\<close>, on any bytes and in any state, ends without an access outside the
  buffer (the length prefix, the type byte, the view of the payload and the fields of a login are
  \<open>None\<close> beyond its end) and keeps at most 65536 bytes (one incomplete packet).
\<close>

theorem soup_feed_total_bounded:
  "\<exists>d' s'. feed bytes (d, s) = Some (d', s') \<and> length (m_buffer d') \<le> 65536 \<and>
    split_packets (m_buffer d') = ([], m_buffer d')"
  by (rule feed_Some)

lemma soup_stream:
  assumes "\<forall>m \<in> set ms. wf_message m" "length ms < 2 ^ 63"
    and "concat (chunk # chunks) = concat (map (\<lambda>m. soup_packet (CHR ''S'') (encode_message m)) ms)"
  shows "\<exists>d. run_steps feed (chunk # chunks) (SoupBinDecoder_new (Some cb), s) = Some (d, fold (\<lambda>m s. cb s m) ms s) \<and>
    m_next_sequence d = 1 + of_nat (length ms) \<and> m_messages_decoded d = of_nat (length ms) \<and>
    m_messages_seen (m_tracker d) = of_nat (length ms) \<and> m_gap_count (m_tracker d) = 0 \<and> m_buffer d = []"
proof -
  let ?d = "SoupBinDecoder_new (Some cb)"
  let ?cps = "map (\<lambda>m. (CHR ''S'', encode_message m)) ms"
  have "split_packets (concat (map (\<lambda>(c, payload). soup_packet c payload) ?cps)) =
      (map (\<lambda>(c, payload). byte_of_char c # payload) ?cps, [])"
    using assms(1) encode_message_length(2) by (intro split_soup_packets) auto
  then have sp: "split_packets (m_buffer ?d @ concat (chunk # chunks)) =
      (map (\<lambda>m. byte_of_char (CHR ''S'') # encode_message m) ms, [])"
    unfolding assms(3) by (simp add: comp_def SoupBinDecoder_new_def)
  have "in_sequence ?d"
    by (simp add: in_sequence_def expected_next_def SoupBinDecoder_new_def SequenceTracker_init_def)
  then obtain d where d: "run_steps packet_step (map (\<lambda>m. byte_of_char (CHR ''S'') # encode_message m) ms) (?d, s) =
      Some (d, fold (\<lambda>m s. cb s m) ms s)" "m_next_sequence d = 1 + of_nat (length ms)"
    "m_gap_count (m_tracker d) = 0" "m_messages_seen (m_tracker d) = of_nat (length ms)"
    "m_messages_decoded d = of_nat (length ms)"
    using sequenced_run [OF assms(1), of ?d s] assms(2)
    by (auto simp: SoupBinDecoder_new_def SequenceTracker_init_def)
  have "feed (concat (chunk # chunks)) (?d, s) = Some (d\<lparr>m_buffer := []\<rparr>, fold (\<lambda>m s. cb s m) ms s)"
    using sp d(1) by (simp add: feed_packets with_buffer_def)
  moreover have "run_steps feed (chunk # chunks) (?d, s) = feed (concat (chunk # chunks)) (?d, s)"
    by (rule feed_chunks)
  ultimately show ?thesis
    using d by simp
qed

text \<open>
  End to end: well-formed messages sent as sequenced data packets and cut into arbitrary
  chunks reach the callback of a new decoder once each and in order; the sequence number
  advances by one per message, no gap is reported and no byte is left over.
\<close>

theorem soup_delivers_stream:
  assumes "\<forall>m \<in> set ms. wf_message m" "length ms < 2 ^ 63"
    and "concat (chunk # chunks) = concat (map (\<lambda>m. soup_packet (CHR ''S'') (encode_message m)) ms)"
  shows "\<exists>d. run_steps feed (chunk # chunks) (SoupBinDecoder_new (Some cb), s) = Some (d, fold (\<lambda>m s. cb s m) ms s) \<and>
    m_next_sequence d = 1 + of_nat (length ms) \<and> m_messages_decoded d = of_nat (length ms) \<and>
    m_messages_seen (m_tracker d) = of_nat (length ms) \<and> m_gap_count (m_tracker d) = 0 \<and> m_buffer d = []"
  by (rule soup_stream [OF assms])

theorem soup_delivers_stream_witness:
  "\<exists>d. run_steps feed [take 5 (soup_packet (CHR ''S'') (encode_message (AddOrder sample_add))),
      drop 5 (soup_packet (CHR ''S'') (encode_message (AddOrder sample_add)))]
      (SoupBinDecoder_new (Some (\<lambda>ms m. ms @ [m])), []) = Some (d, [AddOrder sample_add]) \<and> m_next_sequence d = 2"
proof -
  let ?x = "soup_packet (CHR ''S'') (encode_message (AddOrder sample_add))"
  have "concat [take 5 ?x, drop 5 ?x] = concat (map (\<lambda>m. soup_packet (CHR ''S'') (encode_message m)) [AddOrder sample_add])"
    by (simp only: concat.simps list.map append_take_drop_id append_Nil2)
  from soup_delivers_stream [OF _ _ this, where cb = "\<lambda>ms m. ms @ [m]" and s = "[]"]
  have "\<exists>d. run_steps feed [take 5 ?x, drop 5 ?x] (SoupBinDecoder_new (Some (\<lambda>ms m. ms @ [m])), []) =
      Some (d, fold (\<lambda>m s. s @ [m]) [AddOrder sample_add] []) \<and> m_next_sequence d = 1 + of_nat (length [AddOrder sample_add])"
    using wf_sample_add by (auto simp del: encode_message.simps)
  then show ?thesis
    by (simp del: run_steps.simps)
qed

text \<open>
  Login: a Login Accepted packet that carries a 10-character session and a right-justified
  decimal sequence number sets the session (without its trailing spaces) and the next sequence
  number to that value, 0 being read as 1, and reports the packet to the event callback.
\<close>

theorem soup_login_accepted:
  assumes "length sess = 10" "n < 2 ^ 64" "length (decimal n) \<le> 20"
  defines "payload \<equiv> map byte_of_char (sess @ replicate (20 - length (decimal n)) (CHR '' '') @ decimal n)"
  shows "\<exists>d'. process_packet login_accepted payload (d, s) =
      Some (d', case m_event_callback d of None \<Rightarrow> s | Some cb \<Rightarrow> cb s login_accepted payload) \<and>
    m_next_sequence d' = (if n = 0 then 1 else of_nat n) \<and>
    m_session d' = take (trim_len (\<lambda>c. c = CHR '' '') sess 10) sess"
proof -
  have pre: "take 10 payload = map byte_of_char sess"
    "take 20 (drop 10 payload) = map byte_of_char (replicate (20 - length (decimal n)) (CHR '' '') @ decimal n)"
    "length payload = 30"
    using assms(1,3) by (simp_all add: payload_def)
  have zero: "(of_nat n :: u64) = 0 \<longleftrightarrow> n = 0"
    using assms(2) nat_dvd_not_less [of n "2 ^ 64"] by (auto simp: word_of_nat_eq_0_iff)
  have parts: "subspan payload 0 10 = Some (map byte_of_char sess)"
    "subspan payload 10 20 = Some (map byte_of_char (replicate (20 - length (decimal n)) (CHR '' '') @ decimal n))"
    using subspan_Some [of 0 10 payload] subspan_Some [of 10 20 payload] unfolding pre drop_0 by simp_all
  have "login payload d = Some (d\<lparr>m_session := trim_field (map byte_of_char sess),
      m_next_sequence := if n = 0 then 1 else of_nat n\<rparr>)"
    unfolding login_def soup_sizes pre(3) parts Let_def bind.bind_lunit parse_sequence_decimal [OF assms(2)] by (simp add: zero)
  then show ?thesis
    using assms(1) by (simp add: process_packet_def notify_event_def trim_field_def comp_def)
qed

theorem soup_login_accepted_witness:
  "\<exists>d'. process_packet login_accepted (map byte_of_char (''SESSION1  '' @ replicate 18 (CHR '' '') @ ''42''))
      (SoupBinDecoder_new None, ()) = Some (d', ()) \<and>
    m_next_sequence d' = 42 \<and> m_session d' = ''SESSION1''"
proof -
  have "decimal 42 = ''42''"
    by (simp add: decimal.simps digit_def char_of_def bit_Suc_0_iff)
  moreover have "take (trim_len (\<lambda>c. c = CHR '' '') ''SESSION1  '' 10) ''SESSION1  '' = ''SESSION1''"
    by (simp add: eval_nat_numeral)
  ultimately show ?thesis
    using soup_login_accepted [of "''SESSION1  ''" 42 "SoupBinDecoder_new None" "()"]
    by (simp only: list.size length_append) (simp add: SoupBinDecoder_new_def)
qed

end
