(* ===== verification/Message_Iterator.thy ===== *)
theory Message_Iterator
  imports Encoder
begin

text \<open>
  The native module of the Python package, \<^verbatim>\<open>python/src/bindings.cpp\<close>: the iterator over framed
  messages behind \<^verbatim>\<open>MessageParser\<close>, the packing and unpacking of message bodies and the halves of
  a timestamp. A binary file object is the list of the results its \<^verbatim>\<open>read\<close> calls will return (at
  the end of the file the empty string); the chunk size only limits their lengths. \<open>None\<close> is
  undefined behaviour: the dereference of an empty \<^verbatim>\<open>std::optional\<close> or an index outside a string.
  The message classes and their attributes are in \<open>Python_Messages\<close>.
\<close>

section \<open>Bodies and timestamps\<close>

datatype py_error = Value_error string | Runtime_error exn

definition ALL_MESSAGES :: "char list" where
  "ALL_MESSAGES = ''SAFECXDUBHRYPQINLVWKJhO''"

definition FRAME_HEADER_LEN :: nat where
  "FRAME_HEADER_LEN = 2"

definition message_to_bytes :: "Message \<Rightarrow> byte list" where
  "message_to_bytes msg = encode_message msg"

text \<open>The callback keeps the last message it sees.\<close>

definition unpack_body :: "byte list \<Rightarrow> (py_error + Message) option" where
  "unpack_body body =
     (let frame = [of_nat (drop_bit 8 (length body) AND 255), of_nat (length body AND 255)] @ body
      in do {
        (r, _, result) \<leftarrow> parse (\<lambda>_ message. Some message) frame Parser_init None;
        Some (case r of Inl e \<Rightarrow> Inl (Runtime_error e)
          | Inr _ \<Rightarrow> (case result of None \<Rightarrow> Inl (Value_error ''Could not unpack message body'') | Some m \<Rightarrow> Inr m)) })"

definition get_message_type :: "byte list \<Rightarrow> (py_error + Message) option" where
  "get_message_type body =
     (if body = [] \<or> char_of_byte (hd body) \<notin> set ALL_MESSAGES
      then Some (Inl (Value_error (''Unknown message type: '' @ (if body = [] then ''?'' else [char_of_byte (hd body)]))))
      else unpack_body body)"

definition message_set_timestamp :: "u64 \<Rightarrow> u64 \<Rightarrow> u64" where
  "message_set_timestamp ts1 ts2 = ts2 OR push_bit 32 ts1"

definition message_split_timestamp :: "u64 \<Rightarrow> u64 \<times> u64" where
  "message_split_timestamp t = (let high = drop_bit 32 t in (high, t - push_bit 32 high))"

section \<open>The iterator\<close>

record MessageIterator =
  it_buffer :: "byte list"
  it_offset :: nat
  it_filter :: "char list"
  it_file :: "byte list list option"
  it_save_file :: "byte list option"
  it_stopped :: bool

definition make_iterator :: "char list \<Rightarrow> byte list \<Rightarrow> byte list list option \<Rightarrow> byte list option \<Rightarrow> MessageIterator" where
  "make_iterator flt buffer file save_file =
     \<lparr>it_buffer = buffer, it_offset = 0, it_filter = flt, it_file = file, it_save_file = save_file, it_stopped = False\<rparr>"

text \<open>Drop the consumed bytes before more are read.\<close>

definition compact :: "MessageIterator \<Rightarrow> MessageIterator" where
  "compact it = (if it_offset it > 0
     then it\<lparr>it_buffer := drop (it_offset it) (it_buffer it), it_offset := 0\<rparr> else it)"

function fill_to :: "nat \<Rightarrow> MessageIterator \<Rightarrow> bool \<times> MessageIterator" where
  "fill_to need it =
     (if length (it_buffer it) - it_offset it < need
      then case it_file it of
          None \<Rightarrow> (False, it)
        | Some [] \<Rightarrow> (False, compact it)
        | Some (chunk # reads) \<Rightarrow>
            if chunk = [] then (False, (compact it)\<lparr>it_file := Some reads\<rparr>)
            else fill_to need ((compact it)\<lparr>it_buffer := it_buffer (compact it) @ chunk, it_file := Some reads\<rparr>)
      else (True, it))"
  by pat_completeness auto
termination
  by (relation "measure (\<lambda>(need, it). length (the (it_file it)))") (auto simp: compact_def)

declare fill_to.simps [simp del]

datatype NextResult = Yield Message | Stop_iteration | Raise py_error

text \<open>\<^verbatim>\<open>operator[]\<close> of a string: the position after the last character reads as zero.\<close>

definition string_at :: "byte list \<Rightarrow> nat \<Rightarrow> byte option" where
  "string_at s i = (if i < length s then Some (s ! i) else if i = length s then Some 0 else None)"

text \<open>The test for the end-of-messages event, which dereferences the parsed message.\<close>

definition is_stop_event :: "char \<Rightarrow> Message option \<Rightarrow> bool option" where
  "is_stop_event c parsed =
     (if c = CHR ''S''
      then (case parsed of Some (SystemEvent m) \<Rightarrow> Some (SystemEventMessage.event_code m = CHR ''C'') | _ \<Rightarrow> None)
      else Some False)"

text \<open>One turn of the loop of \<^verbatim>\<open>__next__\<close>: a result, or \<open>None\<close> to go round again.\<close>

definition next_frame :: "nat \<Rightarrow> MessageIterator \<Rightarrow> (NextResult option \<times> MessageIterator) option" where
  "next_frame frame_len it = do {
     let pos = it_offset it;
     b \<leftarrow> string_at (it_buffer it) (pos + FRAME_HEADER_LEN);
     let type_byte = char_of_byte b;
     if type_byte \<notin> set ALL_MESSAGES
     then Some (Some (Raise (Value_error (''Unknown message type: '' @ [type_byte]))), it)
     else do {
       frame \<leftarrow> subspan (it_buffer it) pos frame_len;
       (r, _, parsed) \<leftarrow> parse (\<lambda>_ message. Some message) frame Parser_init None;
       case r of Inl e \<Rightarrow> Some (Some (Raise (Runtime_error e)), it)
       | Inr _ \<Rightarrow> do {
         let it = it\<lparr>it_offset := pos + frame_len\<rparr>;
         let kept = (type_byte \<in> set (it_filter it));
         is_stop \<leftarrow> is_stop_event type_byte parsed;
         if kept then do {
           let it = it\<lparr>it_save_file := map_option (\<lambda>written. written @ frame) (it_save_file it)\<rparr>;
           let it = (if is_stop then it\<lparr>it_stopped := True\<rparr> else it);
           m \<leftarrow> parsed;
           Some (Some (Yield m), it) }
         else if is_stop then Some (Some Stop_iteration, it)
         else Some (None, it) } } }"

definition iter_step :: "MessageIterator \<Rightarrow> (NextResult option \<times> MessageIterator) option" where
  "iter_step it =
     (if it_stopped it then Some (Some Stop_iteration, it)
      else case fill_to FRAME_HEADER_LEN it of
          (False, it) \<Rightarrow> Some (Some Stop_iteration, it)
        | (True, it) \<Rightarrow> do {
            high \<leftarrow> string_at (it_buffer it) (it_offset it);
            low \<leftarrow> string_at (it_buffer it) (it_offset it + 1);
            let body_len = push_bit 8 (unat high) OR unat low;
            let frame_len = FRAME_HEADER_LEN + body_len;
            case fill_to frame_len it of
                (False, it) \<Rightarrow> Some (Some Stop_iteration, it)
              | (True, it) \<Rightarrow> next_frame frame_len it })"

text \<open>The bytes not yet consumed, in the buffer and in the file.\<close>

definition content :: "MessageIterator \<Rightarrow> byte list" where
  "content it = drop (it_offset it) (it_buffer it) @ concat (case it_file it of None \<Rightarrow> [] | Some reads \<Rightarrow> reads)"

lemma compact_simps [simp]:
  "content (compact it) = content it" "it_file (compact it) = it_file it" "it_filter (compact it) = it_filter it"
  "it_save_file (compact it) = it_save_file it" "it_stopped (compact it) = it_stopped it"
  "drop (it_offset (compact it)) (it_buffer (compact it)) = drop (it_offset it) (it_buffer it)"
  by (simp_all add: compact_def content_def)

lemma compact_offset: "it_offset (compact it) = 0"
  by (simp add: compact_def)

text \<open>Filling moves bytes from the file to the buffer and nothing else.\<close>

lemma fill_to_keeps:
  assumes "fill_to need it = (ok, it')"
  shows "content it' = content it \<and> it_filter it' = it_filter it \<and> it_save_file it' = it_save_file it \<and>
    it_stopped it' = it_stopped it \<and> (ok \<longrightarrow> need \<le> length (it_buffer it') - it_offset it')"
  using assms
proof (induction need it arbitrary: ok it' rule: fill_to.induct)
  case (1 need it)
  show ?case
  proof (cases "length (it_buffer it) - it_offset it < need")
    case False
    then show ?thesis
      using "1.prems" by (simp add: fill_to.simps [of need it])
  next
    case True
    consider (none) "it_file it = None" | (eof) "it_file it = Some []" | (chunk) chunk reads where "it_file it = Some (chunk # reads)"
      by (metis neq_Nil_conv not_Some_eq)
    then show ?thesis
    proof cases
      case none
      then show ?thesis
        using "1.prems" True by (simp add: fill_to.simps [of need it])
    next
      case eof
      then show ?thesis
        using "1.prems" True by (auto simp: fill_to.simps [of need it])
    next
      case chunk
      have empty: "content ((compact it)\<lparr>it_file := Some reads\<rparr>) = content it" if "chunk = []"
        using that chunk by (simp add: content_def compact_def)
      let ?it = "(compact it)\<lparr>it_buffer := it_buffer (compact it) @ chunk, it_file := Some reads\<rparr>"
      have more: "content ?it = content it"
        using chunk by (simp add: content_def compact_def)
      show ?thesis
      proof (cases "chunk = []")
        case True
        then show ?thesis
          using "1.prems" \<open>length (it_buffer it) - it_offset it < need\<close> chunk empty by (auto simp: fill_to.simps [of need it])
      next
        case False
        then have "fill_to need ?it = (ok, it')"
          using "1.prems" True chunk by (simp add: fill_to.simps [of need it])
        then show ?thesis
          using "1.IH" [OF True chunk refl False] more by simp
      qed
    qed
  qed
qed

lemma unat_shift_or: "push_bit 8 (unat (h :: byte)) OR unat (l :: byte) = be16 h l"
proof -
  have "push_bit 8 (unat h) AND unat l = 0"
    using unat_byte_less [of l]
    by (intro bit_eqI) (auto simp: bit_and_iff bit_push_bit_iff bit_unsigned_iff dest: bit_imp_le_length)
  then show ?thesis
    by (simp add: be16_def push_bit_eq_mult flip: disjunctive_add_eq_or)
qed

text \<open>A file whose reads return nothing only at its end.\<close>

definition steady :: "MessageIterator \<Rightarrow> bool" where
  "steady it \<longleftrightarrow> list_all (\<lambda>chunk. chunk \<noteq> []) (case it_file it of None \<Rightarrow> [] | Some reads \<Rightarrow> reads)"

lemma fill_to_decides:
  assumes "steady it" "it_offset it \<le> length (it_buffer it)"
  shows "\<exists>it'. fill_to need it = (need \<le> length (content it), it') \<and> steady it' \<and> it_offset it' \<le> length (it_buffer it')"
  using assms
proof (induction need it rule: fill_to.induct)
  case (1 need it)
  show ?case
  proof (cases "length (it_buffer it) - it_offset it < need")
    case False
    then show ?thesis
      using "1.prems" by (simp add: fill_to.simps [of need it] content_def)
  next
    case True
    consider (none) "it_file it = None" | (eof) "it_file it = Some []" | (chunk) chunk reads where "it_file it = Some (chunk # reads)"
      by (metis neq_Nil_conv not_Some_eq)
    then show ?thesis
    proof cases
      case none
      then show ?thesis
        using "1.prems" True by (simp add: fill_to.simps [of need it] content_def)
    next
      case eof
      then show ?thesis
        using "1.prems" True by (simp add: fill_to.simps [of need it] content_def steady_def compact_offset)
    next
      case chunk
      let ?it = "(compact it)\<lparr>it_buffer := it_buffer (compact it) @ chunk, it_file := Some reads\<rparr>"
      have ne: "chunk \<noteq> []" and st: "steady ?it" and off: "it_offset ?it \<le> length (it_buffer ?it)"
        using "1.prems" chunk by (simp_all add: steady_def compact_offset)
      have "content ?it = content it"
        using chunk by (simp add: content_def compact_def)
      then show ?thesis
        using "1.IH" [OF True chunk refl ne st off] True chunk ne by (simp add: fill_to.simps [of need it])
    qed
  qed
qed

lemma fill_to_buffer:
  assumes "fill_to need it = (True, it')"
  shows "take need (drop (it_offset it') (it_buffer it')) = take need (content it)"
proof -
  have keep: "content it' = content it" "need \<le> length (it_buffer it') - it_offset it'"
    using fill_to_keeps [OF assms] by simp_all
  have "take need (content it') = take need (drop (it_offset it') (it_buffer it'))"
    using keep(2) by (simp add: content_def)
  then show ?thesis
    by (simp add: keep(1))
qed

section \<open>One frame\<close>

lemma ALL_MESSAGES_registry: "c \<in> set ALL_MESSAGES \<longleftrightarrow> map_of for_each_message_type c \<noteq> None"
proof -
  have "set ALL_MESSAGES = set (map fst for_each_message_type)"
    by code_simp
  then show ?thesis
    by (simp add: map_of_eq_None_iff)
qed

fun end_of_messages :: "Message \<Rightarrow> bool" where
  "end_of_messages (SystemEvent m) \<longleftrightarrow> SystemEventMessage.event_code m = CHR ''C''"
| "end_of_messages _ \<longleftrightarrow> False"

lemma parse_one_frame:
  assumes "length body = be16 h l" "body \<noteq> []"
  shows "\<exists>p. parse (\<lambda>_ message. Some message) (h # l # body) Parser_init None =
    Some (Inr (), p, case decode_frame body of Inl _ \<Rightarrow> None | Inr m \<Rightarrow> Some m)"
proof -
  have "be16 h l \<noteq> 0"
    using assms by (metis length_0_conv)
  then have "split_frames (h # l # body) = ([body], True)"
    using assms by (simp add: Let_def)
  then show ?thesis
    by (simp add: parse_def parse_collect Let_def frame_messages_def split: sum.split)
qed

text \<open>What a frame means to the iterator, from its body alone.\<close>

definition frame_outcome :: "char list \<Rightarrow> byte list \<Rightarrow> NextResult option option" where
  "frame_outcome flt body =
     (let c = char_of_byte (hd body)
      in if c \<notin> set ALL_MESSAGES then Some (Some (Raise (Value_error (''Unknown message type: '' @ [c]))))
         else case decode_frame body of
             Inl _ \<Rightarrow> if c = CHR ''S'' \<or> c \<in> set flt then None else Some None
           | Inr m \<Rightarrow> if c \<in> set flt then Some (Some (Yield m))
               else if end_of_messages m then Some (Some Stop_iteration) else Some None)"

lemma decoded_stop:
  assumes "decode_frame body = Inr m"
  shows "is_stop_event (char_of_byte (hd body)) (Some m) = Some (end_of_messages m)"
  using decode_frame_Inr(1) [OF assms] by (cases m) (simp_all add: is_stop_event_def)

lemma next_frame_outcome:
  assumes buf: "take n (drop (it_offset it) (it_buffer it)) = h # l # body"
    and len: "length body = be16 h l" "body \<noteq> []" and n: "n = 2 + be16 h l"
  defines "c \<equiv> char_of_byte (hd body)" and "next \<equiv> it\<lparr>it_offset := it_offset it + n\<rparr>"
  shows "next_frame n it = (case frame_outcome (it_filter it) body of
      None \<Rightarrow> None
    | Some r \<Rightarrow> Some (r, if c \<notin> set ALL_MESSAGES then it
        else case r of Some (Yield m) \<Rightarrow> next\<lparr>it_save_file := map_option (\<lambda>written. written @ h # l # body) (it_save_file it),
            it_stopped := it_stopped it \<or> end_of_messages m\<rparr> | _ \<Rightarrow> next))"
proof -
  have size: "it_offset it + 2 < length (it_buffer it)"
    using arg_cong [OF buf, of length] len n by (cases body) auto
  have "(take n (drop (it_offset it) (it_buffer it))) ! 2 = hd body"
    unfolding buf using len(2) by (simp add: hd_conv_nth)
  moreover have "0 < be16 h l"
    using len by (metis length_greater_0_conv)
  ultimately have "it_buffer it ! (it_offset it + 2) = hd body"
    using size n by simp
  then have at: "string_at (it_buffer it) (it_offset it + FRAME_HEADER_LEN) = Some (hd body)"
    using size by (simp add: string_at_def FRAME_HEADER_LEN_def)
  have "it_offset it + n \<le> length (it_buffer it)"
    using arg_cong [OF buf, of length] len(1) n size by (simp add: min_def split: if_splits)
  then have frame: "subspan (it_buffer it) (it_offset it) n = Some (h # l # body)"
    by (simp add: buf)
  obtain p where p: "parse (\<lambda>_ message. Some message) (h # l # body) Parser_init None =
      Some (Inr (), p, case decode_frame body of Inl _ \<Rightarrow> None | Inr m \<Rightarrow> Some m)"
    using parse_one_frame [OF len] by blast
  show ?thesis
  proof (cases "decode_frame body")
    case (Inl e)
    then show ?thesis
      using p at by (auto simp: next_frame_def is_stop_event_def frame frame_outcome_def Let_def c_def next_def)
  next
    case (Inr m)
    then show ?thesis
      using p at decoded_stop [OF Inr] by (auto simp: next_frame_def frame frame_outcome_def Let_def c_def next_def)
  qed
qed

section \<open>The whole step\<close>

lemma take_two_drop:
  assumes "take 2 (drop i xs) = [a, b]"
  shows "i + 1 < length xs" "xs ! i = a" "xs ! (i + 1) = b"
proof -
  show len: "i + 1 < length xs"
    using arg_cong [OF assms, of length] by (simp add: min_def split: if_splits)
  show "xs ! i = a" "xs ! (i + 1) = b"
    using arg_cong [OF assms, of "\<lambda>ys. ys ! 0"] arg_cong [OF assms, of "\<lambda>ys. ys ! 1"] len by simp_all
qed

lemma drop_split: "drop i xs = take n (drop i xs) @ drop (i + n) xs"
  unfolding add.commute [of i n] drop_drop [symmetric] append_take_drop_id ..

text \<open>A complete frame at the head of the content is handled by its body, wherever its bytes are.\<close>

lemma iter_step_frame:
  assumes cont: "content it = h # l # body @ rest" and len: "length body = be16 h l" "body \<noteq> []"
    and it: "steady it" "it_offset it \<le> length (it_buffer it)" "\<not> it_stopped it"
  obtains (undefined) "frame_outcome (it_filter it) body = None" "iter_step it = None"
  | (unknown) it' where "char_of_byte (hd body) \<notin> set ALL_MESSAGES"
      "iter_step it = Some (Some (Raise (Value_error (''Unknown message type: '' @ [char_of_byte (hd body)]))), it')"
  | (known) r it' where "char_of_byte (hd body) \<in> set ALL_MESSAGES" "frame_outcome (it_filter it) body = Some r"
      "iter_step it = Some (r, it')" "content it' = rest" "steady it'" "it_offset it' \<le> length (it_buffer it')"
      "it_filter it' = it_filter it" "it_stopped it' \<longleftrightarrow> (\<exists>m. r = Some (Yield m) \<and> end_of_messages m)"
      "it_save_file it' = (case r of Some (Yield m) \<Rightarrow> map_option (\<lambda>written. written @ h # l # body) (it_save_file it)
        | _ \<Rightarrow> it_save_file it)"
proof -
  let ?n = "2 + be16 h l"
  obtain it1 where it1: "fill_to FRAME_HEADER_LEN it = (True, it1)" "steady it1" "it_offset it1 \<le> length (it_buffer it1)"
    using fill_to_decides [OF it(1,2), of FRAME_HEADER_LEN] cont by (auto simp: FRAME_HEADER_LEN_def)
  note keep1 = fill_to_keeps [OF it1(1)]
  obtain it2 where it2: "fill_to ?n it1 = (True, it2)" "steady it2" "it_offset it2 \<le> length (it_buffer it2)"
    using fill_to_decides [OF it1(2,3), of ?n] keep1 cont len by auto
  note keep2 = fill_to_keeps [OF it2(1)]
  have head: "take 2 (drop (it_offset it1) (it_buffer it1)) = [h, l]"
    using fill_to_buffer [OF it1(1)] cont by (simp add: FRAME_HEADER_LEN_def)
  have step: "iter_step it = next_frame ?n it2"
    using take_two_drop [OF head] it(3) it1(1) it2(1) by (simp add: iter_step_def string_at_def unat_shift_or FRAME_HEADER_LEN_def)
  have buf: "take ?n (drop (it_offset it2) (it_buffer it2)) = h # l # body"
    using fill_to_buffer [OF it2(1)] keep1 cont len by simp
  note out = next_frame_outcome [OF buf len refl, folded step]
  have rest: "drop (it_offset it2 + ?n) (it_buffer it2) @ concat (case it_file it2 of None \<Rightarrow> [] | Some reads \<Rightarrow> reads) = rest"
  proof -
    have "content it2 = take ?n (drop (it_offset it2) (it_buffer it2)) @ drop (it_offset it2 + ?n) (it_buffer it2) @
        concat (case it_file it2 of None \<Rightarrow> [] | Some reads \<Rightarrow> reads)"
      unfolding content_def by (subst drop_split [of _ _ ?n]) simp
    then show ?thesis
      using keep1 keep2 cont unfolding buf by simp
  qed
  have bound: "it_offset it2 + ?n \<le> length (it_buffer it2)"
    using arg_cong [OF buf, of length] len it2(3) by (simp add: min_def split: if_splits)
  show thesis
  proof (cases "frame_outcome (it_filter it) body")
    case None
    then show ?thesis
      using undefined out keep1 keep2 by simp
  next
    case (Some r)
    show ?thesis
    proof (cases "char_of_byte (hd body) \<in> set ALL_MESSAGES")
      case False
      then show ?thesis
        using unknown out keep1 keep2 Some by (simp add: frame_outcome_def Let_def)
    next
      case True
      define next_it where "next_it = it2\<lparr>it_offset := it_offset it2 + ?n\<rparr>"
      let ?it' = "case r of Some (Yield m) \<Rightarrow> next_it\<lparr>it_save_file := map_option (\<lambda>written. written @ h # l # body) (it_save_file it),
            it_stopped := it_stopped it \<or> end_of_messages m\<rparr> | _ \<Rightarrow> next_it"
      have r: "iter_step it = Some (r, ?it')"
        using out True Some keep1 keep2 by (auto simp: next_it_def split: option.split NextResult.split)
      have f: "content next_it = rest" "steady next_it" "it_offset next_it \<le> length (it_buffer next_it)"
        "it_filter next_it = it_filter it" "it_stopped next_it = False" "it_save_file next_it = it_save_file it"
        using rest it2(2) bound keep1 keep2 it(3) by (simp_all add: next_it_def content_def steady_def)
      then have g: "content (next_it\<lparr>it_save_file := w, it_stopped := st\<rparr>) = rest" "steady (next_it\<lparr>it_save_file := w, it_stopped := st\<rparr>)" for w st
        by (simp_all add: content_def steady_def)
      show ?thesis
        by (rule known [OF True Some r]) (use f g it(3) in \<open>auto split: option.split NextResult.split\<close>)
    qed
  qed
qed

definition incomplete :: "byte list \<Rightarrow> bool" where
  "incomplete bytes = (case bytes of h # l # rest \<Rightarrow> length rest < be16 h l | _ \<Rightarrow> True)"

lemma iter_step_incomplete:
  assumes "incomplete (content it)" "steady it" "it_offset it \<le> length (it_buffer it)"
  shows "\<exists>it'. iter_step it = Some (Some Stop_iteration, it') \<and> it_save_file it' = it_save_file it"
proof (cases "it_stopped it")
  case True
  then show ?thesis
    by (simp add: iter_step_def)
next
  case False
  obtain it1 where it1: "fill_to FRAME_HEADER_LEN it = (FRAME_HEADER_LEN \<le> length (content it), it1)" "steady it1"
    "it_offset it1 \<le> length (it_buffer it1)"
    using fill_to_decides [OF assms(2,3)] by blast
  note keep1 = fill_to_keeps [OF it1(1)]
  show ?thesis
  proof (cases "FRAME_HEADER_LEN \<le> length (content it)")
    case short: False
    then show ?thesis
      using it1(1) keep1 False by (simp add: iter_step_def)
  next
    case True
    then obtain h l rest where cont: "content it = h # l # rest"
      by (cases "content it"; cases "tl (content it)") (auto simp: FRAME_HEADER_LEN_def)
    have head: "take 2 (drop (it_offset it1) (it_buffer it1)) = [h, l]"
      using fill_to_buffer [of FRAME_HEADER_LEN it it1] it1(1) True cont by (simp add: FRAME_HEADER_LEN_def)
    obtain it2 where it2: "fill_to (2 + be16 h l) it1 = (2 + be16 h l \<le> length (content it1), it2)"
      using fill_to_decides [OF it1(2,3)] by blast
    have "\<not> 2 + be16 h l \<le> length (content it1)"
      using assms(1) keep1 by (simp add: incomplete_def cont)
    then show ?thesis
      using take_two_drop [OF head] False True it1(1) it2 keep1 fill_to_keeps [OF it2]
      by (simp add: iter_step_def string_at_def unat_shift_or FRAME_HEADER_LEN_def)
  qed
qed

section \<open>The loops over frames and over messages\<close>

lemma next_frame_advances:
  assumes "next_frame n it = Some (r, it')" "r = None \<or> r = Some (Yield m)"
  shows "it_offset it' = it_offset it + n \<and> it_buffer it' = it_buffer it \<and> it_file it' = it_file it"
proof -
  obtain b where b: "string_at (it_buffer it) (it_offset it + FRAME_HEADER_LEN) = Some b"
    using assms(1) by (cases "string_at (it_buffer it) (it_offset it + FRAME_HEADER_LEN)") (simp_all add: next_frame_def)
  have known: "char_of_byte b \<in> set ALL_MESSAGES"
    using assms b by (auto simp: next_frame_def Let_def split: if_splits)
  obtain frame where "subspan (it_buffer it) (it_offset it) n = Some frame"
    using assms(1) b known by (cases "subspan (it_buffer it) (it_offset it) n") (simp_all add: next_frame_def Let_def)
  moreover obtain e p parsed where "parse (\<lambda>_ message. Some message) frame Parser_init None = Some (e, p, parsed)"
    using parse_Some by (metis prod_cases3)
  ultimately have pr: "subspan (it_buffer it) (it_offset it) n = Some frame"
    "parse (\<lambda>_ message. Some message) frame Parser_init None = Some (e, p, parsed)" .
  obtain u where e: "e = Inr u"
    using assms b pr known by (cases e) (auto simp: next_frame_def Let_def)
  obtain st where st: "is_stop_event (char_of_byte b) parsed = Some st"
    using assms(1) b pr known e by (cases "is_stop_event (char_of_byte b) parsed") (simp_all add: next_frame_def Let_def)
  show ?thesis
    using assms b pr known e st
    by (cases "char_of_byte b \<in> set (it_filter it)"; cases parsed; cases st) (auto simp: next_frame_def Let_def)
qed

lemma iter_step_decreases:
  assumes "iter_step it = Some (r, it')" "r = None \<or> r = Some (Yield m)"
  shows "length (content it') < length (content it)"
proof -
  obtain it1 where it1: "fill_to FRAME_HEADER_LEN it = (True, it1)"
    using assms by (auto simp: iter_step_def split: if_splits prod.splits bool.splits)
  obtain hb lb where bytes: "string_at (it_buffer it1) (it_offset it1) = Some hb" "string_at (it_buffer it1) (it_offset it1 + 1) = Some lb"
    using assms it1 by (auto simp: iter_step_def Option.bind_eq_Some_conv split: if_splits)
  have running: "\<not> it_stopped it"
    using assms by (auto simp: iter_step_def)
  define n where "n = push_bit 8 (unat hb) OR unat lb"
  obtain ok it2 where f: "fill_to (FRAME_HEADER_LEN + n) it1 = (ok, it2)"
    by (cases "fill_to (FRAME_HEADER_LEN + n) it1")
  have ok
    using assms it1 bytes f running by (cases ok) (auto simp: iter_step_def n_def)
  then have n: "fill_to (FRAME_HEADER_LEN + n) it1 = (True, it2)" "next_frame (FRAME_HEADER_LEN + n) it2 = Some (r, it')"
    using assms(1) it1 bytes f running by (simp_all add: iter_step_def n_def)
  define file_length where "file_length = length (concat (case it_file it2 of None \<Rightarrow> [] | Some reads \<Rightarrow> reads))"
  define k where "k = FRAME_HEADER_LEN + n"
  have "0 < k" "k \<le> length (it_buffer it2) - it_offset it2"
    using fill_to_keeps [OF n(1)] by (simp_all add: k_def FRAME_HEADER_LEN_def)
  moreover have "length (content it') = length (it_buffer it2) - (it_offset it2 + k) + file_length"
    using next_frame_advances [OF n(2) assms(2)] by (simp add: content_def file_length_def k_def)
  moreover have "length (content it2) = length (it_buffer it2) - it_offset it2 + file_length"
    by (simp add: content_def file_length_def)
  moreover have "content it2 = content it"
    using fill_to_keeps [OF it1] fill_to_keeps [OF n(1)] by simp
  ultimately show ?thesis
    by simp
qed

function iter_next :: "MessageIterator \<Rightarrow> (NextResult \<times> MessageIterator) option" where
  "iter_next it = (case iter_step it of
     None \<Rightarrow> None
   | Some (Some r, it') \<Rightarrow> Some (r, it')
   | Some (None, it') \<Rightarrow> iter_next it')"
  by pat_completeness auto
termination
  by (relation "measure (\<lambda>it. length (content it))") (auto intro: iter_step_decreases)

declare iter_next.simps [simp del]

lemma iter_next_decreases: "iter_next it = Some (Yield m, it') \<Longrightarrow> length (content it') < length (content it)"
proof (induction it rule: iter_next.induct)
  case (1 it)
  obtain r it1 where step: "iter_step it = Some (r, it1)"
    using "1.prems" by (auto simp: iter_next.simps [of it] split: option.splits)
  show ?case
  proof (cases r)
    case None
    then show ?thesis
      using "1.IH" [OF step refl None] "1.prems" step iter_step_decreases [OF step] by (auto simp: iter_next.simps [of it])
  next
    case (Some x)
    then show ?thesis
      using "1.prems" step iter_step_decreases [OF step] by (auto simp: iter_next.simps [of it])
  qed
qed

function parse_messages_loop ::
  "('s \<Rightarrow> Message \<Rightarrow> 's) \<Rightarrow> MessageIterator \<Rightarrow> 's \<Rightarrow> ((py_error + unit) \<times> MessageIterator \<times> 's) option" where
  "parse_messages_loop callback it s = (case iter_next it of
     None \<Rightarrow> None
   | Some (Yield m, it') \<Rightarrow> parse_messages_loop callback it' (callback s m)
   | Some (Stop_iteration, it') \<Rightarrow> Some (Inr (), it', s)
   | Some (Raise e, it') \<Rightarrow> Some (Inl e, it', s))"
  by pat_completeness auto
termination
  by (relation "measure (\<lambda>(callback, it, s). length (content it))") (auto intro: iter_next_decreases)

declare parse_messages_loop.simps [simp del]

text \<open>\<^verbatim>\<open>parse_stream\<close>, \<^verbatim>\<open>parse_file\<close> and \<^verbatim>\<open>parse_messages\<close> of \<^verbatim>\<open>MessageParser\<close>, given its filter.\<close>

definition parse_stream :: "char list \<Rightarrow> byte list \<Rightarrow> byte list option \<Rightarrow> MessageIterator" where
  "parse_stream flt data save_file = make_iterator flt data None save_file"

definition parse_file :: "char list \<Rightarrow> byte list list \<Rightarrow> byte list option \<Rightarrow> MessageIterator" where
  "parse_file flt reads save_file = make_iterator flt [] (Some reads) save_file"

definition parse_messages ::
  "char list \<Rightarrow> byte list + byte list list \<Rightarrow> ('s \<Rightarrow> Message \<Rightarrow> 's) \<Rightarrow> 's
     \<Rightarrow> ((py_error + unit) \<times> MessageIterator \<times> 's) option" where
  "parse_messages flt source callback s = parse_messages_loop callback
     (case source of Inl data \<Rightarrow> make_iterator flt data None None | Inr reads \<Rightarrow> make_iterator flt [] (Some reads) None) s"

section \<open>A stream of messages\<close>

fun until_end :: "Message list \<Rightarrow> Message list" where
  "until_end [] = []"
| "until_end (m # ms) = m # (if end_of_messages m then [] else until_end ms)"

definition wanted :: "char list \<Rightarrow> Message list \<Rightarrow> Message list" where
  "wanted flt ms = filter (\<lambda>m. message_type_of m \<in> set flt) ms"

lemma wf_message_known:
  assumes "wf_message m"
  shows "message_type_of m \<in> set ALL_MESSAGES"
  using assms by (simp add: wf_message_def wf_header_def message_type_of_def ALL_MESSAGES_registry registry_lookup)

lemma encode_frame_parts:
  assumes "wf_message m"
  obtains h l where "encode_frame m = h # l # encode_message m" "length (encode_message m) = be16 h l"
    "encode_message m \<noteq> []" "char_of_byte (hd (encode_message m)) = message_type_of m"
proof -
  have len: "length (encode_message m) < 65536"
    using WIRE_SIZE_bounds [of "msg_type m"] length_encode_message [of m] assms by (simp add: wf_message_def)
  obtain h l where hl: "put (of_nat (length (encode_message m)) :: u16) = [h, l]" "be16 h l = length (encode_message m)"
    using put_u16_bytes [OF len] by blast
  obtain rest where rest: "encode_message m = byte_of_char (message_type_of m) # rest"
    using hd_encode_message by blast
  show thesis
    by (rule that [of h l]) (use hl rest in \<open>simp_all add: encode_frame_def Let_def\<close>)
qed

lemma iter_next_frame:
  assumes cont: "content it = encode_frame m @ rest" and m: "wf_message m"
    and it: "steady it" "it_offset it \<le> length (it_buffer it)" "\<not> it_stopped it"
  obtains it' where "iter_step it = Some (if message_type_of m \<in> set (it_filter it) then Some (Yield m)
      else if end_of_messages m then Some Stop_iteration else None, it')"
    "content it' = rest" "steady it'" "it_offset it' \<le> length (it_buffer it')" "it_filter it' = it_filter it"
    "it_stopped it' \<longleftrightarrow> message_type_of m \<in> set (it_filter it) \<and> end_of_messages m"
    "it_save_file it' = (if message_type_of m \<in> set (it_filter it)
       then map_option (\<lambda>written. written @ encode_frame m) (it_save_file it) else it_save_file it)"
proof -
  obtain h l where parts: "encode_frame m = h # l # encode_message m" "length (encode_message m) = be16 h l"
    "encode_message m \<noteq> []" "char_of_byte (hd (encode_message m)) = message_type_of m"
    using encode_frame_parts [OF m] .
  have out: "frame_outcome (it_filter it) (encode_message m) = Some (if message_type_of m \<in> set (it_filter it) then Some (Yield m)
      else if end_of_messages m then Some Stop_iteration else None)"
    using decode_frame_encode [OF m] wf_message_known [OF m] parts(4) by (simp add: frame_outcome_def Let_def)
  have cont': "content it = h # l # encode_message m @ rest"
    using cont parts(1) by simp
  show thesis
  proof (rule iter_step_frame [OF cont' parts(2,3) it], goal_cases)
    case 1
    then show ?case
      using out by simp
  next
    case 2
    then show ?case
      using parts(4) wf_message_known [OF m] by simp
  next
    case (3 r it')
    then show ?case
      using out parts(1) by (intro that [of it']) (auto split: if_splits)
  qed
qed

lemma parse_messages_drain:
  assumes "content it = concat (map encode_frame ms) @ tail" "list_all wf_message ms" "incomplete tail"
    "steady it" "it_offset it \<le> length (it_buffer it)" "\<not> it_stopped it"
  shows "\<exists>it'. parse_messages_loop callback it s = Some (Inr (), it', foldl callback s (wanted (it_filter it) (until_end ms))) \<and>
    it_save_file it' = map_option (\<lambda>written. written @ concat (map encode_frame (wanted (it_filter it) (until_end ms)))) (it_save_file it)"
  using assms
proof (induction ms arbitrary: it s)
  case Nil
  obtain it' where "iter_step it = Some (Some Stop_iteration, it')" "it_save_file it' = it_save_file it"
    using iter_step_incomplete [of it] Nil.prems by fastforce
  then show ?case
    by (simp add: parse_messages_loop.simps [of _ it] iter_next.simps [of it] wanted_def option.map_ident)
next
  case (Cons m ms)
  have cont: "content it = encode_frame m @ concat (map encode_frame ms) @ tail" and m: "wf_message m"
    and ms: "list_all wf_message ms"
    using Cons.prems(1,2) by simp_all
  obtain it1 where it1: "iter_step it = Some (if message_type_of m \<in> set (it_filter it) then Some (Yield m)
      else if end_of_messages m then Some Stop_iteration else None, it1)"
    "content it1 = concat (map encode_frame ms) @ tail" "steady it1" "it_offset it1 \<le> length (it_buffer it1)"
    "it_filter it1 = it_filter it" "it_stopped it1 \<longleftrightarrow> message_type_of m \<in> set (it_filter it) \<and> end_of_messages m"
    "it_save_file it1 = (if message_type_of m \<in> set (it_filter it)
       then map_option (\<lambda>written. written @ encode_frame m) (it_save_file it) else it_save_file it)"
    using iter_next_frame [OF cont m Cons.prems(4-6)] .
  note IH = Cons.IH [OF it1(2) ms Cons.prems(3) it1(3,4)]
  show ?case
  proof (cases "end_of_messages m")
    case True
    show ?thesis
    proof (cases "message_type_of m \<in> set (it_filter it)")
      case kept: True
      have stop: "iter_step it1 = Some (Some Stop_iteration, it1)"
        using it1(6) kept True by (simp add: iter_step_def)
      show ?thesis
        using it1 kept True stop
        by (simp add: parse_messages_loop.simps [of _ it] parse_messages_loop.simps [of _ it1] iter_next.simps [of it]
            iter_next.simps [of it1] wanted_def)
    next
      case False
      then show ?thesis
        using it1 True
        by (simp add: parse_messages_loop.simps [of _ it] iter_next.simps [of it] wanted_def option.map_ident)
    qed
  next
    case running: False
    show ?thesis
    proof (cases "message_type_of m \<in> set (it_filter it)")
      case True
      then have "iter_next it = Some (Yield m, it1)"
        using it1(1) by (simp add: iter_next.simps [of it])
      then show ?thesis
        using IH [of "callback s m"] it1(5-7) running True
        by (cases "it_save_file it") (simp_all add: parse_messages_loop.simps [of _ it] wanted_def)
    next
      case False
      then have "parse_messages_loop callback it s = parse_messages_loop callback it1 s"
        using it1(1) running by (simp add: parse_messages_loop.simps [of _ it] parse_messages_loop.simps [of _ it1] iter_next.simps [of it])
      then show ?thesis
        using IH [of s] it1(5-7) running False by (simp add: wanted_def)
    qed
  qed
qed

section \<open>Bodies\<close>

lemma unpack_frame:
  assumes "length body < 65536"
  shows "\<exists>h l. [of_nat (drop_bit 8 (length body) AND 255), of_nat (length body AND 255)] = [h, l] \<and> be16 h l = length body"
proof -
  have "length body AND 255 = length body mod 256" "drop_bit 8 (length body) AND 255 = length body div 256"
    using assms take_bit_eq_mask [of 8 "length body"] take_bit_eq_mask [of 8 "length body div 256"]
    by (simp_all add: mask_eq_exp_minus_1 take_bit_eq_mod drop_bit_eq_div)
  then show ?thesis
    using assms by (simp add: be16_def unat_of_nat take_bit_eq_mod)
qed

lemma unpack_body_decodes:
  assumes "length body < 65536"
  shows "unpack_body body = Some (if body = [] then Inl (Value_error ''Could not unpack message body'')
    else case decode_frame body of Inl _ \<Rightarrow> Inl (Value_error ''Could not unpack message body'') | Inr m \<Rightarrow> Inr m)"
proof -
  obtain h l where hl: "[of_nat (drop_bit 8 (length body) AND 255), of_nat (length body AND 255)] = [h, l]" "be16 h l = length body"
    using unpack_frame [OF assms] by blast
  show ?thesis
  proof (cases "body = []")
    case True
    then show ?thesis
      by (simp add: unpack_body_def parse_def parse_collect Let_def frame_messages_def be16_def)
  next
    case False
    then obtain p where "parse (\<lambda>_ message. Some message) (h # l # body) Parser_init None =
        Some (Inr (), p, case decode_frame body of Inl _ \<Rightarrow> None | Inr m \<Rightarrow> Some m)"
      using parse_one_frame [of body h l] hl(2) by metis
    then show ?thesis
      using hl(1) False by (simp add: unpack_body_def Let_def split: sum.split)
  qed
qed

lemma timestamp_halves:
  "message_set_timestamp (fst (message_split_timestamp t)) (snd (message_split_timestamp t)) = t"
  "unat (snd (message_split_timestamp t)) < 2 ^ 32"
proof -
  have low: "t - push_bit 32 (drop_bit 32 t) = take_bit 32 t"
    by (metis add_diff_cancel_right' bits_ident add.commute)
  then show "unat (snd (message_split_timestamp t)) < 2 ^ 32"
    using take_bit_nat_less_exp [of 32 "unat t"] by (simp add: message_split_timestamp_def Let_def unsigned_take_bit_eq)
  have "take_bit 32 t OR push_bit 32 (drop_bit 32 t) = t"
    by (rule bit_word_eqI) (auto simp: bit_or_iff bit_take_bit_iff bit_push_bit_iff bit_drop_bit_eq not_less le_add_diff_inverse
        simp del: add_diff_cancel_left' split: nat_diff_split)
  then show "message_set_timestamp (fst (message_split_timestamp t)) (snd (message_split_timestamp t)) = t"
    by (simp add: message_split_timestamp_def message_set_timestamp_def Let_def low)
qed

section \<open>Properties\<close>

text \<open>
  C14. A binary file with encoded messages, an incomplete frame at its end, read in non-empty pieces
  of any sizes: \<^verbatim>\<open>parse_messages\<close> returns, after calling the callback with exactly the messages
  whose type the filter holds, in order, up to and with the end-of-messages event; the iterator of
  \<^verbatim>\<open>parse_file\<close> ends after the same messages and has appended their frames to the save file.
\<close>

theorem iterator_delivers:
  fixes callback :: "'s \<Rightarrow> Message \<Rightarrow> 's"
  assumes "list_all (\<lambda>chunk. chunk \<noteq> []) reads" "list_all wf_message ms" "incomplete tail"
    and "concat reads = concat (map encode_frame ms) @ tail"
  shows "(\<exists>it'. parse_messages flt (Inr reads) callback s = Some (Inr (), it', foldl callback s (wanted flt (until_end ms)))) \<and>
    (\<exists>it'. parse_messages_loop callback (parse_file flt reads (Some written)) s =
        Some (Inr (), it', foldl callback s (wanted flt (until_end ms))) \<and>
      it_save_file it' = Some (written @ concat (map encode_frame (wanted flt (until_end ms)))))"
proof -
  have run: "\<exists>it'. parse_messages_loop callback it s = Some (Inr (), it', foldl callback s (wanted flt (until_end ms))) \<and>
      it_save_file it' = map_option (\<lambda>written. written @ concat (map encode_frame (wanted flt (until_end ms)))) w"
    if "it = make_iterator flt [] (Some reads) w" for it w
    using parse_messages_drain [of it ms tail callback s] assms that
    by (simp add: make_iterator_def content_def steady_def)
  show ?thesis
    using run [OF refl, of None] run [OF refl, of "Some written"] by (auto simp: parse_messages_def parse_file_def)
qed

definition sample_end :: SystemEventMessage where
  "sample_end = blank_SystemEvent\<lparr>SystemEventMessage.event_code := CHR ''C''\<rparr>"

lemma wf_sample_end: "wf_message (SystemEvent sample_end)"
  by (simp add: sample_end_def blank_SystemEvent_def wf_message_def wf_header_def)

theorem iterator_delivers_witness:
  "\<exists>it'. parse_messages_loop (\<lambda>ms m. ms @ [m])
      (parse_file ''S'' [encode_frame (SystemEvent sample_end), encode_frame (AddOrder sample_add) @ [0]] (Some [])) [] =
    Some (Inr (), it', [SystemEvent sample_end]) \<and> it_save_file it' = Some (encode_frame (SystemEvent sample_end))"
proof -
  have "encode_frame m \<noteq> []" for m
    using hd_encode_message [of m] by (auto simp: encode_frame_def Let_def)
  moreover have "wanted ''S'' (until_end [SystemEvent sample_end, AddOrder sample_add]) = [SystemEvent sample_end]"
    by (simp add: wanted_def sample_end_def blank_SystemEvent_def message_type_of_def)
  ultimately show ?thesis
    using conjunct2 [OF iterator_delivers [of "[encode_frame (SystemEvent sample_end), encode_frame (AddOrder sample_add) @ [0]]"
      "[SystemEvent sample_end, AddOrder sample_add]" "[0]" "''S''" "\<lambda>ms m. ms @ [m]" "[]" "[]"]] wf_sample_end wf_sample_add
    by (simp add: incomplete_def)
qed

text \<open>
  C20. What one call of \<^verbatim>\<open>__next__\<close> does with the complete frame in front of it, wherever the bytes
  of the frame are: a frame of an unknown type is raised; a frame that does not decode, shorter than
  its type, is passed over when the filter does not hold its type, but dereferences an empty
  optional when the filter holds it or when it is a system event.
\<close>

theorem iterator_undefined_frame:
  assumes "concat reads = h # l # body @ rest" "list_all (\<lambda>chunk. chunk \<noteq> []) reads" "length body = be16 h l" "body \<noteq> []"
  shows "iter_step (parse_file flt reads w) = None \<longleftrightarrow>
    char_of_byte (hd body) \<in> set ALL_MESSAGES \<and> decode_frame body = Inl size_mismatch \<and>
    char_of_byte (hd body) \<in> set (CHR ''S'' # flt)"
proof -
  have it: "content (parse_file flt reads w) = h # l # body @ rest" "steady (parse_file flt reads w)"
    "it_offset (parse_file flt reads w) \<le> length (it_buffer (parse_file flt reads w))" "\<not> it_stopped (parse_file flt reads w)"
    "it_filter (parse_file flt reads w) = flt"
    using assms(1,2) by (simp_all add: parse_file_def make_iterator_def content_def steady_def)
  have known: "e = size_mismatch" if "decode_frame body = Inl e" "char_of_byte (hd body) \<in> set ALL_MESSAGES" for e
    using that by (auto simp: decode_frame_def ALL_MESSAGES_registry split: option.splits)
  show ?thesis
    by (rule iter_step_frame [OF it(1) assms(3,4) it(2-4)])
      (use it(5) known in \<open>auto simp: frame_outcome_def Let_def split: if_splits sum.splits\<close>)
qed

theorem iterator_undefined_frame_witness:
  "iter_step (parse_file ''A'' [[0, 1], [byte_of_char (CHR ''S'')]] None) = None"
proof -
  have "decode_frame [byte_of_char (CHR ''S'')] = Inl size_mismatch"
    using decode_typed_None [of "[byte_of_char (CHR ''S'')]" SystemEventT] WIRE_SIZE_bounds(1) [of SystemEventT]
    by (simp add: decode_frame_def for_each_message_type_def del: decode_typed.simps)
  then show ?thesis
    using iterator_undefined_frame [of "[[0, 1], [byte_of_char (CHR ''S'')]]" 0 1 "[byte_of_char (CHR ''S'')]" "[]" "''A''" None]
    by (simp add: be16_def ALL_MESSAGES_def)
qed

lemma unpack_body_packed:
  assumes "wf_message m"
  shows "unpack_body (message_to_bytes m) = Some (Inr m)"
proof -
  obtain h l where parts: "encode_frame m = h # l # encode_message m" "length (encode_message m) = be16 h l"
    "encode_message m \<noteq> []" "char_of_byte (hd (encode_message m)) = message_type_of m"
    using encode_frame_parts [OF assms] .
  have len: "length (message_to_bytes m) < 65536"
    using WIRE_SIZE_bounds [of "msg_type m"] length_encode_message [of m] assms by (simp add: wf_message_def message_to_bytes_def)
  show ?thesis
    using unpack_body_decodes [OF len] decode_frame_encode [OF assms] parts(3) by (simp add: message_to_bytes_def)
qed

text \<open>
  Packing and unpacking are inverse: the body that \<^verbatim>\<open>to_bytes\<close> gives is unpacked to the same
  message, by the constructor and by \<^verbatim>\<open>get_message_type\<close>; what unpacks packs to the leading bytes of
  the body; and the two halves of a split timestamp set the timestamp back.
\<close>

theorem unpack_pack:
  assumes "wf_message m" "length body < 65536"
  shows "unpack_body (message_to_bytes m) = Some (Inr m) \<and> get_message_type (message_to_bytes m) = Some (Inr m) \<and>
    (\<forall>m'. unpack_body body = Some (Inr m') \<longrightarrow> message_to_bytes m' = take (WIRE_SIZE (msg_type m')) body) \<and>
    message_set_timestamp (fst (message_split_timestamp t)) (snd (message_split_timestamp t)) = t"
proof (intro conjI allI impI)
  obtain h l where parts: "encode_frame m = h # l # encode_message m" "length (encode_message m) = be16 h l"
    "encode_message m \<noteq> []" "char_of_byte (hd (encode_message m)) = message_type_of m"
    using encode_frame_parts [OF assms(1)] .
  show unpack: "unpack_body (message_to_bytes m) = Some (Inr m)"
    by (rule unpack_body_packed [OF assms(1)])
  then show "get_message_type (message_to_bytes m) = Some (Inr m)"
    using parts(3,4) wf_message_known [OF assms(1)] by (simp add: get_message_type_def message_to_bytes_def)
next
  fix m'
  assume "unpack_body body = Some (Inr m')"
  then have "decode_frame body = Inr m'"
    using unpack_body_decodes [OF assms(2)] by (auto split: if_splits sum.splits)
  then show "message_to_bytes m' = take (WIRE_SIZE (msg_type m')) body"
    by (simp add: message_to_bytes_def encode_decode_frame)
next
  show "message_set_timestamp (fst (message_split_timestamp t)) (snd (message_split_timestamp t)) = t"
    by (rule timestamp_halves)
qed

theorem unpack_pack_witness:
  "get_message_type (message_to_bytes (SystemEvent sample_end)) = Some (Inr (SystemEvent sample_end))"
  using unpack_pack [OF wf_sample_end, of "[]"] by simp

end
