(* ===== verification/Doubles.thy ===== *)
theory Doubles
  imports Complex_Main "HOL-Library.Log_Nat" Itch_Prelude
begin

text \<open>
  The arithmetic of \<^verbatim>\<open>double\<close>. A finite double is the rational number it stands for, and an operation
  is the exact operation followed by \<open>rnd\<close>, the rounding of binary64: to 53 significant bits, to
  nearest, ties to even. The exponent is not bounded: every value of the modelled code that is not
  zero lies between \<open>2 ^ -100\<close> and \<open>2 ^ 300\<close>, far from overflow and from the subnormal numbers,
  unless a comment at its definition says otherwise. The sign of a zero is not modelled.
\<close>

section \<open>Floors of logarithms\<close>

definition ilog :: "nat \<Rightarrow> rat \<Rightarrow> int" where
  "ilog b x = (case quotient_of \<bar>x\<bar> of (p, q) \<Rightarrow>
     let k = int (floorlog b (nat p)) - int (floorlog b (nat q))
     in if of_nat b powi k \<le> \<bar>x\<bar> then k else k - 1)"

lemma floorlog_powi:
  assumes "0 < n" "1 < b"
  shows "(of_nat b :: rat) powi (int (floorlog b n) - 1) \<le> of_nat n" "of_nat n < (of_nat b :: rat) powi int (floorlog b n)"
proof -
  have pos: "0 < floorlog b n"
    using assms floorlog_eq_zero_iff [of b n] by simp
  have "of_nat (b ^ (floorlog b n - 1)) \<le> (of_nat n :: rat)" "of_nat n < (of_nat (b ^ floorlog b n) :: rat)"
    using floorlog_bounds [OF assms] by (simp_all only: of_nat_le_iff of_nat_less_iff)
  then show "(of_nat b :: rat) powi (int (floorlog b n) - 1) \<le> of_nat n" "of_nat n < (of_nat b :: rat) powi int (floorlog b n)"
    using pos by (simp_all add: power_int_def nat_diff_distrib)
qed

lemma powi_lessD: "b powi i < b powi j \<Longrightarrow> 1 < b \<Longrightarrow> i < j" for b :: rat
  using power_int_increasing [of j i b] by force

lemma ilog_bounds:
  assumes "x \<noteq> 0" "1 < b"
  shows "of_nat b powi ilog b x \<le> \<bar>x\<bar>" "\<bar>x\<bar> < of_nat b powi (ilog b x + 1)"
proof -
  obtain p q where pq: "quotient_of \<bar>x\<bar> = (p, q)"
    by (cases "quotient_of \<bar>x\<bar>")
  have q: "0 < q" and x: "\<bar>x\<bar> = of_int p / of_int q"
    using quotient_of_denom_pos [OF pq] quotient_of_div [OF pq] by simp_all
  have "0 < \<bar>x\<bar>"
    using assms by simp
  then have p: "0 < p"
    using q unfolding x by (simp add: zero_less_divide_iff)
  define i j where "i = int (floorlog b (nat p))" and "j = int (floorlog b (nat q))"
  let ?B = "of_nat b :: rat"
  have B: "1 < ?B" "0 < ?B"
    using assms by simp_all
  have np: "of_nat (nat p) = (of_int p :: rat)" and nq: "of_nat (nat q) = (of_int q :: rat)"
    using p q by simp_all
  note fp = floorlog_powi [of "nat p" b, unfolded np, folded i_def] and fq = floorlog_powi [of "nat q" b, unfolded nq, folded j_def]
  have qq: "0 < (of_int q :: rat)"
    using q by simp
  have lower: "?B powi (i - j - 1) \<le> \<bar>x\<bar>"
  proof -
    have "?B powi (i - j - 1) * of_int q \<le> ?B powi (i - j - 1) * ?B powi j"
      using fq(2) q assms B by (intro mult_left_mono) auto
    also have "\<dots> = ?B powi (i - 1)"
      using B by (simp flip: power_int_add)
    also have "\<dots> \<le> of_int p"
      using fp(1) p assms by simp
    finally show ?thesis
      unfolding x using qq by (simp add: pos_le_divide_eq)
  qed
  have upper: "\<bar>x\<bar> < ?B powi (i - j + 1)"
  proof -
    have "of_int p < ?B powi i"
      using fp(2) p assms by simp
    also have "\<dots> = ?B powi (i - j + 1) * ?B powi (j - 1)"
      using B by (simp flip: power_int_add)
    also have "\<dots> \<le> ?B powi (i - j + 1) * of_int q"
      using fq(1) q assms B by (intro mult_left_mono) auto
    finally show ?thesis
      unfolding x using qq by (simp add: pos_divide_less_eq)
  qed
  show "of_nat b powi ilog b x \<le> \<bar>x\<bar>" "\<bar>x\<bar> < of_nat b powi (ilog b x + 1)"
    using lower upper by (simp_all add: ilog_def pq Let_def flip: i_def j_def)
qed

lemma ilog_unique:
  assumes "of_nat b powi e \<le> \<bar>x\<bar>" "\<bar>x\<bar> < of_nat b powi (e + 1)" "1 < b"
  shows "ilog b x = e"
proof -
  have B: "1 < (of_nat b :: rat)"
    using assms(3) by simp
  have "0 < (of_nat b :: rat) powi e"
    using B by simp
  then have x: "x \<noteq> 0"
    using assms(1) by auto
  have "(of_nat b :: rat) powi ilog b x < of_nat b powi (e + 1)" "(of_nat b :: rat) powi e < of_nat b powi (ilog b x + 1)"
    using ilog_bounds [OF x assms(3)] assms(1,2) by (auto intro: le_less_trans)
  then have "ilog b x < e + 1" "e < ilog b x + 1"
    using B by (auto dest: powi_lessD)
  then show ?thesis
    by simp
qed

lemma ilog_minus [simp]: "ilog b (- x) = ilog b x"
  by (simp add: ilog_def)

section \<open>Rounding to an integer\<close>

definition round_even :: "rat \<Rightarrow> int" where
  "round_even x = (let f = \<lfloor>x\<rfloor>; d = x - of_int f
     in if d < 1 / 2 then f else if d > 1 / 2 then f + 1 else if even f then f else f + 1)"

lemma round_even_error: "\<bar>of_int (round_even x) - x\<bar> \<le> 1 / 2"
proof -
  define f where "f = \<lfloor>x\<rfloor>"
  have "of_int f \<le> x" "x < of_int f + 1"
    unfolding f_def by linarith+
  then show ?thesis
    by (auto simp: round_even_def Let_def abs_if simp flip: f_def)
qed

lemma round_even_of_int [simp]: "round_even (of_int n) = n"
  by (simp add: round_even_def)

lemma round_even_nearest:
  assumes "\<bar>x - of_int n\<bar> < 1 / 2"
  shows "round_even x = n"
proof -
  have "\<bar>of_int (round_even x) - of_int n\<bar> < (1 :: rat)"
    using assms round_even_error [of x] by linarith
  then have "\<bar>round_even x - n\<bar> < 1"
    by (metis of_int_1_less_iff of_int_abs of_int_diff of_int_less_1_iff)
  then show ?thesis
    by simp
qed

lemma round_even_mono:
  assumes "x \<le> y"
  shows "round_even x \<le> round_even y"
proof (cases "\<lfloor>x\<rfloor> = \<lfloor>y\<rfloor>")
  case True
  then show ?thesis
    using assms by (auto simp: round_even_def Let_def)
next
  case False
  then have "\<lfloor>x\<rfloor> + 1 \<le> \<lfloor>y\<rfloor>"
    using floor_mono [OF assms] by linarith
  moreover have "round_even x \<le> \<lfloor>x\<rfloor> + 1" "\<lfloor>y\<rfloor> \<le> round_even y"
    by (auto simp: round_even_def Let_def)
  ultimately show ?thesis
    by linarith
qed

lemma round_even_minus: "round_even (- x) = - round_even x"
proof (cases "x = of_int \<lfloor>x\<rfloor>")
  case True
  then show ?thesis
    by (metis of_int_minus round_even_of_int)
next
  case False
  then have "\<lfloor>- x\<rfloor> = - \<lfloor>x\<rfloor> - 1"
    by linarith
  then show ?thesis
    by (auto simp: round_even_def Let_def)
qed

section \<open>Rounding to a double\<close>

definition ulp :: "rat \<Rightarrow> rat" where
  "ulp x = 2 powi (ilog 2 x - 52)"

definition rnd :: "rat \<Rightarrow> rat" where
  "rnd x = (if x = 0 then 0 else of_int (round_even (x / ulp x)) * ulp x)"

text \<open>The numbers with 53 significant bits.\<close>

definition is_double :: "rat \<Rightarrow> bool" where
  "is_double x \<longleftrightarrow> (\<exists>m k. x = of_int m * 2 powi k \<and> \<bar>m\<bar> \<le> 2 ^ 53)"

lemma ulp_pos [simp]: "0 < ulp x"
  by (simp add: ulp_def)

lemma ulp_minus [simp]: "ulp (- x) = ulp x"
  by (simp add: ulp_def)

lemma powi_split: "2 powi (k + int n) = (2 :: rat) powi k * 2 ^ n"
  by (simp add: power_int_add)

lemma powi_ulp: "2 powi ilog 2 x = 2 ^ 52 * ulp x" "2 powi (ilog 2 x + 1) = 2 ^ 53 * ulp x"
proof -
  have "2 powi (ilog 2 x - 52 + 52) = 2 ^ 52 * ulp x" "2 powi (ilog 2 x - 52 + 53) = 2 ^ 53 * ulp x"
    using powi_split [of "ilog 2 x - 52" 52] powi_split [of "ilog 2 x - 52" 53] by (simp_all add: ulp_def)
  then show "2 powi ilog 2 x = 2 ^ 52 * ulp x" "2 powi (ilog 2 x + 1) = 2 ^ 53 * ulp x"
    by (simp_all only: diff_add_cancel, simp add: algebra_simps)
qed

lemma ulp_bounds:
  assumes "x \<noteq> 0"
  shows "2 ^ 52 * ulp x \<le> \<bar>x\<bar>" "\<bar>x\<bar> < 2 ^ 53 * ulp x"
  using ilog_bounds [OF assms, of 2] powi_ulp [of x] by simp_all

lemma rnd_zero [simp]: "rnd 0 = 0"
  by (simp add: rnd_def)

lemma rnd_minus: "rnd (- x) = - rnd x"
  by (simp add: rnd_def round_even_minus)

lemma rnd_ulp_error: "\<bar>rnd x - x\<bar> \<le> ulp x / 2"
proof (cases "x = 0")
  case False
  have "rnd x - x = (of_int (round_even (x / ulp x)) - x / ulp x) * ulp x"
    using False by (simp add: rnd_def left_diff_distrib less_imp_neq [OF ulp_pos, symmetric])
  then have "\<bar>rnd x - x\<bar> = \<bar>of_int (round_even (x / ulp x)) - x / ulp x\<bar> * ulp x"
    by (simp add: abs_mult less_imp_le)
  also have "\<dots> \<le> 1 / 2 * ulp x"
    by (intro mult_right_mono round_even_error less_imp_le ulp_pos)
  finally show ?thesis
    by simp
qed (simp add: less_imp_le)

lemma rnd_error: "\<bar>rnd x - x\<bar> \<le> \<bar>x\<bar> / 2 ^ 53"
proof (cases "x = 0")
  case False
  show ?thesis
    using rnd_ulp_error [of x] ulp_bounds(1) [OF False] by simp
qed simp

lemma rnd_magnitude:
  assumes "x \<noteq> 0"
  shows "2 ^ 52 \<le> \<bar>round_even (x / ulp x)\<bar>" "\<bar>round_even (x / ulp x)\<bar> \<le> 2 ^ 53"
proof -
  have abs: "\<bar>x / ulp x\<bar> = \<bar>x\<bar> / ulp x"
    using ulp_pos [of x] by (simp only: abs_divide abs_of_pos)
  have y: "of_int (2 ^ 52) \<le> \<bar>x / ulp x\<bar>" "\<bar>x / ulp x\<bar> \<le> of_int (2 ^ 53)"
    unfolding abs pos_le_divide_eq [OF ulp_pos] pos_divide_le_eq [OF ulp_pos]
    using ulp_bounds [OF assms] by simp_all
  have "\<bar>round_even z\<bar> = round_even \<bar>z\<bar>" for z
    using round_even_mono [of 0 z] round_even_mono [of z 0] round_even_of_int [of 0]
    by (cases "0 \<le> z") (simp_all add: round_even_minus abs_if)
  then show "2 ^ 52 \<le> \<bar>round_even (x / ulp x)\<bar>" "\<bar>round_even (x / ulp x)\<bar> \<le> 2 ^ 53"
    using round_even_mono [OF y(1)] round_even_mono [OF y(2)] by (simp_all only: round_even_of_int)
qed

lemma is_double_rnd [simp]: "is_double (rnd x)"
proof (cases "x = 0")
  case True
  then show ?thesis
    unfolding is_double_def by (intro exI [of _ 0]) simp
next
  case False
  then show ?thesis
    unfolding is_double_def using rnd_magnitude(2) [OF False]
    by (intro exI [of _ "round_even (x / ulp x)"] exI [of _ "ilog 2 x - 52"]) (simp add: rnd_def ulp_def)
qed

lemma rnd_exact:
  assumes "is_double x"
  shows "rnd x = x"
proof (cases "x = 0")
  case False
  obtain m k where x: "x = of_int m * 2 powi k" and m: "\<bar>m\<bar> \<le> 2 ^ 53"
    using assms by (auto simp: is_double_def)
  have int: "\<exists>n :: int. x / ulp x = of_int n"
  proof (cases "ilog 2 x - 52 \<le> k")
    case True
    define d where "d = nat (k - (ilog 2 x - 52))"
    have "2 powi k = ulp x * (2 :: rat) ^ d"
      using True powi_split [of "ilog 2 x - 52" d] by (simp add: ulp_def d_def)
    then have "x = of_int (m * 2 ^ d) * ulp x"
      using x by (metis (no_types, opaque_lifting) mult.commute mult.assoc of_int_mult of_int_numeral of_int_power)
    then have "x / ulp x = of_int (m * 2 ^ d)"
      by (simp only: nonzero_divide_eq_eq [OF less_imp_neq [OF ulp_pos, symmetric]])
    then show ?thesis ..
  next
    case False
    define d where "d = nat (ilog 2 x - 52 - k)"
    have d: "ulp x = 2 powi k * (2 :: rat) ^ d" "1 \<le> d"
      using False powi_split [of k d] by (simp_all add: ulp_def d_def)
    have "2 ^ 53 * (2 :: rat) powi k \<le> 2 ^ 52 * ulp x"
      using power_increasing [of 1 d "2 :: rat"] d by simp
    also have "\<dots> \<le> \<bar>x\<bar>"
      using ulp_bounds(1) [OF \<open>x \<noteq> 0\<close>] .
    also have "\<dots> = of_int \<bar>m\<bar> * 2 powi k"
      by (simp add: x abs_mult power_int_abs)
    finally have "2 ^ 53 \<le> (of_int \<bar>m\<bar> :: rat)"
      by simp
    then have top: "\<bar>m\<bar> = 2 ^ 53"
      using m by (metis antisym of_int_le_iff of_int_numeral of_int_power)
    then have "\<bar>x\<bar> = 2 powi (k + 53)"
      using powi_split [of k 53] by (simp add: x abs_mult power_int_abs)
    then have "ilog 2 x = k + 53"
      by (intro ilog_unique) (simp_all add: power_int_add)
    then have "d = 1"
      by (simp add: d_def)
    moreover have "even \<bar>m\<bar>"
      unfolding top by simp
    then have "m = m div 2 * 2"
      by simp
    then have half: "of_int m = of_int (m div 2) * (2 :: rat)"
      by (metis of_int_mult of_int_numeral)
    ultimately have "ulp x = 2 * 2 powi k"
      using d by simp
    then have "of_int (m div 2) * ulp x = of_int m * 2 powi k"
      unfolding half by simp
    then have "x = of_int (m div 2) * ulp x"
      using x by (simp only:)
    then have "x / ulp x = of_int (m div 2)"
      by (simp only: nonzero_divide_eq_eq [OF less_imp_neq [OF ulp_pos, symmetric]])
    then show ?thesis ..
  qed
  then obtain n where "x / ulp x = of_int n"
    by blast
  moreover from this have "x = of_int n * ulp x"
    by (simp only: nonzero_divide_eq_eq [OF less_imp_neq [OF ulp_pos, symmetric]])
  ultimately show ?thesis
    using False by (simp add: rnd_def)
qed simp

lemma is_double_of_int [simp]: "\<bar>m\<bar> \<le> 2 ^ 53 \<Longrightarrow> is_double (of_int m)"
  unfolding is_double_def by (intro exI [of _ m] exI [of _ 0]) simp

lemma is_double_of_nat [simp]: "n \<le> 2 ^ 53 \<Longrightarrow> is_double (of_nat n)"
  using is_double_of_int [of "int n"] by simp

lemma is_double_scale: "is_double x \<Longrightarrow> is_double (x * 2 powi j)"
proof -
  assume "is_double x"
  then obtain m k where x: "x = of_int m * 2 powi k" "\<bar>m\<bar> \<le> 2 ^ 53"
    by (auto simp: is_double_def)
  then show ?thesis
    unfolding is_double_def by (intro exI [of _ m] exI [of _ "k + j"]) (simp add: power_int_add)
qed

lemma is_double_minus [simp]: "is_double (- x) \<longleftrightarrow> is_double x"
proof -
  have "is_double (- x)" if x: "is_double x" for x
  proof -
    obtain m k where "x = of_int m * 2 powi k" "\<bar>m\<bar> \<le> 2 ^ 53"
      using x by (auto simp: is_double_def)
    then show ?thesis
      unfolding is_double_def by (intro exI [of _ "- m"] exI [of _ k]) simp
  qed
  from this [of x] this [of "- x"] show ?thesis
    by auto
qed

text \<open>Rounding is monotone.\<close>

lemma rnd_mono_pos:
  assumes "0 < x" "x \<le> y"
  shows "rnd x \<le> rnd y"
proof (cases "ulp x = ulp y")
  case True
  have "x / ulp y \<le> y / ulp y"
    using assms ulp_pos [of y] by (simp add: divide_right_mono less_imp_le)
  then have "of_int (round_even (x / ulp y)) * ulp y \<le> of_int (round_even (y / ulp y)) * ulp y"
    by (intro mult_right_mono) (simp_all add: round_even_mono less_imp_le)
  then show ?thesis
    using assms True by (simp add: rnd_def)
next
  case False
  have x: "x \<noteq> 0" "\<bar>x\<bar> = x" and y: "y \<noteq> 0" "\<bar>y\<bar> = y"
    using assms by auto
  have "(2 :: rat) powi ilog 2 x < 2 powi (ilog 2 y + 1)"
    using ilog_bounds(1) [OF x(1), of 2] ilog_bounds(2) [OF y(1), of 2] assms by simp
  then have "ilog 2 x < ilog 2 y + 1"
    by (auto dest: powi_lessD)
  moreover have "ilog 2 x \<noteq> ilog 2 y"
    using False by (auto simp: ulp_def)
  ultimately have less: "ilog 2 x + 1 \<le> ilog 2 y"
    by simp
  have rx: "rnd x \<le> 2 ^ 53 * ulp x" and ry: "2 ^ 52 * ulp y \<le> rnd y"
  proof -
    have "of_int (round_even (x / ulp x)) \<le> (2 ^ 53 :: rat)" "(2 ^ 52 :: rat) \<le> of_int \<bar>round_even (y / ulp y)\<bar>"
      using rnd_magnitude [OF x(1)] rnd_magnitude [OF y(1)] abs_le_D1
      by (metis of_int_le_iff of_int_numeral of_int_power)+
    moreover have "0 \<le> round_even (y / ulp y)"
      using round_even_mono [of 0 "y / ulp y"] round_even_of_int [of 0] y assms ulp_pos [of y] by (simp add: less_imp_le)
    ultimately show "rnd x \<le> 2 ^ 53 * ulp x" "2 ^ 52 * ulp y \<le> rnd y"
      using x y by (simp_all add: rnd_def mult_right_mono less_imp_le)
  qed
  have "(2 :: rat) powi (ilog 2 x + 1) \<le> 2 powi ilog 2 y"
    using less by (intro power_int_increasing) simp_all
  then show ?thesis
    using rx ry powi_ulp(2) [of x] powi_ulp(1) [of y] by simp
qed

lemma rnd_sign: "0 \<le> x \<Longrightarrow> 0 \<le> rnd x"
  using round_even_mono [of 0 "x / ulp x"] round_even_of_int [of 0] ulp_pos [of x]
  by (simp add: rnd_def less_imp_le)

lemma rnd_mono:
  assumes "x \<le> y"
  shows "rnd x \<le> rnd y"
proof -
  consider "0 < x" | "y < 0" | "x \<le> 0" "0 \<le> y"
    by linarith
  then show ?thesis
  proof cases
    case 1
    then show ?thesis
      using assms by (rule rnd_mono_pos)
  next
    case 2
    then show ?thesis
      using rnd_mono_pos [of "- y" "- x"] assms by (simp add: rnd_minus)
  next
    case 3
    then show ?thesis
      using rnd_sign [of y] rnd_sign [of "- x"] by (simp add: rnd_minus)
  qed
qed

lemma rnd_le: "x \<le> y \<Longrightarrow> is_double y \<Longrightarrow> rnd x \<le> y"
  using rnd_mono [of x y] by (simp add: rnd_exact)

lemma rnd_ge: "x \<le> y \<Longrightarrow> is_double x \<Longrightarrow> x \<le> rnd y"
  using rnd_mono [of x y] by (simp add: rnd_exact)

lemma rnd_zero_iff [simp]: "rnd x = 0 \<longleftrightarrow> x = 0"
proof -
  have "round_even (x / ulp x) \<noteq> 0" if "x \<noteq> 0"
    using rnd_magnitude(1) [OF that] by auto
  then show ?thesis
    by (auto simp: rnd_def less_imp_neq [OF ulp_pos, symmetric])
qed

end
