(* ===== verification/Text_Format.thy ===== *)
theory Text_Format
  imports Digits Doubles
begin

text \<open>
  The text of a double: \<^verbatim>\<open>std::format("{:.nf}")\<close>, which writes the exact value rounded to \<open>n\<close>
  decimals, and the default \<^verbatim>\<open>operator<<\<close> of \<^verbatim>\<open>std::ostream\<close> (six significant digits, no trailing
  zeros, scientific notation outside \<open>10 ^ -4 .. 10 ^ 6\<close>); and padding to a width.
\<close>

definition pad_left :: "nat \<Rightarrow> char list \<Rightarrow> char list" where
  "pad_left w s = replicate (w - length s) (CHR '' '') @ s"

definition pad_right :: "nat \<Rightarrow> char list \<Rightarrow> char list" where
  "pad_right w s = s @ replicate (w - length s) (CHR '' '')"

definition sign_text :: "rat \<Rightarrow> char list" where
  "sign_text x = (if x < 0 then ''-'' else [])"

text \<open>The lines of a text; the last one may lack its end.\<close>

fun text_lines :: "string \<Rightarrow> string \<Rightarrow> string list" where
  "text_lines acc [] = (if acc = [] then [] else [acc])"
| "text_lines acc (c # cs) = (if c = CHR 0x0A then acc # text_lines [] cs else text_lines (acc @ [c]) cs)"

lemma text_lines_append: "CHR 0x0A \<notin> set xs \<Longrightarrow> text_lines acc (xs @ CHR 0x0A # rest) = (acc @ xs) # text_lines [] rest"
  by (induction xs arbitrary: acc) auto

lemma text_lines_last: "CHR 0x0A \<notin> set xs \<Longrightarrow> text_lines acc xs = (if acc @ xs = [] then [] else [acc @ xs])"
  by (induction xs arbitrary: acc) auto

section \<open>Fixed notation\<close>

definition fixed_text :: "nat \<Rightarrow> nat \<Rightarrow> char list" where
  "fixed_text n k = decimal (k div 10 ^ n) @ (if n = 0 then [] else CHR ''.'' # decimal_field n k)"

definition format_fixed :: "nat \<Rightarrow> rat \<Rightarrow> char list" where
  "format_fixed n x = sign_text x @ fixed_text n (nat (round_even (\<bar>x\<bar> * 10 ^ n)))"

lemma format_fixed_near:
  assumes "0 \<le> x" "\<bar>x * 10 ^ n - of_nat k\<bar> < 1 / 2"
  shows "format_fixed n x = fixed_text n k"
  using round_even_nearest [of "x * 10 ^ n" "int k"] assms by (simp add: format_fixed_def sign_text_def)

lemma fixed_text_digits: "digits_value (filter is_digit (fixed_text n k)) = k"
proof -
  have "filter is_digit (decimal (k div 10 ^ n)) = decimal (k div 10 ^ n)" "filter is_digit (decimal_field n k) = decimal_field n k"
    using decimal_digits [of "k div 10 ^ n"] decimal_field_digits [of n k] by (simp_all add: filter_id_conv list_all_iff)
  then show ?thesis
    by (simp add: fixed_text_def digits_value_append decimal_value decimal_field_value div_mult_mod_eq)
qed

lemma fixed_text_inject: "fixed_text n k = fixed_text n l \<longleftrightarrow> k = l"
  using fixed_text_digits by metis

lemma fixed_text_no:
  assumes "\<not> is_digit c" "c \<noteq> CHR ''.''"
  shows "c \<notin> set (fixed_text n k)"
  using assms by (simp add: fixed_text_def decimal_no)

text \<open>Reading a decimal numeral with an optional fraction.\<close>

definition text_value :: "char list \<Rightarrow> rat" where
  "text_value s = (let frac = drop 1 (dropWhile is_digit s)
     in of_nat (digits_value (takeWhile is_digit s)) + of_nat (digits_value frac) / 10 ^ length frac)"

lemma text_value_parts:
  assumes "list_all is_digit ds" "list_all is_digit fs"
  shows "text_value (ds @ (if fs = [] then [] else CHR ''.'' # fs)) =
    of_nat (digits_value ds) + of_nat (digits_value fs) / 10 ^ length fs"
proof -
  have "takeWhile is_digit (ds @ CHR ''.'' # fs) = ds" "dropWhile is_digit (ds @ CHR ''.'' # fs) = CHR ''.'' # fs"
    "takeWhile is_digit ds = ds" "dropWhile is_digit ds = []"
    using assms(1) by (simp_all add: list_all_iff takeWhile_append2 dropWhile_append2)
  then show ?thesis
    by (simp add: text_value_def)
qed

lemma quotient_parts: "of_nat (k div 10 ^ n) + of_nat (k mod 10 ^ n) / 10 ^ n = (of_nat k / 10 ^ n :: rat)"
proof -
  have "(of_nat (k div 10 ^ n * 10 ^ n + k mod 10 ^ n) :: rat) = of_nat k"
    by (simp only: div_mult_mod_eq)
  then have "(of_nat k :: rat) = of_nat (k div 10 ^ n) * 10 ^ n + of_nat (k mod 10 ^ n)"
    by (simp only: of_nat_add of_nat_mult of_nat_power of_nat_numeral)
  then have "(of_nat k / 10 ^ n :: rat) = (of_nat (k div 10 ^ n) * 10 ^ n + of_nat (k mod 10 ^ n)) / 10 ^ n"
    by (simp only:)
  then show ?thesis
    by (simp add: add_divide_distrib)
qed

lemma text_value_fixed: "text_value (fixed_text n k) = of_nat k / 10 ^ n"
proof -
  have "fixed_text n k = decimal (k div 10 ^ n) @ (if decimal_field n k = [] then [] else CHR ''.'' # decimal_field n k)"
    by (cases n) (simp_all add: fixed_text_def)
  then show ?thesis
    using text_value_parts [of "decimal (k div 10 ^ n)" "decimal_field n k"] decimal_digits decimal_field_digits
    by (simp add: decimal_value decimal_field_value quotient_parts)
qed

section \<open>General notation\<close>

text \<open>The six significant digits \<open>m\<close> and the exponent \<open>X\<close> of the first of them.\<close>

definition significant :: "rat \<Rightarrow> int \<times> int" where
  "significant x = (let X = ilog 10 x; m = round_even (\<bar>x\<bar> * 10 powi (5 - X))
     in if m = 10 ^ 6 then (10 ^ 5, X + 1) else (m, X))"

definition strip_zeros :: "char list \<Rightarrow> char list" where
  "strip_zeros fs = rev (dropWhile (\<lambda>c. c = CHR ''0'') (rev fs))"

definition trimmed_text :: "nat \<Rightarrow> nat \<Rightarrow> char list" where
  "trimmed_text d m = (let fs = strip_zeros (decimal_field d m)
     in decimal (m div 10 ^ d) @ (if fs = [] then [] else CHR ''.'' # fs))"

definition exponent_text :: "int \<Rightarrow> char list" where
  "exponent_text X = (if X < 0 then ''e-'' else ''e+'') @
     (if \<bar>X\<bar> < 10 then ''0'' else []) @ decimal (nat \<bar>X\<bar>)"

definition format_general :: "rat \<Rightarrow> char list" where
  "format_general x =
     (if x = 0 then ''0''
      else case significant x of (m, X) \<Rightarrow>
        sign_text x @
        (if -4 \<le> X \<and> X < 6 then trimmed_text (nat (5 - X)) (nat m)
         else trimmed_text 5 (nat m) @ exponent_text X))"

lemma strip_zeros_split: "\<exists>k. fs = strip_zeros fs @ replicate k (CHR ''0'')"
proof -
  have "rev fs = takeWhile (\<lambda>c. c = CHR ''0'') (rev fs) @ dropWhile (\<lambda>c. c = CHR ''0'') (rev fs)"
    by simp
  then have "fs = strip_zeros fs @ rev (takeWhile (\<lambda>c. c = CHR ''0'') (rev fs))"
    by (metis rev_append rev_rev_ident strip_zeros_def)
  moreover have "takeWhile (\<lambda>c. c = CHR ''0'') (rev fs) = replicate (length (takeWhile (\<lambda>c. c = CHR ''0'') (rev fs))) (CHR ''0'')"
    by (intro replicate_length_same [symmetric]) (auto dest: set_takeWhileD)
  ultimately show ?thesis
    by (metis rev_replicate)
qed

lemma strip_zeros_value:
  "(of_nat (digits_value (strip_zeros fs)) / 10 ^ length (strip_zeros fs) :: rat) = of_nat (digits_value fs) / 10 ^ length fs"
proof -
  obtain k where k: "fs = strip_zeros fs @ replicate k (CHR ''0'')"
    using strip_zeros_split by blast
  have zeros: "digits_value (replicate k (CHR ''0'')) = 0" for k
    by (induction k) (simp_all add: digits_value_def)
  define gs where "gs = strip_zeros fs"
  show ?thesis
    by (subst (3 4) k) (simp add: digits_value_append zeros power_add flip: gs_def)
qed

lemma text_value_trimmed: "text_value (trimmed_text d m) = of_nat m / 10 ^ d"
proof -
  have "set (strip_zeros (decimal_field d m)) \<subseteq> set (decimal_field d m)"
    by (auto simp: strip_zeros_def dest: set_dropWhileD)
  then have "list_all is_digit (strip_zeros (decimal_field d m))"
    using decimal_field_digits [of d m] by (auto simp: list_all_iff)
  then have "text_value (trimmed_text d m) = of_nat (m div 10 ^ d) +
      of_nat (digits_value (strip_zeros (decimal_field d m))) / 10 ^ length (strip_zeros (decimal_field d m))"
    using text_value_parts [of "decimal (m div 10 ^ d)" "strip_zeros (decimal_field d m)"] decimal_digits
    by (simp add: trimmed_text_def Let_def decimal_value)
  then show ?thesis
    by (simp add: strip_zeros_value decimal_field_value quotient_parts)
qed

lemma significant_cases:
  fixes x :: rat
  obtains "significant x = (round_even (\<bar>x\<bar> * 10 powi (5 - ilog 10 x)), ilog 10 x)"
      "round_even (\<bar>x\<bar> * 10 powi (5 - ilog 10 x)) \<noteq> 10 ^ 6"
    | "significant x = (10 ^ 5, ilog 10 x + 1)" "round_even (\<bar>x\<bar> * 10 powi (5 - ilog 10 x)) = 10 ^ 6"
  by (cases "round_even (\<bar>x\<bar> * 10 powi (5 - ilog 10 x)) = 10 ^ 6") (simp_all add: significant_def Let_def)

lemma significant_scaled:
  assumes "x \<noteq> 0"
  shows "10 ^ 5 \<le> \<bar>x\<bar> * 10 powi (5 - ilog 10 x)" "\<bar>x\<bar> * 10 powi (5 - ilog 10 x) < 10 ^ 6"
proof -
  have pos: "0 < (10 :: rat) powi (5 - ilog 10 x)"
    by simp
  have "10 powi ilog 10 x * (10 :: rat) powi (5 - ilog 10 x) = 10 ^ 5" "10 powi (ilog 10 x + 1) * (10 :: rat) powi (5 - ilog 10 x) = 10 ^ 6"
    by (simp_all flip: power_int_add)
  then show "10 ^ 5 \<le> \<bar>x\<bar> * 10 powi (5 - ilog 10 x)" "\<bar>x\<bar> * 10 powi (5 - ilog 10 x) < 10 ^ 6"
    using mult_right_mono [OF ilog_bounds(1) [OF assms, of 10] less_imp_le [OF pos]]
      mult_strict_right_mono [OF ilog_bounds(2) [OF assms, of 10] pos] by simp_all
qed

lemma significant_bounds:
  assumes "x \<noteq> 0" "significant x = (m, X)"
  shows "10 ^ 5 \<le> m" "m < 10 ^ 6" "of_int m * 10 powi (X - 5) = of_int (round_even (\<bar>x\<bar> * 10 powi (5 - ilog 10 x))) * (10 :: rat) powi (ilog 10 x - 5)"
proof -
  let ?m = "round_even (\<bar>x\<bar> * 10 powi (5 - ilog 10 x))"
  have "10 ^ 5 \<le> ?m" "?m \<le> 10 ^ 6"
    using round_even_mono [OF significant_scaled(1) [OF assms(1)]] round_even_mono [OF less_imp_le [OF significant_scaled(2) [OF assms(1)]]]
      round_even_of_int [of "10 ^ 5"] round_even_of_int [of "10 ^ 6"] by simp_all
  moreover have "10 powi (ilog 10 x + 1 - 5) = 10 * (10 :: rat) powi (ilog 10 x - 5)"
    using power_int_add [of "10 :: rat" "ilog 10 x - 5" 1] by (simp add: algebra_simps)
  ultimately show "10 ^ 5 \<le> m" "m < 10 ^ 6" "of_int m * 10 powi (X - 5) = of_int ?m * (10 :: rat) powi (ilog 10 x - 5)"
    using assms(2) by (cases x rule: significant_cases; simp)+
qed

lemma format_general_no:
  assumes "\<not> is_digit c" "c \<notin> set ''.-+e''"
  shows "c \<notin> set (format_general x)"
proof -
  have zero: "c \<noteq> CHR ''0''"
    using assms(1) by (auto simp: is_digit_def)
  have "set (strip_zeros fs) \<subseteq> set fs" for fs
    by (auto simp: strip_zeros_def dest: set_dropWhileD)
  then have "c \<notin> set (strip_zeros (decimal_field d n))" for d n
    using decimal_no(2) [OF assms(1)] by blast
  then have "c \<notin> set (trimmed_text d n)" for d n
    using assms decimal_no(1) [OF assms(1)] by (simp add: trimmed_text_def Let_def)
  moreover have "c \<notin> set (exponent_text X)" for X
    using assms zero decimal_no(1) [OF assms(1)] by (simp add: exponent_text_def)
  ultimately show ?thesis
    using assms zero by (cases "significant x") (simp add: format_general_def sign_text_def)
qed

text \<open>
  A double next to a decimal fraction with four decimals and at most six digits is written as that
  fraction.
\<close>

lemma format_general_exact:
  fixes r :: nat
  assumes "0 < r" "r < 10 ^ 6" "\<bar>x - of_nat r / 10 ^ 4\<bar> \<le> of_nat r / 10 ^ 4 / 2 ^ 53"
  shows "text_value (format_general x) = of_nat r / 10 ^ 4"
proof -
  define y where "y = (of_nat r / 10 ^ 4 :: rat)"
  define X where "X = ilog 10 x"
  have y: "0 < y" "y \<le> 999999 / 10000"
    using assms by (simp_all add: y_def)
  have err: "x - y \<le> y / 2 ^ 53" "y - x \<le> y / 2 ^ 53"
    using assms(3) unfolding y_def [symmetric] abs_le_iff by simp_all
  have x: "0 < x" "x < 100" "y \<le> 2 * x"
    using y err by simp_all
  have X: "X \<le> 1"
  proof -
    have "(10 :: rat) powi X < 10 powi 2"
      using ilog_bounds(1) [of x 10] x by (simp add: X_def)
    from powi_lessD [OF this] show ?thesis
      by simp
  qed
  define z where "z = r * 10 ^ nat (1 - X)"
  have scale: "y * 10 powi (5 - X) = of_nat z"
  proof -
    have "(10 :: rat) powi (5 - X) = 10 ^ 4 * 10 ^ nat (1 - X)"
      using X power_int_add [of "10 :: rat" 4 "1 - X"] by (simp add: power_int_def)
    then show ?thesis
      by (simp add: y_def z_def)
  qed
  have "\<bar>x * 10 powi (5 - X) - of_int (int z)\<bar> < 1 / 2"
  proof -
    have p: "0 < (10 :: rat) powi (5 - X)"
      by simp
    have "x * 10 powi (5 - X) < 10 ^ 6"
      using significant_scaled(2) [of x] x by (simp add: X_def)
    then have "y * 10 powi (5 - X) < 2 * 10 ^ 6"
      using mult_right_mono [OF x(3) less_imp_le [OF p]] by linarith
    moreover have "x * 10 powi (5 - X) - y * 10 powi (5 - X) \<le> y * 10 powi (5 - X) / 2 ^ 53"
        "y * 10 powi (5 - X) - x * 10 powi (5 - X) \<le> y * 10 powi (5 - X) / 2 ^ 53"
      using mult_right_mono [OF err(1) less_imp_le [OF p]] mult_right_mono [OF err(2) less_imp_le [OF p]]
      by (simp_all only: left_diff_distrib times_divide_eq_left)
    ultimately show ?thesis
      unfolding scale of_int_of_nat_eq abs_less_iff by (simp add: pos_le_divide_eq)
  qed
  then have near: "round_even (\<bar>x\<bar> * 10 powi (5 - ilog 10 x)) = int z"
    using x by (intro round_even_nearest) (simp add: X_def)
  obtain m E where sig: "significant x = (m, E)"
    by (cases "significant x")
  note b = significant_bounds [OF _ sig]
  have val: "of_int m * 10 powi (E - 5) = y"
  proof -
    have "of_int m * 10 powi (E - 5) = of_nat z * (10 :: rat) powi (X - 5)"
      using b(3) x near by (simp add: X_def)
    also have "\<dots> = y * (10 powi (5 - X) * 10 powi (X - 5))"
      by (simp add: scale)
    finally show ?thesis
      by (simp flip: power_int_add)
  qed
  have m: "10 ^ 5 \<le> m" "m < 10 ^ 6"
    using b(1,2) x by simp_all
  have E: "-4 \<le> E" "E < 6"
  proof -
    have p: "0 < (10 :: rat) powi (E - 5)"
      by simp
    have split: "10 ^ 5 * (10 :: rat) powi (E - 5) = 10 powi E" "10 ^ 6 * (10 :: rat) powi (E - 5) = 10 powi (E + 1)"
      using power_int_add [of "10 :: rat" 5 "E - 5"] power_int_add [of "10 :: rat" 6 "E - 5"] by (simp_all add: algebra_simps)
    have "(10 ^ 5 :: rat) \<le> of_int m" "(of_int m :: rat) < 10 ^ 6"
      using m by simp_all
    then have "10 powi E \<le> y" "y < 10 powi (E + 1)"
      using mult_right_mono [of "10 ^ 5" "of_int m :: rat", OF _ less_imp_le [OF p]] mult_strict_right_mono [OF _ p, of "of_int m" "10 ^ 6"]
      unfolding split val by simp_all
    moreover have "10 powi (-4) \<le> y" "y < 10 powi 2"
      using assms(1) y by (simp_all add: y_def power_int_def power_divide)
    ultimately have "(10 :: rat) powi E < 10 powi 2" "(10 :: rat) powi (-4) < 10 powi (E + 1)"
      by simp_all
    from this [THEN powi_lessD] show "-4 \<le> E" "E < 6"
      by simp_all
  qed
  have "(10 :: rat) powi (E - 5) = 1 / 10 ^ nat (5 - E)"
    using E by (simp add: power_int_def field_simps)
  then have "of_nat (nat m) / 10 ^ nat (5 - E) = y"
    using val m by simp
  then show ?thesis
    using E x sig text_value_trimmed [of "nat (5 - E)" "nat m"]
    by (simp add: format_general_def sign_text_def y_def)
qed

end
