(* ===== verification/Price_Format.thy ===== *)
theory Price_Format
  imports Prices Text_Format
begin

text \<open>
  The floating-point and text views of a price, \<^verbatim>\<open>to_double\<close> and \<^verbatim>\<open>to_string\<close> of
  \<^verbatim>\<open>include/itch/price.hpp\<close>, for both scales.
\<close>

text \<open>The value of an unsigned integer as a rational number.\<close>

definition wrat :: "'w::len word \<Rightarrow> rat" where
  "wrat w = of_nat (unat w)"

lemma wrat_nonneg [simp]: "0 \<le> wrat w" "\<bar>wrat w\<bar> = wrat w"
  by (simp_all add: wrat_def del: of_nat_unat)

lemma wrat_less_iff [simp]: "wrat v < wrat w \<longleftrightarrow> v < w"
  by (simp add: wrat_def word_less_nat_alt del: of_nat_unat)

lemma wrat_le_iff [simp]: "wrat v \<le> wrat w \<longleftrightarrow> v \<le> w"
  by (simp add: wrat_def word_le_nat_alt del: of_nat_unat)

lemma wrat_eq_iff [simp]: "wrat v = wrat w \<longleftrightarrow> v = w"
  by (simp add: wrat_def word_unat_eq_iff del: of_nat_unat)

lemma wrat_zero [simp]: "wrat 0 = 0" "wrat w = 0 \<longleftrightarrow> w = 0"
  by (simp_all add: wrat_def unat_eq_zero del: of_nat_unat)

lemma wrat_nat: "unat w < n \<longleftrightarrow> wrat w < of_nat n" "unat w \<le> n \<longleftrightarrow> wrat w \<le> of_nat n"
  by (simp_all add: wrat_def del: of_nat_unat)

lemma wrat_u32: "wrat (w :: u32) < 2 ^ 32"
  using unsigned_less [of w, where ?'a = nat] wrat_nat(1) [of w "2 ^ 32"] by simp

lemma wrat_u64: "wrat (w :: u64) < 2 ^ 64"
  using unsigned_less [of w, where ?'a = nat] wrat_nat(1) [of w "2 ^ 64"] by simp

lemma wrat_succ: "v < w \<Longrightarrow> wrat v + 1 \<le> wrat w"
proof -
  assume "v < w"
  then have "of_nat (unat v + 1) \<le> (of_nat (unat w) :: rat)"
    unfolding of_nat_le_iff by (simp add: word_less_nat_alt)
  then show ?thesis
    by (simp add: wrat_def del: of_nat_unat)
qed

text \<open>\<^verbatim>\<open>static_cast<double>\<close> of an integer.\<close>

definition double_of :: "'w::len word \<Rightarrow> rat" where
  "double_of w = rnd (wrat w)"

lemma double_of_exact: "unat w \<le> 2 ^ 53 \<Longrightarrow> double_of w = wrat w"
  by (simp add: double_of_def wrat_def rnd_exact del: of_nat_unat)

lemma double_of_u32 [simp]: "double_of (w :: u32) = wrat w"
  using unsigned_less [of w, where ?'a = nat] by (intro double_of_exact) simp

lemma double_of_nonneg [simp]: "0 \<le> double_of w"
  by (simp add: double_of_def rnd_sign)

lemma is_double_double_of [simp]: "is_double (double_of w)"
  by (simp add: double_of_def)

lemma double_of_divisor: "double_of (divisor 4 :: u32) = 10 ^ 4" "double_of (divisor 8 :: u64) = 10 ^ 8"
  by (simp_all add: double_of_exact divisor_exact wrat_def del: of_nat_unat)

text \<open>\<^verbatim>\<open>std::to_string\<close> of an unsigned integer.\<close>

definition number_text :: "'w::len word \<Rightarrow> string" where
  "number_text n = decimal (unat n)"

section \<open>Prices\<close>

definition to_double :: "StandardPrice \<Rightarrow> rat" where
  "to_double p = rnd (double_of (raw p) / double_of (divisor 4 :: u32))"

definition price_to_string :: "StandardPrice \<Rightarrow> string" where
  "price_to_string p = format_fixed 4 (to_double p)"

definition mwcb_to_double :: "MwcbPrice \<Rightarrow> rat" where
  "mwcb_to_double p = rnd (double_of (mwcb_raw p) / double_of (divisor 8 :: u64))"

definition mwcb_to_string :: "MwcbPrice \<Rightarrow> string" where
  "mwcb_to_string p = format_fixed 8 (mwcb_to_double p)"

lemma to_double_rnd: "to_double p = rnd (wrat (raw p) / 10 ^ 4)"
  using double_of_divisor(1) by (simp add: to_double_def)

lemma to_double_error: "\<bar>to_double p - wrat (raw p) / 10 ^ 4\<bar> \<le> wrat (raw p) / 10 ^ 4 / 2 ^ 53"
  using rnd_error [of "wrat (raw p) / 10 ^ 4"] by (simp add: to_double_rnd)

lemma to_double_nonneg [simp]: "0 \<le> to_double p"
  by (simp add: to_double_rnd rnd_sign)

lemma is_double_to_double [simp]: "is_double (to_double p)"
  by (simp add: to_double_def)

lemma to_double_mono: "raw p \<le> raw q \<Longrightarrow> to_double p \<le> to_double q"
  by (simp add: to_double_rnd rnd_mono divide_right_mono)

text \<open>Doubles are dense enough to keep distinct prices apart.\<close>

lemma to_double_strict:
  assumes "raw p < raw q"
  shows "to_double p < to_double q"
  using wrat_succ [OF assms] wrat_u32 [of "raw q"] wrat_nonneg(1) [of "raw p"] to_double_error [of p] to_double_error [of q]
  unfolding abs_le_iff by simp

lemma to_double_less_iff [simp]: "to_double p < to_double q \<longleftrightarrow> p < q"
  using to_double_strict [of p q] to_double_mono [of q p] unfolding less_StandardPrice_def by (meson not_less)

lemma to_double_eq_iff [simp]: "to_double p = to_double q \<longleftrightarrow> p = q"
  using to_double_less_iff [of p q] to_double_less_iff [of q p] by (metis less_irrefl neq_iff)

lemma scaled_error:
  assumes "unat w < 2 ^ 52"
  shows "\<bar>rnd (wrat w / 10 ^ k) * 10 ^ k - of_nat (unat w)\<bar> < 1 / 2"
proof -
  have "\<bar>(rnd (wrat w / 10 ^ k) - wrat w / 10 ^ k) * 10 ^ k\<bar> \<le> wrat w / 10 ^ k / 2 ^ 53 * 10 ^ k"
    unfolding abs_mult using rnd_error [of "wrat w / 10 ^ k"] by (intro mult_mono) simp_all
  then have "\<bar>rnd (wrat w / 10 ^ k) * 10 ^ k - wrat w\<bar> \<le> wrat w / 2 ^ 53"
    by (simp add: left_diff_distrib)
  moreover have "wrat w < 2 ^ 52"
    using assms wrat_nat(1) [of w "2 ^ 52"] by simp
  ultimately show ?thesis
    by (simp add: wrat_def del: of_nat_unat)
qed

lemma price_to_string_digits: "price_to_string p = fixed_text 4 (unat (raw p))"
proof -
  have "unat (raw p) < 2 ^ 52"
    using unsigned_less [of "raw p", where ?'a = nat] by simp
  then show ?thesis
    using scaled_error [of "raw p" 4] unfolding price_to_string_def to_double_rnd
    by (intro format_fixed_near rnd_sign) simp_all
qed

lemma mwcb_to_string_digits:
  assumes "unat (mwcb_raw p) < 2 ^ 52"
  shows "mwcb_to_string p = fixed_text 8 (unat (mwcb_raw p))"
proof -
  have "mwcb_to_double p = rnd (wrat (mwcb_raw p) / 10 ^ 8)"
    using assms double_of_divisor(2) by (simp add: mwcb_to_double_def double_of_exact)
  then show ?thesis
    using scaled_error [OF assms, of 8] unfolding mwcb_to_string_def
    by (intro format_fixed_near) (simp_all add: rnd_sign)
qed

section \<open>Properties\<close>

text \<open>
  C35. The text of a price is exact although it passes through a double: its digits are the raw
  value, its value is the raw value over \<open>10 ^ 4\<close>, distinct prices have distinct texts, and the
  order of the doubles is the order of the raw values.
\<close>

theorem price_text_exact:
  "digits_value (filter is_digit (price_to_string p)) = unat (raw p) \<and>
   text_value (price_to_string p) = wrat (raw p) / 10 ^ 4 \<and>
   (price_to_string p = price_to_string q \<longleftrightarrow> p = q) \<and>
   (to_double p < to_double q \<longleftrightarrow> raw p < raw q)"
proof -
  have "p = q \<longleftrightarrow> unat (raw p) = unat (raw q)"
    by (metis StandardPrice.expand word_unat_eq_iff)
  then show ?thesis
    by (simp add: price_to_string_digits fixed_text_digits text_value_fixed fixed_text_inject wrat_def
        less_StandardPrice_def del: of_nat_unat)
qed

text \<open>
  The text of a decline-level price is exact below \<open>2 ^ 52\<close>, about 45 million dollars; from
  \<open>2 ^ 53\<close> on the conversion to a double loses the last digit, and distinct prices share a text.
\<close>

theorem mwcb_text_limit:
  "(unat (mwcb_raw p) < 2 ^ 52 \<longrightarrow> digits_value (filter is_digit (mwcb_to_string p)) = unat (mwcb_raw p)) \<and>
   mwcb_to_string (MwcbPrice (2 ^ 53 + 1)) = mwcb_to_string (MwcbPrice (2 ^ 53))"
proof -
  have "ilog 2 (2 ^ 53 + 1) = 53"
    by (rule ilog_unique) simp_all
  moreover have "\<lfloor>9007199254740993 / 2 :: rat\<rfloor> = 4503599627370496"
    by (rule floor_unique) simp_all
  ultimately have "rnd (2 ^ 53 + 1) = 2 ^ 53"
    by (simp add: rnd_def ulp_def round_even_def Let_def)
  moreover have "rnd (2 ^ 53) = 2 ^ 53"
    using rnd_exact [OF is_double_of_nat [of "2 ^ 53"]] by simp
  ultimately have "double_of (2 ^ 53 + 1 :: u64) = double_of (2 ^ 53 :: u64)"
    by (simp add: double_of_def wrat_def del: of_nat_unat)
  then have "mwcb_to_string (MwcbPrice (2 ^ 53 + 1)) = mwcb_to_string (MwcbPrice (2 ^ 53))"
    by (simp add: mwcb_to_string_def mwcb_to_double_def)
  then show ?thesis
    using mwcb_to_string_digits [of p] by (simp add: fixed_text_digits)
qed

theorem mwcb_text_limit_witness:
  "digits_value (filter is_digit (mwcb_to_string (MwcbPrice 412345678901))) = 412345678901"
  using mwcb_text_limit [of "MwcbPrice 412345678901"] by simp

end
