(* ===== verification/Vwap.thy ===== *)
theory Vwap
  imports Price_Format
begin

text \<open>
  The running averages of \<^verbatim>\<open>include/itch/analytics/vwap.hpp\<close>. \<open>None\<close> is the quiet NaN. The
  properties compare the double computation with the exact average.
\<close>

section \<open>Volume-weighted\<close>

record Vwap =
  m_price_volume :: rat
  m_volume :: u64

definition Vwap_new :: Vwap where
  "Vwap_new = \<lparr>m_price_volume = 0, m_volume = 0\<rparr>"

definition vwap_add :: "StandardPrice \<Rightarrow> u64 \<Rightarrow> Vwap \<Rightarrow> Vwap" where
  "vwap_add p sh v =
     v\<lparr>m_price_volume := rnd (m_price_volume v + rnd (to_double p * double_of sh)), m_volume := m_volume v + sh\<rparr>"

definition vwap_value :: "Vwap \<Rightarrow> rat option" where
  "vwap_value v = (if m_volume v = 0 then None else Some (rnd (m_price_volume v / double_of (m_volume v))))"

definition vwap_reset :: "Vwap \<Rightarrow> Vwap" where
  "vwap_reset v = v\<lparr>m_price_volume := 0, m_volume := 0\<rparr>"

section \<open>Time-weighted\<close>

record Twap =
  m_price_time :: rat
  m_total_time :: rat
  m_last_price :: rat
  m_last_timestamp :: u64
  m_has_sample :: bool

definition Twap_new :: Twap where
  "Twap_new = \<lparr>m_price_time = 0, m_total_time = 0, m_last_price = 0, m_last_timestamp = 0, m_has_sample = False\<rparr>"

definition twap_add :: "StandardPrice \<Rightarrow> u64 \<Rightarrow> Twap \<Rightarrow> Twap" where
  "twap_add p ts t =
     (let t = (if m_has_sample t \<and> ts > m_last_timestamp t
        then let elapsed = double_of (ts - m_last_timestamp t)
          in t\<lparr>m_price_time := rnd (m_price_time t + rnd (m_last_price t * elapsed)),
               m_total_time := rnd (m_total_time t + elapsed)\<rparr>
        else t)
      in t\<lparr>m_last_price := to_double p, m_last_timestamp := ts, m_has_sample := True\<rparr>)"

definition twap_value :: "Twap \<Rightarrow> rat option" where
  "twap_value t =
     (if m_total_time t \<le> 0 then (if m_has_sample t then Some (m_last_price t) else None)
      else Some (rnd (m_price_time t / m_total_time t)))"

definition twap_reset :: "Twap \<Rightarrow> Twap" where
  "twap_reset t =
     t\<lparr>m_price_time := 0, m_total_time := 0, m_last_price := 0, m_last_timestamp := 0, m_has_sample := False\<rparr>"

section \<open>Relative errors\<close>

text \<open>\<open>y\<close> differs from the exact non-negative \<open>x\<close> by at most \<open>k\<close> roundings.\<close>

definition eps :: rat where
  "eps = 1 / 2 ^ 53"

definition near :: "nat \<Rightarrow> rat \<Rightarrow> rat \<Rightarrow> bool" where
  "near k x y \<longleftrightarrow> 0 \<le> x \<and> x * (1 - eps) ^ k \<le> y \<and> y \<le> x * (1 + eps) ^ k"

lemma eps_range: "0 < eps" "eps < 1" "0 < 1 - eps" "1 - eps \<le> 1"
  by (simp_all add: eps_def)

lemma near_refl [simp]: "0 \<le> x \<Longrightarrow> near 0 x x"
  by (simp add: near_def)

lemma near_nonneg:
  assumes "near k x y"
  shows "0 \<le> x" "0 \<le> y"
proof -
  show "0 \<le> x"
    using assms by (simp add: near_def)
  then have "0 \<le> x * (1 - eps) ^ k"
    using eps_range by simp
  then show "0 \<le> y"
    using assms by (simp add: near_def)
qed

lemma near_weaken:
  assumes "near j x y" "j \<le> k"
  shows "near k x y"
proof -
  have "(1 - eps) ^ k \<le> (1 - eps) ^ j" "(1 + eps) ^ j \<le> (1 + eps) ^ k"
    using assms(2) eps_range by (simp_all add: power_decreasing power_increasing)
  then have "x * (1 - eps) ^ k \<le> x * (1 - eps) ^ j" "x * (1 + eps) ^ j \<le> x * (1 + eps) ^ k"
    using near_nonneg(1) [OF assms(1)] by (simp_all only: mult_left_mono)
  then show ?thesis
    using assms(1) unfolding near_def by linarith
qed

lemma rnd_eps:
  assumes "0 \<le> y"
  shows "y * (1 - eps) \<le> rnd y" "rnd y \<le> y * (1 + eps)"
  using rnd_error [of y] assms unfolding abs_le_iff by (simp_all add: eps_def algebra_simps)

lemma near_rnd:
  assumes "near k x y"
  shows "near (Suc k) x (rnd y)"
proof -
  have y: "0 \<le> y"
    using near_nonneg(2) [OF assms] .
  have err: "y * (1 - eps) \<le> rnd y" "rnd y \<le> y * (1 + eps)"
    using rnd_eps [OF y] .
  have "x * (1 - eps) ^ k * (1 - eps) \<le> y * (1 - eps)" "y * (1 + eps) \<le> x * (1 + eps) ^ k * (1 + eps)"
    using assms eps_range by (simp_all add: near_def mult_right_mono)
  then have "x * (1 - eps) ^ Suc k \<le> rnd y" "rnd y \<le> x * (1 + eps) ^ Suc k"
    using err unfolding power_Suc2 mult.assoc [symmetric] by linarith+
  then show ?thesis
    using near_nonneg(1) [OF assms] by (simp add: near_def)
qed

lemma near_add:
  assumes "near k x y" "near k x' y'"
  shows "near k (x + x') (y + y')"
  using assms by (auto simp: near_def distrib_right intro: add_mono)

lemma near_mult:
  assumes "near j x y" "near k x' y'"
  shows "near (j + k) (x * x') (y * y')"
proof -
  have "(x * (1 - eps) ^ j) * (x' * (1 - eps) ^ k) \<le> y * y'" "y * y' \<le> (x * (1 + eps) ^ j) * (x' * (1 + eps) ^ k)"
    using assms eps_range near_nonneg [OF assms(1)] near_nonneg [OF assms(2)]
    by (auto simp: near_def intro!: mult_mono)
  then show ?thesis
    using near_nonneg(1) [OF assms(1)] near_nonneg(1) [OF assms(2)]
    by (simp add: near_def power_add mult_ac)
qed

lemma near_to_double: "near 1 (wrat (raw p) / 10 ^ 4) (to_double p)"
  using near_rnd [OF near_refl, of "wrat (raw p) / 10 ^ 4"] by (simp add: to_double_rnd)

lemma near_double_of: "near 1 (wrat w) (double_of w)"
  using near_rnd [OF near_refl, of "wrat w"] by (simp add: double_of_def)

text \<open>A quotient: the divisor enters with its error inverted.\<close>

lemma near_divide:
  assumes "near j x y" "near k d e" "0 < d"
  shows "x / d * ((1 - eps) ^ j / (1 + eps) ^ k) \<le> y / e" "y / e \<le> x / d * ((1 + eps) ^ j / (1 - eps) ^ k)"
proof -
  have lo: "0 < d * (1 - eps) ^ k" and hi: "0 < d * (1 + eps) ^ k"
    using assms(3) eps_range by simp_all
  have e: "d * (1 - eps) ^ k \<le> e" "e \<le> d * (1 + eps) ^ k"
    using assms(2) by (simp_all add: near_def)
  have "x * (1 - eps) ^ j / (d * (1 + eps) ^ k) \<le> y / e"
    using assms(1) e lo near_nonneg [OF assms(1)] by (intro frac_le) (auto simp: near_def)
  then show "x / d * ((1 - eps) ^ j / (1 + eps) ^ k) \<le> y / e"
    by simp
  have "y / e \<le> x * (1 + eps) ^ j / (d * (1 - eps) ^ k)"
    using assms(1) e lo near_nonneg [OF assms(1)] eps_range by (intro frac_le) (auto simp: near_def)
  then show "y / e \<le> x / d * ((1 + eps) ^ j / (1 - eps) ^ k)"
    by simp
qed

lemma eps_bernoulli: "1 - of_nat k * eps \<le> (1 - eps) ^ k"
proof (induction k)
  case (Suc k)
  have "(1 - of_nat k * eps) * (1 - eps) \<le> (1 - eps) ^ k * (1 - eps)"
    using Suc eps_range by (intro mult_right_mono) auto
  moreover have "0 \<le> of_nat k * eps * eps"
    using eps_range by simp
  ultimately show ?case
    by (simp add: algebra_simps)
qed simp

lemma eps_upper:
  assumes "k \<le> 2 ^ 51"
  shows "1 / (1 - eps) ^ k \<le> 1 + of_nat k / 2 ^ 52"
proof -
  define a where "a = of_nat k * eps"
  have "(of_nat k :: rat) \<le> of_nat (2 ^ 51)"
    unfolding of_nat_le_iff by (rule assms)
  then have a: "0 \<le> a" "a \<le> 1 / 4" "of_nat k / 2 ^ 52 = 2 * a"
    by (simp_all add: a_def eps_def)
  then have "a * a \<le> a * (1 / 4)"
    by (intro mult_left_mono) simp_all
  then have "1 \<le> (1 + 2 * a) * (1 - a)"
    using a by (simp add: algebra_simps)
  also have "\<dots> \<le> (1 + 2 * a) * (1 - eps) ^ k"
    using eps_bernoulli [of k] a by (intro mult_left_mono) (simp_all add: a_def)
  finally show ?thesis
    using eps_range a by (simp add: pos_divide_le_eq)
qed

lemma eps_inverse: "1 + eps \<le> 1 / (1 - eps)" "1 - eps \<le> 1 / (1 + eps)"
  by (simp_all add: eps_def)

text \<open>A rounded quotient is close to the exact one.\<close>

lemma quotient_close:
  assumes "near j x y" "near k d e" "0 < d" "j + k + 1 \<le> 2 ^ 51"
  shows "\<bar>rnd (y / e) - x / d\<bar> \<le> x / d * (of_nat (j + k + 1) / 2 ^ 52)"
proof -
  let ?n = "j + k + 1"
  define q where "q = x / d"
  have q: "0 \<le> q"
    using near_nonneg(1) [OF assms(1)] assms(3) by (simp add: q_def)
  have ye: "0 \<le> y / e"
    using near_nonneg(2) [OF assms(1)] near_nonneg(2) [OF assms(2)] by simp
  have err: "y / e * (1 - eps) \<le> rnd (y / e)" "rnd (y / e) \<le> y / e * (1 + eps)"
    using rnd_eps [OF ye] .
  note quot = near_divide [OF assms(1-3), folded q_def]
  have lo: "(1 - eps) ^ ?n \<le> (1 - eps) ^ j / (1 + eps) ^ k * (1 - eps)"
  proof -
    have "(1 - eps) ^ k \<le> 1 / (1 + eps) ^ k"
      using power_mono [OF eps_inverse(2), of k] eps_range by (simp add: power_divide)
    then have "(1 - eps) ^ j * (1 - eps) ^ k * (1 - eps) \<le> (1 - eps) ^ j * (1 / (1 + eps) ^ k) * (1 - eps)"
      using eps_range by (intro mult_right_mono mult_left_mono) simp_all
    then show ?thesis
      by (simp add: power_add mult_ac)
  qed
  have hi: "(1 + eps) ^ j / (1 - eps) ^ k * (1 + eps) \<le> 1 / (1 - eps) ^ ?n"
  proof -
    have "(1 + eps) ^ (j + 1) \<le> 1 / (1 - eps) ^ (j + 1)"
      using power_mono [OF eps_inverse(1), of "j + 1"] eps_range by (simp add: power_divide)
    then have "(1 + eps) ^ (j + 1) * (1 / (1 - eps) ^ k) \<le> 1 / (1 - eps) ^ (j + 1) * (1 / (1 - eps) ^ k)"
      using eps_range by (intro mult_right_mono) simp_all
    then show ?thesis
      by (simp add: power_add mult_ac)
  qed
  have "q * (1 - of_nat ?n * eps) \<le> q * ((1 - eps) ^ j / (1 + eps) ^ k * (1 - eps))"
    using eps_bernoulli [of ?n] lo q by (intro mult_left_mono) linarith+
  also have "\<dots> = q * ((1 - eps) ^ j / (1 + eps) ^ k) * (1 - eps)"
    by simp
  also have "\<dots> \<le> y / e * (1 - eps)"
    using quot(1) eps_range by (intro mult_right_mono) simp_all
  finally have lower: "q * (1 - of_nat ?n * eps) \<le> rnd (y / e)"
    using err(1) by linarith
  have "y / e * (1 + eps) \<le> q * ((1 + eps) ^ j / (1 - eps) ^ k) * (1 + eps)"
    using quot(2) eps_range by (intro mult_right_mono) simp_all
  also have "\<dots> = q * ((1 + eps) ^ j / (1 - eps) ^ k * (1 + eps))"
    by simp
  also have "\<dots> \<le> q * (1 + of_nat ?n / 2 ^ 52)"
    using eps_upper [OF assms(4)] hi q by (intro mult_left_mono) linarith+
  finally have upper: "rnd (y / e) \<le> q * (1 + of_nat ?n / 2 ^ 52)"
    using err(2) by linarith
  have half: "of_nat ?n * eps \<le> of_nat ?n / 2 ^ 52"
    by (simp add: eps_def)
  have "q * (of_nat ?n * eps) \<le> q * (of_nat ?n / 2 ^ 52)"
    using half q by (intro mult_left_mono)
  then show ?thesis
    using lower upper unfolding q_def [symmetric] abs_le_iff right_diff_distrib distrib_left by linarith
qed

section \<open>Runs\<close>

definition exact_volume :: "(StandardPrice \<times> u64) list \<Rightarrow> nat" where
  "exact_volume ts = sum_list (map (\<lambda>(p, sh). unat sh) ts)"

definition exact_value :: "(StandardPrice \<times> u64) list \<Rightarrow> rat" where
  "exact_value ts = sum_list (map (\<lambda>(p, sh). wrat (raw p) / 10 ^ 4 * wrat sh) ts)"

definition vwap_run :: "(StandardPrice \<times> u64) list \<Rightarrow> Vwap" where
  "vwap_run ts = foldl (\<lambda>v (p, sh). vwap_add p sh v) Vwap_new ts"

lemma vwap_run_near:
  "near (length ts + 3) (exact_value ts) (m_price_volume (vwap_run ts)) \<and> m_volume (vwap_run ts) = of_nat (exact_volume ts)"
proof (induction ts rule: rev_induct)
  case Nil
  show ?case
    by (simp add: vwap_run_def Vwap_new_def exact_value_def exact_volume_def near_def)
next
  case (snoc t ts)
  obtain p sh where t: "t = (p, sh)"
    by (cases t)
  have product: "near 3 (wrat (raw p) / 10 ^ 4 * wrat sh) (rnd (to_double p * double_of sh))"
    using near_rnd [OF near_mult [OF near_to_double near_double_of]] by (simp add: numeral_3_eq_3)
  have "near (length ts + 3) (exact_value ts + wrat (raw p) / 10 ^ 4 * wrat sh)
      (m_price_volume (vwap_run ts) + rnd (to_double p * double_of sh))"
    by (rule near_add) (use snoc near_weaken [OF product] in simp_all)
  note near_rnd [OF this]
  moreover have "vwap_run (ts @ [t]) = vwap_add p sh (vwap_run ts)" "exact_value (ts @ [t]) = exact_value ts + wrat (raw p) / 10 ^ 4 * wrat sh"
    "exact_volume (ts @ [t]) = exact_volume ts + unat sh"
    by (simp_all add: t vwap_run_def exact_value_def exact_volume_def)
  moreover have "m_volume (vwap_run ts) = of_nat (exact_volume ts)"
    using snoc by simp
  ultimately show ?case
    by (simp add: vwap_add_def)
qed

text \<open>
  C36. The volume-weighted average of any trades with a positive total volume below \<open>2 ^ 64\<close> differs
  from the exact average by a relative error of at most \<open>(n + 5) / 2 ^ 52\<close>, for \<open>n\<close> trades.
\<close>

theorem vwap_accurate:
  assumes "0 < exact_volume ts" "exact_volume ts < 2 ^ 64" "length ts < 2 ^ 50"
  defines "average \<equiv> exact_value ts / of_nat (exact_volume ts)"
  shows "\<exists>v. vwap_value (vwap_run ts) = Some v \<and> \<bar>v - average\<bar> \<le> average * (of_nat (length ts + 5) / 2 ^ 52)"
proof -
  note run = vwap_run_near [of ts]
  have vol: "unat (m_volume (vwap_run ts)) = exact_volume ts"
    using run assms(2) by (simp add: unat_of_nat take_bit_nat_eq_self)
  then have "wrat (m_volume (vwap_run ts)) = of_nat (exact_volume ts)"
    by (simp add: wrat_def del: of_nat_unat)
  then have "near 1 (of_nat (exact_volume ts)) (double_of (m_volume (vwap_run ts)))"
    using near_double_of by metis
  then have "\<bar>rnd (m_price_volume (vwap_run ts) / double_of (m_volume (vwap_run ts))) - average\<bar> \<le>
      average * (of_nat (length ts + 3 + 1 + 1) / 2 ^ 52)"
    unfolding average_def using run assms(1,3) by (intro quotient_close) auto
  moreover have "length ts + 3 + 1 + 1 = length ts + 5"
    by simp
  moreover have "m_volume (vwap_run ts) \<noteq> 0"
    using vol assms(1) by auto
  ultimately show ?thesis
    unfolding vwap_value_def by metis
qed

theorem vwap_accurate_witness:
  "\<exists>v. vwap_value (vwap_run [(make_price 1000000, 3), (make_price 1010000, 1)]) = Some v \<and>
    \<bar>v - 401 / 4\<bar> \<le> 401 / 4 * (7 / 2 ^ 52)"
  using vwap_accurate [of "[(make_price 1000000, 3), (make_price 1010000, 1)]"]
  by (simp add: exact_volume_def exact_value_def make_price_def wrat_def)

section \<open>Runs over time\<close>

fun exact_span :: "(StandardPrice \<times> u64) list \<Rightarrow> rat" where
  "exact_span ((p, t) # (q, u) # ss) = (wrat u - wrat t) + exact_span ((q, u) # ss)"
| "exact_span _ = 0"

fun exact_integral :: "(StandardPrice \<times> u64) list \<Rightarrow> rat" where
  "exact_integral ((p, t) # (q, u) # ss) = wrat (raw p) / 10 ^ 4 * (wrat u - wrat t) + exact_integral ((q, u) # ss)"
| "exact_integral _ = 0"

lemma exact_snoc:
  "exact_span (ss @ [(p, t), (q, u)]) = exact_span (ss @ [(p, t)]) + (wrat u - wrat t)"
  "exact_integral (ss @ [(p, t), (q, u)]) = exact_integral (ss @ [(p, t)]) + wrat (raw p) / 10 ^ 4 * (wrat u - wrat t)"
  by (induction ss rule: exact_span.induct) auto

lemma exact_span_total: "ss \<noteq> [] \<Longrightarrow> exact_span ss = wrat (snd (last ss)) - wrat (snd (hd ss))"
  by (induction ss rule: exact_span.induct) auto

definition twap_run :: "(StandardPrice \<times> u64) list \<Rightarrow> Twap" where
  "twap_run ss = foldl (\<lambda>t (p, ts). twap_add p ts t) Twap_new ss"

lemma wrat_diff: "v \<le> w \<Longrightarrow> wrat (w - v) = wrat w - wrat v"
  by (simp add: wrat_def unat_sub word_le_nat_alt of_nat_diff del: of_nat_unat)

lemma twap_run_near:
  assumes "sorted (map snd (ss @ [(p, t)]))"
  shows "near (length ss + 3) (exact_integral (ss @ [(p, t)])) (m_price_time (twap_run (ss @ [(p, t)]))) \<and>
    near (length ss + 1) (exact_span (ss @ [(p, t)])) (m_total_time (twap_run (ss @ [(p, t)]))) \<and>
    m_last_price (twap_run (ss @ [(p, t)])) = to_double p \<and> m_last_timestamp (twap_run (ss @ [(p, t)])) = t \<and>
    m_has_sample (twap_run (ss @ [(p, t)]))"
  using assms
proof (induction ss arbitrary: p t rule: rev_induct)
  case Nil
  show ?case
    by (simp add: twap_run_def twap_add_def Twap_new_def near_def)
next
  case (snoc s ss)
  obtain q u where s: "s = (q, u)"
    by (cases s)
  have le: "u \<le> t" and sorted: "sorted (map snd (ss @ [(q, u)]))"
    using snoc.prems by (auto simp: s sorted_append)
  define T where "T = twap_run (ss @ [(q, u)])"
  note IH = snoc.IH [OF sorted, folded T_def]
  have run: "twap_run ((ss @ [s]) @ [(p, t)]) = twap_add p t T"
    by (simp add: twap_run_def T_def s)
  note exact = exact_snoc [of ss q u p t]
  show ?case
  proof (cases "t = u")
    case True
    have "near (length (ss @ [s]) + 3) (exact_integral (ss @ [(q, u)])) (m_price_time T)"
        "near (length (ss @ [s]) + 1) (exact_span (ss @ [(q, u)])) (m_total_time T)"
      using IH by (auto intro: near_weaken)
    moreover have "twap_add p t T = T\<lparr>m_last_price := to_double p, m_last_timestamp := t, m_has_sample := True\<rparr>"
      using IH True by (simp add: twap_add_def)
    moreover have "exact_integral ((ss @ [s]) @ [(p, t)]) = exact_integral (ss @ [(q, u)])"
        "exact_span ((ss @ [s]) @ [(p, t)]) = exact_span (ss @ [(q, u)])"
      using True by (simp_all add: exact_snoc s)
    ultimately show ?thesis
      unfolding run by simp
  next
    case False
    with le have less: "u < t"
      by simp
    have elapsed: "near 1 (wrat t - wrat u) (double_of (t - u))"
      using near_double_of [of "t - u"] wrat_diff [OF le] by simp
    have product: "near 3 (wrat (raw q) / 10 ^ 4 * (wrat t - wrat u)) (rnd (to_double q * double_of (t - u)))"
      using near_rnd [OF near_mult [OF near_to_double elapsed]] by (simp add: numeral_3_eq_3)
    have "near (length ss + 3) (exact_integral (ss @ [(q, u)]) + wrat (raw q) / 10 ^ 4 * (wrat t - wrat u))
        (m_price_time T + rnd (to_double q * double_of (t - u)))"
      by (rule near_add) (use IH near_weaken [OF product] in simp_all)
    note integral = near_rnd [OF this]
    have "near (length ss + 1) (exact_span (ss @ [(q, u)]) + (wrat t - wrat u)) (m_total_time T + double_of (t - u))"
      by (rule near_add) (use IH near_weaken [OF elapsed] in simp_all)
    note span = near_rnd [OF this]
    have "twap_add p t T = T\<lparr>m_price_time := rnd (m_price_time T + rnd (to_double q * double_of (t - u))),
        m_total_time := rnd (m_total_time T + double_of (t - u)), m_last_price := to_double p, m_last_timestamp := t,
        m_has_sample := True\<rparr>"
      using IH less by (simp add: twap_add_def Let_def)
    then show ?thesis
      using integral span unfolding run by (simp add: exact s)
  qed
qed

text \<open>
  The time-weighted average of samples in time order is the price of the last sample as long as
  no time has passed, and otherwise differs from the exact average over the observed span by a
  relative error of at most \<open>(2 n + 3) / 2 ^ 52\<close>, for \<open>n\<close> samples.
\<close>

theorem twap_accurate:
  assumes "sorted (map snd ss)" "ss \<noteq> []" "length ss < 2 ^ 49"
  defines "average \<equiv> exact_integral ss / exact_span ss"
  shows "\<exists>v. twap_value (twap_run ss) = Some v \<and>
    (if snd (hd ss) = snd (last ss) then v = to_double (fst (last ss))
     else \<bar>v - average\<bar> \<le> average * (of_nat (2 * length ss + 3) / 2 ^ 52))"
proof -
  obtain qs p t where ss: "ss = qs @ [(p, t)]"
    using assms(2) by (metis append_butlast_last_id prod.collapse)
  note run = twap_run_near [OF assms(1) [unfolded ss], folded ss]
  have span: "exact_span ss = wrat t - wrat (snd (hd ss))" and last: "last ss = (p, t)"
    using exact_span_total [OF assms(2)] by (simp_all add: ss)
  have le: "snd (hd ss) \<le> t"
    using assms(1) by (cases qs) (auto simp: ss)
  show ?thesis
  proof (cases "snd (hd ss) = t")
    case True
    then have "m_total_time (twap_run ss) = 0"
      using run span by (simp add: near_def)
    then show ?thesis
      using run True last by (simp add: twap_value_def)
  next
    case False
    then have pos: "0 < exact_span ss"
      using le span by (simp add: le_less)
    then have "0 < exact_span ss * (1 - eps) ^ (length qs + 1)"
      using eps_range by simp
    then have "0 < m_total_time (twap_run ss)"
      using run by (simp add: near_def del: zero_less_mult_iff)
    moreover have "\<bar>rnd (m_price_time (twap_run ss) / m_total_time (twap_run ss)) - average\<bar> \<le>
        average * (of_nat (length qs + 3 + (length qs + 1) + 1) / 2 ^ 52)"
      unfolding average_def using run assms(3) pos by (intro quotient_close) (auto simp: ss)
    moreover have size: "length qs + 3 + (length qs + 1) + 1 = 2 * length ss + 3"
      by (simp add: ss)
    ultimately have "twap_value (twap_run ss) = Some (rnd (m_price_time (twap_run ss) / m_total_time (twap_run ss)))"
        "\<bar>rnd (m_price_time (twap_run ss) / m_total_time (twap_run ss)) - average\<bar> \<le> average * (of_nat (2 * length ss + 3) / 2 ^ 52)"
      unfolding size twap_value_def by simp_all
    then show ?thesis
      using False last by simp
  qed
qed

theorem twap_accurate_witness:
  "\<exists>v. twap_value (twap_run [(make_price 1000000, 5), (make_price 2000000, 15)]) = Some v \<and>
    \<bar>v - 100\<bar> \<le> 100 * (7 / 2 ^ 52)"
  using twap_accurate [of "[(make_price 1000000, 5), (make_price 2000000, 15)]"]
  by (simp add: make_price_def wrat_def)

end
