(* ===== verification/Microstructure.thy ===== *)
theory Microstructure
  imports L3_Queries Price_Format
begin

text \<open>
  The metrics of \<^verbatim>\<open>include/itch/analytics/microstructure.hpp\<close> on snapshots of the best bid and offer
  and on books. \<open>None\<close> is the quiet NaN.
\<close>

definition spread :: "Bbo \<Rightarrow> rat option" where
  "spread q = (if \<not> has_bid q \<or> \<not> has_ask q then None
     else Some (rnd (to_double (make_price (ask_price q)) - to_double (make_price (bid_price q)))))"

definition mid_price :: "Bbo \<Rightarrow> rat option" where
  "mid_price q = (if \<not> has_bid q \<or> \<not> has_ask q then None
     else Some (rnd (rnd (to_double (make_price (bid_price q)) + to_double (make_price (ask_price q))) / 2)))"

definition queue_imbalance :: "Bbo \<Rightarrow> rat option" where
  "queue_imbalance q =
     (let bid = double_of (bid_shares q); ask = double_of (ask_shares q); total = rnd (bid + ask)
      in if total \<le> 0 then None else Some (rnd (rnd (bid - ask) / total)))"

definition depth_at_level :: "L3Book \<Rightarrow> Side \<Rightarrow> nat \<Rightarrow> u64" where
  "depth_at_level book s levels = foldl (\<lambda>total level. total + depth_shares level) 0 (depth book s levels)"

definition order_flow_imbalance :: "Bbo \<Rightarrow> Bbo \<Rightarrow> rat" where
  "order_flow_imbalance previous current =
     (let prev_bid_price = to_double (make_price (bid_price previous));
          curr_bid_price = to_double (make_price (bid_price current));
          prev_ask_price = to_double (make_price (ask_price previous));
          curr_ask_price = to_double (make_price (ask_price current));
          prev_bid_size = double_of (bid_shares previous);
          curr_bid_size = double_of (bid_shares current);
          prev_ask_size = double_of (ask_shares previous);
          curr_ask_size = double_of (ask_shares current);
          bid_flow = (if curr_bid_price > prev_bid_price then curr_bid_size
            else if curr_bid_price = prev_bid_price then rnd (curr_bid_size - prev_bid_size)
            else - prev_bid_size);
          ask_flow = (if curr_ask_price > prev_ask_price then prev_ask_size
            else if curr_ask_price = prev_ask_price then rnd (curr_ask_size - prev_ask_size)
            else - curr_ask_size)
      in rnd (bid_flow - ask_flow))"

lemma is_double_twice: "is_double x \<Longrightarrow> is_double (2 * x)" "is_double x \<Longrightarrow> is_double (x / 2)"
  using is_double_scale [of x 1] is_double_scale [of x "-1"] by (simp_all add: power_int_minus mult.commute)

lemma rnd_half_between:
  assumes "is_double a" "is_double b" "a \<le> b"
  shows "a \<le> rnd (rnd (a + b) / 2)" "rnd (rnd (a + b) / 2) \<le> b"
proof -
  have "2 * a \<le> rnd (a + b)" "rnd (a + b) \<le> 2 * b"
    using assms by (auto intro!: rnd_ge rnd_le is_double_twice)
  then have "a \<le> rnd (a + b) / 2" "rnd (a + b) / 2 \<le> b"
    by simp_all
  then show "a \<le> rnd (rnd (a + b) / 2)" "rnd (rnd (a + b) / 2) \<le> b"
    using assms by (auto intro: rnd_ge rnd_le)
qed

lemma rnd_ratio_unit:
  assumes "0 \<le> a" "0 \<le> b" "0 < rnd (a + b)"
  shows "\<bar>rnd (rnd (a - b) / rnd (a + b))\<bar> \<le> 1"
proof -
  have "rnd (a - b) \<le> rnd (a + b)" "- rnd (a - b) \<le> rnd (a + b)"
    using assms rnd_mono [of "a - b" "a + b"] rnd_mono [of "b - a" "a + b"] rnd_minus [of "a - b"] by simp_all
  then have "rnd (a - b) / rnd (a + b) \<le> 1" "- 1 \<le> rnd (a - b) / rnd (a + b)"
    using assms(3) by (simp_all add: pos_divide_le_eq pos_le_divide_eq)
  moreover have "is_double (of_int 1)" "is_double (of_int (-1))"
    by (intro is_double_of_int; simp)+
  ultimately show ?thesis
    using rnd_le [of "rnd (a - b) / rnd (a + b)" 1] rnd_ge [of "-1" "rnd (a - b) / rnd (a + b)"] by (simp add: abs_le_iff)
qed

lemma rnd_sgn: "sgn (rnd x) = sgn x"
  using rnd_sign [of x] rnd_sign [of "- x"] rnd_zero_iff [of x] unfolding rnd_minus by (auto simp: sgn_if)

lemma rnd_pos_iff: "0 < rnd x \<longleftrightarrow> 0 < x"
  using rnd_sgn [of x] by (metis sgn_1_pos)

text \<open>Integers whose differences are doubles.\<close>

definition small_int :: "rat \<Rightarrow> bool" where
  "small_int x \<longleftrightarrow> (\<exists>m. x = of_int m \<and> \<bar>m\<bar> \<le> 2 ^ 52)"

lemma small_int_wrat:
  assumes "unat w \<le> 2 ^ 52"
  shows "small_int (wrat w)" "small_int (- wrat w)"
proof -
  define m where "m = int (unat w)"
  have m: "wrat w = of_int m" "0 \<le> m"
    by (simp_all add: wrat_def m_def del: of_nat_unat)
  have "int (unat w) \<le> int (2 ^ 52)"
    using assms unfolding of_nat_le_iff .
  then have "m \<le> 2 ^ 52"
    by (simp add: m_def del: of_nat_unat)
  then show "small_int (wrat w)" "small_int (- wrat w)"
    unfolding small_int_def m(1) using m(2) by (intro exI [of _ m] exI [of _ "- m"]; simp)+
qed

lemma small_int_diff_nonneg:
  assumes "small_int x" "small_int y" "0 \<le> x" "0 \<le> y"
  shows "small_int (x - y)"
proof -
  obtain m n where "x = of_int m" "\<bar>m\<bar> \<le> 2 ^ 52" "y = of_int n" "\<bar>n\<bar> \<le> 2 ^ 52"
    using assms(1,2) by (auto simp: small_int_def)
  then show ?thesis
    unfolding small_int_def using assms(3,4) by (intro exI [of _ "m - n"]) simp
qed

lemma small_int_exact:
  assumes "small_int x" "small_int y"
  shows "rnd (x - y) = x - y"
proof -
  obtain m n where "x = of_int m" "\<bar>m\<bar> \<le> 2 ^ 52" "y = of_int n" "\<bar>n\<bar> \<le> 2 ^ 52"
    using assms by (auto simp: small_int_def)
  then have eq: "x - y = of_int (m - n)" and "\<bar>m - n\<bar> \<le> 2 ^ 53"
    by simp_all
  then show ?thesis
    unfolding eq by (intro rnd_exact is_double_of_int)
qed

section \<open>Depth\<close>

lemma sum_by_price:
  assumes "distinct ps"
  shows "(\<Sum>p\<leftarrow>ps. \<Sum>x\<leftarrow>filter (\<lambda>x. P x \<and> f x = p) xs. g x) = (\<Sum>x\<leftarrow>filter (\<lambda>x. P x \<and> f x \<in> set ps) xs. g x :: nat)"
proof (induction xs)
  case (Cons x xs)
  have one: "(\<Sum>p\<leftarrow>ps. if P x \<and> f x = p then g x else 0) = (if P x \<and> f x \<in> set ps then g x else 0)"
    using assms by (induction ps) auto
  have "(\<Sum>p\<leftarrow>ps. \<Sum>x\<leftarrow>filter (\<lambda>x. P x \<and> f x = p) (x # xs). g x) =
      (\<Sum>p\<leftarrow>ps. (if P x \<and> f x = p then g x else 0) + (\<Sum>x\<leftarrow>filter (\<lambda>x. P x \<and> f x = p) xs. g x))"
    by (intro arg_cong [of _ _ sum_list] map_cong) simp_all
  then show ?case
    using Cons.IH one by (simp add: sum_list_addf)
qed (simp add: sum_list_0)

lemma sum_filter_le: "(\<Sum>x\<leftarrow>filter P xs. g x :: nat) \<le> (\<Sum>x\<leftarrow>xs. g x)"
  by (induction xs) simp_all

lemma sum_shares_bound: "(\<Sum>ord\<leftarrow>os. unat (o_shares ord)) \<le> length os * (2 ^ 32 - 1)"
proof (induction os)
  case (Cons ord os)
  have "unat (o_shares ord) < 2 ^ 32"
    using unsigned_less [of "o_shares ord", where ?'a = nat] by simp
  then show ?case
    using Cons by simp
qed simp

lemma foldl_shares: "unat (foldl (\<lambda>t d. t + depth_shares d) a ds) = (unat a + (\<Sum>d\<leftarrow>ds. unat (depth_shares d))) mod 2 ^ 64"
proof (induction ds arbitrary: a)
  case Nil
  show ?case
    using unsigned_less [of a, where ?'a = nat] by simp
qed (simp add: unat_word_ariths mod_simps add.assoc)

lemma resting_length: "length (resting ops) \<le> length ops"
proof (induction ops rule: rev_induct)
  case (snoc op ops)
  have "length (spec_step op os) \<le> length os + 1" for os
    using spec_add_length spec_execute_length spec_delete_length spec_replace_length by (cases op) (simp_all add: le_SucI)
  from this [of "resting ops"] show ?case
    using snoc unfolding resting_snoc by simp
qed (simp add: resting_def)

lemma depth_at_level_refines:
  assumes "l3_refines b os" "length os < 2 ^ 32"
  shows "unat (depth_at_level b s n) =
    (\<Sum>ord\<leftarrow>filter (\<lambda>ord. o_side ord = s \<and> o_price ord \<in> set (if n = 0 then spec_prices s os else take n (spec_prices s os))) os. unat (o_shares ord))"
proof -
  define ps where "ps = (if n = 0 then spec_prices s os else take n (spec_prices s os))"
  have "map (\<lambda>d. unat (depth_shares d)) (depth b s n) = map (\<lambda>(_, t, _). t) (map depth_entry (depth b s n))"
    by (simp add: depth_entry_def comp_def)
  also have "\<dots> = map (\<lambda>p. spec_total s p os) ps"
    unfolding depth_refines [OF assms(1)] spec_depth_def Let_def ps_def by (simp add: comp_def)
  finally have entries: "map (\<lambda>d. unat (depth_shares d)) (depth b s n) = map (\<lambda>p. spec_total s p os) ps" .
  have "distinct ps"
    using spec_prices_distinct by (simp add: ps_def)
  then have total: "(\<Sum>d\<leftarrow>depth b s n. unat (depth_shares d)) =
      (\<Sum>ord\<leftarrow>filter (\<lambda>ord. o_side ord = s \<and> o_price ord \<in> set ps) os. unat (o_shares ord))"
    unfolding entries spec_total_def spec_queue_def by (rule sum_by_price)
  also have "\<dots> \<le> (\<Sum>ord\<leftarrow>os. unat (o_shares ord))"
    by (rule sum_filter_le)
  also have "\<dots> \<le> length os * (2 ^ 32 - 1)"
    by (rule sum_shares_bound)
  also have "\<dots> < 2 ^ 64"
    using assms(2) by simp
  finally show ?thesis
    using total by (simp add: depth_at_level_def foldl_shares ps_def)
qed

section \<open>Properties\<close>

text \<open>
  C37. The metrics of a best bid and offer: mid price and spread are NaN exactly when a side is
  empty; otherwise, when the bid is not above the offer, the mid price lies between them and the
  spread is not negative, and zero exactly for a locked market. The queue imbalance is NaN exactly
  when no share rests on either side, lies in \<open>[-1, 1]\<close>, and has the sign of the difference of the
  two sizes, as far as doubles tell them apart.
\<close>

theorem bbo_metrics_sound:
  "(mid_price q = None \<longleftrightarrow> \<not> (has_bid q \<and> has_ask q)) \<and> (spread q = None \<longleftrightarrow> \<not> (has_bid q \<and> has_ask q)) \<and>
   (has_bid q \<and> has_ask q \<and> bid_price q \<le> ask_price q \<longrightarrow>
     (\<exists>m d. mid_price q = Some m \<and> to_double (make_price (bid_price q)) \<le> m \<and> m \<le> to_double (make_price (ask_price q)) \<and>
       spread q = Some d \<and> 0 \<le> d \<and> (d = 0 \<longleftrightarrow> bid_price q = ask_price q))) \<and>
   (queue_imbalance q = None \<longleftrightarrow> bid_shares q = 0 \<and> ask_shares q = 0) \<and>
   (\<forall>x. queue_imbalance q = Some x \<longrightarrow> \<bar>x\<bar> \<le> 1 \<and> sgn x = sgn (double_of (bid_shares q) - double_of (ask_shares q)))"
proof (intro conjI impI allI)
  show "mid_price q = None \<longleftrightarrow> \<not> (has_bid q \<and> has_ask q)" "spread q = None \<longleftrightarrow> \<not> (has_bid q \<and> has_ask q)"
    by (simp_all add: mid_price_def spread_def)
next
  assume both: "has_bid q \<and> has_ask q \<and> bid_price q \<le> ask_price q"
  then have le: "to_double (make_price (bid_price q)) \<le> to_double (make_price (ask_price q))"
    by (intro to_double_mono) (simp add: make_price_def)
  show "\<exists>m d. mid_price q = Some m \<and> to_double (make_price (bid_price q)) \<le> m \<and> m \<le> to_double (make_price (ask_price q)) \<and>
       spread q = Some d \<and> 0 \<le> d \<and> (d = 0 \<longleftrightarrow> bid_price q = ask_price q)"
    using both le rnd_half_between [OF _ _ le]
    by (auto simp: mid_price_def spread_def rnd_sign make_price_def)
next
  let ?b = "double_of (bid_shares q)" and ?a = "double_of (ask_shares q)"
  have total: "rnd (?b + ?a) \<le> 0 \<longleftrightarrow> ?b = 0 \<and> ?a = 0"
    using double_of_nonneg [of "bid_shares q"] double_of_nonneg [of "ask_shares q"]
    unfolding not_less [symmetric] rnd_pos_iff by linarith
  show "queue_imbalance q = None \<longleftrightarrow> bid_shares q = 0 \<and> ask_shares q = 0"
    using total by (simp add: queue_imbalance_def Let_def double_of_def)
  fix x
  assume x: "queue_imbalance q = Some x"
  then have pos: "0 < rnd (?b + ?a)" and x_eq: "x = rnd (rnd (?b - ?a) / rnd (?b + ?a))"
    by (auto simp: queue_imbalance_def Let_def split: if_splits)
  show "\<bar>x\<bar> \<le> 1"
    unfolding x_eq using pos by (intro rnd_ratio_unit) simp_all
  show "sgn x = sgn (?b - ?a)"
    unfolding x_eq using pos [unfolded rnd_pos_iff] by (simp add: rnd_sgn sgn_divide)
qed

theorem bbo_metrics_sound_witness:
  "\<exists>x. queue_imbalance (blank_bbo\<lparr>bid_shares := 300, ask_shares := 100\<rparr>) = Some x \<and> 0 < x \<and> x \<le> 1"
proof -
  let ?q = "blank_bbo\<lparr>bid_shares := 300, ask_shares := 100\<rparr>"
  obtain x where "queue_imbalance ?q = Some x"
    using bbo_metrics_sound [of ?q] by (auto simp: blank_bbo_def)
  then show ?thesis
    using bbo_metrics_sound [of ?q] by (auto simp: blank_bbo_def double_of_exact wrat_def sgn_if abs_le_iff split: if_splits)
qed

text \<open>
  The order flow imbalance is computed exactly for sizes up to \<open>2 ^ 52\<close>: comparing prices as
  doubles is comparing their raw values, and no subtraction rounds.
\<close>

theorem order_flow_imbalance_exact:
  assumes "list_all (\<lambda>sz. unat sz \<le> 2 ^ 52) [bid_shares q, ask_shares q, bid_shares q', ask_shares q']"
  shows "order_flow_imbalance q q' =
    (if bid_price q' > bid_price q then wrat (bid_shares q')
     else if bid_price q' = bid_price q then wrat (bid_shares q') - wrat (bid_shares q) else - wrat (bid_shares q)) -
    (if ask_price q' > ask_price q then wrat (ask_shares q)
     else if ask_price q' = ask_price q then wrat (ask_shares q') - wrat (ask_shares q) else - wrat (ask_shares q'))"
proof -
  have conv: "double_of (bid_shares q) = wrat (bid_shares q)" "double_of (ask_shares q) = wrat (ask_shares q)"
    "double_of (bid_shares q') = wrat (bid_shares q')" "double_of (ask_shares q') = wrat (ask_shares q')"
    using assms by (auto intro!: double_of_exact)
  have prices: "to_double (make_price p) < to_double (make_price p') \<longleftrightarrow> p < p'"
    "to_double (make_price p) = to_double (make_price p') \<longleftrightarrow> p = p'" for p p'
    by (simp_all add: make_price_def less_StandardPrice_def)
  have small: "small_int (wrat w)" "small_int (- wrat w)"
    if "w \<in> {bid_shares q, ask_shares q, bid_shares q', ask_shares q'}" for w
    using assms that by (auto intro!: small_int_wrat)
  have diff: "small_int (wrat v - wrat w)" "rnd (wrat v - wrat w) = wrat v - wrat w"
    if "v \<in> {bid_shares q, ask_shares q, bid_shares q', ask_shares q'}" "w \<in> {bid_shares q, ask_shares q, bid_shares q', ask_shares q'}" for v w
    using small_int_diff_nonneg small_int_exact small(1) [OF that(1)] small(1) [OF that(2)] by simp_all
  define F where "F = (if bid_price q' > bid_price q then wrat (bid_shares q')
     else if bid_price q' = bid_price q then wrat (bid_shares q') - wrat (bid_shares q) else - wrat (bid_shares q))"
  define G where "G = (if ask_price q' > ask_price q then wrat (ask_shares q)
     else if ask_price q' = ask_price q then wrat (ask_shares q') - wrat (ask_shares q) else - wrat (ask_shares q'))"
  have "order_flow_imbalance q q' = rnd (F - G)"
    unfolding order_flow_imbalance_def Let_def conv prices F_def G_def by (simp add: diff(2))
  also have "\<dots> = F - G"
    by (rule small_int_exact) (simp_all add: F_def G_def small diff(1))
  finally show ?thesis
    unfolding F_def G_def .
qed

theorem order_flow_imbalance_exact_witness:
  "order_flow_imbalance (blank_bbo\<lparr>bid_price := 10, bid_shares := 5\<rparr>) (blank_bbo\<lparr>bid_price := 11, bid_shares := 7\<rparr>) = 7"
  using order_flow_imbalance_exact [of "blank_bbo\<lparr>bid_price := 10, bid_shares := 5\<rparr>" "blank_bbo\<lparr>bid_price := 11, bid_shares := 7\<rparr>"]
  by (simp add: blank_bbo_def) (simp add: wrat_def)

text \<open>
  The depth within the best \<open>n\<close> levels of a side, after any history of fewer than \<open>2 ^ 32\<close>
  operations, is the exact number of shares resting on the side at its \<open>n\<close> best prices; \<open>n = 0\<close>
  counts all of its prices.
\<close>

theorem depth_at_level_correct:
  assumes "length ops \<le> 2 ^ 32 - 1"
  shows "\<exists>b. book_history symbol ops = Some b \<and>
    (\<forall>s n. unat (depth_at_level b s n) =
      (let ps = spec_prices s (resting ops); best = (if n = 0 then ps else take n ps)
       in \<Sum>ord\<leftarrow>filter (\<lambda>ord. o_side ord = s \<and> o_price ord \<in> set best) (resting ops). unat (o_shares ord)))"
proof -
  obtain b where b: "book_history symbol ops = Some b" "l3_refines b (resting ops)"
    using book_history_refines [OF assms] by blast
  have "length (resting ops) < 2 ^ 32"
    using resting_length [of ops] assms by simp
  then show ?thesis
    using b depth_at_level_refines [OF b(2)] by (simp add: Let_def)
qed

theorem depth_at_level_correct_witness:
  "\<exists>b. book_history ''A'' [Add 1 Buy 100 50, Add 2 Buy 20 60, Add 3 Buy 5 60] = Some b \<and> unat (depth_at_level b Buy 1) = 25"
proof -
  let ?ops = "[Add 1 Buy 100 50, Add 2 Buy 20 60, Add 3 Buy 5 60]"
  have "(let ps = spec_prices Buy (resting ?ops); best = (if 1 = (0 :: nat) then ps else take 1 ps)
      in \<Sum>ord\<leftarrow>filter (\<lambda>ord. o_side ord = Buy \<and> o_price ord \<in> set best) (resting ?ops). unat (o_shares ord)) = 25"
    by code_simp
  then show ?thesis
    using depth_at_level_correct [of ?ops "''A''"] by force
qed

end
