(* ===== verification/Csv_Sink.thy ===== *)
theory Csv_Sink
  imports Messages Price_Format
begin

text \<open>
  The CSV output of \<^verbatim>\<open>include/itch/io/csv_sink.hpp\<close> and \<^verbatim>\<open>src/io/csv_sink.cpp\<close>: the flattened row of
  a message and the sink, whose stream is the text written so far. The reader at the end, a CSV
  reader without escaped quotes, says what a row means to the programs that load the file.
\<close>

definition NUL :: char where
  "NUL = CHR 0x00"

record Row =
  row_message_type :: char
  row_timestamp :: u64
  row_stock_locate :: u16
  row_tracking_number :: u16
  row_symbol :: string
  row_reference_number :: string
  row_side :: char
  row_shares :: string
  row_price :: string
  row_match_number :: string
  row_printable :: char
  row_extra :: string

definition blank_row :: Row where
  "blank_row = \<lparr>row_message_type = NUL, row_timestamp = 0, row_stock_locate = 0, row_tracking_number = 0,
     row_symbol = [], row_reference_number = [], row_side = NUL, row_shares = [], row_price = [],
     row_match_number = [], row_printable = NUL, row_extra = []\<rparr>"

definition fill_common :: "Row \<Rightarrow> MessageHeader \<Rightarrow> Row" where
  "fill_common row msg = row\<lparr>row_message_type := message_type msg, row_timestamp := timestamp msg,
     row_stock_locate := stock_locate msg, row_tracking_number := tracking_number msg\<rparr>"

definition quoted_text :: "string \<Rightarrow> string" where
  "quoted_text v = CHR 0x22 # v @ [CHR 0x22]"

definition csv_field :: "string \<Rightarrow> string" where
  "csv_field v = (if CHR '','' \<in> set v then quoted_text v else v)"

fun build_specific :: "Message \<Rightarrow> Row \<Rightarrow> Row" where
  "build_specific (AddOrder add) row = row\<lparr>
     row_symbol := to_string (AddOrderMessage.stock add) STOCK_LEN,
     row_reference_number := number_text (AddOrderMessage.order_reference_number add),
     row_side := AddOrderMessage.buy_sell_indicator add,
     row_shares := number_text (AddOrderMessage.shares add),
     row_price := price_to_string (StandardPrice (AddOrderMessage.price add))\<rparr>"
| "build_specific (AddOrderMPIDAttribution add_mpid) row = row\<lparr>
     row_symbol := to_string (AddOrderMPIDAttributionMessage.stock add_mpid) STOCK_LEN,
     row_reference_number := number_text (AddOrderMPIDAttributionMessage.order_reference_number add_mpid),
     row_side := AddOrderMPIDAttributionMessage.buy_sell_indicator add_mpid,
     row_shares := number_text (AddOrderMPIDAttributionMessage.shares add_mpid),
     row_price := price_to_string (StandardPrice (AddOrderMPIDAttributionMessage.price add_mpid)),
     row_extra := ''mpid='' @ to_string (attribution add_mpid) 4\<rparr>"
| "build_specific (OrderExecuted exec) row = row\<lparr>
     row_reference_number := number_text (OrderExecutedMessage.order_reference_number exec),
     row_shares := number_text (OrderExecutedMessage.executed_shares exec),
     row_match_number := number_text (OrderExecutedMessage.match_number exec)\<rparr>"
| "build_specific (OrderExecutedWithPrice exec_px) row = row\<lparr>
     row_reference_number := number_text (OrderExecutedWithPriceMessage.order_reference_number exec_px),
     row_shares := number_text (OrderExecutedWithPriceMessage.executed_shares exec_px),
     row_price := price_to_string (StandardPrice (execution_price exec_px)),
     row_match_number := number_text (OrderExecutedWithPriceMessage.match_number exec_px),
     row_printable := printable exec_px\<rparr>"
| "build_specific (OrderCancel cancel) row = row\<lparr>
     row_reference_number := number_text (OrderCancelMessage.order_reference_number cancel),
     row_shares := number_text (cancelled_shares cancel)\<rparr>"
| "build_specific (OrderDelete del) row = row\<lparr>
     row_reference_number := number_text (OrderDeleteMessage.order_reference_number del)\<rparr>"
| "build_specific (OrderReplace rep) row = row\<lparr>
     row_reference_number := number_text (new_order_reference_number rep),
     row_shares := number_text (OrderReplaceMessage.shares rep),
     row_price := price_to_string (StandardPrice (OrderReplaceMessage.price rep)),
     row_extra := ''orig='' @ number_text (original_order_reference_number rep)\<rparr>"
| "build_specific (NonCrossTrade trade) row = row\<lparr>
     row_symbol := to_string (NonCrossTradeMessage.stock trade) STOCK_LEN,
     row_reference_number := number_text (NonCrossTradeMessage.order_reference_number trade),
     row_side := NonCrossTradeMessage.buy_sell_indicator trade,
     row_shares := number_text (NonCrossTradeMessage.shares trade),
     row_price := price_to_string (StandardPrice (NonCrossTradeMessage.price trade)),
     row_match_number := number_text (NonCrossTradeMessage.match_number trade)\<rparr>"
| "build_specific (CrossTrade cross) row = row\<lparr>
     row_symbol := to_string (CrossTradeMessage.stock cross) STOCK_LEN,
     row_shares := number_text (CrossTradeMessage.shares cross),
     row_price := price_to_string (StandardPrice (cross_price cross)),
     row_match_number := number_text (CrossTradeMessage.match_number cross),
     row_extra := ''cross='' @ [CrossTradeMessage.cross_type cross]\<rparr>"
| "build_specific (SystemEvent event) row = row\<lparr>row_extra := ''event='' @ [event_code event]\<rparr>"
| "build_specific (StockDirectory directory) row = row\<lparr>
     row_symbol := to_string (StockDirectoryMessage.stock directory) STOCK_LEN,
     row_extra := ''category='' @ [market_category directory]\<rparr>"
| "build_specific _ row = row"

definition build_row :: "Message \<Rightarrow> Row" where
  "build_row message = build_specific message (fill_common blank_row (header_of message))"

definition char_field :: "char \<Rightarrow> string" where
  "char_field v = (if v = NUL then [] else [v])"

definition csv_line :: "Row \<Rightarrow> string" where
  "csv_line row =
     [row_message_type row] @ '','' @ number_text (row_timestamp row) @ '','' @ number_text (row_stock_locate row) @ '','' @
     number_text (row_tracking_number row) @ '','' @ csv_field (row_symbol row) @ '','' @ row_reference_number row @ '','' @
     char_field (row_side row) @ '','' @ row_shares row @ '','' @ row_price row @ '','' @ row_match_number row @ '','' @
     char_field (row_printable row) @ '','' @ csv_field (row_extra row) @ [CHR 0x0A]"

record CsvSink =
  m_out :: string
  m_rows_written :: u64

definition csv_header :: string where
  "csv_header = ''message_type,timestamp,stock_locate,tracking_number,symbol,reference_number,'' @
     ''side,shares,price,match_number,printable,extra'' @ [CHR 0x0A]"

definition CsvSink_new :: "string \<Rightarrow> bool \<Rightarrow> CsvSink" where
  "CsvSink_new out write_header = \<lparr>m_out = (if write_header then out @ csv_header else out), m_rows_written = 0\<rparr>"

definition csv_write :: "Message \<Rightarrow> CsvSink \<Rightarrow> CsvSink" where
  "csv_write message sink =
     sink\<lparr>m_out := m_out sink @ csv_line (build_row message), m_rows_written := m_rows_written sink + 1\<rparr>"

section \<open>Reading a file back\<close>

text \<open>The fields of a line: a comma ends a field, except between quotes.\<close>

fun csv_fields :: "bool \<Rightarrow> string \<Rightarrow> string \<Rightarrow> string list" where
  "csv_fields quoted acc [] = [acc]"
| "csv_fields quoted acc (c # cs) =
     (if c = CHR 0x22 then csv_fields (\<not> quoted) acc cs
      else if c = CHR '','' \<and> \<not> quoted then acc # csv_fields False [] cs
      else csv_fields quoted (acc @ [c]) cs)"

definition read_csv :: "string \<Rightarrow> string list list" where
  "read_csv file = map (csv_fields False []) (text_lines [] file)"

definition row_fields :: "Row \<Rightarrow> string list" where
  "row_fields row = [[row_message_type row], number_text (row_timestamp row), number_text (row_stock_locate row),
     number_text (row_tracking_number row), row_symbol row, row_reference_number row, char_field (row_side row),
     row_shares row, row_price row, row_match_number row, char_field (row_printable row), row_extra row]"

fun join_fields :: "string list \<Rightarrow> string" where
  "join_fields [] = []"
| "join_fields [f] = f"
| "join_fields (f # fs) = f @ '','' @ join_fields fs"

lemma csv_fields_plain:
  assumes "CHR 0x22 \<notin> set v" "quoted \<or> CHR '','' \<notin> set v"
  shows "csv_fields quoted acc (v @ rest) = csv_fields quoted (acc @ v) rest"
  using assms by (induction v arbitrary: acc) auto

lemma csv_fields_field:
  assumes "CHR 0x22 \<notin> set v"
  shows "csv_fields False [] (csv_field v @ rest) = csv_fields False v rest"
  using assms by (simp add: csv_field_def quoted_text_def csv_fields_plain)

lemma csv_fields_join:
  assumes "list_all (\<lambda>v. CHR 0x22 \<notin> set v) vs" "vs \<noteq> []"
  shows "csv_fields False [] (join_fields (map csv_field vs)) = vs"
  using assms
proof (induction vs rule: join_fields.induct)
  case (2 f)
  then show ?case
    using csv_fields_field [of f "[]"] by simp
qed (simp_all add: csv_fields_field)

text \<open>The rows that can be written: no quote or end of line in a text, no separator as a flag.\<close>

definition plain_char :: "char \<Rightarrow> bool" where
  "plain_char c \<longleftrightarrow> c \<noteq> CHR '','' \<and> c \<noteq> CHR 0x22 \<and> c \<noteq> CHR 0x0A"

definition clean_text :: "string \<Rightarrow> bool" where
  "clean_text v \<longleftrightarrow> CHR 0x22 \<notin> set v \<and> CHR 0x0A \<notin> set v"

definition csv_safe :: "Row \<Rightarrow> bool" where
  "csv_safe row \<longleftrightarrow> plain_char (row_message_type row) \<and> plain_char (row_side row) \<and> plain_char (row_printable row) \<and>
     clean_text (row_symbol row) \<and> clean_text (row_extra row)"

lemma plain_clean: "list_all plain_char v \<Longrightarrow> clean_text v"
  by (auto simp: list_all_iff plain_char_def clean_text_def)

lemma plain_numbers: "list_all plain_char (number_text n)" "list_all plain_char (fixed_text k m)"
  using decimal_no [where n = "unat n"] fixed_text_no [where n = k and k = m]
  by (auto simp: list_all_iff plain_char_def number_text_def)

lemma plain_price: "list_all plain_char (price_to_string p)"
  by (simp add: price_to_string_digits plain_numbers)

text \<open>The remaining columns are numbers.\<close>

lemma build_row_numbers:
  "list_all plain_char (row_reference_number (build_row m))" "list_all plain_char (row_shares (build_row m))"
  "list_all plain_char (row_price (build_row m))" "list_all plain_char (row_match_number (build_row m))"
  by (cases m; simp add: build_row_def fill_common_def blank_row_def plain_numbers plain_price)+

lemma csv_field_plain: "list_all plain_char v \<Longrightarrow> csv_field v = v"
  by (auto simp: csv_field_def list_all_iff plain_char_def)

text \<open>The line of a row: the texts between its commas, as they are written.\<close>

definition raw_fields :: "Row \<Rightarrow> string list" where
  "raw_fields row = [[row_message_type row], number_text (row_timestamp row), number_text (row_stock_locate row),
     number_text (row_tracking_number row), csv_field (row_symbol row), row_reference_number row, char_field (row_side row),
     row_shares row, row_price row, row_match_number row, char_field (row_printable row), csv_field (row_extra row)]"

lemma csv_line_raw: "csv_line row = join_fields (raw_fields row) @ [CHR 0x0A]"
  by (simp add: csv_line_def raw_fields_def)

lemma join_fields_set: "c \<noteq> CHR '','' \<Longrightarrow> c \<in> set (join_fields vs) \<longleftrightarrow> (\<exists>v \<in> set vs. c \<in> set v)"
  by (induction vs rule: join_fields.induct) auto

lemma csv_field_set: "c \<noteq> CHR 0x22 \<Longrightarrow> c \<in> set (csv_field v) \<longleftrightarrow> c \<in> set v"
  by (auto simp: csv_field_def quoted_text_def)

lemma csv_line_reads:
  assumes "csv_safe (build_row m)"
  shows "CHR 0x0A \<notin> set (join_fields (raw_fields (build_row m)))"
    and "csv_fields False [] (join_fields (raw_fields (build_row m))) = row_fields (build_row m)"
proof -
  let ?r = "build_row m"
  have plain: "list_all plain_char [row_message_type ?r]" "list_all plain_char (char_field (row_side ?r))"
    "list_all plain_char (char_field (row_printable ?r))"
    using assms by (simp_all add: csv_safe_def char_field_def)
  have raw: "raw_fields ?r = map csv_field (row_fields ?r)"
    by (simp add: raw_fields_def row_fields_def csv_field_plain [OF plain(1)] csv_field_plain plain plain_numbers build_row_numbers)
  have clean: "list_all clean_text (row_fields ?r)"
    using assms plain_clean [OF plain(1)] plain_clean [OF plain(2)] plain_clean [OF plain(3)]
    by (simp add: row_fields_def csv_safe_def plain_clean plain_numbers build_row_numbers)
  then show "CHR 0x0A \<notin> set (join_fields (raw_fields ?r))"
    unfolding raw by (auto simp: join_fields_set csv_field_set list_all_iff clean_text_def)
  show "csv_fields False [] (join_fields (raw_fields ?r)) = row_fields ?r"
    unfolding raw using clean by (intro csv_fields_join) (auto simp: list_all_iff clean_text_def row_fields_def)
qed

section \<open>Rows that do not read back\<close>

text \<open>A field that is read has no quote, and every comma outside quotes ends a field.\<close>

lemma csv_fields_no_quote:
  "CHR 0x22 \<notin> set acc \<Longrightarrow> f \<in> set (csv_fields quoted acc cs) \<Longrightarrow> CHR 0x22 \<notin> set f"
proof (induction cs arbitrary: quoted acc)
  case (Cons c cs)
  then show ?case
    using Cons.IH [of acc "\<not> quoted"] Cons.IH [of "[]" False] Cons.IH [of "acc @ [c]" quoted] by (auto split: if_splits)
qed simp

lemma csv_fields_count_acc: "length (csv_fields quoted acc cs) = length (csv_fields quoted [] cs)"
proof (induction cs arbitrary: quoted acc)
  case (Cons c cs)
  show ?case
    using Cons [of _ acc] Cons [of quoted "acc @ [c]"] Cons [of quoted "[c]"] by simp
qed simp

definition csv_token :: "nat \<Rightarrow> string \<Rightarrow> bool" where
  "csv_token k v \<longleftrightarrow> (\<forall>rest. length (csv_fields False [] (v @ rest)) = k + length (csv_fields False [] rest))"

lemma token_plain: "CHR 0x22 \<notin> set v \<Longrightarrow> csv_token (count_list v (CHR '','')) v"
proof (induction v)
  case (Cons c v)
  then have "csv_token (count_list v (CHR '','')) v" and c: "c \<noteq> CHR 0x22"
    by auto
  then have IH: "length (csv_fields False [] (v @ rest)) = count_list v (CHR '','') + length (csv_fields False [] rest)" for rest
    unfolding csv_token_def by blast
  have acc: "length (csv_fields False [c] (v @ rest)) = length (csv_fields False [] (v @ rest))" for rest
    by (rule csv_fields_count_acc)
  show ?case
    unfolding csv_token_def using c by (cases "c = CHR '',''") (simp_all add: acc IH)
qed (simp add: csv_token_def)

lemma token_number:
  assumes "list_all plain_char v"
  shows "csv_token 0 v"
proof -
  have "CHR 0x22 \<notin> set v" "CHR '','' \<notin> set v"
    using assms by (auto simp: list_all_iff plain_char_def)
  then show ?thesis
    using token_plain [of v] count_list_0_iff [of v "CHR '',''"] by metis
qed

lemma token_field:
  assumes "CHR 0x22 \<notin> set v"
  shows "csv_token 0 (csv_field v)"
proof -
  have "length (csv_fields False v rest) = length (csv_fields False [] rest)" for rest
    by (rule csv_fields_count_acc)
  then show ?thesis
    by (simp add: csv_token_def csv_fields_field [OF assms])
qed

lemma count_tokens:
  "list_all2 csv_token ks vs \<Longrightarrow> vs \<noteq> [] \<Longrightarrow> length (csv_fields False [] (join_fields vs)) = sum_list ks + length vs"
proof (induction vs arbitrary: ks rule: join_fields.induct)
  case (2 f)
  obtain k where "ks = [k]" "csv_token k f"
    using "2.prems"(1) by (auto simp: list_all2_Cons2)
  moreover from this have "length (csv_fields False [] (f @ [])) = k + length (csv_fields False [] [])"
    unfolding csv_token_def by blast
  ultimately show ?case
    by simp
next
  case (3 f v vs)
  obtain k ks' where ks: "ks = k # ks'" "csv_token k f" "list_all2 csv_token ks' (v # vs)"
    using "3.prems"(1) by (auto simp: list_all2_Cons2)
  then have "length (csv_fields False [] (f @ CHR '','' # join_fields (v # vs))) =
      k + length (csv_fields False [] (CHR '','' # join_fields (v # vs)))"
    unfolding csv_token_def by blast
  then show ?case
    using "3.IH" [OF ks(3)] ks(1) by simp
qed simp

lemma csv_line_safe:
  assumes "CHR 0x0A \<notin> set (join_fields (raw_fields (build_row m)))"
    and "csv_fields False [] (join_fields (raw_fields (build_row m))) = row_fields (build_row m)"
  shows "csv_safe (build_row m)"
proof -
  let ?r = "build_row m"
  have quotes: "CHR 0x22 \<notin> set f" if "f \<in> set (row_fields ?r)" for f
    using csv_fields_no_quote [of "[]" f False "join_fields (raw_fields ?r)"] that assms(2) by simp
  have newlines: "CHR 0x0A \<notin> set f" if "f \<in> set (raw_fields ?r)" for f
    using assms(1) that by (auto simp: join_fields_set)
  have "list_all2 csv_token [count_list [row_message_type ?r] (CHR '',''), 0, 0, 0, 0, 0, count_list (char_field (row_side ?r)) (CHR '',''),
      0, 0, 0, count_list (char_field (row_printable ?r)) (CHR '',''), 0] (raw_fields ?r)"
    unfolding raw_fields_def list_all2_Cons
    by (intro conjI token_plain token_number token_field plain_numbers build_row_numbers quotes list_all2_Nil [THEN iffD2])
      (simp_all add: row_fields_def)
  moreover have "raw_fields ?r \<noteq> []" "length (raw_fields ?r) = 12"
    by (simp_all add: raw_fields_def)
  ultimately have "length (csv_fields False [] (join_fields (raw_fields ?r))) = count_list [row_message_type ?r] (CHR '','') +
      count_list (char_field (row_side ?r)) (CHR '','') + count_list (char_field (row_printable ?r)) (CHR '','') + 12"
    using count_tokens [of _ "raw_fields ?r"] by fastforce
  moreover have "length (row_fields ?r) = 12"
    by (simp add: row_fields_def)
  ultimately have commas: "CHR '','' \<notin> set [row_message_type ?r]" "CHR '','' \<notin> set (char_field (row_side ?r))"
    "CHR '','' \<notin> set (char_field (row_printable ?r))"
    unfolding assms(2) count_list_0_iff [symmetric] by linarith+
  have plain: "plain_char c" if "v \<in> set (row_fields ?r)" "v \<in> set (raw_fields ?r)" "CHR '','' \<notin> set v" "c \<in> set v" for v c
    using quotes [OF that(1)] newlines [OF that(2)] that(3,4) by (auto simp: plain_char_def)
  have "plain_char (row_message_type ?r)"
    by (rule plain [of "[row_message_type ?r]"]) (use commas in \<open>simp_all add: row_fields_def raw_fields_def\<close>)
  moreover have "list_all plain_char (char_field (row_side ?r))" "list_all plain_char (char_field (row_printable ?r))"
    using plain [of "char_field (row_side ?r)"] plain [of "char_field (row_printable ?r)"] commas
    by (simp_all add: list_all_iff row_fields_def raw_fields_def)
  moreover have "clean_text (row_symbol ?r)" "clean_text (row_extra ?r)"
    using quotes [of "row_symbol ?r"] quotes [of "row_extra ?r"]
      newlines [of "csv_field (row_symbol ?r)"] newlines [of "csv_field (row_extra ?r)"]
    by (simp_all add: row_fields_def raw_fields_def clean_text_def csv_field_set)
  moreover have "plain_char NUL"
    by (simp add: plain_char_def NUL_def)
  ultimately show ?thesis
    by (auto simp: csv_safe_def char_field_def split: if_splits)
qed

section \<open>Properties\<close>

definition csv_column_names :: "string list" where
  "csv_column_names = [''message_type'', ''timestamp'', ''stock_locate'', ''tracking_number'', ''symbol'',
     ''reference_number'', ''side'', ''shares'', ''price'', ''match_number'', ''printable'', ''extra'']"

definition csv_write_all :: "Message list \<Rightarrow> CsvSink \<Rightarrow> CsvSink" where
  "csv_write_all ms sink = fold csv_write ms sink"

lemma csv_write_all_out:
  "m_out (csv_write_all ms sink) = m_out sink @ concat (map (csv_line \<circ> build_row) ms) \<and>
   m_rows_written (csv_write_all ms sink) = m_rows_written sink + of_nat (length ms)"
  by (induction ms arbitrary: sink) (simp_all add: csv_write_all_def csv_write_def)

lemma count_newlines: "count_list xs (CHR 0x0A) \<le> length (text_lines acc xs)"
  by (induction xs arbitrary: acc) (auto intro: le_SucI)

lemma lines_of_rows:
  "\<forall>m \<in> set ms. CHR 0x0A \<notin> set (join_fields (raw_fields (build_row m))) \<Longrightarrow>
    text_lines [] (concat (map (csv_line \<circ> build_row) ms)) = map (join_fields \<circ> raw_fields \<circ> build_row) ms"
  by (induction ms) (simp_all add: csv_line_raw text_lines_append)

lemma newlines_of_rows:
  "count_list (concat (map (csv_line \<circ> build_row) ms)) (CHR 0x0A) =
    length ms + (\<Sum>m\<leftarrow>ms. count_list (join_fields (raw_fields (build_row m))) (CHR 0x0A))"
  by (induction ms) (simp_all add: csv_line_raw)

lemma read_csv_rows:
  "read_csv (concat (map (csv_line \<circ> build_row) ms)) = map (row_fields \<circ> build_row) ms \<longleftrightarrow>
    list_all (\<lambda>m. csv_safe (build_row m)) ms"
proof
  assume read: "read_csv (concat (map (csv_line \<circ> build_row) ms)) = map (row_fields \<circ> build_row) ms"
  then have "length (text_lines [] (concat (map (csv_line \<circ> build_row) ms))) = length ms"
    by (metis length_map read_csv_def)
  then have clean: "\<forall>m \<in> set ms. CHR 0x0A \<notin> set (join_fields (raw_fields (build_row m)))"
    using count_newlines [of "concat (map (csv_line \<circ> build_row) ms)" "[]"]
    by (simp add: newlines_of_rows count_list_0_iff)
  then show "list_all (\<lambda>m. csv_safe (build_row m)) ms"
    using read by (auto simp: read_csv_def lines_of_rows [OF clean] list_all_iff intro: csv_line_safe)
next
  assume "list_all (\<lambda>m. csv_safe (build_row m)) ms"
  then show "read_csv (concat (map (csv_line \<circ> build_row) ms)) = map (row_fields \<circ> build_row) ms"
    by (simp add: read_csv_def lines_of_rows csv_line_reads list_all_iff)
qed

lemma read_csv_header: "read_csv (csv_header @ rest) = csv_column_names # read_csv rest"
proof -
  define names where "names = join_fields (map csv_field csv_column_names)"
  have whole: "csv_header @ rest = names @ CHR 0x0A # rest"
    by (simp add: names_def csv_header_def csv_column_names_def csv_field_def)
  have "CHR 0x0A \<notin> set names"
    by (simp add: names_def csv_column_names_def csv_field_def)
  moreover have "csv_fields False [] names = csv_column_names"
    unfolding names_def by (rule csv_fields_join) (simp_all add: csv_column_names_def)
  ultimately show ?thesis
    unfolding read_csv_def whole by (simp add: text_lines_append)
qed

text \<open>
  C38. A file the sink has written reads back as the header and one record of twelve fields per
  message, in order, with the fields of the message's row, exactly when every row is \<open>csv_safe\<close>: its
  type, side and printable flag are neither a comma nor a quote nor an end of line, and its symbol and
  its extra field hold neither a quote nor an end of line. Commas in the symbol and in the extra field
  are allowed. A row with a comma as its side, which the code does not quote, or with a quote in its
  symbol, which the code does not escape, makes the file unreadable. The row counter is the number of
  messages in either case.
\<close>

theorem csv_reads_back:
  "(read_csv (m_out (csv_write_all ms (CsvSink_new [] True))) = csv_column_names # map (row_fields \<circ> build_row) ms \<longleftrightarrow>
      list_all (\<lambda>m. csv_safe (build_row m)) ms) \<and>
    m_rows_written (csv_write_all ms (CsvSink_new [] True)) = of_nat (length ms)"
  using csv_write_all_out [of ms "CsvSink_new [] True"] read_csv_rows [of ms]
  by (simp add: CsvSink_new_def read_csv_header)

definition sample_event :: Message where
  "sample_event = SystemEvent \<lparr>message_type = CHR ''S'', stock_locate = 0, tracking_number = 0, timestamp = 5,
     event_code = CHR '',''\<rparr>"

theorem csv_reads_back_witness:
  "read_csv (m_out (csv_write_all [sample_event] (CsvSink_new [] True))) =
    [csv_column_names, [''S'', ''5'', ''0'', ''0'', [], [], [], [], [], [], [], ''event=,'']]"
proof -
  have row: "build_row sample_event = blank_row\<lparr>row_message_type := CHR ''S'', row_timestamp := 5, row_extra := ''event=,''\<rparr>"
    by (simp add: sample_event_def build_row_def fill_common_def blank_row_def MessageHeader.defs)
  have "csv_safe (build_row sample_event)"
    unfolding row by (simp add: csv_safe_def blank_row_def plain_char_def clean_text_def NUL_def)
  moreover have "number_text (5 :: u64) = ''5''" "number_text (0 :: u16) = ''0''"
    by (simp_all add: number_text_def decimal_small digit_def) code_simp+
  moreover have "row_fields (build_row sample_event) = [''S'', ''5'', ''0'', ''0'', [], [], [], [], [], [], [], ''event=,'']"
    unfolding row using \<open>number_text (5 :: u64) = ''5''\<close> \<open>number_text (0 :: u16) = ''0''\<close>
    by (simp add: row_fields_def blank_row_def char_field_def)
  ultimately show ?thesis
    using csv_reads_back [of "[sample_event]"] by simp
qed

text \<open>
  The row of an add order holds the whole message: two add orders with the same row agree in
  every field, the symbol up to its padding.
\<close>

theorem csv_add_order_lossless:
  "build_row (AddOrder a) = build_row (AddOrder b) \<longleftrightarrow>
   MessageHeader.truncate a = MessageHeader.truncate b \<and>
   AddOrderMessage.order_reference_number a = AddOrderMessage.order_reference_number b \<and>
   AddOrderMessage.buy_sell_indicator a = AddOrderMessage.buy_sell_indicator b \<and>
   AddOrderMessage.shares a = AddOrderMessage.shares b \<and> AddOrderMessage.price a = AddOrderMessage.price b \<and>
   to_string (AddOrderMessage.stock a) STOCK_LEN = to_string (AddOrderMessage.stock b) STOCK_LEN"
  by (auto simp: build_row_def fill_common_def blank_row_def number_text_def price_to_string_digits fixed_text_inject
      word_unat_eq_iff MessageHeader.defs)

end
