(* ===== verification/Message_Printer.thy ===== *)
theory Message_Printer
  imports Messages Price_Format
begin

text \<open>
  The text form of the messages, \<^verbatim>\<open>operator<<\<close> and the \<^verbatim>\<open>print_impl\<close> overloads of
  \<^verbatim>\<open>src/messages.cpp\<close>, on a stream with its default formatting. Prices pass through a double and are
  written with six significant digits.
\<close>

definition PRICE_DIVISOR :: rat where
  "PRICE_DIVISOR = 10000"

definition MWCB_PRICE_DIVISOR :: rat where
  "MWCB_PRICE_DIVISOR = 100000000"

text \<open>An end of line, the label of an attribute and its value.\<close>

definition attribute :: "string \<Rightarrow> string \<Rightarrow> string" where
  "attribute label v = [CHR 0x0A] @ ''  '' @ label @ '': '' @ v"

definition double_text :: "rat \<Rightarrow> string" where
  "double_text x = format_general x"

definition print_SystemEvent :: "SystemEventMessage \<Rightarrow> string" where
  "print_SystemEvent msg = ''System Event:'' @
     attribute ''Timestamp'' (number_text (timestamp msg)) @
     attribute ''Event Code'' [SystemEventMessage.event_code msg]"

definition print_StockDirectory :: "StockDirectoryMessage \<Rightarrow> string" where
  "print_StockDirectory msg = ''Stock Directory:'' @
     attribute ''Timestamp'' (number_text (timestamp msg)) @
     attribute ''Stock'' (to_string (StockDirectoryMessage.stock msg) STOCK_LEN)"

definition print_StockTradingAction :: "StockTradingActionMessage \<Rightarrow> string" where
  "print_StockTradingAction msg = ''Stock Trading Action:'' @
     attribute ''Timestamp'' (number_text (timestamp msg)) @
     attribute ''Stock'' (to_string (StockTradingActionMessage.stock msg) STOCK_LEN) @
     attribute ''State'' [StockTradingActionMessage.trading_state msg]"

definition print_RegSHO :: "RegSHOMessage \<Rightarrow> string" where
  "print_RegSHO msg = ''Reg SHO Message:'' @
     attribute ''Timestamp'' (number_text (timestamp msg)) @
     attribute ''Stock'' (to_string (RegSHOMessage.stock msg) STOCK_LEN)"

definition print_MarketParticipantPosition :: "MarketParticipantPositionMessage \<Rightarrow> string" where
  "print_MarketParticipantPosition msg = ''Market Participant Position:'' @
     attribute ''Timestamp'' (number_text (timestamp msg)) @
     attribute ''MPID'' (to_string (MarketParticipantPositionMessage.mpid msg) 4) @
     attribute ''Stock'' (to_string (MarketParticipantPositionMessage.stock msg) STOCK_LEN)"

definition print_MWCBDeclineLevel :: "MWCBDeclineLevelMessage \<Rightarrow> string" where
  "print_MWCBDeclineLevel msg = ''MWCB Decline Level:'' @
     attribute ''Timestamp'' (number_text (timestamp msg)) @
     attribute ''Level 1'' (double_text (rnd (double_of (level1 msg) / MWCB_PRICE_DIVISOR)))"

definition print_MWCBStatus :: "MWCBStatusMessage \<Rightarrow> string" where
  "print_MWCBStatus msg = ''MWCB Status:'' @
     attribute ''Timestamp'' (number_text (timestamp msg)) @
     attribute ''Level'' [MWCBStatusMessage.breached_level msg]"

definition print_IPOQuotingPeriodUpdate :: "IPOQuotingPeriodUpdateMessage \<Rightarrow> string" where
  "print_IPOQuotingPeriodUpdate msg = ''IPO Quoting Period Update:'' @
     attribute ''Timestamp'' (number_text (timestamp msg)) @
     attribute ''Stock'' (to_string (IPOQuotingPeriodUpdateMessage.stock msg) STOCK_LEN)"

definition print_LULDAuctionCollar :: "LULDAuctionCollarMessage \<Rightarrow> string" where
  "print_LULDAuctionCollar msg = ''LULD Auction Collar:'' @
     attribute ''Timestamp'' (number_text (timestamp msg)) @
     attribute ''Stock'' (to_string (LULDAuctionCollarMessage.stock msg) STOCK_LEN)"

definition print_OperationalHalt :: "OperationalHaltMessage \<Rightarrow> string" where
  "print_OperationalHalt msg = ''Operational Halt:'' @
     attribute ''Timestamp'' (number_text (timestamp msg)) @
     attribute ''Stock'' (to_string (OperationalHaltMessage.stock msg) STOCK_LEN)"

definition print_AddOrder :: "AddOrderMessage \<Rightarrow> string" where
  "print_AddOrder msg = ''Add Order:'' @
     attribute ''Timestamp'' (number_text (timestamp msg)) @
     attribute ''Stock'' (to_string (AddOrderMessage.stock msg) STOCK_LEN) @
     attribute ''Side'' [AddOrderMessage.buy_sell_indicator msg] @
     attribute ''Shares'' (number_text (AddOrderMessage.shares msg)) @
     attribute ''Price'' (double_text (rnd (double_of (AddOrderMessage.price msg) / PRICE_DIVISOR)))"

definition print_AddOrderMPIDAttribution :: "AddOrderMPIDAttributionMessage \<Rightarrow> string" where
  "print_AddOrderMPIDAttribution msg = ''Add Order (MPID):'' @
     attribute ''Timestamp'' (number_text (timestamp msg)) @
     attribute ''Stock'' (to_string (AddOrderMPIDAttributionMessage.stock msg) STOCK_LEN) @
     attribute ''MPID'' (to_string (AddOrderMPIDAttributionMessage.attribution msg) 4) @
     attribute ''Side'' [AddOrderMPIDAttributionMessage.buy_sell_indicator msg] @
     attribute ''Shares'' (number_text (AddOrderMPIDAttributionMessage.shares msg)) @
     attribute ''Price'' (double_text (rnd (double_of (AddOrderMPIDAttributionMessage.price msg) / PRICE_DIVISOR)))"

definition print_OrderExecuted :: "OrderExecutedMessage \<Rightarrow> string" where
  "print_OrderExecuted msg = ''Order Executed:'' @
     attribute ''Timestamp'' (number_text (timestamp msg)) @
     attribute ''Ref#'' (number_text (OrderExecutedMessage.order_reference_number msg)) @
     attribute ''Shares'' (number_text (OrderExecutedMessage.executed_shares msg))"

definition print_OrderExecutedWithPrice :: "OrderExecutedWithPriceMessage \<Rightarrow> string" where
  "print_OrderExecutedWithPrice msg = ''Order Executed w/ Price:'' @
     attribute ''Timestamp'' (number_text (timestamp msg)) @
     attribute ''Ref#'' (number_text (OrderExecutedWithPriceMessage.order_reference_number msg)) @
     attribute ''Price'' (double_text (rnd (double_of (OrderExecutedWithPriceMessage.execution_price msg) / PRICE_DIVISOR)))"

definition print_OrderCancel :: "OrderCancelMessage \<Rightarrow> string" where
  "print_OrderCancel msg = ''Order Cancel:'' @
     attribute ''Timestamp'' (number_text (timestamp msg)) @
     attribute ''Ref#'' (number_text (OrderCancelMessage.order_reference_number msg)) @
     attribute ''Cancelled Shares'' (number_text (OrderCancelMessage.cancelled_shares msg))"

definition print_OrderDelete :: "OrderDeleteMessage \<Rightarrow> string" where
  "print_OrderDelete msg = ''Order Delete:'' @
     attribute ''Timestamp'' (number_text (timestamp msg)) @
     attribute ''Ref#'' (number_text (OrderDeleteMessage.order_reference_number msg))"

definition print_OrderReplace :: "OrderReplaceMessage \<Rightarrow> string" where
  "print_OrderReplace msg = ''Order Replace:'' @
     attribute ''Timestamp'' (number_text (timestamp msg)) @
     attribute ''Original Ref#'' (number_text (OrderReplaceMessage.original_order_reference_number msg)) @
     attribute ''New Ref#'' (number_text (OrderReplaceMessage.new_order_reference_number msg)) @
     attribute ''Shares'' (number_text (OrderReplaceMessage.shares msg)) @
     attribute ''Price'' (double_text (rnd (double_of (OrderReplaceMessage.price msg) / PRICE_DIVISOR)))"

definition print_NonCrossTrade :: "NonCrossTradeMessage \<Rightarrow> string" where
  "print_NonCrossTrade msg = ''Non-Cross Trade:'' @
     attribute ''Timestamp'' (number_text (timestamp msg)) @
     attribute ''Stock'' (to_string (NonCrossTradeMessage.stock msg) STOCK_LEN) @
     attribute ''Side'' [NonCrossTradeMessage.buy_sell_indicator msg] @
     attribute ''Shares'' (number_text (NonCrossTradeMessage.shares msg)) @
     attribute ''Price'' (double_text (rnd (double_of (NonCrossTradeMessage.price msg) / PRICE_DIVISOR)))"

definition print_CrossTrade :: "CrossTradeMessage \<Rightarrow> string" where
  "print_CrossTrade msg = ''Cross Trade:'' @
     attribute ''Timestamp'' (number_text (timestamp msg)) @
     attribute ''Stock'' (to_string (CrossTradeMessage.stock msg) STOCK_LEN) @
     attribute ''Shares'' (number_text (CrossTradeMessage.shares msg)) @
     attribute ''Cross Price'' (double_text (rnd (double_of (CrossTradeMessage.cross_price msg) / PRICE_DIVISOR))) @
     attribute ''Match#'' (number_text (CrossTradeMessage.match_number msg)) @
     attribute ''Cross Type'' [CrossTradeMessage.cross_type msg]"

definition print_BrokenTrade :: "BrokenTradeMessage \<Rightarrow> string" where
  "print_BrokenTrade msg = ''Broken Trade:'' @
     attribute ''Timestamp'' (number_text (timestamp msg)) @
     attribute ''Match#'' (number_text (BrokenTradeMessage.match_number msg))"

definition print_NOII :: "NOIIMessage \<Rightarrow> string" where
  "print_NOII msg = ''NOII Message:'' @
     attribute ''Timestamp'' (number_text (timestamp msg)) @
     attribute ''Stock'' (to_string (NOIIMessage.stock msg) STOCK_LEN) @
     attribute ''Paired Shares'' (number_text (NOIIMessage.paired_shares msg)) @
     attribute ''Imbalance Shares'' (number_text (NOIIMessage.imbalance_shares msg)) @
     attribute ''Imbalance Direction'' [NOIIMessage.imbalance_direction msg] @
     attribute ''Far Price'' (double_text (rnd (double_of (NOIIMessage.far_price msg) / PRICE_DIVISOR))) @
     attribute ''Near Price'' (double_text (rnd (double_of (NOIIMessage.near_price msg) / PRICE_DIVISOR))) @
     attribute ''Reference Price'' (double_text (rnd (double_of (NOIIMessage.current_reference_price msg) / PRICE_DIVISOR))) @
     attribute ''Cross Type'' [NOIIMessage.cross_type msg] @
     attribute ''Price Variation Indicator'' [NOIIMessage.price_variation_indicator msg]"

definition print_RetailPriceImprovementIndicator :: "RetailPriceImprovementIndicatorMessage \<Rightarrow> string" where
  "print_RetailPriceImprovementIndicator msg = ''RPII Message:'' @
     attribute ''Timestamp'' (number_text (timestamp msg)) @
     attribute ''Stock'' (to_string (RetailPriceImprovementIndicatorMessage.stock msg) STOCK_LEN)"

definition print_DLCR :: "DLCRMessage \<Rightarrow> string" where
  "print_DLCR msg = ''DLCR Message:'' @
     attribute ''Timestamp'' (number_text (timestamp msg)) @
     attribute ''Stock'' (to_string (DLCRMessage.stock msg) STOCK_LEN)"

fun print_message :: "Message \<Rightarrow> string" where
  "print_message (SystemEvent msg) = print_SystemEvent msg"
| "print_message (StockDirectory msg) = print_StockDirectory msg"
| "print_message (StockTradingAction msg) = print_StockTradingAction msg"
| "print_message (RegSHO msg) = print_RegSHO msg"
| "print_message (MarketParticipantPosition msg) = print_MarketParticipantPosition msg"
| "print_message (MWCBDeclineLevel msg) = print_MWCBDeclineLevel msg"
| "print_message (MWCBStatus msg) = print_MWCBStatus msg"
| "print_message (IPOQuotingPeriodUpdate msg) = print_IPOQuotingPeriodUpdate msg"
| "print_message (LULDAuctionCollar msg) = print_LULDAuctionCollar msg"
| "print_message (OperationalHalt msg) = print_OperationalHalt msg"
| "print_message (AddOrder msg) = print_AddOrder msg"
| "print_message (AddOrderMPIDAttribution msg) = print_AddOrderMPIDAttribution msg"
| "print_message (OrderExecuted msg) = print_OrderExecuted msg"
| "print_message (OrderExecutedWithPrice msg) = print_OrderExecutedWithPrice msg"
| "print_message (OrderCancel msg) = print_OrderCancel msg"
| "print_message (OrderDelete msg) = print_OrderDelete msg"
| "print_message (OrderReplace msg) = print_OrderReplace msg"
| "print_message (NonCrossTrade msg) = print_NonCrossTrade msg"
| "print_message (CrossTrade msg) = print_CrossTrade msg"
| "print_message (BrokenTrade msg) = print_BrokenTrade msg"
| "print_message (NOII msg) = print_NOII msg"
| "print_message (RetailPriceImprovementIndicator msg) = print_RetailPriceImprovementIndicator msg"
| "print_message (DLCR msg) = print_DLCR msg"

section \<open>Reading the text back\<close>

text \<open>The attributes of a printed message: the lines after the title, cut at the first colon.\<close>

definition printed_attribute :: "string \<Rightarrow> string \<times> string" where
  "printed_attribute l = (let body = drop 2 l; label = takeWhile (\<lambda>c. c \<noteq> CHR '':'') body
     in (label, drop (length label + 2) body))"

definition printed_attributes :: "string \<Rightarrow> (string \<times> string) list" where
  "printed_attributes s = map printed_attribute (tl (text_lines [] s))"

lemma printed_attribute_line:
  "CHR '':'' \<notin> set label \<Longrightarrow> printed_attribute (''  '' @ label @ '': '' @ v) = (label, v)"
proof -
  assume "CHR '':'' \<notin> set label"
  then have "takeWhile (\<lambda>c. c \<noteq> CHR '':'') (label @ CHR '':'' # rest) = label" for rest
    by (induction label) auto
  then show ?thesis
    by (simp add: printed_attribute_def Let_def)
qed

lemma printed_attributes_concat:
  assumes "CHR 0x0A \<notin> set title" "title \<noteq> []" "list_all (\<lambda>(l, v). CHR '':'' \<notin> set l \<and> CHR 0x0A \<notin> set (l @ v)) avs"
  shows "printed_attributes (title @ concat (map (\<lambda>(l, v). attribute l v) avs)) = avs"
proof -
  have lines: "text_lines [] (xs @ concat (map (\<lambda>(l, v). attribute l v) avs)) = xs # map (\<lambda>(l, v). ''  '' @ l @ '': '' @ v) avs"
    if "CHR 0x0A \<notin> set xs" "xs \<noteq> []" "list_all (\<lambda>(l, v). CHR 0x0A \<notin> set (l @ v)) avs" for xs avs
    using that
  proof (induction avs arbitrary: xs)
    case Nil
    then show ?case
      by (simp add: text_lines_last)
  next
    case (Cons av avs)
    obtain l v where av: "av = (l, v)"
      by (cases av)
    show ?case
      using Cons.IH [of "''  '' @ l @ '': '' @ v"] Cons.prems by (simp add: av attribute_def text_lines_append)
  qed
  have "map printed_attribute (map (\<lambda>(l, v). ''  '' @ l @ '': '' @ v) avs) = avs"
    using assms(3) printed_attribute_line by (induction avs) auto
  moreover have "list_all (\<lambda>(l, v). CHR 0x0A \<notin> set (l @ v)) avs"
    using assms(3) by (auto simp: list_all_iff)
  ultimately show ?thesis
    unfolding printed_attributes_def using lines [OF assms(1,2), of avs] by simp
qed

section \<open>Properties\<close>

lemma printed_price_near: "\<bar>rnd (double_of (w :: u32) / PRICE_DIVISOR) - of_nat (unat w) / 10 ^ 4\<bar> \<le> of_nat (unat w) / 10 ^ 4 / 2 ^ 53"
  using rnd_error [of "wrat w / 10 ^ 4"] wrat_nonneg(1) [of w] by (simp add: PRICE_DIVISOR_def wrat_def del: of_nat_unat)

lemma printed_price_exact:
  fixes w :: u32
  assumes "unat w < 10 ^ 6"
  shows "text_value (double_text (rnd (double_of w / PRICE_DIVISOR))) = wrat w / 10 ^ 4"
proof (cases "w = 0")
  case True
  then show ?thesis
    by (simp add: double_text_def format_general_def text_value_def digits_value_def is_digit_def)
next
  case False
  then show ?thesis
    using format_general_exact [OF _ assms printed_price_near] unat_gt_0 [of w]
    by (simp add: double_text_def wrat_def del: of_nat_unat)
qed

text \<open>
  A printed add order can be read back: its lines are the five attributes with the values of
  the message, and for prices below 100 dollars the printed price has the value of the price.
\<close>

theorem printed_add_order:
  assumes "list_all (\<lambda>c. c \<noteq> CHR 0x0A) (to_string (AddOrderMessage.stock m) STOCK_LEN @ [AddOrderMessage.buy_sell_indicator m])"
  shows "\<exists>t. printed_attributes (print_message (AddOrder m)) =
      [(''Timestamp'', number_text (timestamp m)), (''Stock'', to_string (AddOrderMessage.stock m) STOCK_LEN),
       (''Side'', [AddOrderMessage.buy_sell_indicator m]), (''Shares'', number_text (AddOrderMessage.shares m)), (''Price'', t)] \<and>
    (unat (AddOrderMessage.price m) < 10 ^ 6 \<longrightarrow> text_value t = wrat (AddOrderMessage.price m) / 10 ^ 4)"
proof -
  define t where "t = double_text (rnd (double_of (AddOrderMessage.price m) / PRICE_DIVISOR))"
  define avs where "avs = [(''Timestamp'', number_text (timestamp m)), (''Stock'', to_string (AddOrderMessage.stock m) STOCK_LEN),
       (''Side'', [AddOrderMessage.buy_sell_indicator m]), (''Shares'', number_text (AddOrderMessage.shares m)), (''Price'', t)]"
  have out: "print_message (AddOrder m) = ''Add Order:'' @ concat (map (\<lambda>(l, v). attribute l v) avs)"
    by (simp add: print_AddOrder_def avs_def t_def)
  have "CHR 0x0A \<notin> set t"
    by (simp add: t_def double_text_def format_general_no)
  moreover have "CHR 0x0A \<notin> set (to_string (AddOrderMessage.stock m) STOCK_LEN)" "CHR 0x0A \<noteq> AddOrderMessage.buy_sell_indicator m"
    using assms by (auto simp only: list_all_append list_all_iff list.set set_append)
  ultimately have "list_all (\<lambda>(l, v). CHR '':'' \<notin> set l \<and> CHR 0x0A \<notin> set (l @ v)) avs"
    by (simp add: avs_def number_text_def decimal_no)
  then have "printed_attributes (print_message (AddOrder m)) = avs"
    unfolding out using printed_attributes_concat [of "''Add Order:''" avs] by simp
  then show ?thesis
    using printed_price_exact [of "AddOrderMessage.price m"] unfolding avs_def t_def by (intro exI conjI impI)
qed

definition sample_printed :: AddOrderMessage where
  "sample_printed = \<lparr>message_type = CHR ''A'', stock_locate = 1, tracking_number = 0, timestamp = 7,
     AddOrderMessage.order_reference_number = 1, AddOrderMessage.buy_sell_indicator = CHR ''B'', AddOrderMessage.shares = 100,
     AddOrderMessage.stock = ''AAPL    '', AddOrderMessage.price = 995000\<rparr>"

theorem printed_add_order_witness:
  "\<exists>t. snd (last (printed_attributes (print_message (AddOrder sample_printed)))) = t \<and> text_value t = 199 / 2"
proof -
  have "list_all (\<lambda>c. c \<noteq> CHR 0x0A) (to_string (AddOrderMessage.stock sample_printed) STOCK_LEN @ [AddOrderMessage.buy_sell_indicator sample_printed])"
    by code_simp
  from printed_add_order [OF this] show ?thesis
    by (auto simp: sample_printed_def wrat_def)
qed

text \<open>
  From 100 dollars on a printed price may lose its last decimals: 1234.5678 is printed as
  1234.57, like 1234.5701.
\<close>

theorem printed_price_loses:
  "list_all (\<lambda>p. double_text (rnd (double_of (p :: u32) / PRICE_DIVISOR)) = ''1234.57'') [12345678, 12345701]"
proof -
  have printed: "double_text (rnd (double_of p / PRICE_DIVISOR)) = ''1234.57''"
    if p: "12345651 \<le> unat p" "unat p \<le> 12345749" for p :: u32
  proof -
    define y where "y = (of_nat (unat p) / 10 ^ 4 :: rat)"
    define x where "x = rnd (double_of p / PRICE_DIVISOR)"
    have "of_nat 12345651 \<le> (of_nat (unat p) :: rat)" "(of_nat (unat p) :: rat) \<le> of_nat 12345749"
      using p unfolding of_nat_le_iff .
    then have y: "12345651 / 10000 \<le> y" "y \<le> 12345749 / 10000"
      by (simp_all add: y_def del: of_nat_unat)
    have "\<bar>x - y\<bar> \<le> y / 2 ^ 53"
      unfolding x_def y_def by (rule printed_price_near)
    then have x: "12345650 / 10000 < x" "x < 12345750 / 10000"
      using y unfolding abs_le_iff by simp_all
    then have "ilog 10 x = 3"
      by (intro ilog_unique) simp_all
    moreover have "\<bar>x * 100 - of_int 123457\<bar> < 1 / 2"
      using x unfolding abs_less_iff by simp
    then have "round_even (x * 100) = 123457"
      by (rule round_even_nearest)
    ultimately have "significant x = (123457, 3)"
      using x by (simp add: significant_def)
    moreover have "trimmed_text 2 123457 = ''1234.57''"
      by (simp add: trimmed_text_def strip_zeros_def decimal_field_2 decimal.simps digit_simps)
    ultimately show ?thesis
      using x unfolding x_def [symmetric] double_text_def by (simp add: format_general_def sign_text_def)
  qed
  show ?thesis
    using printed [of 12345678] printed [of 12345701] by simp
qed

end
