(* ===== verification/Arrow_Export.thy ===== *)
theory Arrow_Export
  imports Csv_Sink
begin

text \<open>
  The columnar exporter of \<^verbatim>\<open>include/itch/io/arrow_export.hpp\<close> and \<^verbatim>\<open>src/io/arrow_export.cpp\<close>. Apache
  Arrow is not part of the repository: its builders, the conversion of a finished builder to an
  array and the Parquet writer are parameters of the model. Of a builder the code relies on one
  thing, that \<^verbatim>\<open>Append\<close> adds a value and \<^verbatim>\<open>AppendNull\<close> a null at its end (\<open>builder_laws\<close>, documented
  by Arrow); the status each call returns is discarded by the code.
\<close>

section \<open>The interface of the builders\<close>

record ('sb, 'qb, 'hb, 'db) arrow_api =
  string_append :: "string \<Rightarrow> 'sb \<Rightarrow> 'sb"
  u64_append :: "u64 \<Rightarrow> 'qb \<Rightarrow> 'qb"
  u64_append_null :: "'qb \<Rightarrow> 'qb"
  u16_append :: "u16 \<Rightarrow> 'hb \<Rightarrow> 'hb"
  double_append :: "rat \<Rightarrow> 'db \<Rightarrow> 'db"
  double_append_null :: "'db \<Rightarrow> 'db"

text \<open>What a builder holds, as observers.\<close>

record ('sb, 'qb, 'hb, 'db) arrow_values =
  string_values :: "'sb \<Rightarrow> string list"
  u64_values :: "'qb \<Rightarrow> u64 option list"
  u16_values :: "'hb \<Rightarrow> u16 list"
  double_values :: "'db \<Rightarrow> rat option list"

definition builder_laws :: "('sb, 'qb, 'hb, 'db) arrow_api \<Rightarrow> ('sb, 'qb, 'hb, 'db) arrow_values \<Rightarrow> bool" where
  "builder_laws api vals \<longleftrightarrow>
     (\<forall>v b. string_values vals (string_append api v b) = string_values vals b @ [v]) \<and>
     (\<forall>v b. u64_values vals (u64_append api v b) = u64_values vals b @ [Some v]) \<and>
     (\<forall>b. u64_values vals (u64_append_null api b) = u64_values vals b @ [None]) \<and>
     (\<forall>v b. u16_values vals (u16_append api v b) = u16_values vals b @ [v]) \<and>
     (\<forall>v b. double_values vals (double_append api v b) = double_values vals b @ [Some v]) \<and>
     (\<forall>b. double_values vals (double_append_null api b) = double_values vals b @ [None])"

section \<open>The exporter\<close>

record ('sb, 'qb, 'hb, 'db) Impl =
  col_message_type :: 'sb
  col_timestamp :: 'qb
  col_stock_locate :: 'hb
  col_tracking_number :: 'hb
  col_symbol :: 'sb
  col_reference_number :: 'qb
  col_side :: 'sb
  col_shares :: 'qb
  col_price :: 'db
  col_match_number :: 'qb
  col_printable :: 'sb
  col_extra :: 'sb
  row_count :: u64
  last_error :: string

definition append_common ::
  "('sb, 'qb, 'hb, 'db) arrow_api \<Rightarrow> MessageHeader \<Rightarrow> ('sb, 'qb, 'hb, 'db) Impl \<Rightarrow> ('sb, 'qb, 'hb, 'db) Impl" where
  "append_common api msg impl = impl\<lparr>
     col_message_type := string_append api [message_type msg] (col_message_type impl),
     col_timestamp := u64_append api (timestamp msg) (col_timestamp impl),
     col_stock_locate := u16_append api (stock_locate msg) (col_stock_locate impl),
     col_tracking_number := u16_append api (tracking_number msg) (col_tracking_number impl)\<rparr>"

text \<open>The local variables of \<^verbatim>\<open>append\<close>; a value and its \<^verbatim>\<open>has_\<close> flag are an option.\<close>

record Specific =
  symbol_value :: string
  reference :: "u64 option"
  side_value :: string
  shares_value :: "u64 option"
  price_value :: "rat option"
  match_value :: "u64 option"
  printable_value :: string
  extra_value :: string

definition blank_specific :: Specific where
  "blank_specific = \<lparr>symbol_value = [], reference = None, side_value = [], shares_value = None, price_value = None,
     match_value = None, printable_value = [], extra_value = []\<rparr>"

fun specific_of :: "Message \<Rightarrow> Specific" where
  "specific_of (AddOrder add) = blank_specific\<lparr>
     symbol_value := to_string (AddOrderMessage.stock add) STOCK_LEN,
     reference := Some (AddOrderMessage.order_reference_number add),
     side_value := [AddOrderMessage.buy_sell_indicator add],
     shares_value := Some (ucast (AddOrderMessage.shares add)),
     price_value := Some (to_double (StandardPrice (AddOrderMessage.price add)))\<rparr>"
| "specific_of (AddOrderMPIDAttribution add_mpid) = blank_specific\<lparr>
     symbol_value := to_string (AddOrderMPIDAttributionMessage.stock add_mpid) STOCK_LEN,
     reference := Some (AddOrderMPIDAttributionMessage.order_reference_number add_mpid),
     side_value := [AddOrderMPIDAttributionMessage.buy_sell_indicator add_mpid],
     shares_value := Some (ucast (AddOrderMPIDAttributionMessage.shares add_mpid)),
     price_value := Some (to_double (StandardPrice (AddOrderMPIDAttributionMessage.price add_mpid))),
     extra_value := ''mpid='' @ to_string (attribution add_mpid) 4\<rparr>"
| "specific_of (OrderExecuted exec) = blank_specific\<lparr>
     reference := Some (OrderExecutedMessage.order_reference_number exec),
     shares_value := Some (ucast (OrderExecutedMessage.executed_shares exec)),
     match_value := Some (OrderExecutedMessage.match_number exec)\<rparr>"
| "specific_of (OrderExecutedWithPrice exec_px) = blank_specific\<lparr>
     reference := Some (OrderExecutedWithPriceMessage.order_reference_number exec_px),
     shares_value := Some (ucast (OrderExecutedWithPriceMessage.executed_shares exec_px)),
     price_value := Some (to_double (StandardPrice (OrderExecutedWithPriceMessage.execution_price exec_px))),
     match_value := Some (OrderExecutedWithPriceMessage.match_number exec_px),
     printable_value := [printable exec_px]\<rparr>"
| "specific_of (OrderCancel cancel) = blank_specific\<lparr>
     reference := Some (OrderCancelMessage.order_reference_number cancel),
     shares_value := Some (ucast (OrderCancelMessage.cancelled_shares cancel))\<rparr>"
| "specific_of (OrderDelete del) = blank_specific\<lparr>
     reference := Some (OrderDeleteMessage.order_reference_number del)\<rparr>"
| "specific_of (OrderReplace rep) = blank_specific\<lparr>
     reference := Some (OrderReplaceMessage.new_order_reference_number rep),
     shares_value := Some (ucast (OrderReplaceMessage.shares rep)),
     price_value := Some (to_double (StandardPrice (OrderReplaceMessage.price rep))),
     extra_value := ''orig='' @ number_text (original_order_reference_number rep)\<rparr>"
| "specific_of (NonCrossTrade trade) = blank_specific\<lparr>
     symbol_value := to_string (NonCrossTradeMessage.stock trade) STOCK_LEN,
     reference := Some (NonCrossTradeMessage.order_reference_number trade),
     side_value := [NonCrossTradeMessage.buy_sell_indicator trade],
     shares_value := Some (ucast (NonCrossTradeMessage.shares trade)),
     price_value := Some (to_double (StandardPrice (NonCrossTradeMessage.price trade))),
     match_value := Some (NonCrossTradeMessage.match_number trade)\<rparr>"
| "specific_of (CrossTrade cross) = blank_specific\<lparr>
     symbol_value := to_string (CrossTradeMessage.stock cross) STOCK_LEN,
     shares_value := Some (CrossTradeMessage.shares cross),
     price_value := Some (to_double (StandardPrice (CrossTradeMessage.cross_price cross))),
     match_value := Some (CrossTradeMessage.match_number cross),
     extra_value := ''cross='' @ [CrossTradeMessage.cross_type cross]\<rparr>"
| "specific_of (SystemEvent event) = blank_specific\<lparr>
     extra_value := ''event='' @ [event_code event]\<rparr>"
| "specific_of (StockDirectory directory) = blank_specific\<lparr>
     symbol_value := to_string (StockDirectoryMessage.stock directory) STOCK_LEN\<rparr>"
| "specific_of _ = blank_specific"

definition append ::
  "('sb, 'qb, 'hb, 'db) arrow_api \<Rightarrow> Message \<Rightarrow> ('sb, 'qb, 'hb, 'db) Impl \<Rightarrow> ('sb, 'qb, 'hb, 'db) Impl" where
  "append api message impl =
     (let impl = append_common api (header_of message) impl; sp = specific_of message in impl\<lparr>
        col_symbol := string_append api (symbol_value sp) (col_symbol impl),
        col_reference_number := (case reference sp of Some v \<Rightarrow> u64_append api v (col_reference_number impl)
          | None \<Rightarrow> u64_append_null api (col_reference_number impl)),
        col_side := string_append api (side_value sp) (col_side impl),
        col_shares := (case shares_value sp of Some v \<Rightarrow> u64_append api v (col_shares impl)
          | None \<Rightarrow> u64_append_null api (col_shares impl)),
        col_price := (case price_value sp of Some v \<Rightarrow> double_append api v (col_price impl)
          | None \<Rightarrow> double_append_null api (col_price impl)),
        col_match_number := (case match_value sp of Some v \<Rightarrow> u64_append api v (col_match_number impl)
          | None \<Rightarrow> u64_append_null api (col_match_number impl)),
        col_printable := string_append api (printable_value sp) (col_printable impl),
        col_extra := string_append api (extra_value sp) (col_extra impl),
        row_count := row_count impl + 1\<rparr>)"

section \<open>Writing the file\<close>

text \<open>
  \<^verbatim>\<open>Finish\<close> turns a builder into an array and leaves the builder in another state; an error is its
  message. The writer gets the twelve arrays, the path and the row group size.
\<close>

record ('sb, 'qb, 'hb, 'db, 'arr) parquet_api =
  finish_string :: "'sb \<Rightarrow> (string + 'arr) \<times> 'sb"
  finish_u64 :: "'qb \<Rightarrow> (string + 'arr) \<times> 'qb"
  finish_u16 :: "'hb \<Rightarrow> (string + 'arr) \<times> 'hb"
  finish_double :: "'db \<Rightarrow> (string + 'arr) \<times> 'db"
  open_error :: "string \<Rightarrow> string option"
  write_error :: "string \<Rightarrow> (string \<times> 'arr) list \<Rightarrow> nat \<Rightarrow> string option"

text \<open>One turn of the loop over the builders: the builder with its setter, the arrays so far.\<close>

definition finish_step ::
  "('b \<Rightarrow> (string + 'arr) \<times> 'b) \<Rightarrow> ('i \<Rightarrow> 'b) \<Rightarrow> ('b \<Rightarrow> 'i \<Rightarrow> 'i) \<Rightarrow> (string + 'arr list) \<times> 'i \<Rightarrow> (string + 'arr list) \<times> 'i" where
  "finish_step finish get put = (\<lambda>(columns, impl). case columns of Inl e \<Rightarrow> (Inl e, impl)
     | Inr arrays \<Rightarrow> (case finish (get impl) of
         (Inl e, b) \<Rightarrow> (Inl e, put b impl)
       | (Inr a, b) \<Rightarrow> (Inr (arrays @ [a]), put b impl)))"

definition finish_all ::
  "('sb, 'qb, 'hb, 'db, 'arr) parquet_api \<Rightarrow> ('sb, 'qb, 'hb, 'db) Impl \<Rightarrow> (string + 'arr list) \<times> ('sb, 'qb, 'hb, 'db) Impl" where
  "finish_all pq impl = fold (\<lambda>step acc. step acc)
     [finish_step (finish_string pq) col_message_type (\<lambda>b. col_message_type_update (\<lambda>_. b)),
      finish_step (finish_u64 pq) col_timestamp (\<lambda>b. col_timestamp_update (\<lambda>_. b)),
      finish_step (finish_u16 pq) col_stock_locate (\<lambda>b. col_stock_locate_update (\<lambda>_. b)),
      finish_step (finish_u16 pq) col_tracking_number (\<lambda>b. col_tracking_number_update (\<lambda>_. b)),
      finish_step (finish_string pq) col_symbol (\<lambda>b. col_symbol_update (\<lambda>_. b)),
      finish_step (finish_u64 pq) col_reference_number (\<lambda>b. col_reference_number_update (\<lambda>_. b)),
      finish_step (finish_string pq) col_side (\<lambda>b. col_side_update (\<lambda>_. b)),
      finish_step (finish_u64 pq) col_shares (\<lambda>b. col_shares_update (\<lambda>_. b)),
      finish_step (finish_double pq) col_price (\<lambda>b. col_price_update (\<lambda>_. b)),
      finish_step (finish_u64 pq) col_match_number (\<lambda>b. col_match_number_update (\<lambda>_. b)),
      finish_step (finish_string pq) col_printable (\<lambda>b. col_printable_update (\<lambda>_. b)),
      finish_step (finish_string pq) col_extra (\<lambda>b. col_extra_update (\<lambda>_. b))] (Inr [], impl)"

definition arrow_schema :: "string list" where
  "arrow_schema = [''message_type'', ''timestamp'', ''stock_locate'', ''tracking_number'', ''symbol'', ''reference_number'',
     ''side'', ''shares'', ''price'', ''match_number'', ''printable'', ''extra'']"

definition write_parquet ::
  "('sb, 'qb, 'hb, 'db, 'arr) parquet_api \<Rightarrow> string \<Rightarrow> ('sb, 'qb, 'hb, 'db) Impl \<Rightarrow> bool \<times> ('sb, 'qb, 'hb, 'db) Impl" where
  "write_parquet pq path impl =
     (case finish_all pq impl of
        (Inl e, impl) \<Rightarrow> (False, impl\<lparr>last_error := e\<rparr>)
      | (Inr columns, impl) \<Rightarrow>
          (case open_error pq path of
             Some e \<Rightarrow> (False, impl\<lparr>last_error := e\<rparr>)
           | None \<Rightarrow>
               (case write_error pq path (zip arrow_schema columns) (if row_count impl > 0 then unat (row_count impl) else 1) of
                  Some e \<Rightarrow> (False, impl\<lparr>last_error := e\<rparr>)
                | None \<Rightarrow> (True, impl))))"

section \<open>Properties\<close>

definition append_all ::
  "('sb, 'qb, 'hb, 'db) arrow_api \<Rightarrow> Message list \<Rightarrow> ('sb, 'qb, 'hb, 'db) Impl \<Rightarrow> ('sb, 'qb, 'hb, 'db) Impl" where
  "append_all api ms impl = fold (append api) ms impl"

text \<open>The twelve columns, one list per builder type.\<close>

definition string_columns :: "('sb, 'qb, 'hb, 'db) arrow_values \<Rightarrow> ('sb, 'qb, 'hb, 'db) Impl \<Rightarrow> string list list" where
  "string_columns vals impl = map (string_values vals)
     [col_message_type impl, col_symbol impl, col_side impl, col_printable impl, col_extra impl]"

definition u64_columns :: "('sb, 'qb, 'hb, 'db) arrow_values \<Rightarrow> ('sb, 'qb, 'hb, 'db) Impl \<Rightarrow> u64 option list list" where
  "u64_columns vals impl = map (u64_values vals)
     [col_timestamp impl, col_reference_number impl, col_shares impl, col_match_number impl]"

definition u16_columns :: "('sb, 'qb, 'hb, 'db) arrow_values \<Rightarrow> ('sb, 'qb, 'hb, 'db) Impl \<Rightarrow> u16 list list" where
  "u16_columns vals impl = map (u16_values vals) [col_stock_locate impl, col_tracking_number impl]"

lemma append_columns:
  assumes "builder_laws api vals"
  shows "string_columns vals (append api m impl) = map2 (\<lambda>c v. c @ [v]) (string_columns vals impl)
      [[message_type (header_of m)], symbol_value (specific_of m), side_value (specific_of m),
       printable_value (specific_of m), extra_value (specific_of m)]"
    and "u64_columns vals (append api m impl) = map2 (\<lambda>c v. c @ [v]) (u64_columns vals impl)
      [Some (timestamp (header_of m)), reference (specific_of m), shares_value (specific_of m), match_value (specific_of m)]"
    and "u16_columns vals (append api m impl) = map2 (\<lambda>c v. c @ [v]) (u16_columns vals impl)
      [stock_locate (header_of m), tracking_number (header_of m)]"
    and "double_values vals (col_price (append api m impl)) = double_values vals (col_price impl) @ [price_value (specific_of m)]"
    and "row_count (append api m impl) = row_count impl + 1"
proof -
  note laws = assms [unfolded builder_laws_def]
  show "string_columns vals (append api m impl) = map2 (\<lambda>c v. c @ [v]) (string_columns vals impl)
      [[message_type (header_of m)], symbol_value (specific_of m), side_value (specific_of m),
       printable_value (specific_of m), extra_value (specific_of m)]"
    using laws by (simp add: string_columns_def append_def append_common_def Let_def)
  show "u64_columns vals (append api m impl) = map2 (\<lambda>c v. c @ [v]) (u64_columns vals impl)
      [Some (timestamp (header_of m)), reference (specific_of m), shares_value (specific_of m), match_value (specific_of m)]"
    using laws by (simp add: u64_columns_def append_def append_common_def Let_def split: option.split)
  show "u16_columns vals (append api m impl) = map2 (\<lambda>c v. c @ [v]) (u16_columns vals impl)
      [stock_locate (header_of m), tracking_number (header_of m)]"
    using laws by (simp add: u16_columns_def append_def append_common_def Let_def)
  show "double_values vals (col_price (append api m impl)) = double_values vals (col_price impl) @ [price_value (specific_of m)]"
    using laws by (simp add: append_def append_common_def Let_def split: option.split)
  show "row_count (append api m impl) = row_count impl + 1"
    by (simp add: append_def append_common_def Let_def)
qed

text \<open>
  The columns stay in lockstep: after appending messages every column has grown by exactly one
  entry per message, the value of that message or a null, in the order of the messages, and the row
  counter by their number.
\<close>

theorem arrow_lockstep:
  assumes "builder_laws api vals"
  shows "string_columns vals (append_all api ms impl) = map2 (\<lambda>c f. c @ map f ms) (string_columns vals impl)
      [\<lambda>m. [message_type (header_of m)], \<lambda>m. symbol_value (specific_of m), \<lambda>m. side_value (specific_of m),
       \<lambda>m. printable_value (specific_of m), \<lambda>m. extra_value (specific_of m)] \<and>
    u64_columns vals (append_all api ms impl) = map2 (\<lambda>c f. c @ map f ms) (u64_columns vals impl)
      [\<lambda>m. Some (timestamp (header_of m)), \<lambda>m. reference (specific_of m), \<lambda>m. shares_value (specific_of m),
       \<lambda>m. match_value (specific_of m)] \<and>
    u16_columns vals (append_all api ms impl) = map2 (\<lambda>c f. c @ map f ms) (u16_columns vals impl)
      [\<lambda>m. stock_locate (header_of m), \<lambda>m. tracking_number (header_of m)] \<and>
    double_values vals (col_price (append_all api ms impl)) =
      double_values vals (col_price impl) @ map (\<lambda>m. price_value (specific_of m)) ms \<and>
    row_count (append_all api ms impl) = row_count impl + of_nat (length ms)"
proof (induction ms arbitrary: impl)
  case Nil
  show ?case
    by (simp add: append_all_def string_columns_def u64_columns_def u16_columns_def)
next
  case (Cons m ms)
  have step: "append_all api (m # ms) impl = append_all api ms (append api m impl)"
    by (simp add: append_all_def)
  show ?case
    unfolding step using Cons.IH [of "append api m impl"] append_columns [OF assms, of m impl]
    by (simp add: string_columns_def u64_columns_def u16_columns_def)
qed

definition list_api :: "(string list, u64 option list, u16 list, rat option list) arrow_api" where
  "list_api = \<lparr>string_append = \<lambda>v b. b @ [v], u64_append = \<lambda>v b. b @ [Some v], u64_append_null = \<lambda>b. b @ [None],
     u16_append = \<lambda>v b. b @ [v], double_append = \<lambda>v b. b @ [Some v], double_append_null = \<lambda>b. b @ [None]\<rparr>"

definition list_values :: "(string list, u64 option list, u16 list, rat option list) arrow_values" where
  "list_values = \<lparr>string_values = \<lambda>b. b, u64_values = \<lambda>b. b, u16_values = \<lambda>b. b, double_values = \<lambda>b. b\<rparr>"

definition empty_impl :: "(string list, u64 option list, u16 list, rat option list) Impl" where
  "empty_impl = \<lparr>col_message_type = [], col_timestamp = [], col_stock_locate = [], col_tracking_number = [], col_symbol = [],
     col_reference_number = [], col_side = [], col_shares = [], col_price = [], col_match_number = [], col_printable = [],
     col_extra = [], row_count = 0, last_error = []\<rparr>"

lemma list_laws: "builder_laws list_api list_values"
  by (simp add: builder_laws_def list_api_def list_values_def)

theorem arrow_lockstep_witness:
  "builder_laws list_api list_values \<and>
   u64_columns list_values (append_all list_api [sample_event, sample_event] empty_impl) =
     [[Some 5, Some 5], [None, None], [None, None], [None, None]]"
proof -
  show ?thesis
    using arrow_lockstep [OF list_laws, of "[sample_event, sample_event]" empty_impl] list_laws
    by (simp add: u64_columns_def list_values_def empty_impl_def sample_event_def MessageHeader.defs blank_specific_def)
qed

definition optional_text :: "('v \<Rightarrow> string) \<Rightarrow> 'v option \<Rightarrow> string" where
  "optional_text f v = (case v of None \<Rightarrow> [] | Some x \<Rightarrow> f x)"

lemma number_text_ucast: "number_text (ucast (w :: u32) :: u64) = number_text w"
  using unsigned_less [of w, where ?'a = nat] by (simp add: number_text_def unsigned_ucast_eq take_bit_nat_eq_self)

lemma columns_of_appended:
  assumes "builder_laws api vals"
  shows "string_values vals (col_message_type (append_all api ms impl)) = string_values vals (col_message_type impl) @ map (\<lambda>m. [message_type (header_of m)]) ms"
    "u64_values vals (col_timestamp (append_all api ms impl)) = u64_values vals (col_timestamp impl) @ map (\<lambda>m. Some (timestamp (header_of m))) ms"
    "u16_values vals (col_stock_locate (append_all api ms impl)) = u16_values vals (col_stock_locate impl) @ map (\<lambda>m. stock_locate (header_of m)) ms"
    "u16_values vals (col_tracking_number (append_all api ms impl)) = u16_values vals (col_tracking_number impl) @ map (\<lambda>m. tracking_number (header_of m)) ms"
    "string_values vals (col_symbol (append_all api ms impl)) = string_values vals (col_symbol impl) @ map (\<lambda>m. symbol_value (specific_of m)) ms"
    "u64_values vals (col_reference_number (append_all api ms impl)) = u64_values vals (col_reference_number impl) @ map (\<lambda>m. reference (specific_of m)) ms"
    "string_values vals (col_side (append_all api ms impl)) = string_values vals (col_side impl) @ map (\<lambda>m. side_value (specific_of m)) ms"
    "u64_values vals (col_shares (append_all api ms impl)) = u64_values vals (col_shares impl) @ map (\<lambda>m. shares_value (specific_of m)) ms"
    "double_values vals (col_price (append_all api ms impl)) = double_values vals (col_price impl) @ map (\<lambda>m. price_value (specific_of m)) ms"
    "u64_values vals (col_match_number (append_all api ms impl)) = u64_values vals (col_match_number impl) @ map (\<lambda>m. match_value (specific_of m)) ms"
    "string_values vals (col_printable (append_all api ms impl)) = string_values vals (col_printable impl) @ map (\<lambda>m. printable_value (specific_of m)) ms"
    "string_values vals (col_extra (append_all api ms impl)) = string_values vals (col_extra impl) @ map (\<lambda>m. extra_value (specific_of m)) ms"
    "row_count (append_all api ms impl) = row_count impl + of_nat (length ms)"
  using arrow_lockstep [OF assms, of ms impl] by (simp_all add: string_columns_def u64_columns_def u16_columns_def)

lemma export_fields:
  "row_message_type (build_row m) = message_type (header_of m)" "row_timestamp (build_row m) = timestamp (header_of m)"
  "row_stock_locate (build_row m) = stock_locate (header_of m)" "row_tracking_number (build_row m) = tracking_number (header_of m)"
  "symbol_value (specific_of m) = row_symbol (build_row m)"
  "optional_text number_text (reference (specific_of m)) = row_reference_number (build_row m)"
  "filter (\<lambda>c. c \<noteq> NUL) (side_value (specific_of m)) = char_field (row_side (build_row m))"
  "optional_text number_text (shares_value (specific_of m)) = row_shares (build_row m)"
  "optional_text (format_fixed 4) (price_value (specific_of m)) = row_price (build_row m)"
  "optional_text number_text (match_value (specific_of m)) = row_match_number (build_row m)"
  "filter (\<lambda>c. c \<noteq> NUL) (printable_value (specific_of m)) = char_field (row_printable (build_row m))"
  "extra_value (specific_of m) = (case m of StockDirectory d \<Rightarrow> [] | _ \<Rightarrow> row_extra (build_row m))"
  by (cases m; simp add: build_row_def fill_common_def blank_row_def blank_specific_def optional_text_def
      char_field_def price_to_string_def number_text_ucast)+

text \<open>The entries a column has gained, as they are viewed.\<close>

definition gains :: "('v \<Rightarrow> 'w) \<Rightarrow> 'v list \<Rightarrow> 'v list \<Rightarrow> 'w list \<Rightarrow> bool" where
  "gains view old new ws \<longleftrightarrow> map view new = map view old @ ws"

text \<open>
  C39. The two exports agree: appending messages to an exporter adds to each of its twelve columns one
  entry per message, in order, and these entries, as texts, are the twelve columns of the CSV rows of
  the messages: type, timestamp, locate and tracking number as they stand in the header of the message;
  nulls are empty fields; a price has four decimals; a flag of value NUL is an empty field in CSV; and
  the category of a directory message is written by CSV only. The row counter grows by the number of
  messages. Of the builders only \<open>builder_laws\<close> is used.
\<close>

theorem arrow_csv_agree:
  assumes "builder_laws api vals"
  shows "gains id (string_values vals (col_message_type impl)) (string_values vals (col_message_type (append_all api ms impl)))
      (map (\<lambda>m. [row_message_type (build_row m)]) ms) \<and>
    gains id (u64_values vals (col_timestamp impl)) (u64_values vals (col_timestamp (append_all api ms impl)))
      (map (\<lambda>m. Some (row_timestamp (build_row m))) ms) \<and>
    gains id (u16_values vals (col_stock_locate impl)) (u16_values vals (col_stock_locate (append_all api ms impl)))
      (map (\<lambda>m. row_stock_locate (build_row m)) ms) \<and>
    gains id (u16_values vals (col_tracking_number impl)) (u16_values vals (col_tracking_number (append_all api ms impl)))
      (map (\<lambda>m. row_tracking_number (build_row m)) ms) \<and>
    gains id (string_values vals (col_symbol impl)) (string_values vals (col_symbol (append_all api ms impl)))
      (map (\<lambda>m. row_symbol (build_row m)) ms) \<and>
    gains (optional_text number_text) (u64_values vals (col_reference_number impl)) (u64_values vals (col_reference_number (append_all api ms impl)))
      (map (\<lambda>m. row_reference_number (build_row m)) ms) \<and>
    gains (filter (\<lambda>c. c \<noteq> NUL)) (string_values vals (col_side impl)) (string_values vals (col_side (append_all api ms impl)))
      (map (\<lambda>m. char_field (row_side (build_row m))) ms) \<and>
    gains (optional_text number_text) (u64_values vals (col_shares impl)) (u64_values vals (col_shares (append_all api ms impl)))
      (map (\<lambda>m. row_shares (build_row m)) ms) \<and>
    gains (optional_text (format_fixed 4)) (double_values vals (col_price impl)) (double_values vals (col_price (append_all api ms impl)))
      (map (\<lambda>m. row_price (build_row m)) ms) \<and>
    gains (optional_text number_text) (u64_values vals (col_match_number impl)) (u64_values vals (col_match_number (append_all api ms impl)))
      (map (\<lambda>m. row_match_number (build_row m)) ms) \<and>
    gains (filter (\<lambda>c. c \<noteq> NUL)) (string_values vals (col_printable impl)) (string_values vals (col_printable (append_all api ms impl)))
      (map (\<lambda>m. char_field (row_printable (build_row m))) ms) \<and>
    gains id (string_values vals (col_extra impl)) (string_values vals (col_extra (append_all api ms impl)))
      (map (\<lambda>m. case m of StockDirectory d \<Rightarrow> [] | _ \<Rightarrow> row_extra (build_row m)) ms) \<and>
    map (\<lambda>m. (row_message_type (build_row m), row_timestamp (build_row m), row_stock_locate (build_row m), row_tracking_number (build_row m))) ms =
      map (\<lambda>m. (message_type (header_of m), timestamp (header_of m), stock_locate (header_of m), tracking_number (header_of m))) ms \<and>
    row_count (append_all api ms impl) = row_count impl + of_nat (length ms)"
  using columns_of_appended [OF assms(1), of ms impl] unfolding gains_def
  by (simp add: comp_def export_fields)

definition sample_execution :: OrderExecutedMessage where
  "sample_execution = \<lparr>message_type = CHR ''E'', stock_locate = 7, tracking_number = 2, timestamp = 9,
     OrderExecutedMessage.order_reference_number = 3, OrderExecutedMessage.executed_shares = 4, OrderExecutedMessage.match_number = 6\<rparr>"

theorem arrow_csv_agree_witness:
  "builder_laws list_api list_values \<and>
   col_stock_locate (append_all list_api [OrderExecuted sample_execution] empty_impl) = [7] \<and>
   col_tracking_number (append_all list_api [OrderExecuted sample_execution] empty_impl) = [2] \<and>
   map (optional_text number_text) (col_match_number (append_all list_api [OrderExecuted sample_execution] empty_impl)) = [number_text (6 :: u64)]"
proof -
  have "row_stock_locate (build_row (OrderExecuted sample_execution)) = 7"
    "row_tracking_number (build_row (OrderExecuted sample_execution)) = 2"
    "row_match_number (build_row (OrderExecuted sample_execution)) = number_text (6 :: u64)"
    by (simp_all add: build_row_def fill_common_def sample_execution_def MessageHeader.defs)
  then show ?thesis
    using arrow_csv_agree [OF list_laws, of empty_impl "[OrderExecuted sample_execution]"] list_laws
    by (simp add: gains_def list_values_def empty_impl_def)
qed

text \<open>
  Writing the file: when the twelve builders finish, the arrays reach the writer under their
  column names in the order of the schema, and the result is false exactly when the file cannot be
  opened or written; a success leaves the description of the last failure in place.
\<close>

theorem parquet_write:
  assumes "\<forall>b. finish_string pq b = (Inr (fs b), rs b)" "\<forall>b. finish_u64 pq b = (Inr (fq b), rq b)"
    and "\<forall>b. finish_u16 pq b = (Inr (fh b), rh b)" "\<forall>b. finish_double pq b = (Inr (fd b), rd b)"
  shows "(fst (write_parquet pq path impl) \<longleftrightarrow> open_error pq path = None \<and>
      write_error pq path
        [(''message_type'', fs (col_message_type impl)), (''timestamp'', fq (col_timestamp impl)),
         (''stock_locate'', fh (col_stock_locate impl)), (''tracking_number'', fh (col_tracking_number impl)),
         (''symbol'', fs (col_symbol impl)), (''reference_number'', fq (col_reference_number impl)), (''side'', fs (col_side impl)),
         (''shares'', fq (col_shares impl)), (''price'', fd (col_price impl)), (''match_number'', fq (col_match_number impl)),
         (''printable'', fs (col_printable impl)), (''extra'', fs (col_extra impl))] (max 1 (unat (row_count impl))) = None) \<and>
    (fst (write_parquet pq path impl) \<longrightarrow> last_error (snd (write_parquet pq path impl)) = last_error impl)"
proof -
  define rest where "rest = snd (finish_all pq impl)"
  define arrays where "arrays = [fs (col_message_type impl), fq (col_timestamp impl), fh (col_stock_locate impl),
    fh (col_tracking_number impl), fs (col_symbol impl), fq (col_reference_number impl), fs (col_side impl), fq (col_shares impl),
    fd (col_price impl), fq (col_match_number impl), fs (col_printable impl), fs (col_extra impl)]"
  have finish: "finish_all pq impl = (Inr arrays, rest)" "row_count rest = row_count impl" "last_error rest = last_error impl"
    unfolding rest_def by (simp_all add: finish_all_def finish_step_def assms arrays_def)
  have size: "(if row_count impl > 0 then unat (row_count impl) else 1) = max 1 (unat (row_count impl))"
    using unat_gt_0 [of "row_count impl"] by (auto simp: word_neq_0_conv)
  show ?thesis
    unfolding write_parquet_def finish(1) prod.case sum.case finish(2) size
    by (simp add: finish(3) arrow_schema_def arrays_def split: option.split)
qed

definition stub_parquet :: "string option \<Rightarrow> (string list, u64 option list, u16 list, rat option list, nat) parquet_api" where
  "stub_parquet e = \<lparr>finish_string = \<lambda>b. (Inr (length b), []), finish_u64 = \<lambda>b. (Inr (length b), []),
     finish_u16 = \<lambda>b. (Inr (length b), []), finish_double = \<lambda>b. (Inr (length b), []), open_error = \<lambda>_. e,
     write_error = \<lambda>_ _ _. None\<rparr>"

theorem parquet_write_witness:
  "fst (write_parquet (stub_parquet None) ''out'' empty_impl) \<and> \<not> fst (write_parquet (stub_parquet (Some ''no'')) ''out'' empty_impl)"
  using parquet_write [of "stub_parquet None" length "\<lambda>_. []" length "\<lambda>_. []" length "\<lambda>_. []" length "\<lambda>_. []" "''out''" empty_impl]
    parquet_write [of "stub_parquet (Some ''no'')" length "\<lambda>_. []" length "\<lambda>_. []" length "\<lambda>_. []" length "\<lambda>_. []" "''out''" empty_impl]
  by (simp add: stub_parquet_def)

end
