(* ===== verification/Book_Printer.thy ===== *)
theory Book_Printer
  imports Limit_Order_Book Price_Format
begin

text \<open>
  \<^verbatim>\<open>LimitOrderBook::print\<close> of \<^verbatim>\<open>src/order_book.cpp\<close>: the table of both sides of the single-symbol book,
  highest price first. The effects on the stream and the delays between the lines are a list of
  events. The levels of a side are visited in the order of their prices, as \<^verbatim>\<open>std::map\<close> keeps them.
\<close>

datatype PrintEvent = Out string | Sleep_ms u32 | Flush

definition BORDER :: string where
  "BORDER = replicate 42 (CHR ''='') @ [CHR 0x0A]"

definition MID_RULE :: string where
  "MID_RULE = ''-----------+--------------+--------------'' @ [CHR 0x0A]"

definition level_line :: "u32 \<Rightarrow> u32 \<Rightarrow> string \<Rightarrow> string" where
  "level_line sh raw_price label =
     pad_left 10 (number_text sh) @ '' | '' @ pad_left 12 (format_fixed 4 (to_double (make_price raw_price))) @
     '' | '' @ label @ [CHR 0x0A]"

definition print_level :: "u32 \<Rightarrow> u32 \<Rightarrow> u32 \<Rightarrow> string \<Rightarrow> PrintEvent list" where
  "print_level delay_ms sh raw_price label =
     (if delay_ms > 0 then [Sleep_ms delay_ms] else []) @ [Out (level_line sh raw_price label)] @
     (if delay_ms > 0 then [Flush] else [])"

text \<open>The entries of \<^verbatim>\<open>m_asks\<close> in ascending and of \<^verbatim>\<open>m_bids\<close> in descending order of price.\<close>

definition map_entries :: "LimitOrderBook \<Rightarrow> Side \<Rightarrow> (u32 \<times> PriceLevel) list" where
  "map_entries b sd = (let prices = sorted_list_of_set {p. level_at b sd p \<noteq> None}
     in map (\<lambda>p. (p, the (level_at b sd p))) (case sd of Buy \<Rightarrow> rev prices | Sell \<Rightarrow> prices))"

definition lob_print :: "u32 \<Rightarrow> LimitOrderBook \<Rightarrow> PrintEvent list" where
  "lob_print delay_ms b =
     [Out BORDER, Out (''   SHARES  |    PRICE     | SIDE '' @ [CHR 0x0A]), Out BORDER] @
     concat (map (\<lambda>(raw_price, level). print_level delay_ms (pl_total_shares level) raw_price ''Ask'') (rev (map_entries b Sell))) @
     [Out MID_RULE] @
     concat (map (\<lambda>(raw_price, level). print_level delay_ms (pl_total_shares level) raw_price ''Bid'') (map_entries b Buy)) @
     [Out BORDER]"

fun event_text :: "PrintEvent \<Rightarrow> string" where
  "event_text (Out s) = s"
| "event_text _ = []"

definition printed_text :: "PrintEvent list \<Rightarrow> string" where
  "printed_text es = concat (map event_text es)"

lemma printed_text_append [simp]: "printed_text (es @ fs) = printed_text es @ printed_text fs"
  by (simp add: printed_text_def)

lemma printed_level: "printed_text (print_level d n p label) = level_line n p label"
  by (simp add: print_level_def printed_text_def)

lemma printed_levels:
  "printed_text (concat (map (\<lambda>(p, lv). print_level d (pl_total_shares lv) p label) es)) =
   concat (map (\<lambda>(p, lv). level_line (pl_total_shares lv) p label) es)"
  by (induction es) (auto simp: printed_level printed_text_def [of "[]"])

text \<open>A line of the table for a price of the abstract book.\<close>

definition spec_line :: "Order list \<Rightarrow> Side \<Rightarrow> u32 \<Rightarrow> string" where
  "spec_line os sd p = pad_left 10 (decimal (spec_total sd p os mod 2 ^ 32)) @ '' | '' @ pad_left 12 (fixed_text 4 (unat p)) @
     '' | '' @ (case sd of Buy \<Rightarrow> ''Bid'' | Sell \<Rightarrow> ''Ask'') @ [CHR 0x0A]"

lemma map_entries_refines:
  assumes "lob_refines b os"
  shows "map (\<lambda>(p, lv). level_line (pl_total_shares lv) p (case sd of Buy \<Rightarrow> ''Bid'' | Sell \<Rightarrow> ''Ask'')) (map_entries b sd) =
    map (spec_line os sd) (spec_prices sd os)"
proof -
  note levels = lob_levels [OF assms, of sd]
  have dom: "{p. level_at b sd p \<noteq> None} = o_price ` {ord \<in> set os. o_side ord = sd}"
  proof -
    have "level_at b sd p \<noteq> None \<longleftrightarrow> spec_queue sd p os \<noteq> []" for p
      using levels [of p] by (cases "level_at b sd p") (auto split: if_splits)
    then show ?thesis
      by (auto simp: spec_queue_def filter_empty_conv)
  qed
  have line: "level_line (pl_total_shares (the (level_at b sd p))) p (case sd of Buy \<Rightarrow> ''Bid'' | Sell \<Rightarrow> ''Ask'') = spec_line os sd p"
    if "p \<in> set (spec_prices sd os)" for p
  proof -
    have "p \<in> o_price ` {ord \<in> set os. o_side ord = sd}"
      using that spec_prices_set by blast
    then obtain lv where lv: "level_at b sd p = Some lv"
      using dom by blast
    have "pl_total_shares lv = of_nat (spec_total sd p os)"
      using levels [of p] lv by (auto split: if_splits)
    then have "unat (pl_total_shares lv) = spec_total sd p os mod 2 ^ 32"
      by (simp add: unat_of_nat take_bit_eq_mod)
    then show ?thesis
      using price_to_string_digits [of "make_price p"]
      by (simp add: lv level_line_def spec_line_def number_text_def price_to_string_def make_price_def)
  qed
  have "map_entries b sd = map (\<lambda>p. (p, the (level_at b sd p))) (spec_prices sd os)"
    unfolding map_entries_def Let_def dom spec_prices_def ..
  then show ?thesis
    using line by simp
qed

text \<open>
  C34. The printed book: after any regular history the text has one line per price with resting
  orders, the asks above the rule and the bids below it, both from the highest price to the lowest,
  with the shares resting there (modulo \<open>2 ^ 32\<close>) and the exact price; the delay between the lines
  does not change the text.
\<close>

theorem book_print_correct:
  assumes "\<forall>m \<in> set ms. typed m" "regular_run [] (lob_ops symbol ms)"
  shows "\<exists>b. lob_history symbol ms = Some b \<and>
    (let os = resting (lob_ops symbol ms)
     in printed_text (lob_print delay b) =
       BORDER @ ''   SHARES  |    PRICE     | SIDE '' @ [CHR 0x0A] @ BORDER @
       concat (map (spec_line os Sell) (rev (spec_prices Sell os))) @ MID_RULE @
       concat (map (spec_line os Buy) (spec_prices Buy os)) @ BORDER)"
proof -
  obtain b where b: "lob_history symbol ms = Some b" "lob_refines b (resting (lob_ops symbol ms))"
    using lob_history_refines [OF assms] by blast
  define os where "os = resting (lob_ops symbol ms)"
  have asks: "map (\<lambda>(p, lv). level_line (pl_total_shares lv) p ''Ask'') (rev (map_entries b Sell)) = map (spec_line os Sell) (rev (spec_prices Sell os))"
    using arg_cong [OF map_entries_refines [OF b(2) [folded os_def], of Sell], of rev] by (simp add: rev_map)
  have bids: "map (\<lambda>(p, lv). level_line (pl_total_shares lv) p ''Bid'') (map_entries b Buy) = map (spec_line os Buy) (spec_prices Buy os)"
    using map_entries_refines [OF b(2) [folded os_def], of Buy] by simp
  have "printed_text (lob_print delay b) =
       BORDER @ ''   SHARES  |    PRICE     | SIDE '' @ [CHR 0x0A] @ BORDER @
       concat (map (spec_line os Sell) (rev (spec_prices Sell os))) @ MID_RULE @
       concat (map (spec_line os Buy) (spec_prices Buy os)) @ BORDER"
    unfolding lob_print_def printed_text_append printed_levels asks bids by (simp add: printed_text_def)
  then show ?thesis
    using b(1) by (simp add: os_def)
qed

theorem book_print_correct_witness:
  "\<exists>b line. lob_history ''ABC'' sample_messages = Some b \<and>
    printed_text (lob_print 5 b) = BORDER @ ''   SHARES  |    PRICE     | SIDE '' @ [CHR 0x0A] @ BORDER @ MID_RULE @ line @ BORDER \<and>
    line = spec_line (resting [Add 1 Buy 100 50, Execute 1 30]) Buy 50"
proof -
  have "regular_run [] (lob_ops ''ABC'' sample_messages)"
    unfolding sample_lob_ops by code_simp
  moreover have "spec_prices Sell (resting [Add 1 Buy 100 50, Execute 1 30]) = []"
    "spec_prices Buy (resting [Add 1 Buy 100 50, Execute 1 30]) = [50]"
    by code_simp+
  ultimately show ?thesis
    using book_print_correct [OF sample_typed, of "''ABC''" 5] unfolding sample_lob_ops Let_def by simp
qed

end
