(* ===== verification/Replay.thy ===== *)
theory Replay
  imports Encoder Price_Format
begin

text \<open>
  The paced replay of \<^verbatim>\<open>include/itch/replay.hpp\<close> and \<^verbatim>\<open>src/replay.cpp\<close>. The steady clock is read once,
  at the first message; this reading is a parameter, a number of nanoseconds. The effects are a
  trace: the instants the thread sleeps until and the messages handed to the callback. The speed is
  a finite double. \<open>None\<close> is undefined behaviour: a conversion to a 64-bit integer or a time point
  out of range.
\<close>

section \<open>The engine\<close>

record ReplayEngine =
  m_speed_multiplier :: rat

definition ReplayEngine_new :: "rat \<Rightarrow> ReplayEngine" where
  "ReplayEngine_new speed_multiplier = \<lparr>m_speed_multiplier = speed_multiplier\<rparr>"

definition set_speed :: "rat \<Rightarrow> ReplayEngine \<Rightarrow> ReplayEngine" where
  "set_speed speed_multiplier e = e\<lparr>m_speed_multiplier := speed_multiplier\<rparr>"

datatype ReplayEvent = Sleep_until int | Deliver Message

text \<open>The local variables of \<^verbatim>\<open>replay\<close> that the callback of the parser captures.\<close>

record ReplayLocals =
  replayed :: u64
  have_base :: bool
  base_timestamp :: u64
  base_wall :: int
  trace :: "ReplayEvent list"

definition in_int64 :: "int \<Rightarrow> bool" where
  "in_int64 n \<longleftrightarrow> - (2 ^ 63) \<le> n \<and> n < 2 ^ 63"

text \<open>\<^verbatim>\<open>static_cast<std::int64_t>\<close> of a double drops the fraction.\<close>

definition truncate_double :: "rat \<Rightarrow> int option" where
  "truncate_double x = (let n = (if x < 0 then - \<lfloor>- x\<rfloor> else \<lfloor>x\<rfloor>) in if in_int64 n then Some n else None)"

definition sleep_target :: "rat \<Rightarrow> int \<Rightarrow> u64 \<Rightarrow> int option" where
  "sleep_target speed wall elapsed = do {
     ns \<leftarrow> truncate_double (rnd (double_of elapsed / speed));
     if in_int64 (wall + ns) then Some (wall + ns) else None }"

definition replay_pace :: "rat \<Rightarrow> int \<Rightarrow> Message \<Rightarrow> ReplayLocals \<Rightarrow> ReplayLocals option" where
  "replay_pace speed clock_now message l =
     (let feed_timestamp = timestamp_of message
      in if \<not> have_base l then Some (l\<lparr>base_timestamp := feed_timestamp, base_wall := clock_now, have_base := True\<rparr>)
         else if feed_timestamp > base_timestamp l then do {
           target \<leftarrow> sleep_target speed (base_wall l) (feed_timestamp - base_timestamp l);
           Some (l\<lparr>trace := trace l @ [Sleep_until target]\<rparr>) }
         else Some l)"

definition replay_message :: "rat \<Rightarrow> int \<Rightarrow> ReplayLocals option \<Rightarrow> Message \<Rightarrow> ReplayLocals option" where
  "replay_message speed clock_now locals message = do {
     l \<leftarrow> locals;
     l \<leftarrow> (if speed > 0 then replay_pace speed clock_now message l else Some l);
     Some (l\<lparr>trace := trace l @ [Deliver message], replayed := replayed l + 1\<rparr>) }"

definition replay_locals :: ReplayLocals where
  "replay_locals = \<lparr>replayed = 0, have_base = False, base_timestamp = 0, base_wall = 0, trace = []\<rparr>"

definition replay :: "ReplayEngine \<Rightarrow> int \<Rightarrow> byte list \<Rightarrow> ((exn + u64) \<times> ReplayEvent list) option" where
  "replay e clock_now data = do {
     (r, _, locals) \<leftarrow> parse (replay_message (m_speed_multiplier e) clock_now) data Parser_init (Some replay_locals);
     l \<leftarrow> locals;
     Some (case r of Inl ex \<Rightarrow> Inl ex | Inr _ \<Rightarrow> Inr (replayed l), trace l) }"

section \<open>The schedule\<close>

text \<open>The instant a message is due, if the code sleeps for it.\<close>

definition due :: "rat \<Rightarrow> int \<Rightarrow> u64 \<Rightarrow> Message \<Rightarrow> int option" where
  "due speed wall base m = (if 0 < speed \<and> timestamp_of m > base
     then Some (wall + \<lfloor>rnd (double_of (timestamp_of m - base) / speed)\<rfloor>) else None)"

definition schedule :: "rat \<Rightarrow> int \<Rightarrow> u64 \<Rightarrow> Message list \<Rightarrow> ReplayEvent list" where
  "schedule speed wall base ms = concat (map (\<lambda>m. (case due speed wall base m of None \<Rightarrow> [] | Some t \<Rightarrow> [Sleep_until t]) @ [Deliver m]) ms)"

definition in_range :: "rat \<Rightarrow> int \<Rightarrow> u64 \<Rightarrow> Message \<Rightarrow> bool" where
  "in_range speed wall base m \<longleftrightarrow> (case due speed wall base m of None \<Rightarrow> True
     | Some t \<Rightarrow> in_int64 (t - wall) \<and> in_int64 t)"

lemma sleep_target_due:
  assumes "0 < speed" "base < timestamp_of m" "in_range speed wall base m"
  shows "sleep_target speed wall (timestamp_of m - base) = due speed wall base m"
proof -
  have "0 \<le> rnd (double_of (timestamp_of m - base) / speed)"
    using assms(1) by (simp add: rnd_sign)
  then show ?thesis
    using assms by (simp add: sleep_target_def truncate_double_def in_range_def due_def Let_def)
qed

lemma replay_run:
  assumes "list_all (in_range speed wall base) ms" "0 < speed \<longrightarrow> have_base l \<and> base_timestamp l = base \<and> base_wall l = wall"
  shows "fold (\<lambda>m s. replay_message speed wall s m) ms (Some l) =
    Some (l\<lparr>trace := trace l @ schedule speed wall base ms, replayed := replayed l + of_nat (length ms)\<rparr>)"
  using assms
proof (induction ms arbitrary: l)
  case Nil
  then show ?case
    by (simp add: schedule_def)
next
  case (Cons m ms)
  let ?l = "l\<lparr>trace := trace l @ schedule speed wall base [m], replayed := replayed l + 1\<rparr>"
  have "replay_message speed wall (Some l) m = Some ?l"
    using Cons.prems sleep_target_due [of speed base m wall]
    by (auto simp: replay_message_def replay_pace_def schedule_def Let_def due_def not_less split: option.splits)
  moreover have "0 < speed \<longrightarrow> have_base ?l \<and> base_timestamp ?l = base \<and> base_wall ?l = wall"
    using Cons.prems(2) by simp
  ultimately show ?case
    using Cons.IH [of ?l] Cons.prems(1) by (simp add: schedule_def)
qed

definition first_timestamp :: "Message list \<Rightarrow> u64" where
  "first_timestamp ms = (case ms of [] \<Rightarrow> 0 | m # _ \<Rightarrow> timestamp_of m)"

lemma replay_schedule:
  fixes e :: ReplayEngine and data :: "byte list"
  defines "ms \<equiv> frame_messages (fst (split_frames data))"
  assumes "list_all (in_range (m_speed_multiplier e) wall (first_timestamp ms)) ms"
  shows "replay e wall data = Some (if snd (split_frames data) then Inr (of_nat (length ms)) else Inl Incomplete_message,
    schedule (m_speed_multiplier e) wall (first_timestamp ms) ms)"
proof -
  let ?sp = "m_speed_multiplier e"
  have run: "\<exists>l. fold (\<lambda>m s. replay_message ?sp wall s m) ms (Some replay_locals) = Some l \<and>
    replayed l = of_nat (length ms) \<and> trace l = schedule ?sp wall (first_timestamp ms) ms"
  proof (cases ms)
    case Nil
    then show ?thesis
      by (simp add: replay_locals_def schedule_def)
  next
    case (Cons m ms')
    define l where "l = replay_locals\<lparr>trace := [Deliver m], replayed := 1,
      base_timestamp := (if 0 < ?sp then timestamp_of m else 0), base_wall := (if 0 < ?sp then wall else 0), have_base := 0 < ?sp\<rparr>"
    have first: "replay_message ?sp wall (Some replay_locals) m = Some l"
      by (simp add: replay_message_def replay_pace_def replay_locals_def l_def)
    have "fold (\<lambda>m s. replay_message ?sp wall s m) ms' (Some l) =
        Some (l\<lparr>trace := trace l @ schedule ?sp wall (timestamp_of m) ms', replayed := replayed l + of_nat (length ms')\<rparr>)"
      using assms(2) by (intro replay_run) (simp_all add: Cons first_timestamp_def l_def)
    then show ?thesis
      by (simp add: Cons first first_timestamp_def l_def schedule_def due_def)
  qed
  have "m_error_callback (Parser_init :: ReplayLocals option Parser) = None"
    by (simp add: Parser_init_def)
  then show ?thesis
    using run by (auto simp: replay_def parse_def parse_collect Let_def simp flip: ms_def)
qed

section \<open>The clock\<close>

text \<open>
  When the messages reach the callback: a sleep ends at its instant or later, by \<open>late\<close>, and
  handling a message takes \<open>busy\<close>.
\<close>

fun deliveries :: "(int \<Rightarrow> nat) \<Rightarrow> (Message \<Rightarrow> nat) \<Rightarrow> int \<Rightarrow> ReplayEvent list \<Rightarrow> (Message \<times> int) list" where
  "deliveries late busy t [] = []"
| "deliveries late busy t (Sleep_until target # es) = deliveries late busy (max t target + int (late target)) es"
| "deliveries late busy t (Deliver m # es) = (m, t) # deliveries late busy (t + int (busy m)) es"

lemma deliveries_schedule:
  "map fst (deliveries late busy t (schedule speed wall base ms)) = ms \<and>
   list_all (\<lambda>(m, u). t \<le> u \<and> (case due speed wall base m of None \<Rightarrow> True | Some v \<Rightarrow> v \<le> u))
     (deliveries late busy t (schedule speed wall base ms)) \<and>
   sorted (map snd (deliveries late busy t (schedule speed wall base ms)))"
proof (induction ms arbitrary: t)
  case Nil
  show ?case
    by (simp add: schedule_def)
next
  case (Cons m ms)
  define u where "u = (case due speed wall base m of None \<Rightarrow> t | Some v \<Rightarrow> max t v + int (late v))"
  have u: "t \<le> u" "case due speed wall base m of None \<Rightarrow> True | Some v \<Rightarrow> v \<le> u"
    by (auto simp: u_def split: option.split)
  have step: "deliveries late busy t (schedule speed wall base (m # ms)) =
      (m, u) # deliveries late busy (u + int (busy m)) (schedule speed wall base ms)"
    by (simp add: schedule_def u_def split: option.split)
  define rest where "rest = deliveries late busy (u + int (busy m)) (schedule speed wall base ms)"
  note IH = Cons.IH [of "u + int (busy m)", folded rest_def]
  have "u + int (busy m) \<le> v" if "(m', v) \<in> set rest" for m' v
    using IH that by (auto simp: list_all_iff)
  then have later: "u \<le> v" if "(m', v) \<in> set rest" for m' v
    using that by force
  have "list_all (\<lambda>(m, v). t \<le> v \<and> (case due speed wall base m of None \<Rightarrow> True | Some w \<Rightarrow> w \<le> v)) rest"
    using IH later u(1) by (fastforce simp: list_all_iff)
  moreover have "\<forall>v \<in> set (map snd rest). u \<le> v"
    using later by auto
  ultimately show ?case
    using IH u unfolding step rest_def [symmetric] by simp
qed

section \<open>Properties\<close>

text \<open>
  C33. Paced replay: for a stream of encoded messages and any speed, as long as the instants fit the
  clock, \<^verbatim>\<open>replay\<close> returns the number of messages and hands each of them once to the callback, in
  order and without going back in time, and, when it paces, a message whose timestamp is later than
  the first one's not before the clock shows the first reading plus the elapsed feed time divided by
  the speed.
\<close>

theorem replay_paced:
  assumes "list_all wf_message ms" "list_all (in_range (m_speed_multiplier e) wall (first_timestamp ms)) ms"
  shows "\<exists>es. replay e wall (concat (map encode_frame ms)) = Some (Inr (of_nat (length ms)), es) \<and>
    map fst (deliveries late busy wall es) = ms \<and> sorted (map snd (deliveries late busy wall es)) \<and>
    list_all (\<lambda>(m, t). case due (m_speed_multiplier e) wall (first_timestamp ms) m of None \<Rightarrow> True | Some v \<Rightarrow> v \<le> t)
      (deliveries late busy wall es)"
proof -
  have "split_frames (concat (map encode_frame ms)) = (map encode_message ms, True)" "frame_messages (map encode_message ms) = ms"
    using assms(1) split_frames_encode_all [of ms] frames_of_encoded(1) [of ms] by (auto simp: list_all_iff wf_message_def)
  then have "replay e wall (concat (map encode_frame ms)) = Some (Inr (of_nat (length ms)),
      schedule (m_speed_multiplier e) wall (first_timestamp ms) ms)"
    using replay_schedule [of e wall "concat (map encode_frame ms)"] assms(2) by simp
  then show ?thesis
    using deliveries_schedule [of late busy wall "m_speed_multiplier e" wall "first_timestamp ms" ms]
    by (auto simp: list_all_iff)
qed

theorem replay_paced_witness:
  "\<exists>es. replay (ReplayEngine_new 2) 1000 (concat (map encode_frame [SystemEvent blank_SystemEvent, AddOrder sample_add])) = Some (Inr 2, es) \<and>
    list_all (\<lambda>d. 17100000001000 \<le> snd d) (filter (\<lambda>d. fst d = AddOrder sample_add) (deliveries (\<lambda>_. 0) (\<lambda>_. 5) 1000 es))"
proof -
  let ?ms = "[SystemEvent blank_SystemEvent, AddOrder sample_add]"
  have ts: "timestamp_of (SystemEvent blank_SystemEvent) = 0" "timestamp_of (AddOrder sample_add) = 34200000000000"
    by (simp_all add: timestamp_of_def blank_SystemEvent_def sample_add_def blank_AddOrder_def MessageHeader.defs)
  have "double_of (34200000000000 :: u64) = of_nat 34200000000000"
    by (simp add: double_of_exact wrat_def)
  then have "rnd (double_of (34200000000000 :: u64) / 2) = of_nat 17100000000000"
    using rnd_exact [OF is_double_of_nat [of 17100000000000]] by simp
  then have due: "due 2 1000 0 (SystemEvent blank_SystemEvent) = None" "due 2 1000 0 (AddOrder sample_add) = Some 17100000001000"
    by (simp_all add: due_def ts)
  have "list_all wf_message ?ms"
    using wf_sample_add by (simp add: blank_SystemEvent_def wf_message_def wf_header_def MessageHeader.defs)
  moreover have "list_all (in_range 2 1000 (first_timestamp ?ms)) ?ms"
    by (simp add: first_timestamp_def ts in_range_def due in_int64_def)
  ultimately obtain es where "replay (ReplayEngine_new 2) 1000 (concat (map encode_frame ?ms)) = Some (Inr 2, es)"
      "list_all (\<lambda>(m, t). case due 2 1000 0 m of None \<Rightarrow> True | Some v \<Rightarrow> v \<le> t) (deliveries (\<lambda>_. 0) (\<lambda>_. 5) 1000 es)"
    using replay_paced [of ?ms "ReplayEngine_new 2" 1000 "\<lambda>_. 0" "\<lambda>_. 5"] by (auto simp: ReplayEngine_new_def first_timestamp_def ts)
  then show ?thesis
    using due by (auto simp: list_all_iff)
qed

end
