(* ===== verification/Itch_Tool.thy ===== *)
theory Itch_Tool
  imports Pcap Csv_Sink Message_Printer
begin

text \<open>
  The command-line program of \<^verbatim>\<open>tools/itch_tool/main.cpp\<close>: the commands stats, inspect, filter and
  convert over a raw ITCH stream or a capture. The files that can be read, with their contents, and
  the paths that can be opened for writing are parameters. A program that an exception terminates
  has that exception as its result. An outer \<open>None\<close> is undefined behaviour.
\<close>

section \<open>Input, output and options\<close>

datatype tool_exn = Parse_error exn | Invalid_argument | Out_of_range

record Console =
  m_cout :: string
  m_cerr :: string
  m_files :: "string \<rightharpoonup> string"

definition print_line :: "string \<Rightarrow> string" where
  "print_line line = line @ [CHR 0x0A]"

definition read_file :: "(string \<rightharpoonup> byte list) \<Rightarrow> string \<Rightarrow> byte list" where
  "read_file files path = (case files path of None \<Rightarrow> [] | Some bytes \<Rightarrow> bytes)"

definition for_each_message :: "byte list \<Rightarrow> ('s \<Rightarrow> Message \<Rightarrow> 's) \<Rightarrow> 's \<Rightarrow> ((exn + unit) \<times> 's) option" where
  "for_each_message data callback s = do {
     (ok, _, s) \<leftarrow> pcap_read data (PcapReader_new (Some callback), s);
     if ok then Some (Inr (), s)
     else do {
       (r, _, s) \<leftarrow> parse callback data Parser_init s;
       Some (r, s) } }"

definition parse_type_filter :: "string \<Rightarrow> bool list" where
  "parse_type_filter spec =
     foldl (\<lambda>wanted chr. if chr \<noteq> CHR '','' then wanted[table_index chr := True] else wanted) (replicate 256 False) spec"

text \<open>\<^verbatim>\<open>std::stoull\<close>: white space, a sign, and the longest run of digits; what follows is ignored.\<close>

definition is_space :: "char \<Rightarrow> bool" where
  "is_space c \<longleftrightarrow> c = CHR '' '' \<or> (9 \<le> (of_char c :: nat) \<and> (of_char c :: nat) \<le> 13)"

definition stoull :: "string \<Rightarrow> tool_exn + u64" where
  "stoull s = (let s = dropWhile is_space s;
       negative = (s \<noteq> [] \<and> hd s = CHR ''-'');
       s = (if s \<noteq> [] \<and> hd s \<in> {CHR ''-'', CHR ''+''} then tl s else s);
       ds = takeWhile is_digit s; n = digits_value ds
     in if ds = [] then Inl Invalid_argument
        else if n \<ge> 2 ^ 64 then Inl Out_of_range
        else Inr (if negative then - of_nat n else of_nat n))"

section \<open>The commands\<close>

definition stats_line :: "string \<Rightarrow> string \<Rightarrow> string" where
  "stats_line left right = print_line (pad_right 6 left @ '' '' @ pad_left 14 right)"

definition count_message :: "u64 list \<times> u64 \<Rightarrow> Message \<Rightarrow> u64 list \<times> u64" where
  "count_message = (\<lambda>(counts, total) msg. (let k = table_index (message_type_of msg)
     in (counts[k := counts ! k + 1], total + 1)))"

definition cmd_stats :: "byte list \<Rightarrow> Console \<Rightarrow> (tool_exn + int \<times> Console) option" where
  "cmd_stats data io = do {
     (r, counts, total) \<leftarrow> for_each_message data count_message (replicate 256 0, 0);
     Some (case r of Inl e \<Rightarrow> Inl (Parse_error e)
       | Inr _ \<Rightarrow> Inr (0, io\<lparr>m_cout := m_cout io @ stats_line ''type'' ''count'' @
           concat (map (\<lambda>k. if counts ! k > 0 then stats_line [char_of k] (number_text (counts ! k)) else []) [0..<256]) @
           stats_line ''TOTAL'' (number_text total)\<rparr>)) }"

definition inspect_message :: "u64 \<Rightarrow> u64 \<times> string \<Rightarrow> Message \<Rightarrow> u64 \<times> string" where
  "inspect_message limit = (\<lambda>(shown, out) msg.
     if shown < limit then (shown + 1, out @ print_message msg @ [CHR 0x0A]) else (shown, out))"

definition cmd_inspect :: "byte list \<Rightarrow> u64 \<Rightarrow> Console \<Rightarrow> (tool_exn + int \<times> Console) option" where
  "cmd_inspect data limit io = do {
     (r, shown, out) \<leftarrow> for_each_message data (inspect_message limit) (0, m_cout io);
     Some (case r of Inl e \<Rightarrow> Inl (Parse_error e)
       | Inr _ \<Rightarrow> Inr (0, io\<lparr>m_cout := out @ print_line (''(showed '' @ number_text shown @ '' messages)'')\<rparr>)) }"

definition filter_message :: "bool list \<Rightarrow> bool \<Rightarrow> CsvSink \<Rightarrow> Message \<Rightarrow> CsvSink" where
  "filter_message wanted has_filter sink msg =
     (if \<not> has_filter \<or> wanted ! table_index (message_type_of msg) then csv_write msg sink else sink)"

definition cmd_filter_or_convert ::
  "(string \<Rightarrow> bool) \<Rightarrow> byte list \<Rightarrow> bool list \<Rightarrow> bool \<Rightarrow> string \<Rightarrow> Console \<Rightarrow> (tool_exn + int \<times> Console) option" where
  "cmd_filter_or_convert writable data wanted has_filter out_path io =
     (if out_path \<noteq> [] \<and> \<not> writable out_path
      then Some (Inr (1, io\<lparr>m_cerr := m_cerr io @ print_line (''Error: cannot open output '' @ [CHR 0x27] @ out_path @ [CHR 0x27] @ ''.'')\<rparr>))
      else do {
        (r, sink) \<leftarrow> for_each_message data (filter_message wanted has_filter)
          (CsvSink_new (if out_path = [] then m_cout io else []) True);
        Some (case r of Inl e \<Rightarrow> Inl (Parse_error e)
          | Inr _ \<Rightarrow> (let io = (if out_path = [] then io\<lparr>m_cout := m_out sink\<rparr>
                               else io\<lparr>m_files := (m_files io)(out_path \<mapsto> m_out sink)\<rparr>)
                      in Inr (0, io\<lparr>m_cerr := m_cerr io @ print_line (''Wrote '' @ number_text (m_rows_written sink) @ '' rows.'')\<rparr>))) })"

definition usage :: "string \<Rightarrow> Console \<Rightarrow> int \<times> Console" where
  "usage program io = (1, io\<lparr>m_cerr := m_cerr io @
     print_line ''itch-tool - inspect, filter, and convert NASDAQ ITCH 5.0 data'' @
     print_line ''Usage:'' @
     print_line (''  '' @ program @ '' stats   <file>'') @
     print_line (''  '' @ program @ '' inspect <file> [--limit N]'') @
     print_line (''  '' @ program @ '' filter  <file> --types <ABC> [--out <file.csv>]'') @
     print_line (''  '' @ program @ '' convert <file> [--to csv] [--out <file.csv>]'') @
     print_line ''Input may be a raw ITCH stream or a .pcap/.pcapng capture.''\<rparr>)"

section \<open>The program\<close>

record Options =
  out_path :: string
  limit :: u64
  wanted :: "bool list"
  has_filter :: bool

definition default_options :: Options where
  "default_options = \<lparr>out_path = [], limit = 20, wanted = replicate 256 False, has_filter = False\<rparr>"

fun parse_options :: "Options \<Rightarrow> string list \<Rightarrow> tool_exn + Options" where
  "parse_options opts [] = Inr opts"
| "parse_options opts [arg] = Inr opts"
| "parse_options opts (arg # v # args) =
     (if arg = ''--out'' then parse_options (opts\<lparr>out_path := v\<rparr>) args
      else if arg = ''--types'' then parse_options (opts\<lparr>wanted := parse_type_filter v, has_filter := True\<rparr>) args
      else if arg = ''--limit'' then
        (case stoull v of Inl e \<Rightarrow> Inl e | Inr n \<Rightarrow> parse_options (opts\<lparr>limit := n\<rparr>) args)
      else if arg = ''--to'' then parse_options opts args
      else parse_options opts (v # args))"

definition tool_main ::
  "(string \<rightharpoonup> byte list) \<Rightarrow> (string \<Rightarrow> bool) \<Rightarrow> string list \<Rightarrow> Console \<Rightarrow> (tool_exn + int \<times> Console) option" where
  "tool_main files writable args io =
     (case args of
        program # command # path # rest \<Rightarrow>
          (case parse_options default_options rest of
             Inl e \<Rightarrow> Some (Inl e)
           | Inr opts \<Rightarrow>
               (let data = read_file files path
                in if data = []
                   then Some (Inr (1, io\<lparr>m_cerr := m_cerr io @ print_line (''Error: cannot read '' @ [CHR 0x27] @ path @ [CHR 0x27] @ '' (missing or empty).'')\<rparr>))
                   else if command = ''stats'' then cmd_stats data io
                   else if command = ''inspect'' then cmd_inspect data (limit opts) io
                   else if command = ''filter'' then cmd_filter_or_convert writable data (wanted opts) (has_filter opts) (out_path opts) io
                   else if command = ''convert'' then cmd_filter_or_convert writable data (wanted opts) (has_filter opts) (out_path opts) io
                   else Some (Inr (usage program io))))
      | program # _ \<Rightarrow> Some (Inr (usage program io))
      | [] \<Rightarrow> None)"

section \<open>The input\<close>

text \<open>No frame of a raw stream is long enough for its first two bytes to be those of a capture.\<close>

lemma not_a_capture:
  assumes "data = [] \<or> hd data = 0"
  shows "pcap_read data rs = Some (False, rs)"
proof (cases "length data < 4")
  case False
  define n where "n = le_value (tl (take 4 data))"
  have "take 4 data = 0 # tl (take 4 data)"
    using assms False by (cases data) auto
  then have "le_value (take 4 data) = 256 * n"
    unfolding n_def by (metis add_0 le_value.simps(2) unsigned_0)
  then have "object_of native (take 4 data) = (of_nat (256 * n) :: u32)"
    by (simp add: object_of_def native_def)
  moreover have "unat (of_nat (256 * n) :: u32) mod 256 = 0"
    by (simp add: unat_of_nat take_bit_eq_mod mod_mod_cancel del: of_nat_mult)
  then have "(of_nat (256 * n) :: u32) \<notin> {PCAP_MAGIC, PCAP_MAGIC_NANO, PCAP_MAGIC_SWAPPED, PCAP_MAGIC_NANO_SWP, PCAPNG_BLOCK_SHB}"
    by (auto simp: pcap_consts simp del: of_nat_mult)
  ultimately show ?thesis
    using False by (simp add: pcap_read_def memcpy_from_def Let_def del: of_nat_mult)
qed (simp add: pcap_read_def)

lemma for_each_raw:
  assumes "data = [] \<or> hd data = 0"
  shows "for_each_message data cb s = Some (if snd (split_frames data) then Inr () else Inl Incomplete_message,
    fold (\<lambda>m s. cb s m) (frame_messages (fst (split_frames data))) s)"
  by (simp add: for_each_message_def not_a_capture [OF assms] parse_def parse_collect Let_def)

text \<open>A file that carries messages, raw or as datagrams in a capture.\<close>

inductive carries :: "byte list \<Rightarrow> Message list \<Rightarrow> bool" where
  Raw: "list_all wf_message ms \<Longrightarrow> carries (concat (map encode_frame ms)) ms"
| Capture: "carries (pcap_file e magic snaplen LINKTYPE_ETHERNET records @ tail) (concat mss)"
    if "length sess = 10" "list_all (\<lambda>ms. length ms < 0xFFFF \<and> list_all wf_message ms) mss"
      "unat seq + length (concat mss) < 2 ^ 64"
      "list_all2 (udp_frame port) (datagrams sess seq mss) (map record_frame records)"
      "list_all (\<lambda>rec. length (record_frame rec) < 2 ^ 32) records" "length tail < 16"
      "magic \<in> {PCAP_MAGIC, PCAP_MAGIC_NANO}"

lemma hd_encode_frame:
  assumes "wf_message m"
  shows "hd (encode_frame m) = 0" "encode_frame m \<noteq> []"
proof -
  have len: "length (encode_message m) < 256"
    using WIRE_SIZE_bounds [of "msg_type m"] assms by (simp add: length_encode_message wf_message_def)
  then obtain h l where hl: "put (of_nat (length (encode_message m)) :: u16) = [h, l]" "be16 h l = length (encode_message m)"
    using put_u16_bytes [of "length (encode_message m)"] by auto
  then have "unat h = 0"
    using len by (simp add: be16_def)
  then show "hd (encode_frame m) = 0" "encode_frame m \<noteq> []"
    using hl(1) by (simp_all add: encode_frame_def Let_def unat_eq_0)
qed

lemma for_each_carries:
  assumes "carries data ms"
  shows "for_each_message data cb s = Some (Inr (), fold (\<lambda>m s. cb s m) ms s)"
  using assms
proof cases
  case Raw
  then have "split_frames data = (map encode_message ms, True)" "frame_messages (map encode_message ms) = ms"
    using split_frames_encode_all [of ms] frames_of_encoded(1) [of ms] by (auto simp: list_all_iff wf_message_def)
  moreover have "data = [] \<or> hd data = 0"
    using Raw hd_encode_frame by (cases ms) auto
  ultimately show ?thesis
    by (simp add: for_each_raw)
next
  case (Capture sess mss seq port records tail magic e snaplen)
  let ?r = "PcapReader_new (Some cb)"
  have "in_step (session_name sess) seq (m_mold ?r)" "m_callback (m_mold ?r) = Some cb"
    by (simp_all add: PcapReader_new_def in_step_def mold_ok_def expected_next_def MoldUdp64Decoder_new_def SequenceTracker_init_def)
  then obtain d where "run_steps mold_step (datagrams sess seq mss) (m_mold ?r, s) = Some (d, fold (\<lambda>m s. cb s m) (concat mss) s)"
    using mold_stream [of sess mss seq "m_mold ?r" s] Capture by (auto simp: list_all_iff)
  moreover obtain r' s' where r': "run_steps (\<lambda>frame. handle_frame frame LINKTYPE_ETHERNET) (map record_frame records) (?r, s) = Some (r', s')"
      "run_steps mold_step (datagrams sess seq mss) (m_mold ?r, s) = Some (m_mold r', s')"
    using handle_udp_frames [OF Capture(6), of ?r s] by (auto simp: PcapReader_new_def)
  ultimately have "pcap_read data (?r, s) = Some (True, r', fold (\<lambda>m s. cb s m) (concat mss) s)"
    using read_classic [of records e tail magic snaplen LINKTYPE_ETHERNET "(?r, s)"] Capture by (simp add: list_all_iff)
  then show ?thesis
    using Capture by (simp add: for_each_message_def)
qed

lemma carries_empty: "carries [] ms \<Longrightarrow> ms = []"
proof (induction "[] :: byte list" ms rule: carries.induct)
  case (Raw ms)
  then show ?case
    using hd_encode_frame(2) by (cases ms) auto
next
  case (Capture sess mss seq port records tail magic e snaplen)
  then have "length (pcap_file e magic snaplen LINKTYPE_ETHERNET records) = 0"
    by (metis append_is_Nil_conv list.size(3))
  then show ?case
    by (simp add: pcap_file_def)
qed

section \<open>What the callbacks compute\<close>

definition of_type :: "nat \<Rightarrow> Message \<Rightarrow> bool" where
  "of_type k m \<longleftrightarrow> table_index (message_type_of m) = k"

lemma count_messages:
  assumes "length counts = 256"
  shows "fold (\<lambda>m s. count_message s m) ms (counts, tot) =
    (map (\<lambda>k. counts ! k + of_nat (length (filter (of_type k) ms))) [0..<256], tot + of_nat (length ms))"
  using assms
proof (induction ms arbitrary: counts tot)
  case Nil
  then show ?case
    by (simp add: list_eq_iff_nth_eq)
next
  case (Cons m ms)
  then show ?case
    by (auto simp: count_message_def of_type_def Let_def nth_list_update)
qed

lemma inspect_messages:
  assumes "shown \<le> n"
  shows "fold (\<lambda>m s. inspect_message n s m) ms (shown, out) =
    (let first = take (unat n - unat shown) ms
     in (shown + of_nat (length first), out @ concat (map (\<lambda>m. print_message m @ [CHR 0x0A]) first)))"
  using assms
proof (induction ms arbitrary: shown out)
  case (Cons m ms)
  show ?case
  proof (cases "shown < n")
    case True
    then have "unat shown < unat n" "shown + 1 \<le> n"
      by (simp_all add: word_less_nat_alt inc_le)
    moreover from this have "unat (shown + 1) = Suc (unat shown)"
      using unsigned_less [of n, where 'a = nat] by (simp add: unat_word_ariths)
    ultimately show ?thesis
      using True Cons.IH [of "shown + 1"] by (auto simp: inspect_message_def Let_def take_Cons' Suc_diff_Suc)
  next
    case False
    then have "shown = n"
      using Cons.prems by simp
    then show ?thesis
      using False Cons.IH [of shown] by (simp add: inspect_message_def)
  qed
qed simp

lemma filter_messages:
  "fold (\<lambda>m s. filter_message w h s m) ms sink =
   csv_write_all (filter (\<lambda>m. \<not> h \<or> w ! table_index (message_type_of m)) ms) sink"
  by (induction ms arbitrary: sink) (simp_all add: csv_write_all_def filter_message_def)

lemma parse_type_filter_nth:
  "length (parse_type_filter spec) = 256"
  "parse_type_filter spec ! table_index c \<longleftrightarrow> c \<in> set spec \<and> c \<noteq> CHR '',''"
proof -
  have "length (parse_type_filter spec) = 256 \<and> (parse_type_filter spec ! table_index c \<longleftrightarrow> c \<in> set spec \<and> c \<noteq> CHR '','')"
    by (induction spec rule: rev_induct)
      (auto simp: parse_type_filter_def nth_list_update)
  then show "length (parse_type_filter spec) = 256" "parse_type_filter spec ! table_index c \<longleftrightarrow> c \<in> set spec \<and> c \<noteq> CHR '',''"
    by simp_all
qed

lemma digit_not_space: "is_digit c \<Longrightarrow> \<not> is_space c \<and> c \<noteq> CHR ''-'' \<and> c \<noteq> CHR ''+''"
  by (auto simp: is_digit_def is_space_def)

lemma stoull_number: "stoull (number_text (n :: u64)) = Inr n"
proof -
  let ?ds = "number_text n"
  have d: "list_all is_digit ?ds" "?ds \<noteq> []" "digits_value ?ds = unat n"
    using decimal_digits [of "unat n"] by (simp_all add: number_text_def decimal_value)
  have tw: "takeWhile is_digit ?ds = ?ds"
    using d(1) by (simp add: list_all_iff takeWhile_eq_all_conv)
  have "dropWhile is_space ?ds = ?ds" "hd ?ds \<noteq> CHR ''-''" "hd ?ds \<noteq> CHR ''+''"
    using d(1,2) digit_not_space by (cases ?ds; force)+
  then show ?thesis
    using d(2,3) unsigned_less [of n, where 'a = nat] by (simp add: stoull_def tw Let_def del: takeWhile_eq_all_conv)
qed

section \<open>Properties\<close>

text \<open>
  The statistics: for a file that carries messages, raw or in a capture, \<^verbatim>\<open>stats\<close> prints for every
  message type that occurs, in the order of the type characters, how many messages of that type
  there are, then how many in all, and ends with 0.
\<close>

theorem tool_stats_counts:
  assumes "carries data ms" "files path = Some data" "data \<noteq> []" "length ms < 2 ^ 64"
  shows "tool_main files writable [program, ''stats'', path] io = Some (Inr (0, io\<lparr>m_cout := m_cout io @
    stats_line ''type'' ''count'' @
    concat (map (\<lambda>k. stats_line [char_of k] (decimal (length (filter (of_type k) ms))))
      (filter (\<lambda>k. \<exists>m \<in> set ms. of_type k m) [0..<256])) @
    stats_line ''TOTAL'' (decimal (length ms))\<rparr>))"
proof -
  let ?n = "\<lambda>k. length (filter (of_type k) ms)"
  have u: "unat (of_nat n :: u64) = n" if "n \<le> length ms" for n
    using that assms(4) by (simp add: unat_of_nat take_bit_nat_eq_self)
  then have shown: "number_text (of_nat (?n k) :: u64) = decimal (?n k)" "(0 :: u64) < of_nat (?n k) \<longleftrightarrow> 0 < ?n k" for k
    using length_filter_le [of "of_type k" ms] by (simp_all add: number_text_def word_less_nat_alt)
  have rows: "concat (map (\<lambda>k. if P k then f k else []) ks) = concat (map f (filter P ks))" for P :: "nat \<Rightarrow> bool" and f :: "nat \<Rightarrow> string" and ks
    by (induction ks) simp_all
  have lines: "concat (map (\<lambda>k. if (0 :: u64) < map (\<lambda>k. of_nat (?n k)) [0..<256] ! k
        then stats_line [char_of k] (number_text (map (\<lambda>k. of_nat (?n k)) [0..<256] ! k :: u64)) else []) [0..<256]) =
      concat (map (\<lambda>k. if 0 < ?n k then stats_line [char_of k] (decimal (?n k)) else []) [0..<256])"
    by (intro arg_cong [where f = concat] map_cong) (simp_all add: shown)
  have occurs: "0 < ?n k \<longleftrightarrow> (\<exists>m \<in> set ms. of_type k m)" for k
    by (auto simp: filter_empty_conv)
  have "fold (\<lambda>m s. count_message s m) ms (replicate 256 0, 0) = (map (\<lambda>k. of_nat (?n k)) [0..<256], of_nat (length ms))"
    by (subst count_messages) (auto intro: map_cong)
  then show ?thesis
    unfolding occurs [symmetric] rows [symmetric]
    using assms(2,3) lines u [of "length ms"]
    by (simp add: tool_main_def read_file_def cmd_stats_def for_each_carries [OF assms(1)] number_text_def)
qed

theorem tool_stats_counts_witness:
  "\<exists>line. tool_main (\<lambda>path. Some (concat (map encode_frame [AddOrder sample_add, AddOrder sample_add]))) (\<lambda>path. False)
      [''itch-tool'', ''stats'', ''day.bin''] \<lparr>m_cout = [], m_cerr = [], m_files = Map.empty\<rparr> =
    Some (Inr (0, \<lparr>m_cout = line @ ''A                   2'' @ [CHR 0x0A] @ ''TOTAL               2'' @ [CHR 0x0A],
      m_cerr = [], m_files = Map.empty\<rparr>))"
proof -
  let ?ms = "[AddOrder sample_add, AddOrder sample_add]"
  let ?io = "\<lparr>m_cout = [], m_cerr = [], m_files = Map.empty\<rparr> :: Console"
  have input: "carries (concat (map encode_frame ?ms)) ?ms"
    using wf_sample_add by (intro carries.Raw) simp
  have type: "of_type k (AddOrder sample_add) \<longleftrightarrow> k = 65" for k
    by (auto simp: of_type_def message_type_of_def sample_add_def blank_AddOrder_def MessageHeader.defs table_index_def unat_byte_of_char)
  have "filter (\<lambda>k. k = (65 :: nat)) [0..<256] = [65]"
    by code_simp
  then have rows: "filter (\<lambda>k. \<exists>m \<in> set ?ms. of_type k m) [0..<256] = [65]" "filter (of_type 65) ?ms = ?ms"
    by (simp_all add: type)
  have shown: "char_of (65 :: nat) = CHR ''A''" "decimal (Suc (Suc 0)) = ''2''"
    by (simp_all add: decimal_small) code_simp+
  have lines: "stats_line ''A'' ''2'' = ''A                   2'' @ [CHR 0x0A]" "stats_line ''TOTAL'' ''2'' = ''TOTAL               2'' @ [CHR 0x0A]"
    by code_simp+
  show ?thesis
    using tool_stats_counts [OF input, of "\<lambda>path. Some (concat (map encode_frame ?ms))" "''day.bin''" "\<lambda>path. False" "''itch-tool''" ?io]
      hd_encode_frame(2) [of "AddOrder sample_add"] wf_sample_add
    unfolding rows by (simp add: type shown lines)
qed

text \<open>
  C18. Filtering and conversion: \<^verbatim>\<open>filter\<close> and \<^verbatim>\<open>convert\<close> write a header and one CSV row for each message
  of a listed type (of any type without a list), in order, to the file named by the options or to
  the standard output, and report the number of rows; the input may be raw or a capture.
\<close>

theorem tool_filter_rows:
  assumes "carries data ms" "files path = Some data" "data \<noteq> []" "writable out" "out \<noteq> []"
    and "command \<in> {''filter'', ''convert''}"
  shows "tool_main files writable [program, command, path, ''--types'', types, ''--out'', out] io =
      (let kept = filter (\<lambda>m. message_type_of m \<in> set types - {CHR '',''}) ms
       in Some (Inr (0, io\<lparr>m_files := (m_files io)(out \<mapsto> m_out (csv_write_all kept (CsvSink_new [] True))),
         m_cerr := m_cerr io @ ''Wrote '' @ number_text (of_nat (length kept) :: u64) @ '' rows.'' @ [CHR 0x0A]\<rparr>))) \<and>
    tool_main files writable [program, command, path] io =
      Some (Inr (0, io\<lparr>m_cout := m_out (csv_write_all ms (CsvSink_new (m_cout io) True)),
        m_cerr := m_cerr io @ ''Wrote '' @ number_text (of_nat (length ms) :: u64) @ '' rows.'' @ [CHR 0x0A]\<rparr>))"
proof -
  have opts: "parse_options default_options [''--types'', types, ''--out'', out] =
      Inr (default_options\<lparr>wanted := parse_type_filter types, has_filter := True, out_path := out\<rparr>)"
    by (simp add: default_options_def)
  show ?thesis
    using assms(2-6)
    by (auto simp: tool_main_def opts default_options_def read_file_def cmd_filter_or_convert_def for_each_carries [OF assms(1)]
        filter_messages parse_type_filter_nth csv_write_all_out CsvSink_new_def print_line_def Let_def)
qed

theorem tool_filter_rows_witness:
  "tool_main (\<lambda>path. Some (concat (map encode_frame [AddOrder sample_add, SystemEvent blank_SystemEvent]))) (\<lambda>path. True)
      [''itch-tool'', ''filter'', ''day.bin'', ''--types'', ''A,P'', ''--out'', ''day.csv''] \<lparr>m_cout = [], m_cerr = [], m_files = Map.empty\<rparr> =
    Some (Inr (0, \<lparr>m_cout = [], m_cerr = ''Wrote 1 rows.'' @ [CHR 0x0A],
      m_files = [''day.csv'' \<mapsto> csv_header @ csv_line (build_row (AddOrder sample_add))]\<rparr>))"
proof -
  let ?ms = "[AddOrder sample_add, SystemEvent blank_SystemEvent]"
  let ?io = "\<lparr>m_cout = [], m_cerr = [], m_files = Map.empty\<rparr> :: Console"
  have input: "carries (concat (map encode_frame ?ms)) ?ms"
    using wf_sample_add by (intro carries.Raw) (simp add: blank_SystemEvent_def wf_message_def wf_header_def MessageHeader.defs)
  have types: "message_type_of (AddOrder sample_add) = CHR ''A''" "message_type_of (SystemEvent blank_SystemEvent) = CHR ''S''"
    by (simp_all add: message_type_of_def sample_add_def blank_AddOrder_def blank_SystemEvent_def MessageHeader.defs)
  have "number_text (1 :: u64) = ''1''"
    by (simp add: number_text_def decimal_small digit_simps)
  then show ?thesis
    using tool_filter_rows [OF input, of "\<lambda>path. Some (concat (map encode_frame ?ms))" "''day.bin''" "\<lambda>path. True" "''day.csv''" "''filter''"
        "''itch-tool''" "''A,P''" ?io] hd_encode_frame(2) [of "AddOrder sample_add"] wf_sample_add
    by (simp add: types csv_write_all_out CsvSink_new_def)
qed

text \<open>
  Inspection: \<^verbatim>\<open>inspect\<close> with \<^verbatim>\<open>--limit N\<close> prints the first N messages of the file, all of them
  if there are fewer, and their number.
\<close>

theorem tool_inspect_limit:
  assumes "carries data ms" "files path = Some data" "data \<noteq> []"
  shows "tool_main files writable [program, ''inspect'', path, ''--limit'', number_text (n :: u64)] io =
    (let first = take (unat n) ms
     in Some (Inr (0, io\<lparr>m_cout := m_cout io @ concat (map (\<lambda>m. print_message m @ [CHR 0x0A]) first) @
       ''(showed '' @ number_text (of_nat (length first) :: u64) @ '' messages)'' @ [CHR 0x0A]\<rparr>)))"
  using assms(2,3)
  by (simp add: tool_main_def stoull_number default_options_def read_file_def cmd_inspect_def for_each_carries [OF assms(1)]
      inspect_messages print_line_def Let_def)

theorem tool_inspect_limit_witness:
  "tool_main (\<lambda>path. Some (concat (map encode_frame [AddOrder sample_add, AddOrder sample_add]))) (\<lambda>path. False)
      [''itch-tool'', ''inspect'', ''day.bin'', ''--limit'', number_text (1 :: u64)] \<lparr>m_cout = [], m_cerr = [], m_files = Map.empty\<rparr> =
    Some (Inr (0, \<lparr>m_cout = print_message (AddOrder sample_add) @ [CHR 0x0A] @ ''(showed 1 messages)'' @ [CHR 0x0A],
      m_cerr = [], m_files = Map.empty\<rparr>))"
proof -
  let ?ms = "[AddOrder sample_add, AddOrder sample_add]"
  have input: "carries (concat (map encode_frame ?ms)) ?ms"
    using wf_sample_add by (intro carries.Raw) simp
  have "number_text (1 :: u64) = ''1''"
    by (simp add: number_text_def decimal_small digit_simps)
  then show ?thesis
    using tool_inspect_limit [OF input, of "\<lambda>path. Some (concat (map encode_frame ?ms))" "''day.bin''" "\<lambda>path. False" "''itch-tool''" 1
        "\<lparr>m_cout = [], m_cerr = [], m_files = Map.empty\<rparr>"]
      hd_encode_frame(2) [of "AddOrder sample_add"] wf_sample_add by simp
qed

text \<open>
  Truncated input: a raw stream that ends inside a message terminates every command, with any
  options that are accepted, with the exception of the parser, which nothing catches.
\<close>

theorem tool_truncated:
  assumes "files path = Some data" "data \<noteq> []" "hd data = 0" "\<not> snd (split_frames data)"
    and "parse_options default_options options = Inr opts" "out_path opts = [] \<or> writable (out_path opts)"
    and "command \<in> {''stats'', ''inspect'', ''filter'', ''convert''}"
  shows "tool_main files writable (program # command # path # options) io = Some (Inl (Parse_error Incomplete_message))"
proof -
  have each: "for_each_message data f s = Some (Inl Incomplete_message, fold (\<lambda>m s. f s m) (frame_messages (fst (split_frames data))) s)" for f and s :: 's
    using for_each_raw [of data f s] assms(3,4) by simp
  have "cmd_stats data io = Some (Inl (Parse_error Incomplete_message))"
    by (simp add: cmd_stats_def each split: prod.split)
  moreover have "cmd_inspect data (limit opts) io = Some (Inl (Parse_error Incomplete_message))"
    by (simp add: cmd_inspect_def each split: prod.split)
  moreover have "cmd_filter_or_convert writable data (wanted opts) (has_filter opts) (out_path opts) io = Some (Inl (Parse_error Incomplete_message))"
    using assms(6) by (simp add: cmd_filter_or_convert_def each)
  ultimately show ?thesis
    using assms(1,2,5,7) by (auto simp: tool_main_def read_file_def)
qed

theorem tool_truncated_witness:
  "tool_main (\<lambda>path. Some [0, 12, 83]) (\<lambda>path. False) [''itch-tool'', ''stats'', ''day.bin'', ''--limit'', ''5''] io =
    Some (Inl (Parse_error Incomplete_message))"
proof -
  have five: "number_text (5 :: u64) = ''5''"
    by (simp add: number_text_def decimal_small digit_simps)
  have "parse_options default_options [''--limit'', ''5''] = Inr (default_options\<lparr>limit := 5\<rparr>)"
    using five stoull_number [of 5] by (simp add: default_options_def)
  moreover have "\<not> snd (split_frames [0, 12, 83])"
    by (simp add: be16_def)
  ultimately show ?thesis
    using tool_truncated [of "\<lambda>path. Some [0, 12, 83]" "''day.bin''" "[0, 12, 83]" "[''--limit'', ''5'']" "default_options\<lparr>limit := 5\<rparr>" "\<lambda>path. False" "''stats''"]
    by (simp add: default_options_def)
qed

end
