(* ===== verification/Stream_Parser.thy ===== *)
theory Stream_Parser
  imports Encoder
begin

text \<open>
  The overloads of \<^verbatim>\<open>Parser::parse\<close> in \<^verbatim>\<open>src/parser.cpp\<close> that read a \<^verbatim>\<open>std::istream\<close> into a buffer first.
  A stream is its bytes, the read position, the fail and end-of-file bits, and whether it can seek.
\<close>

record IStream =
  stream_bytes :: "byte list"
  stream_pos :: nat
  stream_fail :: bool
  stream_eof :: bool
  seekable :: bool

definition seekg :: "nat \<Rightarrow> IStream \<Rightarrow> IStream" where
  "seekg n st = (let st = st\<lparr>stream_eof := False\<rparr>
     in if stream_fail st then st
        else if seekable st then st\<lparr>stream_pos := n\<rparr>
        else st\<lparr>stream_fail := True\<rparr>)"

definition tellg :: "IStream \<Rightarrow> int" where
  "tellg st = (if stream_fail st \<or> \<not> seekable st then -1 else int (stream_pos st))"

definition read_bytes :: "nat \<Rightarrow> IStream \<Rightarrow> byte list \<times> IStream" where
  "read_bytes n st = (if stream_fail st \<or> stream_eof st then (replicate n 0, st\<lparr>stream_fail := True\<rparr>)
     else let got = take n (drop (stream_pos st) (stream_bytes st))
          in (got @ replicate (n - length got) 0,
              st\<lparr>stream_pos := stream_pos st + length got, stream_eof := length got < n, stream_fail := length got < n\<rparr>))"

datatype stream_exn = No_stream_size | Parser_exn exn

definition read_stream_into_buffer :: "IStream \<Rightarrow> (stream_exn + byte list) \<times> IStream" where
  "read_stream_into_buffer data =
     (let data = seekg (length (stream_bytes data)) data;
          size = tellg data;
          data = seekg 0 data
      in if size < 0 then (Inl No_stream_size, data)
         else let (buffer, data) = read_bytes (nat size) data in (Inr buffer, data))"

definition lift_exn :: "exn + 'a \<Rightarrow> stream_exn + 'a" where
  "lift_exn r = (case r of Inl e \<Rightarrow> Inl (Parser_exn e) | Inr x \<Rightarrow> Inr x)"

definition parse_istream :: "('s \<Rightarrow> Message \<Rightarrow> 's) \<Rightarrow> IStream \<Rightarrow> 's Parser \<Rightarrow> 's \<Rightarrow> ((stream_exn + unit) \<times> IStream \<times> 's Parser \<times> 's) option" where
  "parse_istream callback data p s = (case read_stream_into_buffer data of
       (Inl e, data) \<Rightarrow> Some (Inl e, data, p, s)
     | (Inr buffer, data) \<Rightarrow> do { (r, p, s) \<leftarrow> parse callback buffer p s; Some (lift_exn r, data, p, s) })"

definition parse_istream_all :: "IStream \<Rightarrow> Message list Parser \<Rightarrow> ((stream_exn + Message list) \<times> IStream \<times> Message list Parser) option" where
  "parse_istream_all data p = (case read_stream_into_buffer data of
       (Inl e, data) \<Rightarrow> Some (Inl e, data, p)
     | (Inr buffer, data) \<Rightarrow> do { (r, p) \<leftarrow> parse_all buffer p; Some (lift_exn r, data, p) })"

definition parse_istream_filtered ::
  "IStream \<Rightarrow> char list \<Rightarrow> Message list Parser \<Rightarrow> ((stream_exn + Message list) \<times> IStream \<times> Message list Parser) option" where
  "parse_istream_filtered data messages p = (case read_stream_into_buffer data of
       (Inl e, data) \<Rightarrow> Some (Inl e, data, p)
     | (Inr buffer, data) \<Rightarrow> do { (r, p) \<leftarrow> parse_filtered buffer messages p; Some (lift_exn r, data, p) })"

lemma read_stream_whole:
  "\<not> stream_fail st \<Longrightarrow> seekable st \<Longrightarrow>
   read_stream_into_buffer st = (Inr (stream_bytes st), st\<lparr>stream_pos := length (stream_bytes st), stream_eof := False, stream_fail := False\<rparr>)"
  by (simp add: read_stream_into_buffer_def seekg_def tellg_def read_bytes_def Let_def)

lemma read_stream_fails:
  assumes "stream_fail st \<or> \<not> seekable st"
  shows "\<exists>st'. read_stream_into_buffer st = (Inl No_stream_size, st') \<and> stream_fail st' \<and> stream_bytes st' = stream_bytes st"
  using assms by (auto simp: read_stream_into_buffer_def seekg_def tellg_def Let_def)

text \<open>
  Streams: a stream that can seek is parsed as its whole contents from the first byte, wherever
  it stood and even at its end, and is left at its end; a stream in a failed state, or one that
  cannot seek, is reported before any message reaches the callback.
\<close>

theorem istream_parses_contents:
  "if stream_fail st \<or> \<not> seekable st
   then \<exists>st'. parse_istream callback st p s = Some (Inl No_stream_size, st', p, s)
   else \<exists>r p' s'. parse callback (stream_bytes st) p s = Some (r, p', s') \<and>
     parse_istream callback st p s =
       Some (lift_exn r, st\<lparr>stream_pos := length (stream_bytes st), stream_eof := False, stream_fail := False\<rparr>, p', s')"
proof (cases "stream_fail st \<or> \<not> seekable st")
  case True
  then show ?thesis
    using read_stream_fails [OF True] by (auto simp: parse_istream_def)
next
  case False
  obtain r p' s' where "parse callback (stream_bytes st) p s = Some (r, p', s')"
    using parse_Some [of callback "stream_bytes st" p s] by auto
  then show ?thesis
    using False read_stream_whole [of st] by (simp add: parse_istream_def)
qed

text \<open>A stream can be parsed again: the second call finds the same messages.\<close>

theorem istream_parse_again:
  assumes "\<not> stream_fail st" "seekable st" "list_all wf_message ms" "stream_bytes st = concat (map encode_frame ms)"
  shows "\<exists>st'. parse_istream_all st Parser_init = Some (Inr ms, st', Parser_init) \<and>
    (\<exists>st''. parse_istream_all st' Parser_init = Some (Inr ms, st'', Parser_init))"
proof -
  have "parse_all (concat (map encode_frame ms)) Parser_init = Some (Inr ms, Parser_init)"
    using assms(3) split_frames_encode_all [of ms] frames_of_encoded [of ms]
    by (auto simp: list_all_iff wf_message_def parse_all_def parse_def parse_collect fold_append_messages Let_def)
  then show ?thesis
    using read_stream_whole assms by (simp add: parse_istream_all_def lift_exn_def)
qed

theorem istream_parse_again_witness:
  "\<exists>st. parse_istream_all \<lparr>stream_bytes = encode_frame (AddOrder sample_add), stream_pos = 17, stream_fail = False,
    stream_eof = True, seekable = True\<rparr> Parser_init = Some (Inr [AddOrder sample_add], st, Parser_init)"
  using istream_parse_again [of "\<lparr>stream_bytes = encode_frame (AddOrder sample_add), stream_pos = 17, stream_fail = False,
    stream_eof = True, seekable = True\<rparr>" "[AddOrder sample_add]"] wf_sample_add by auto

end
