(* ===== verification/Python_Messages.thy ===== *)
theory Python_Messages
  imports Message_Iterator Price_Format
begin

text \<open>
  The message classes of the Python module, \<^verbatim>\<open>python/src/bindings.cpp\<close>: one table of attributes per
  class, and the reading and assignment of the attributes of a message object, which is the message
  with the table of its class; every attribute has a value to read and a function that assigns it.
  What pybind11 converts and rejects is written out: an integer attribute takes integers in the
  range of its type, a bytes attribute takes bytes, and anything else is a TypeError. The names that pybind11 itself adds to an object are a parameter,
  \<open>inherited\<close>; they are methods.
\<close>

section \<open>Values and attributes\<close>

datatype py_value = Integer int | Bytes "char list" | Str string | Float rat | Method

datatype py_exception = Py py_error | Attribute_error string | Type_error | Unicode_decode_error | Cast_error | Bad_variant_access

record 'm Attribute =
  attr_name :: string
  attr_get :: "'m \<Rightarrow> py_value"
  attr_set :: "py_value \<Rightarrow> 'm \<Rightarrow> py_exception + 'm"

definition is_callable :: "py_value \<Rightarrow> bool" where
  "is_callable v \<longleftrightarrow> v = Method"

definition read_only :: "string \<Rightarrow> ('m \<Rightarrow> py_value) \<Rightarrow> 'm Attribute" where
  "read_only name get = \<lparr>attr_name = name, attr_get = get, attr_set = (\<lambda>v m. Inl (Attribute_error name))\<rparr>"

definition def_byte :: "string \<Rightarrow> ('m \<Rightarrow> char) \<Rightarrow> ((char \<Rightarrow> char) \<Rightarrow> 'm \<Rightarrow> 'm) \<Rightarrow> 'm Attribute" where
  "def_byte name member update = \<lparr>attr_name = name, attr_get = (\<lambda>m. Bytes [member m]),
     attr_set = (\<lambda>v m. case v of
         Bytes s \<Rightarrow> Inr (update (\<lambda>_. if s = [] then CHR 0x00 else hd s) m)
       | _ \<Rightarrow> Inl Type_error)\<rparr>"

definition def_byte_array :: "string \<Rightarrow> nat \<Rightarrow> ('m \<Rightarrow> char list) \<Rightarrow> ((char list \<Rightarrow> char list) \<Rightarrow> 'm \<Rightarrow> 'm) \<Rightarrow> 'm Attribute" where
  "def_byte_array name width member update = \<lparr>attr_name = name, attr_get = (\<lambda>m. Bytes (member m)),
     attr_set = (\<lambda>v m. case v of
         Bytes s \<Rightarrow> (let n = min (length s) width
                     in Inr (update (\<lambda>_. take n s @ drop n (replicate width (CHR 0x00))) m))
       | _ \<Rightarrow> Inl Type_error)\<rparr>"

definition def_readwrite :: "string \<Rightarrow> ('m \<Rightarrow> 'a::len word) \<Rightarrow> (('a word \<Rightarrow> 'a word) \<Rightarrow> 'm \<Rightarrow> 'm) \<Rightarrow> 'm Attribute" where
  "def_readwrite name member update = \<lparr>attr_name = name, attr_get = (\<lambda>m. Integer (uint (member m))),
     attr_set = (\<lambda>v m. case v of
         Integer n \<Rightarrow> if 0 \<le> n \<and> n < 2 ^ LENGTH('a) then Inr (update (\<lambda>_. of_int n) m) else Inl Type_error
       | _ \<Rightarrow> Inl Type_error)\<rparr>"

record 'm PyClass =
  class_name :: string
  class_attributes :: "'m Attribute list"

definition STANDARD_PRECISION :: int where
  "STANDARD_PRECISION = 4"

definition MWCB_PRECISION :: int where
  "MWCB_PRECISION = 8"

definition bind_common ::
  "('a MessageHeader_scheme \<Rightarrow> Message) \<Rightarrow> 'a MessageHeader_scheme \<Rightarrow> string \<Rightarrow> string \<Rightarrow> int \<Rightarrow> 'a MessageHeader_scheme PyClass" where
  "bind_common message blank name description precision = \<lparr>class_name = name, class_attributes =
    [read_only ''message_type'' (\<lambda>m. Bytes [message_type m]),
     def_readwrite ''stock_locate'' stock_locate stock_locate_update,
     def_readwrite ''tracking_number'' tracking_number tracking_number_update,
     def_readwrite ''timestamp'' timestamp timestamp_update,
     read_only ''decode_price'' (\<lambda>_. Method),
     read_only ''set_timestamp'' (\<lambda>_. Method),
     read_only ''split_timestamp'' (\<lambda>_. Method),
     read_only ''get_attributes'' (\<lambda>_. Method),
     read_only ''decode'' (\<lambda>_. Method),
     read_only ''to_bytes'' (\<lambda>_. Method),
     read_only ''description'' (\<lambda>_. Str description),
     read_only ''price_precision'' (\<lambda>_. Integer precision),
     read_only ''message_size'' (\<lambda>_. Integer (int (length (encode_message (message blank)))))]\<rparr>"

definition with_attributes :: "'m PyClass \<Rightarrow> 'm Attribute list \<Rightarrow> 'm PyClass" where
  "with_attributes cls more_attributes = cls\<lparr>class_attributes := class_attributes cls @ more_attributes\<rparr>"

section \<open>The message classes\<close>

definition SystemEvent_class :: "SystemEventMessage PyClass" where
  "SystemEvent_class = with_attributes (bind_common SystemEvent blank_SystemEvent ''SystemEventMessage'' ''System Event Message'' STANDARD_PRECISION)
    [def_byte ''event_code'' SystemEventMessage.event_code SystemEventMessage.event_code_update]"

definition StockDirectory_class :: "StockDirectoryMessage PyClass" where
  "StockDirectory_class = with_attributes (bind_common StockDirectory blank_StockDirectory ''StockDirectoryMessage'' ''Stock Directory Message'' STANDARD_PRECISION)
    [def_byte_array ''stock'' 8 StockDirectoryMessage.stock StockDirectoryMessage.stock_update,
     def_byte ''market_category'' StockDirectoryMessage.market_category StockDirectoryMessage.market_category_update,
     def_byte ''financial_status_indicator'' StockDirectoryMessage.financial_status_indicator StockDirectoryMessage.financial_status_indicator_update,
     def_readwrite ''round_lot_size'' StockDirectoryMessage.round_lot_size StockDirectoryMessage.round_lot_size_update,
     def_byte ''round_lots_only'' StockDirectoryMessage.round_lots_only StockDirectoryMessage.round_lots_only_update,
     def_byte ''issue_classification'' StockDirectoryMessage.issue_classification StockDirectoryMessage.issue_classification_update,
     def_byte_array ''issue_sub_type'' 2 StockDirectoryMessage.issue_sub_type StockDirectoryMessage.issue_sub_type_update,
     def_byte ''authenticity'' StockDirectoryMessage.authenticity StockDirectoryMessage.authenticity_update,
     def_byte ''short_sale_threshold_indicator'' StockDirectoryMessage.short_sale_threshold_indicator StockDirectoryMessage.short_sale_threshold_indicator_update,
     def_byte ''ipo_flag'' StockDirectoryMessage.ipo_flag StockDirectoryMessage.ipo_flag_update,
     def_byte ''luld_ref'' StockDirectoryMessage.luld_ref StockDirectoryMessage.luld_ref_update,
     def_byte ''etp_flag'' StockDirectoryMessage.etp_flag StockDirectoryMessage.etp_flag_update,
     def_readwrite ''etp_leverage_factor'' StockDirectoryMessage.etp_leverage_factor StockDirectoryMessage.etp_leverage_factor_update,
     def_byte ''inverse_indicator'' StockDirectoryMessage.inverse_indicator StockDirectoryMessage.inverse_indicator_update]"

definition StockTradingAction_class :: "StockTradingActionMessage PyClass" where
  "StockTradingAction_class = with_attributes (bind_common StockTradingAction blank_StockTradingAction ''StockTradingActionMessage'' ''Stock Trading Action Message'' STANDARD_PRECISION)
    [def_byte_array ''stock'' 8 StockTradingActionMessage.stock StockTradingActionMessage.stock_update,
     def_byte ''trading_state'' StockTradingActionMessage.trading_state StockTradingActionMessage.trading_state_update,
     def_byte ''reserved'' StockTradingActionMessage.reserved StockTradingActionMessage.reserved_update,
     def_byte_array ''reason'' 4 StockTradingActionMessage.reason StockTradingActionMessage.reason_update]"

definition RegSHO_class :: "RegSHOMessage PyClass" where
  "RegSHO_class = with_attributes (bind_common RegSHO blank_RegSHO ''RegSHOMessage'' ''Reg SHO Short Sale Price Test Restricted Indicator'' STANDARD_PRECISION)
    [def_byte_array ''stock'' 8 RegSHOMessage.stock RegSHOMessage.stock_update,
     def_byte ''reg_sho_action'' RegSHOMessage.reg_sho_action RegSHOMessage.reg_sho_action_update]"

definition MarketParticipantPosition_class :: "MarketParticipantPositionMessage PyClass" where
  "MarketParticipantPosition_class = with_attributes (bind_common MarketParticipantPosition blank_MarketParticipantPosition ''MarketParticipantPositionMessage'' ''Market Participant Position message'' STANDARD_PRECISION)
    [def_byte_array ''mpid'' 4 MarketParticipantPositionMessage.mpid MarketParticipantPositionMessage.mpid_update,
     def_byte_array ''stock'' 8 MarketParticipantPositionMessage.stock MarketParticipantPositionMessage.stock_update,
     def_byte ''primary_market_maker'' MarketParticipantPositionMessage.primary_market_maker MarketParticipantPositionMessage.primary_market_maker_update,
     def_byte ''market_maker_mode'' MarketParticipantPositionMessage.market_maker_mode MarketParticipantPositionMessage.market_maker_mode_update,
     def_byte ''market_participant_state'' MarketParticipantPositionMessage.market_participant_state MarketParticipantPositionMessage.market_participant_state_update]"

definition MWCBDeclineLevel_class :: "MWCBDeclineLevelMessage PyClass" where
  "MWCBDeclineLevel_class = with_attributes (bind_common MWCBDeclineLevel blank_MWCBDeclineLevel ''MWCBDeclineLeveMessage'' ''Market wide circuit breaker Decline Level Message'' MWCB_PRECISION)
    [def_readwrite ''level1_price'' MWCBDeclineLevelMessage.level1 MWCBDeclineLevelMessage.level1_update,
     def_readwrite ''level2_price'' MWCBDeclineLevelMessage.level2 MWCBDeclineLevelMessage.level2_update,
     def_readwrite ''level3_price'' MWCBDeclineLevelMessage.level3 MWCBDeclineLevelMessage.level3_update]"

definition MWCBStatus_class :: "MWCBStatusMessage PyClass" where
  "MWCBStatus_class = with_attributes (bind_common MWCBStatus blank_MWCBStatus ''MWCBStatusMessage'' ''Market-Wide Circuit Breaker Status message'' STANDARD_PRECISION)
    [def_byte ''breached_level'' MWCBStatusMessage.breached_level MWCBStatusMessage.breached_level_update]"

definition IPOQuotingPeriodUpdate_class :: "IPOQuotingPeriodUpdateMessage PyClass" where
  "IPOQuotingPeriodUpdate_class = with_attributes (bind_common IPOQuotingPeriodUpdate blank_IPOQuotingPeriodUpdate ''IPOQuotingPeriodUpdateMessage'' ''IPO Quoting Period Update Message'' STANDARD_PRECISION)
    [def_byte_array ''stock'' 8 IPOQuotingPeriodUpdateMessage.stock IPOQuotingPeriodUpdateMessage.stock_update,
     def_readwrite ''ipo_release_time'' IPOQuotingPeriodUpdateMessage.ipo_quotation_release_time IPOQuotingPeriodUpdateMessage.ipo_quotation_release_time_update,
     def_byte ''ipo_release_qualifier'' IPOQuotingPeriodUpdateMessage.ipo_quotation_release_qualifier IPOQuotingPeriodUpdateMessage.ipo_quotation_release_qualifier_update,
     def_readwrite ''ipo_price'' IPOQuotingPeriodUpdateMessage.ipo_price IPOQuotingPeriodUpdateMessage.ipo_price_update]"

definition LULDAuctionCollar_class :: "LULDAuctionCollarMessage PyClass" where
  "LULDAuctionCollar_class = with_attributes (bind_common LULDAuctionCollar blank_LULDAuctionCollar ''LULDAuctionCollarMessage'' ''LULD Auction Collar'' STANDARD_PRECISION)
    [def_byte_array ''stock'' 8 LULDAuctionCollarMessage.stock LULDAuctionCollarMessage.stock_update,
     def_readwrite ''auction_collar_reference_price'' LULDAuctionCollarMessage.auction_collar_reference_price LULDAuctionCollarMessage.auction_collar_reference_price_update,
     def_readwrite ''upper_auction_collar_price'' LULDAuctionCollarMessage.upper_auction_collar_price LULDAuctionCollarMessage.upper_auction_collar_price_update,
     def_readwrite ''lower_auction_collar_price'' LULDAuctionCollarMessage.lower_auction_collar_price LULDAuctionCollarMessage.lower_auction_collar_price_update,
     def_readwrite ''auction_collar_extention'' LULDAuctionCollarMessage.auction_collar_extension LULDAuctionCollarMessage.auction_collar_extension_update]"

definition OperationalHalt_class :: "OperationalHaltMessage PyClass" where
  "OperationalHalt_class = with_attributes (bind_common OperationalHalt blank_OperationalHalt ''OperationalHaltMessage'' ''Operational Halt'' STANDARD_PRECISION)
    [def_byte_array ''stock'' 8 OperationalHaltMessage.stock OperationalHaltMessage.stock_update,
     def_byte ''market_code'' OperationalHaltMessage.market_code OperationalHaltMessage.market_code_update,
     def_byte ''operational_halt_action'' OperationalHaltMessage.operational_halt_action OperationalHaltMessage.operational_halt_action_update]"

definition AddOrder_class :: "AddOrderMessage PyClass" where
  "AddOrder_class = with_attributes (bind_common AddOrder blank_AddOrder ''AddOrderNoMPIAttributionMessage'' ''Add Order - No MPID Attribution Message'' STANDARD_PRECISION)
    [def_readwrite ''order_reference_number'' AddOrderMessage.order_reference_number AddOrderMessage.order_reference_number_update,
     def_byte ''buy_sell_indicator'' AddOrderMessage.buy_sell_indicator AddOrderMessage.buy_sell_indicator_update,
     def_readwrite ''shares'' AddOrderMessage.shares AddOrderMessage.shares_update,
     def_byte_array ''stock'' 8 AddOrderMessage.stock AddOrderMessage.stock_update,
     def_readwrite ''price'' AddOrderMessage.price AddOrderMessage.price_update]"

definition AddOrderMPIDAttribution_class :: "AddOrderMPIDAttributionMessage PyClass" where
  "AddOrderMPIDAttribution_class = with_attributes (bind_common AddOrderMPIDAttribution blank_AddOrderMPIDAttribution ''AddOrderMPIDAttribution'' ''Add Order - MPID Attribution Message'' STANDARD_PRECISION)
    [def_readwrite ''order_reference_number'' AddOrderMPIDAttributionMessage.order_reference_number AddOrderMPIDAttributionMessage.order_reference_number_update,
     def_byte ''buy_sell_indicator'' AddOrderMPIDAttributionMessage.buy_sell_indicator AddOrderMPIDAttributionMessage.buy_sell_indicator_update,
     def_readwrite ''shares'' AddOrderMPIDAttributionMessage.shares AddOrderMPIDAttributionMessage.shares_update,
     def_byte_array ''stock'' 8 AddOrderMPIDAttributionMessage.stock AddOrderMPIDAttributionMessage.stock_update,
     def_readwrite ''price'' AddOrderMPIDAttributionMessage.price AddOrderMPIDAttributionMessage.price_update,
     def_byte_array ''attribution'' 4 AddOrderMPIDAttributionMessage.attribution AddOrderMPIDAttributionMessage.attribution_update]"

definition OrderExecuted_class :: "OrderExecutedMessage PyClass" where
  "OrderExecuted_class = with_attributes (bind_common OrderExecuted blank_OrderExecuted ''OrderExecutedMessage'' ''Add Order - Order Executed Message'' STANDARD_PRECISION)
    [def_readwrite ''order_reference_number'' OrderExecutedMessage.order_reference_number OrderExecutedMessage.order_reference_number_update,
     def_readwrite ''executed_shares'' OrderExecutedMessage.executed_shares OrderExecutedMessage.executed_shares_update,
     def_readwrite ''match_number'' OrderExecutedMessage.match_number OrderExecutedMessage.match_number_update]"

definition OrderExecutedWithPrice_class :: "OrderExecutedWithPriceMessage PyClass" where
  "OrderExecutedWithPrice_class = with_attributes (bind_common OrderExecutedWithPrice blank_OrderExecutedWithPrice ''OrderExecutedWithPriceMessage'' ''Add Order - Order Executed with Price Message'' STANDARD_PRECISION)
    [def_readwrite ''order_reference_number'' OrderExecutedWithPriceMessage.order_reference_number OrderExecutedWithPriceMessage.order_reference_number_update,
     def_readwrite ''executed_shares'' OrderExecutedWithPriceMessage.executed_shares OrderExecutedWithPriceMessage.executed_shares_update,
     def_readwrite ''match_number'' OrderExecutedWithPriceMessage.match_number OrderExecutedWithPriceMessage.match_number_update,
     def_byte ''printable'' OrderExecutedWithPriceMessage.printable OrderExecutedWithPriceMessage.printable_update,
     def_readwrite ''execution_price'' OrderExecutedWithPriceMessage.execution_price OrderExecutedWithPriceMessage.execution_price_update]"

definition OrderCancel_class :: "OrderCancelMessage PyClass" where
  "OrderCancel_class = with_attributes (bind_common OrderCancel blank_OrderCancel ''OrderCancelMessage'' ''Order Cancel Message'' STANDARD_PRECISION)
    [def_readwrite ''order_reference_number'' OrderCancelMessage.order_reference_number OrderCancelMessage.order_reference_number_update,
     def_readwrite ''cancelled_shares'' OrderCancelMessage.cancelled_shares OrderCancelMessage.cancelled_shares_update]"

definition OrderDelete_class :: "OrderDeleteMessage PyClass" where
  "OrderDelete_class = with_attributes (bind_common OrderDelete blank_OrderDelete ''OrderDeleteMessage'' ''Order Delete Message'' STANDARD_PRECISION)
    [def_readwrite ''order_reference_number'' OrderDeleteMessage.order_reference_number OrderDeleteMessage.order_reference_number_update]"

definition OrderReplace_class :: "OrderReplaceMessage PyClass" where
  "OrderReplace_class = with_attributes (bind_common OrderReplace blank_OrderReplace ''OrderReplaceMessage'' ''Order Replace Message'' STANDARD_PRECISION)
    [def_readwrite ''order_reference_number'' OrderReplaceMessage.original_order_reference_number OrderReplaceMessage.original_order_reference_number_update,
     def_readwrite ''new_order_reference_number'' OrderReplaceMessage.new_order_reference_number OrderReplaceMessage.new_order_reference_number_update,
     def_readwrite ''shares'' OrderReplaceMessage.shares OrderReplaceMessage.shares_update,
     def_readwrite ''price'' OrderReplaceMessage.price OrderReplaceMessage.price_update]"

definition NonCrossTrade_class :: "NonCrossTradeMessage PyClass" where
  "NonCrossTrade_class = with_attributes (bind_common NonCrossTrade blank_NonCrossTrade ''NonCrossTradeMessage'' ''Trade Message'' STANDARD_PRECISION)
    [def_readwrite ''order_reference_number'' NonCrossTradeMessage.order_reference_number NonCrossTradeMessage.order_reference_number_update,
     def_byte ''buy_sell_indicator'' NonCrossTradeMessage.buy_sell_indicator NonCrossTradeMessage.buy_sell_indicator_update,
     def_readwrite ''shares'' NonCrossTradeMessage.shares NonCrossTradeMessage.shares_update,
     def_byte_array ''stock'' 8 NonCrossTradeMessage.stock NonCrossTradeMessage.stock_update,
     def_readwrite ''price'' NonCrossTradeMessage.price NonCrossTradeMessage.price_update,
     def_readwrite ''match_number'' NonCrossTradeMessage.match_number NonCrossTradeMessage.match_number_update]"

definition CrossTrade_class :: "CrossTradeMessage PyClass" where
  "CrossTrade_class = with_attributes (bind_common CrossTrade blank_CrossTrade ''CrossTradeMessage'' ''Cross Trade Message'' STANDARD_PRECISION)
    [def_readwrite ''shares'' CrossTradeMessage.shares CrossTradeMessage.shares_update,
     def_byte_array ''stock'' 8 CrossTradeMessage.stock CrossTradeMessage.stock_update,
     def_readwrite ''cross_price'' CrossTradeMessage.cross_price CrossTradeMessage.cross_price_update,
     def_readwrite ''match_number'' CrossTradeMessage.match_number CrossTradeMessage.match_number_update,
     def_byte ''cross_type'' CrossTradeMessage.cross_type CrossTradeMessage.cross_type_update]"

definition BrokenTrade_class :: "BrokenTradeMessage PyClass" where
  "BrokenTrade_class = with_attributes (bind_common BrokenTrade blank_BrokenTrade ''BrokenTradeMessage'' ''Broken Trade Message'' STANDARD_PRECISION)
    [def_readwrite ''match_number'' BrokenTradeMessage.match_number BrokenTradeMessage.match_number_update]"

definition NOII_class :: "NOIIMessage PyClass" where
  "NOII_class = with_attributes (bind_common NOII blank_NOII ''NOIIMessage'' ''NOII Message'' STANDARD_PRECISION)
    [def_readwrite ''paired_shares'' NOIIMessage.paired_shares NOIIMessage.paired_shares_update,
     def_readwrite ''imbalance_shares'' NOIIMessage.imbalance_shares NOIIMessage.imbalance_shares_update,
     def_byte ''imbalance_direction'' NOIIMessage.imbalance_direction NOIIMessage.imbalance_direction_update,
     def_byte_array ''stock'' 8 NOIIMessage.stock NOIIMessage.stock_update,
     def_readwrite ''far_price'' NOIIMessage.far_price NOIIMessage.far_price_update,
     def_readwrite ''near_price'' NOIIMessage.near_price NOIIMessage.near_price_update,
     def_readwrite ''current_reference_price'' NOIIMessage.current_reference_price NOIIMessage.current_reference_price_update,
     def_byte ''cross_type'' NOIIMessage.cross_type NOIIMessage.cross_type_update,
     def_byte ''variation_indicator'' NOIIMessage.price_variation_indicator NOIIMessage.price_variation_indicator_update]"

definition RetailPriceImprovementIndicator_class :: "RetailPriceImprovementIndicatorMessage PyClass" where
  "RetailPriceImprovementIndicator_class = with_attributes (bind_common RetailPriceImprovementIndicator blank_RetailPriceImprovementIndicator ''RetailPriceImprovementIndicator'' ''Retail Interest message'' STANDARD_PRECISION)
    [def_byte_array ''stock'' 8 RetailPriceImprovementIndicatorMessage.stock RetailPriceImprovementIndicatorMessage.stock_update,
     def_byte ''interest_flag'' RetailPriceImprovementIndicatorMessage.interest_flag RetailPriceImprovementIndicatorMessage.interest_flag_update]"

definition DLCR_class :: "DLCRMessage PyClass" where
  "DLCR_class = with_attributes (bind_common DLCR blank_DLCR ''DLCRMessage'' ''Direct Listing with Capital Raise Message'' STANDARD_PRECISION)
    [def_byte_array ''stock'' 8 DLCRMessage.stock DLCRMessage.stock_update,
     def_byte ''open_eligibility_status'' DLCRMessage.open_eligibility_status DLCRMessage.open_eligibility_status_update,
     def_readwrite ''minimum_allowable_price'' DLCRMessage.minimum_allowable_price DLCRMessage.minimum_allowable_price_update,
     def_readwrite ''maximum_allowable_price'' DLCRMessage.maximum_allowable_price DLCRMessage.maximum_allowable_price_update,
     def_readwrite ''near_execution_price'' DLCRMessage.near_execution_price DLCRMessage.near_execution_price_update,
     def_readwrite ''near_execution_time'' DLCRMessage.near_execution_time DLCRMessage.near_execution_time_update,
     def_readwrite ''lower_price_range_collar'' DLCRMessage.lower_price_range_collar DLCRMessage.lower_price_range_collar_update,
     def_readwrite ''upper_price_range_collar'' DLCRMessage.upper_price_range_collar DLCRMessage.upper_price_range_collar_update]"

section \<open>Message objects\<close>

type_synonym bound_attribute = "string \<times> py_value \<times> (py_value \<Rightarrow> py_exception + Message)"

definition bind_attribute :: "('m \<Rightarrow> Message) \<Rightarrow> 'm \<Rightarrow> 'm Attribute \<Rightarrow> bound_attribute" where
  "bind_attribute message m a = (attr_name a, attr_get a m, \<lambda>v. map_sum id message (attr_set a v m))"

definition bind_object :: "('m \<Rightarrow> Message) \<Rightarrow> 'm PyClass \<Rightarrow> 'm \<Rightarrow> string \<times> bound_attribute list" where
  "bind_object message cls m = (class_name cls, map (bind_attribute message m) (class_attributes cls))"

fun python_object :: "Message \<Rightarrow> string \<times> bound_attribute list" where
  "python_object (SystemEvent m) = bind_object SystemEvent SystemEvent_class m"
| "python_object (StockDirectory m) = bind_object StockDirectory StockDirectory_class m"
| "python_object (StockTradingAction m) = bind_object StockTradingAction StockTradingAction_class m"
| "python_object (RegSHO m) = bind_object RegSHO RegSHO_class m"
| "python_object (MarketParticipantPosition m) = bind_object MarketParticipantPosition MarketParticipantPosition_class m"
| "python_object (MWCBDeclineLevel m) = bind_object MWCBDeclineLevel MWCBDeclineLevel_class m"
| "python_object (MWCBStatus m) = bind_object MWCBStatus MWCBStatus_class m"
| "python_object (IPOQuotingPeriodUpdate m) = bind_object IPOQuotingPeriodUpdate IPOQuotingPeriodUpdate_class m"
| "python_object (LULDAuctionCollar m) = bind_object LULDAuctionCollar LULDAuctionCollar_class m"
| "python_object (OperationalHalt m) = bind_object OperationalHalt OperationalHalt_class m"
| "python_object (AddOrder m) = bind_object AddOrder AddOrder_class m"
| "python_object (AddOrderMPIDAttribution m) = bind_object AddOrderMPIDAttribution AddOrderMPIDAttribution_class m"
| "python_object (OrderExecuted m) = bind_object OrderExecuted OrderExecuted_class m"
| "python_object (OrderExecutedWithPrice m) = bind_object OrderExecutedWithPrice OrderExecutedWithPrice_class m"
| "python_object (OrderCancel m) = bind_object OrderCancel OrderCancel_class m"
| "python_object (OrderDelete m) = bind_object OrderDelete OrderDelete_class m"
| "python_object (OrderReplace m) = bind_object OrderReplace OrderReplace_class m"
| "python_object (NonCrossTrade m) = bind_object NonCrossTrade NonCrossTrade_class m"
| "python_object (CrossTrade m) = bind_object CrossTrade CrossTrade_class m"
| "python_object (BrokenTrade m) = bind_object BrokenTrade BrokenTrade_class m"
| "python_object (NOII m) = bind_object NOII NOII_class m"
| "python_object (RetailPriceImprovementIndicator m) = bind_object RetailPriceImprovementIndicator RetailPriceImprovementIndicator_class m"
| "python_object (DLCR m) = bind_object DLCR DLCR_class m"

definition getattr :: "string list \<Rightarrow> Message \<Rightarrow> string \<Rightarrow> py_exception + py_value" where
  "getattr inherited m name = (case map_of (snd (python_object m)) name of
       Some (v, _) \<Rightarrow> Inr v
     | None \<Rightarrow> if name \<in> set inherited then Inr Method else Inl (Attribute_error name))"

definition setattr :: "Message \<Rightarrow> string \<Rightarrow> py_value \<Rightarrow> py_exception + Message" where
  "setattr m name v = (case map_of (snd (python_object m)) name of
       Some (_, assign) \<Rightarrow> assign v
     | None \<Rightarrow> Inl (Attribute_error name))"

text \<open>Names that start with two underscores, and names that contain a text.\<close>

definition is_dunder :: "string \<Rightarrow> bool" where
  "is_dunder name \<longleftrightarrow> take 2 name = ''__''"

fun has_infix :: "string \<Rightarrow> string \<Rightarrow> bool" where
  "has_infix p [] = (p = [])"
| "has_infix p (c # cs) = (take (length p) (c # cs) = p \<or> has_infix p cs)"

section \<open>Laws of the attributes\<close>

text \<open>
  What an assignment stores: bytes are cut or filled with zeros to the width of the attribute.
\<close>

definition stored :: "py_value \<Rightarrow> py_value \<Rightarrow> py_value" where
  "stored old v = (case (old, v) of
       (Bytes s, Bytes t) \<Rightarrow> Bytes (take (length s) t @ replicate (length s - length t) (CHR 0x00))
     | _ \<Rightarrow> v)"

text \<open>
  An assignment stores the value, keeps every other attribute, the type byte and the widths of
  the arrays; and only the name timestamp changes the timestamp.
\<close>

definition keeps :: "('m \<Rightarrow> Message) \<Rightarrow> 'm Attribute list \<Rightarrow> 'm Attribute \<Rightarrow> py_value \<Rightarrow> 'm \<Rightarrow> 'm \<Rightarrow> bool" where
  "keeps message attrs a v m m' \<longleftrightarrow> wf_arrays (message m') \<and> msg_type (message m') = msg_type (message m) \<and>
     message_type_of (message m') = message_type_of (message m) \<and>
     (attr_name a \<noteq> ''timestamp'' \<longrightarrow> timestamp_of (message m') = timestamp_of (message m)) \<and>
     attr_get a m' = stored (attr_get a m) v \<and>
     list_all (\<lambda>b. attr_name b \<noteq> attr_name a \<longrightarrow> attr_get b m' = attr_get b m) attrs"

definition assigns :: "('m \<Rightarrow> Message) \<Rightarrow> 'm Attribute list \<Rightarrow> 'm Attribute \<Rightarrow> bool" where
  "assigns message attrs a \<longleftrightarrow>
     (\<forall>m v m'. wf_arrays (message m) \<longrightarrow> attr_set a v m = Inr m' \<longrightarrow> keeps message attrs a v m m')"

definition class_ok :: "('m \<Rightarrow> Message) \<Rightarrow> 'm PyClass \<Rightarrow> bool" where
  "class_ok message cls \<longleftrightarrow> distinct (map attr_name (class_attributes cls)) \<and>
     list_all (assigns message (class_attributes cls)) (class_attributes cls)"

lemma attribute_simps [simp]:
  "attr_name (read_only n g) = n" "attr_name (def_byte n c u) = n" "attr_name (def_byte_array n k s t) = n" "attr_name (def_readwrite n w x) = n"
  "attr_get (read_only n g) m = g m" "attr_get (def_byte n c u) m = Bytes [c m]" "attr_get (def_byte_array n k s t) m = Bytes (s m)"
  "attr_get (def_readwrite n w x) m = Integer (uint (w m))"
  by (simp_all add: read_only_def def_byte_def def_byte_array_def def_readwrite_def)

definition first_char :: "char list \<Rightarrow> char" where
  "first_char s = (if s = [] then CHR 0x00 else hd s)"

lemma assigns_read_only: "assigns message attrs (read_only n g)"
  by (simp add: assigns_def read_only_def)

lemma assigns_def_byte:
  "assigns message attrs (def_byte n c u) \<longleftrightarrow>
   (\<forall>m s. wf_arrays (message m) \<longrightarrow> keeps message attrs (def_byte n c u) (Bytes s) m (u (\<lambda>_. first_char s) m))"
  by (auto simp: assigns_def def_byte_def first_char_def split: py_value.splits)

lemma attr_set_def_byte_array:
  "attr_set (def_byte_array n k g u) v m =
   (case v of Bytes s \<Rightarrow> Inr (u (\<lambda>_. take k s @ replicate (k - length s) (CHR 0x00)) m) | _ \<Rightarrow> Inl Type_error)"
proof -
  have "take (min (length s) k) s @ drop (min (length s) k) (replicate k c) = take k s @ replicate (k - length s) c" for s and c :: char
    by (simp add: min_def)
  then show ?thesis
    by (simp add: def_byte_array_def Let_def split: py_value.split)
qed

lemma assigns_def_byte_array:
  "assigns message attrs (def_byte_array n k g u) \<longleftrightarrow>
   (\<forall>m s. wf_arrays (message m) \<longrightarrow>
     keeps message attrs (def_byte_array n k g u) (Bytes s) m (u (\<lambda>_. take k s @ replicate (k - length s) (CHR 0x00)) m))"
  by (auto simp: assigns_def attr_set_def_byte_array split: py_value.splits)

lemma assigns_def_readwrite:
  fixes g :: "'m \<Rightarrow> 'a::len word"
  shows "assigns message attrs (def_readwrite n g u) \<longleftrightarrow>
   (\<forall>m i. wf_arrays (message m) \<longrightarrow> 0 \<le> i \<longrightarrow> i < 2 ^ LENGTH('a) \<longrightarrow>
     keeps message attrs (def_readwrite n g u) (Integer i) m (u (\<lambda>_. of_int i) m))"
  by (auto simp: assigns_def def_readwrite_def split: py_value.splits)

lemma stored_simps [simp]:
  "stored (Bytes s) (Bytes t) = Bytes (take (length s) t @ replicate (length s - length t) (CHR 0x00))"
  "stored (Integer i) v = v"
  by (simp_all add: stored_def)

lemma byte_stored: "take (Suc 0) s @ replicate (Suc 0 - length s) (CHR 0x00) = [first_char s]"
  by (cases s) (simp_all add: first_char_def)

lemma min_fill: "min a b + (b - a) = (b :: nat)"
  by simp

lemmas class_simps = min_fill class_ok_def bind_common_def with_attributes_def keeps_def message_type_of_def timestamp_of_def
  assigns_read_only assigns_def_byte assigns_def_byte_array assigns_def_readwrite byte_stored unsigned_of_int take_bit_int_eq_self

lemma SystemEvent_class_ok: "class_ok SystemEvent SystemEvent_class"
  by (simp add: SystemEvent_class_def class_simps)

lemma StockDirectory_class_ok: "class_ok StockDirectory StockDirectory_class"
  by (simp add: StockDirectory_class_def class_simps)

lemma StockTradingAction_class_ok: "class_ok StockTradingAction StockTradingAction_class"
  by (simp add: StockTradingAction_class_def class_simps)

lemma RegSHO_class_ok: "class_ok RegSHO RegSHO_class"
  by (simp add: RegSHO_class_def class_simps)

lemma MarketParticipantPosition_class_ok: "class_ok MarketParticipantPosition MarketParticipantPosition_class"
  by (simp add: MarketParticipantPosition_class_def class_simps)

lemma MWCBDeclineLevel_class_ok: "class_ok MWCBDeclineLevel MWCBDeclineLevel_class"
  by (simp add: MWCBDeclineLevel_class_def class_simps)

lemma MWCBStatus_class_ok: "class_ok MWCBStatus MWCBStatus_class"
  by (simp add: MWCBStatus_class_def class_simps)

lemma IPOQuotingPeriodUpdate_class_ok: "class_ok IPOQuotingPeriodUpdate IPOQuotingPeriodUpdate_class"
  by (simp add: IPOQuotingPeriodUpdate_class_def class_simps)

lemma LULDAuctionCollar_class_ok: "class_ok LULDAuctionCollar LULDAuctionCollar_class"
  by (simp add: LULDAuctionCollar_class_def class_simps)

lemma OperationalHalt_class_ok: "class_ok OperationalHalt OperationalHalt_class"
  by (simp add: OperationalHalt_class_def class_simps)

lemma AddOrder_class_ok: "class_ok AddOrder AddOrder_class"
  by (simp add: AddOrder_class_def class_simps)

lemma AddOrderMPIDAttribution_class_ok: "class_ok AddOrderMPIDAttribution AddOrderMPIDAttribution_class"
  by (simp add: AddOrderMPIDAttribution_class_def class_simps)

lemma OrderExecuted_class_ok: "class_ok OrderExecuted OrderExecuted_class"
  by (simp add: OrderExecuted_class_def class_simps)

lemma OrderExecutedWithPrice_class_ok: "class_ok OrderExecutedWithPrice OrderExecutedWithPrice_class"
  by (simp add: OrderExecutedWithPrice_class_def class_simps)

lemma OrderCancel_class_ok: "class_ok OrderCancel OrderCancel_class"
  by (simp add: OrderCancel_class_def class_simps)

lemma OrderDelete_class_ok: "class_ok OrderDelete OrderDelete_class"
  by (simp add: OrderDelete_class_def class_simps)

lemma OrderReplace_class_ok: "class_ok OrderReplace OrderReplace_class"
  by (simp add: OrderReplace_class_def class_simps)

lemma NonCrossTrade_class_ok: "class_ok NonCrossTrade NonCrossTrade_class"
  by (simp add: NonCrossTrade_class_def class_simps)

lemma CrossTrade_class_ok: "class_ok CrossTrade CrossTrade_class"
  by (simp add: CrossTrade_class_def class_simps)

lemma BrokenTrade_class_ok: "class_ok BrokenTrade BrokenTrade_class"
  by (simp add: BrokenTrade_class_def class_simps)

lemma NOII_class_ok: "class_ok NOII NOII_class"
  by (simp add: NOII_class_def class_simps)

lemma RetailPriceImprovementIndicator_class_ok: "class_ok RetailPriceImprovementIndicator RetailPriceImprovementIndicator_class"
  by (simp add: RetailPriceImprovementIndicator_class_def class_simps)

lemma DLCR_class_ok: "class_ok DLCR DLCR_class"
  by (simp add: DLCR_class_def class_simps)

text \<open>The names with a price in them are integers, but for the two that are excluded; no name is hidden.\<close>

definition class_plain :: "'m PyClass \<Rightarrow> bool" where
  "class_plain cls \<longleftrightarrow> list_all (\<lambda>a. \<not> is_dunder (attr_name a) \<and> (has_infix ''price'' (attr_name a) \<longrightarrow>
     attr_name a \<in> {''price_precision'', ''decode_price''} \<or> (\<forall>m. \<exists>n. attr_get a m = Integer n))) (class_attributes cls)"

lemmas plain_simps = class_plain_def bind_common_def with_attributes_def is_dunder_def

lemma SystemEvent_class_plain: "class_plain SystemEvent_class"
  by (simp add: SystemEvent_class_def plain_simps)

lemma StockDirectory_class_plain: "class_plain StockDirectory_class"
  by (simp add: StockDirectory_class_def plain_simps)

lemma StockTradingAction_class_plain: "class_plain StockTradingAction_class"
  by (simp add: StockTradingAction_class_def plain_simps)

lemma RegSHO_class_plain: "class_plain RegSHO_class"
  by (simp add: RegSHO_class_def plain_simps)

lemma MarketParticipantPosition_class_plain: "class_plain MarketParticipantPosition_class"
  by (simp add: MarketParticipantPosition_class_def plain_simps)

lemma MWCBDeclineLevel_class_plain: "class_plain MWCBDeclineLevel_class"
  by (simp add: MWCBDeclineLevel_class_def plain_simps)

lemma MWCBStatus_class_plain: "class_plain MWCBStatus_class"
  by (simp add: MWCBStatus_class_def plain_simps)

lemma IPOQuotingPeriodUpdate_class_plain: "class_plain IPOQuotingPeriodUpdate_class"
  by (simp add: IPOQuotingPeriodUpdate_class_def plain_simps)

lemma LULDAuctionCollar_class_plain: "class_plain LULDAuctionCollar_class"
  by (simp add: LULDAuctionCollar_class_def plain_simps)

lemma OperationalHalt_class_plain: "class_plain OperationalHalt_class"
  by (simp add: OperationalHalt_class_def plain_simps)

lemma AddOrder_class_plain: "class_plain AddOrder_class"
  by (simp add: AddOrder_class_def plain_simps)

lemma AddOrderMPIDAttribution_class_plain: "class_plain AddOrderMPIDAttribution_class"
  by (simp add: AddOrderMPIDAttribution_class_def plain_simps)

lemma OrderExecuted_class_plain: "class_plain OrderExecuted_class"
  by (simp add: OrderExecuted_class_def plain_simps)

lemma OrderExecutedWithPrice_class_plain: "class_plain OrderExecutedWithPrice_class"
  by (simp add: OrderExecutedWithPrice_class_def plain_simps)

lemma OrderCancel_class_plain: "class_plain OrderCancel_class"
  by (simp add: OrderCancel_class_def plain_simps)

lemma OrderDelete_class_plain: "class_plain OrderDelete_class"
  by (simp add: OrderDelete_class_def plain_simps)

lemma OrderReplace_class_plain: "class_plain OrderReplace_class"
  by (simp add: OrderReplace_class_def plain_simps)

lemma NonCrossTrade_class_plain: "class_plain NonCrossTrade_class"
  by (simp add: NonCrossTrade_class_def plain_simps)

lemma CrossTrade_class_plain: "class_plain CrossTrade_class"
  by (simp add: CrossTrade_class_def plain_simps)

lemma BrokenTrade_class_plain: "class_plain BrokenTrade_class"
  by (simp add: BrokenTrade_class_def plain_simps)

lemma NOII_class_plain: "class_plain NOII_class"
  by (simp add: NOII_class_def plain_simps)

lemma RetailPriceImprovementIndicator_class_plain: "class_plain RetailPriceImprovementIndicator_class"
  by (simp add: RetailPriceImprovementIndicator_class_def plain_simps)

lemma DLCR_class_plain: "class_plain DLCR_class"
  by (simp add: DLCR_class_def plain_simps)

lemmas class_defs =
  SystemEvent_class_def StockDirectory_class_def StockTradingAction_class_def RegSHO_class_def
  MarketParticipantPosition_class_def MWCBDeclineLevel_class_def MWCBStatus_class_def
  IPOQuotingPeriodUpdate_class_def LULDAuctionCollar_class_def OperationalHalt_class_def AddOrder_class_def
  AddOrderMPIDAttribution_class_def OrderExecuted_class_def OrderExecutedWithPrice_class_def
  OrderCancel_class_def OrderDelete_class_def OrderReplace_class_def NonCrossTrade_class_def
  CrossTrade_class_def BrokenTrade_class_def NOII_class_def RetailPriceImprovementIndicator_class_def
  DLCR_class_def

lemmas classes_ok =
  SystemEvent_class_ok StockDirectory_class_ok StockTradingAction_class_ok RegSHO_class_ok
  MarketParticipantPosition_class_ok MWCBDeclineLevel_class_ok MWCBStatus_class_ok
  IPOQuotingPeriodUpdate_class_ok LULDAuctionCollar_class_ok OperationalHalt_class_ok AddOrder_class_ok
  AddOrderMPIDAttribution_class_ok OrderExecuted_class_ok OrderExecutedWithPrice_class_ok OrderCancel_class_ok
  OrderDelete_class_ok OrderReplace_class_ok NonCrossTrade_class_ok CrossTrade_class_ok BrokenTrade_class_ok
  NOII_class_ok RetailPriceImprovementIndicator_class_ok DLCR_class_ok

lemmas classes_plain =
  SystemEvent_class_plain StockDirectory_class_plain StockTradingAction_class_plain RegSHO_class_plain
  MarketParticipantPosition_class_plain MWCBDeclineLevel_class_plain MWCBStatus_class_plain
  IPOQuotingPeriodUpdate_class_plain LULDAuctionCollar_class_plain OperationalHalt_class_plain
  AddOrder_class_plain AddOrderMPIDAttribution_class_plain OrderExecuted_class_plain
  OrderExecutedWithPrice_class_plain OrderCancel_class_plain OrderDelete_class_plain OrderReplace_class_plain
  NonCrossTrade_class_plain CrossTrade_class_plain BrokenTrade_class_plain NOII_class_plain
  RetailPriceImprovementIndicator_class_plain DLCR_class_plain

section \<open>Message objects\<close>

definition object_names :: "Message \<Rightarrow> string list" where
  "object_names m = map fst (snd (python_object m))"

text \<open>The laws at the level of messages.\<close>

definition assignment_laws :: "Message \<Rightarrow> bool" where
  "assignment_laws m \<longleftrightarrow> (\<forall>inherited name v m'. setattr m name v = Inr m' \<longrightarrow>
     wf_arrays m' \<and> msg_type m' = msg_type m \<and> message_type_of m' = message_type_of m \<and>
     (name \<noteq> ''timestamp'' \<longrightarrow> timestamp_of m' = timestamp_of m) \<and>
     (\<exists>old. getattr inherited m name = Inr old \<and> getattr inherited m' name = Inr (stored old v)) \<and>
     (\<forall>other. other \<noteq> name \<longrightarrow> getattr inherited m' other = getattr inherited m other))"

lemma lookup_bound:
  "map_of (snd (bind_object message cls x)) name =
   map_option (\<lambda>a. snd (bind_attribute message x a)) (find (\<lambda>a. attr_name a = name) (class_attributes cls))"
proof -
  have "map_of (map (bind_attribute message x) as) name = map_option (\<lambda>a. snd (bind_attribute message x a)) (find (\<lambda>a. attr_name a = name) as)" for as
    by (induction as) (auto simp: bind_attribute_def)
  then show ?thesis
    by (simp add: bind_object_def)
qed

lemma assignment_lawsI:
  assumes "class_ok message cls" "\<And>y. python_object (message y) = bind_object message cls y" "wf_arrays (message x)"
  shows "assignment_laws (message x)"
  unfolding assignment_laws_def
proof (intro allI impI)
  fix inherited name v m'
  assume set: "setattr (message x) name v = Inr m'"
  then obtain a where a: "find (\<lambda>a. attr_name a = name) (class_attributes cls) = Some a"
    by (auto simp: setattr_def assms(2) lookup_bound split: option.splits)
  then obtain y where y: "attr_set a v x = Inr y" "m' = message y"
    using set by (cases "attr_set a v x") (auto simp: setattr_def assms(2) lookup_bound bind_attribute_def)
  have mem: "a \<in> set (class_attributes cls)" "attr_name a = name"
    using a by (auto simp: find_Some_iff)
  then have keeps: "keeps message (class_attributes cls) a v x y"
    using assms(1,3) y(1) by (auto simp: class_ok_def assigns_def list_all_iff)
  have "getattr inherited (message y) other = getattr inherited (message x) other" if "other \<noteq> name" for other
  proof (cases "find (\<lambda>a. attr_name a = other) (class_attributes cls)")
    case (Some b)
    then have "b \<in> set (class_attributes cls)" "attr_name b = other"
      by (auto simp: find_Some_iff)
    then have "attr_get b y = attr_get b x"
      using keeps that mem(2) by (auto simp: keeps_def list_all_iff)
    then show ?thesis
      using Some by (simp add: getattr_def assms(2) lookup_bound bind_attribute_def)
  qed (simp add: getattr_def assms(2) lookup_bound)
  then show "wf_arrays m' \<and> msg_type m' = msg_type (message x) \<and> message_type_of m' = message_type_of (message x) \<and>
     (name \<noteq> ''timestamp'' \<longrightarrow> timestamp_of m' = timestamp_of (message x)) \<and>
     (\<exists>old. getattr inherited (message x) name = Inr old \<and> getattr inherited m' name = Inr (stored old v)) \<and>
     (\<forall>other. other \<noteq> name \<longrightarrow> getattr inherited m' other = getattr inherited (message x) other)"
    using keeps a mem(2) by (simp add: keeps_def y(2) getattr_def assms(2) lookup_bound bind_attribute_def)
qed

lemma assignment_laws: "wf_arrays m \<Longrightarrow> assignment_laws m"
  by (cases m) (simp_all only: classes_ok [THEN assignment_lawsI] python_object.simps simp_thms)

lemma getattr_precision:
  "getattr inherited m ''price_precision'' = Inr (Integer (if msg_type m = MWCBDeclineLevelT then 8 else 4))"
  by (cases m) (simp_all add: getattr_def bind_object_def bind_attribute_def bind_common_def with_attributes_def class_defs
      STANDARD_PRECISION_def MWCB_PRECISION_def)

lemma getattr_timestamp: "getattr inherited m ''timestamp'' = Inr (Integer (uint (timestamp_of m)))"
  by (cases m) (simp_all add: getattr_def bind_object_def bind_attribute_def bind_common_def with_attributes_def class_defs timestamp_of_def)

text \<open>An object has the names of its class; what carries a price in its name is an integer.\<close>

definition names_plain :: "Message \<Rightarrow> bool" where
  "names_plain m \<longleftrightarrow> (\<forall>name \<in> set (object_names m). \<not> is_dunder name \<and>
     (has_infix ''price'' name \<longrightarrow> name \<in> {''price_precision'', ''decode_price''} \<or> (\<forall>inherited. \<exists>n. getattr inherited m name = Inr (Integer n))))"

lemma names_plainI:
  assumes "class_plain cls" "python_object (message x) = bind_object message cls x"
  shows "names_plain (message x)"
  unfolding names_plain_def
proof
  fix name
  assume "name \<in> set (object_names (message x))"
  then obtain c where c: "c \<in> set (class_attributes cls)" "attr_name c = name"
    by (auto simp: object_names_def assms(2) bind_object_def bind_attribute_def)
  then obtain a where a: "find (\<lambda>a. attr_name a = name) (class_attributes cls) = Some a"
    by (cases "find (\<lambda>a. attr_name a = name) (class_attributes cls)") (auto simp: find_None_iff)
  then have mem: "a \<in> set (class_attributes cls)" "attr_name a = name"
    by (auto simp: find_Some_iff)
  then have "\<not> is_dunder name" "has_infix ''price'' name \<Longrightarrow> name \<in> {''price_precision'', ''decode_price''} \<or> (\<exists>n. attr_get a x = Integer n)"
    using assms(1) by (auto simp: class_plain_def list_all_iff)
  then show "\<not> is_dunder name \<and>
     (has_infix ''price'' name \<longrightarrow> name \<in> {''price_precision'', ''decode_price''} \<or> (\<forall>inherited. \<exists>n. getattr inherited (message x) name = Inr (Integer n)))"
    using a by (auto simp: getattr_def assms(2) lookup_bound bind_attribute_def)
qed

lemma names_plain: "names_plain m"
  by (cases m) (simp_all only: classes_plain [THEN names_plainI] python_object.simps simp_thms)

end
