(* ===== verification/Python_Objects.thy ===== *)
theory Python_Objects
  imports Python_Messages "HOL-Library.List_Lexorder" "HOL-Library.Char_ord"
begin

text \<open>
  The helpers of \<^verbatim>\<open>python/src/bindings.cpp\<close> that work on any message object (\<^verbatim>\<open>decode_price\<close>,
  \<^verbatim>\<open>get_attributes\<close>, \<^verbatim>\<open>decode\<close>), the constructor from a body, and the factory \<^verbatim>\<open>create_message\<close>.
\<close>

section \<open>Helpers\<close>

text \<open>\<^verbatim>\<open>dir\<close> lists the names in order; those that start with two underscores are left out.\<close>

definition dir :: "string list \<Rightarrow> Message \<Rightarrow> string list" where
  "dir inherited m = sort (remdups (map fst (snd (python_object m)) @ inherited))"

definition message_decode_price :: "string list \<Rightarrow> Message \<Rightarrow> string \<Rightarrow> py_exception + py_value" where
  "message_decode_price inherited m price_attr = (case getattr inherited m price_attr of
       Inl e \<Rightarrow> Inl e
     | Inr v \<Rightarrow> if is_callable v then Inl (Py (Value_error (''Please check the price attribute for '' @ price_attr)))
         else (case getattr inherited m ''price_precision'' of
             Inl e \<Rightarrow> Inl e
           | Inr precision \<Rightarrow> (case (v, precision) of
               (Integer n, Integer p) \<Rightarrow> Inr (Float (rnd (of_int n / 10 ^ nat p)))
             | _ \<Rightarrow> Inl Type_error)))"

definition message_get_attributes :: "string list \<Rightarrow> Message \<Rightarrow> bool \<Rightarrow> string list" where
  "message_get_attributes inherited m call_able =
     filter (\<lambda>name. \<not> is_dunder name \<and> (case getattr inherited m name of Inr v \<Rightarrow> is_callable v = call_able | Inl _ \<Rightarrow> False))
       (dir inherited m)"

definition is_ascii :: "char list \<Rightarrow> bool" where
  "is_ascii s \<longleftrightarrow> list_all (\<lambda>c. (of_char c :: nat) < 128) s"

text \<open>\<^verbatim>\<open>str.rstrip\<close> on ASCII text.\<close>

definition is_py_space :: "char \<Rightarrow> bool" where
  "is_py_space c \<longleftrightarrow> (let n = of_char c :: nat in (9 \<le> n \<and> n \<le> 13) \<or> (28 \<le> n \<and> n \<le> 32))"

definition rstrip :: "string \<Rightarrow> string" where
  "rstrip s = rev (dropWhile is_py_space (rev s))"

definition decode_attribute :: "string list \<Rightarrow> Message \<Rightarrow> string \<Rightarrow> (string \<times> py_value) list \<Rightarrow> py_exception + (string \<times> py_value) list" where
  "decode_attribute inherited m name attrs =
     (if is_dunder name then Inr attrs
      else case getattr inherited m name of Inl e \<Rightarrow> Inl e
        | Inr v \<Rightarrow>
          (case (if has_infix ''price'' name \<and> name \<noteq> ''price_precision'' \<and> name \<noteq> ''decode_price''
                 then message_decode_price inherited m name else Inr v) of
             Inl e \<Rightarrow> Inl e
           | Inr v \<Rightarrow>
               if is_callable v then Inr attrs
               else (case v of
                   Bytes s \<Rightarrow> if is_ascii s then Inr (attrs @ [(name, Str (rstrip s))]) else Inl Unicode_decode_error
                 | _ \<Rightarrow> Inr (attrs @ [(name, v)]))))"

fun decode_attributes :: "string list \<Rightarrow> Message \<Rightarrow> string list \<Rightarrow> (string \<times> py_value) list \<Rightarrow> py_exception + (string \<times> py_value) list" where
  "decode_attributes inherited m [] attrs = Inr attrs"
| "decode_attributes inherited m (name # names) attrs =
     (case decode_attribute inherited m name attrs of Inl e \<Rightarrow> Inl e | Inr attrs \<Rightarrow> decode_attributes inherited m names attrs)"

text \<open>The dataclass: its name and its fields with their values.\<close>

definition message_decode :: "string list \<Rightarrow> Message \<Rightarrow> string \<Rightarrow> py_exception + string \<times> (string \<times> py_value) list" where
  "message_decode inherited m prefix = (case decode_attributes inherited m (dir inherited m) [] of
       Inl e \<Rightarrow> Inl e
     | Inr attrs \<Rightarrow> Inr (prefix @ fst (python_object m), attrs))"

text \<open>The constructor of a class from a body.\<close>

definition message_init :: "MsgType \<Rightarrow> byte list \<Rightarrow> (py_exception + Message) option" where
  "message_init t body = do {
     r \<leftarrow> unpack_body body;
     Some (case r of Inl e \<Rightarrow> Inl (Py e) | Inr m \<Rightarrow> if msg_type m = t then Inr m else Inl Bad_variant_access) }"

section \<open>create\_message\<close>

definition type_to_factory :: "(char \<times> Message) list" where
  "type_to_factory =
    [(CHR ''S'', SystemEvent blank_SystemEvent),
     (CHR ''R'', StockDirectory blank_StockDirectory),
     (CHR ''H'', StockTradingAction blank_StockTradingAction),
     (CHR ''Y'', RegSHO blank_RegSHO),
     (CHR ''L'', MarketParticipantPosition blank_MarketParticipantPosition),
     (CHR ''V'', MWCBDeclineLevel blank_MWCBDeclineLevel),
     (CHR ''W'', MWCBStatus blank_MWCBStatus),
     (CHR ''K'', IPOQuotingPeriodUpdate blank_IPOQuotingPeriodUpdate),
     (CHR ''J'', LULDAuctionCollar blank_LULDAuctionCollar),
     (CHR ''h'', OperationalHalt blank_OperationalHalt),
     (CHR ''A'', AddOrder blank_AddOrder),
     (CHR ''F'', AddOrderMPIDAttribution blank_AddOrderMPIDAttribution),
     (CHR ''E'', OrderExecuted blank_OrderExecuted),
     (CHR ''C'', OrderExecutedWithPrice blank_OrderExecutedWithPrice),
     (CHR ''X'', OrderCancel blank_OrderCancel),
     (CHR ''D'', OrderDelete blank_OrderDelete),
     (CHR ''U'', OrderReplace blank_OrderReplace),
     (CHR ''P'', NonCrossTrade blank_NonCrossTrade),
     (CHR ''Q'', CrossTrade blank_CrossTrade),
     (CHR ''B'', BrokenTrade blank_BrokenTrade),
     (CHR ''I'', NOII blank_NOII),
     (CHR ''N'', RetailPriceImprovementIndicator blank_RetailPriceImprovementIndicator),
     (CHR ''O'', DLCR blank_DLCR)]"

definition timestamp_mask :: u64 where
  "timestamp_mask = push_bit 48 1 - 1"

definition cast_u64 :: "py_value \<Rightarrow> u64 option" where
  "cast_u64 v = (case v of Integer n \<Rightarrow> if 0 \<le> n \<and> n < 2 ^ 64 then Some (of_int n) else None | _ \<Rightarrow> None)"

fun assign_kwargs :: "Message \<Rightarrow> (string \<times> py_value) list \<Rightarrow> py_exception + Message" where
  "assign_kwargs instance' [] = Inr instance'"
| "assign_kwargs instance' ((name, v) # kwargs) =
     (case (if name = ''timestamp'' then
              (case cast_u64 v of None \<Rightarrow> Inl Cast_error
                | Some t \<Rightarrow> setattr instance' ''timestamp'' (Integer (uint (t AND timestamp_mask))))
            else setattr instance' name v) of
        Inl e \<Rightarrow> Inl e
      | Inr instance' \<Rightarrow> assign_kwargs instance' kwargs)"

definition create_message :: "char list \<Rightarrow> (string \<times> py_value) list \<Rightarrow> py_exception + Message" where
  "create_message type_text kwargs =
     (if length type_text \<noteq> 1 then Inl (Py (Value_error ''message_type must be a single byte''))
      else case map_of type_to_factory (hd type_text) of
          None \<Rightarrow> Inl (Py (Value_error (''Unknown message type: '' @ type_text)))
        | Some blank \<Rightarrow> assign_kwargs blank kwargs)"

section \<open>Lemmas\<close>

lemma set_dir: "set (dir inherited m) = set (object_names m) \<union> set inherited"
  by (auto simp: dir_def object_names_def)

lemma getattr_known: "name \<in> set (object_names m) \<Longrightarrow> \<exists>v. getattr inherited m name = Inr v \<and> getattr [] m name = Inr v"
  by (cases "map_of (snd (python_object m)) name") (auto simp: object_names_def getattr_def map_of_eq_None_iff)

lemma getattr_inherited: "name \<notin> set (object_names m) \<Longrightarrow> getattr inherited m name = (if name \<in> set inherited then Inr Method else Inl (Attribute_error name))"
  by (simp add: object_names_def getattr_def map_of_eq_None_iff [THEN iffD2])

text \<open>The decoded attribute: the entry of the dataclass, if it has one.\<close>

definition price_value :: "Message \<Rightarrow> int \<Rightarrow> rat" where
  "price_value m n = rnd (of_int n / 10 ^ (if msg_type m = MWCBDeclineLevelT then 8 else 4))"

definition is_price_name :: "string \<Rightarrow> bool" where
  "is_price_name name \<longleftrightarrow> has_infix ''price'' name \<and> name \<noteq> ''price_precision'' \<and> name \<noteq> ''decode_price''"

definition decoded :: "Message \<Rightarrow> string \<Rightarrow> (string \<times> py_value) list" where
  "decoded m name = (case getattr [] m name of
       Inr (Integer n) \<Rightarrow> [(name, if is_price_name name then Float (price_value m n) else Integer n)]
     | Inr (Bytes s) \<Rightarrow> [(name, Str (rstrip s))]
     | Inr Method \<Rightarrow> []
     | Inr v \<Rightarrow> [(name, v)]
     | Inl _ \<Rightarrow> [])"

definition ascii_value :: "Message \<Rightarrow> string \<Rightarrow> bool" where
  "ascii_value m name \<longleftrightarrow> (case getattr [] m name of Inr (Bytes s) \<Rightarrow> is_ascii s | _ \<Rightarrow> True)"

lemma decode_price_integer:
  "getattr inherited m name = Inr (Integer n) \<Longrightarrow> message_decode_price inherited m name = Inr (Float (price_value m n))"
  by (simp add: message_decode_price_def is_callable_def getattr_precision price_value_def)

lemma decode_attribute_eq:
  assumes "name \<in> set (object_names m) \<union> set inherited" "\<not> has_infix ''price'' name \<or> name \<in> set (object_names m)"
  shows "decode_attribute inherited m name attrs =
    (if ascii_value m name then Inr (attrs @ decoded m name) else Inl Unicode_decode_error)"
proof (cases "name \<in> set (object_names m)")
  case True
  then obtain v where v: "getattr inherited m name = Inr v" "getattr [] m name = Inr v"
    using getattr_known by blast
  show ?thesis
  proof (cases "is_price_name name")
    case price: True
    then obtain n where "getattr inherited m name = Inr (Integer n)"
      using names_plain [of m] True by (auto simp: names_plain_def is_price_name_def)
    moreover from this have "v = Integer n"
      using v(1) by simp
    ultimately show ?thesis
      using True names_plain [of m] v price
      by (auto simp: decode_attribute_def names_plain_def decoded_def ascii_value_def is_price_name_def decode_price_integer is_callable_def)
  next
    case False
    then show ?thesis
      using True names_plain [of m] v
      by (cases v) (auto simp: decode_attribute_def names_plain_def decoded_def ascii_value_def is_price_name_def is_callable_def)
  qed
next
  case False
  then show ?thesis
    using assms by (simp add: decode_attribute_def decoded_def ascii_value_def getattr_inherited is_callable_def)
qed

lemma decode_attributes_eq:
  assumes "set names \<subseteq> set (object_names m) \<union> set inherited" "list_all (\<lambda>n. \<not> has_infix ''price'' n) inherited"
  shows "decode_attributes inherited m names attrs =
    (if list_all (ascii_value m) names then Inr (attrs @ concat (map (decoded m) names)) else Inl Unicode_decode_error)"
  using assms(1)
proof (induction names arbitrary: attrs)
  case (Cons name names)
  have "\<not> has_infix ''price'' name \<or> name \<in> set (object_names m)"
    using Cons.prems assms(2) by (auto simp: list_all_iff)
  then show ?case
    using decode_attribute_eq [of name m inherited attrs] Cons by simp
qed simp

lemma message_size_wire: "getattr inherited m ''message_size'' = Inr (Integer (int (WIRE_SIZE (msg_type m))))"
  by (cases m) (simp_all add: getattr_def bind_object_def bind_attribute_def bind_common_def with_attributes_def class_defs
      length_encode_message blank_defs del: encode_message.simps)

text \<open>The factories build well-formed messages, and the keyword arguments keep them so.\<close>

lemma factory_wf: "map_of type_to_factory c = Some m \<Longrightarrow> wf_message m \<and> message_type_of m = c"
  unfolding type_to_factory_def
  by (auto simp: wf_message_def wf_header_def message_type_of_def blank_defs split: if_splits)

lemma masked: "t AND timestamp_mask = take_bit 48 t"
proof -
  have "timestamp_mask = mask 48"
    by (simp add: timestamp_mask_def mask_eq_exp_minus_1 push_bit_eq_mult)
  then show ?thesis
    by (simp only: take_bit_eq_mask)
qed

lemma masked_bound: "unat (t AND timestamp_mask) < 2 ^ 48"
  unfolding masked unsigned_take_bit_eq by (simp add: take_bit_eq_mod)

lemma setattr_timestamp:
  assumes "wf_arrays m" "setattr m ''timestamp'' (Integer (uint t)) = Inr m'"
  shows "timestamp_of m' = t"
proof -
  obtain old where "getattr [] m ''timestamp'' = Inr old" "getattr [] m' ''timestamp'' = Inr (stored old (Integer (uint t)))"
    using assignment_laws [OF assms(1), unfolded assignment_laws_def] assms(2) by blast
  then have "uint (timestamp_of m') = uint t"
    by (auto simp: getattr_timestamp)
  then show ?thesis
    by (simp only: word_uint_eq_iff)
qed

lemma wf_message_parts: "wf_message m \<longleftrightarrow> wf_arrays m \<and> message_type_of m = type_byte (msg_type m) \<and> unat (timestamp_of m) < 2 ^ 48"
  by (auto simp: wf_message_def wf_header_def message_type_of_def timestamp_of_def)

text \<open>The value a keyword argument leaves in its attribute.\<close>

definition kwarg_value :: "string \<Rightarrow> py_value \<Rightarrow> py_value" where
  "kwarg_value name v = (case (name = ''timestamp'', v) of (True, Integer n) \<Rightarrow> Integer (n mod 2 ^ 48) | _ \<Rightarrow> v)"

lemma setattr_keeps:
  assumes "wf_message m" "setattr m name v = Inr m'" "unat (timestamp_of m') < 2 ^ 48"
  shows "wf_message m' \<and> msg_type m' = msg_type m \<and>
    (\<exists>old. getattr [] m name = Inr old \<and> getattr [] m' name = Inr (stored old v)) \<and>
    (\<forall>other. other \<noteq> name \<longrightarrow> getattr [] m' other = getattr [] m other)"
proof -
  have "wf_arrays m" "message_type_of m = type_byte (msg_type m)"
    using assms(1) by (simp_all add: wf_message_parts)
  then show ?thesis
    using assignment_laws [OF \<open>wf_arrays m\<close>, unfolded assignment_laws_def, rule_format, OF assms(2), of "[]"] assms(3)
    by (simp add: wf_message_parts)
qed

lemma assign_one:
  assumes "wf_message m" "assign_kwargs m ((name, v) # kwargs) = Inr m'"
  shows "\<exists>m1. assign_kwargs m1 kwargs = Inr m' \<and> wf_message m1 \<and> msg_type m1 = msg_type m \<and>
    (\<exists>old. getattr [] m name = Inr old \<and> getattr [] m1 name = Inr (stored old (kwarg_value name v))) \<and>
    (\<forall>other. other \<noteq> name \<longrightarrow> getattr [] m1 other = getattr [] m other)"
proof (cases "name = ''timestamp''")
  case True
  with assms(2) obtain t m1 where t: "cast_u64 v = Some t" "setattr m ''timestamp'' (Integer (uint (t AND timestamp_mask))) = Inr m1"
      "assign_kwargs m1 kwargs = Inr m'"
    by (auto split: option.splits sum.splits)
  have "kwarg_value name v = Integer (uint (t AND timestamp_mask))"
  proof -
    obtain n where n: "v = Integer n" "0 \<le> n" "n < 2 ^ 64" "t = of_int n"
      using t(1) by (auto simp: cast_u64_def split: py_value.splits if_splits)
    have "uint (t AND timestamp_mask) = n mod 2 ^ 48"
      unfolding masked unsigned_take_bit_eq n(4) by (simp add: unsigned_of_int) (simp add: take_bit_eq_mod)
    then show ?thesis
      by (simp add: kwarg_value_def True n(1))
  qed
  moreover have "timestamp_of m1 = t AND timestamp_mask"
    using assms(1) unfolding wf_message_def by (intro setattr_timestamp [OF _ t(2)]) simp
  ultimately show ?thesis
    using setattr_keeps [OF assms(1) t(2)] masked_bound [of t] t(3) by (auto simp: True)
next
  case False
  with assms(2) obtain m1 where m1: "setattr m name v = Inr m1" "assign_kwargs m1 kwargs = Inr m'"
    by (auto split: sum.splits)
  moreover have "unat (timestamp_of m1) < 2 ^ 48"
    using assignment_laws [of m, unfolded assignment_laws_def, rule_format, OF _ m1(1)] assms(1) False by (auto simp: wf_message_parts)
  moreover have "kwarg_value name v = v"
    using False by (simp add: kwarg_value_def)
  ultimately show ?thesis
    using setattr_keeps [OF assms(1) m1(1)] by auto
qed

lemma assign_kwargs_keeps:
  assumes "wf_message m" "assign_kwargs m kwargs = Inr m'" "distinct (map fst kwargs)"
  shows "wf_message m' \<and> msg_type m' = msg_type m \<and>
    (\<forall>(name, v) \<in> set kwargs. \<exists>old. getattr [] m name = Inr old \<and> getattr [] m' name = Inr (stored old (kwarg_value name v))) \<and>
    (\<forall>other. other \<notin> fst ` set kwargs \<longrightarrow> getattr [] m' other = getattr [] m other)"
  using assms
proof (induction kwargs arbitrary: m)
  case (Cons kw kwargs)
  obtain name v where kw: "kw = (name, v)"
    by (cases kw)
  obtain m1 where m1: "assign_kwargs m1 kwargs = Inr m'" "wf_message m1" "msg_type m1 = msg_type m"
    "\<exists>old. getattr [] m name = Inr old \<and> getattr [] m1 name = Inr (stored old (kwarg_value name v))"
    "\<And>other. other \<noteq> name \<Longrightarrow> getattr [] m1 other = getattr [] m other"
    using assign_one [OF Cons.prems(1), of name v kwargs m'] Cons.prems(2) unfolding kw by blast
  note IH = Cons.IH [OF m1(2,1)]
  have fresh: "name \<notin> fst ` set kwargs" "distinct (map fst kwargs)"
    using Cons.prems(3) by (simp_all add: kw)
  have "\<exists>old. getattr [] m n = Inr old \<and> getattr [] m' n = Inr (stored old (kwarg_value n w))" if "(n, w) \<in> set kwargs" for n w
    using IH [OF fresh(2)] that m1(5) [of n] fresh(1) by (force simp: image_iff)
  then show ?case
    using IH [OF fresh(2)] fresh(1) m1(3,4,5) by (auto simp: kw)
qed simp

section \<open>Properties\<close>

text \<open>
  C16. Attributes of message objects: an assignment that succeeds stores the value (bytes cut or
  filled with zeros to the width of the attribute), leaves every other attribute of the object and
  the widths of its arrays as they were, and does not change its class or type byte.
\<close>

theorem py_attribute_assignment:
  assumes "wf_arrays m" "setattr m name v = Inr m'"
  shows "wf_arrays m' \<and> msg_type m' = msg_type m \<and> message_type_of m' = message_type_of m \<and>
    (\<exists>old. getattr inherited m name = Inr old \<and> getattr inherited m' name = Inr (stored old v)) \<and>
    list_all (\<lambda>other. getattr inherited m' other = getattr inherited m other) (removeAll name (dir inherited m))"
  using assignment_laws [OF assms(1)] assms(2) unfolding assignment_laws_def list_all_iff by auto

theorem py_attribute_assignment_witness:
  "\<exists>m'. setattr (AddOrder blank_AddOrder) ''stock'' (Bytes ''AAPL'') = Inr m' \<and>
    getattr [] m' ''stock'' = Inr (Bytes (''AAPL'' @ replicate 4 (CHR 0x00)))"
proof -
  obtain m' where m': "setattr (AddOrder blank_AddOrder) ''stock'' (Bytes ''AAPL'') = Inr m'"
    by (simp add: setattr_def bind_object_def bind_attribute_def bind_common_def with_attributes_def AddOrder_class_def attr_set_def_byte_array)
  moreover have "wf_arrays (AddOrder blank_AddOrder)" "getattr [] (AddOrder blank_AddOrder) ''stock'' = Inr (Bytes (replicate 8 (CHR 0x00)))"
    by (simp_all add: blank_AddOrder_def getattr_def bind_object_def bind_attribute_def bind_common_def with_attributes_def AddOrder_class_def)
  ultimately show ?thesis
    using py_attribute_assignment [of "AddOrder blank_AddOrder" "''stock''" "Bytes ''AAPL''" m' "[]"] by simp
qed

text \<open>
  C15. Creating messages: whatever keyword arguments \<^verbatim>\<open>create_message\<close> accepts, the message packs and
  unpacks to itself, its packed form has the length announced by its class, each attribute given
  has the value given (a timestamp its low 48 bits, bytes in the width of the attribute), and the
  others those of a new object.
\<close>

theorem py_create_message:
  assumes "create_message [c] kwargs = Inr m" "distinct (map fst kwargs)"
  shows "\<exists>blank. map_of type_to_factory c = Some blank \<and> message_type_of m = c \<and>
    unpack_body (message_to_bytes m) = Some (Inr m) \<and>
    getattr [] m ''message_size'' = Inr (Integer (int (length (message_to_bytes m)))) \<and>
    list_all (\<lambda>(name, v). \<exists>old. getattr [] blank name = Inr old \<and> getattr [] m name = Inr (stored old (kwarg_value name v))) kwargs \<and>
    list_all (\<lambda>other. getattr [] m other = getattr [] blank other) (filter (\<lambda>n. n \<notin> fst ` set kwargs) (dir [] m))"
proof -
  obtain blank where blank: "map_of type_to_factory c = Some blank" "assign_kwargs blank kwargs = Inr m"
    using assms(1) by (auto simp: create_message_def split: option.splits)
  have wf: "wf_message blank" "message_type_of blank = c"
    using factory_wf [OF blank(1)] by simp_all
  note keeps = assign_kwargs_keeps [OF wf(1) blank(2) assms(2)]
  have "message_type_of m = c"
    using keeps wf by (auto simp: wf_message_parts)
  moreover have "getattr [] m ''message_size'' = Inr (Integer (int (length (message_to_bytes m))))"
    using keeps message_size_wire [of "[]" m] by (simp add: message_to_bytes_def length_encode_message wf_message_def)
  ultimately show ?thesis
    using blank(1) keeps unpack_body_packed [of m] by (auto simp: list_all_iff)
qed

theorem py_create_message_witness:
  "\<exists>m. create_message ''X'' [(''cancelled_shares'', Integer 7), (''timestamp'', Integer (2 ^ 48 + 5))] = Inr m \<and>
    getattr [] m ''cancelled_shares'' = Inr (Integer 7) \<and> getattr [] m ''timestamp'' = Inr (Integer 5) \<and>
    unpack_body (message_to_bytes m) = Some (Inr m)"
proof -
  let ?kwargs = "[(''cancelled_shares'', Integer 7), (''timestamp'', Integer (2 ^ 48 + 5))]"
  obtain m where m: "create_message ''X'' ?kwargs = Inr m"
    by (simp add: create_message_def type_to_factory_def cast_u64_def setattr_def bind_object_def bind_attribute_def bind_common_def
        with_attributes_def OrderCancel_class_def def_readwrite_def masked unsigned_take_bit_eq unsigned_of_int)
  moreover have "getattr [] (OrderCancel blank_OrderCancel) ''cancelled_shares'' = Inr (Integer 0)"
    "getattr [] (OrderCancel blank_OrderCancel) ''timestamp'' = Inr (Integer 0)"
    by (simp_all add: getattr_def bind_object_def bind_attribute_def bind_common_def with_attributes_def OrderCancel_class_def blank_OrderCancel_def)
  ultimately show ?thesis
    using py_create_message [of "CHR ''X''" ?kwargs m] by (simp add: type_to_factory_def kwarg_value_def)
qed

text \<open>
  C17. Decoding: \<^verbatim>\<open>decode\<close> fails only if a bytes attribute is not ASCII, and then with
  UnicodeDecodeError; otherwise its dataclass has, in the order of the names, every data attribute:
  the texts without their trailing white space, the numbers as they are, and each price as the
  double nearest to the raw value divided by \<open>10 ^ 4\<close> (\<open>10 ^ 8\<close> for the decline levels).
\<close>

theorem py_decode:
  assumes "list_all (\<lambda>n. \<not> has_infix ''price'' n) inherited"
  shows "message_decode inherited m prefix =
    (if list_all (ascii_value m) (dir inherited m)
     then Inr (prefix @ fst (python_object m), concat (map (decoded m) (dir inherited m)))
     else Inl Unicode_decode_error)"
  using decode_attributes_eq [of "dir inherited m" m inherited "[]"] assms set_dir [of inherited m]
  by (simp add: message_decode_def)

theorem py_decode_witness:
  "\<exists>attrs. message_decode [''_pybind11_conduit_v1_''] (AddOrder blank_AddOrder) ''My'' = Inr (''MyAddOrderNoMPIAttributionMessage'', attrs)"
proof -
  have "object_names (AddOrder blank_AddOrder) = [''message_type'', ''stock_locate'', ''tracking_number'', ''timestamp'', ''decode_price'',
      ''set_timestamp'', ''split_timestamp'', ''get_attributes'', ''decode'', ''to_bytes'', ''description'', ''price_precision'', ''message_size'',
      ''order_reference_number'', ''buy_sell_indicator'', ''shares'', ''stock'', ''price'']"
    by (simp add: object_names_def bind_object_def bind_attribute_def bind_common_def with_attributes_def AddOrder_class_def)
  then have "list_all (ascii_value (AddOrder blank_AddOrder)) (dir [''_pybind11_conduit_v1_''] (AddOrder blank_AddOrder))"
    unfolding list_all_iff set_dir
    by (simp add: ascii_value_def getattr_def bind_object_def bind_attribute_def bind_common_def with_attributes_def AddOrder_class_def
        blank_AddOrder_def is_ascii_def list_all_iff)
  then show ?thesis
    using py_decode [of "[''_pybind11_conduit_v1_'']" "AddOrder blank_AddOrder" "''My''"]
    by (simp add: bind_object_def AddOrder_class_def with_attributes_def bind_common_def)
qed

text \<open>The price of an add order is decoded to the double of the C++ price.\<close>

theorem py_decode_price_add_order:
  "message_decode_price inherited (AddOrder a) ''price'' = Inr (Float (to_double (StandardPrice (AddOrderMessage.price a))))"
proof -
  have "getattr inherited (AddOrder a) ''price'' = Inr (Integer (uint (AddOrderMessage.price a)))"
    by (simp add: getattr_def bind_object_def bind_attribute_def bind_common_def with_attributes_def AddOrder_class_def)
  moreover have "(of_int (uint (AddOrderMessage.price a)) :: rat) = wrat (AddOrderMessage.price a)"
    by (simp add: wrat_def flip: uint_nat)
  ultimately show ?thesis
    by (simp add: decode_price_integer price_value_def to_double_def double_of_divisor(1) del: double_of_u32)
      (simp add: double_of_u32)
qed

end
