(* ===== verification/Python_Book.thy ===== *)
theory Python_Book
  imports Market Message_Iterator Vwap
begin

text \<open>
  The book and analytics classes of the Python module, \<^verbatim>\<open>python/src/bindings.cpp\<close>: \<^verbatim>\<open>process_stream\<close>, the
  prices of a \<^verbatim>\<open>Bbo\<close> as doubles, and the average fed with raw prices.
\<close>

definition process_stream ::
  "byte list \<Rightarrow> 's BookManager \<times> 's \<Rightarrow> ((py_error + unit) \<times> 's BookManager \<times> 's) option" where
  "process_stream data st = do {
     (r, _, st) \<leftarrow> parse to_manager data Parser_init (Some st);
     st \<leftarrow> st;
     Some (case r of Inl e \<Rightarrow> Inl (Runtime_error e) | Inr _ \<Rightarrow> Inr (), st) }"

definition py_bid_price :: "Bbo \<Rightarrow> rat" where
  "py_bid_price q = to_double (StandardPrice (bid_price q))"

definition py_ask_price :: "Bbo \<Rightarrow> rat" where
  "py_ask_price q = to_double (StandardPrice (ask_price q))"

definition py_vwap_add :: "u32 \<Rightarrow> u64 \<Rightarrow> Vwap \<Rightarrow> Vwap" where
  "py_vwap_add raw_price sh vwap = vwap_add (StandardPrice raw_price) sh vwap"

text \<open>
  Streams in Python: on any buffer, cut anywhere or with any garbage in its frames,
  \<^verbatim>\<open>process_stream\<close> leaves in the manager exactly the books of the messages that are complete in the
  buffer, also when it raises; and it raises exactly when the buffer ends inside a message.
\<close>

theorem py_process_stream:
  fixes data :: "byte list"
  defines "ms \<equiv> frame_messages (fst (split_frames data))"
  assumes "length ms \<le> 2 ^ 32 - 1"
  shows "\<exists>mgr s'. process_stream data (manager symbols bc tc, s) =
      Some (if snd (split_frames data) then Inr () else Inl (Runtime_error Incomplete_message), mgr, s') \<and>
    (\<forall>l. case book mgr l of
        None \<Rightarrow> locate_ops (set symbols) l ms = []
      | Some b \<Rightarrow> locate_ops (set symbols) l ms \<noteq> [] \<and>
          (\<forall>sd n. map depth_entry (depth b sd n) = spec_depth sd n (resting (locate_ops (set symbols) l ms))))"
proof -
  obtain mgr s' where run: "run_steps process ms (manager symbols bc tc, s) = Some (mgr, s')"
    "\<And>l. case book mgr l of
        None \<Rightarrow> locate_ops (set symbols) l ms = []
      | Some b \<Rightarrow> locate_ops (set symbols) l ms \<noteq> [] \<and>
          (\<forall>sd n. map depth_entry (depth b sd n) = spec_depth sd n (resting (locate_ops (set symbols) l ms)))"
    using manager_books [OF assms(2), of symbols bc tc s] by (force split: option.splits)
  have "fold (\<lambda>m s. to_manager s m) ms (Some (manager symbols bc tc, s)) = Some (mgr, s')"
    unfolding fold_to_manager by (rule run(1))
  then have "process_stream data (manager symbols bc tc, s) =
      Some (if snd (split_frames data) then Inr () else Inl (Runtime_error Incomplete_message), mgr, s')"
    by (simp add: process_stream_def parse_def parse_collect ms_def Let_def)
  then show ?thesis
    using run(2) by blast
qed

theorem py_process_stream_witness:
  "\<exists>mgr s'. process_stream (0 # 12 # byte_of_char (CHR ''S'') # replicate 11 0) (manager [''ABC''] None None, ()) = Some (Inr (), mgr, s') \<and>
    book mgr 7 = None"
proof -
  have ms: "split_frames (0 # 12 # byte_of_char (CHR ''S'') # replicate 11 0) = ([byte_of_char (CHR ''S'') # replicate 11 0], True)"
    "frame_messages [byte_of_char (CHR ''S'') # replicate 11 0] = [SystemEvent blank_SystemEvent]"
    by (rule frame_of_zeros messages_of_zeros)+
  have "locate_ops {''ABC''} 7 [SystemEvent blank_SystemEvent] = []"
    by (simp add: locate_ops_def locate_messages_def blank_SystemEvent_def opens_book_def)
  then show ?thesis
    using py_process_stream [of "0 # 12 # byte_of_char (CHR ''S'') # replicate 11 0" "[''ABC'']" None None "()"]
    by (force simp: ms simp del: split_frames.simps split: option.splits)
qed

end
