(* ===== verification/Time_Format.thy ===== *)
theory Time_Format
  imports Digits
begin

text \<open>
  The helpers of \<^verbatim>\<open>include/itch/time.hpp\<close>. A calendar date is a year, month and day; \<^verbatim>\<open>sys_days\<close> of
  \<^verbatim>\<open>std::chrono\<close> is the number of days since 1970-01-01 in the Gregorian calendar, and a time point the
  64-bit number of nanoseconds since then. \<open>None\<close> is a date that does not exist, a time point out of
  range, or a time of day of 24 hours and more, whose text the library does not document.
\<close>

section \<open>The calendar\<close>

record YearMonthDay =
  ymd_year :: int
  ymd_month :: int
  ymd_day :: int

definition leap_year :: "int \<Rightarrow> bool" where
  "leap_year y \<longleftrightarrow> y mod 4 = 0 \<and> (y mod 100 \<noteq> 0 \<or> y mod 400 = 0)"

definition days_in_month :: "int \<Rightarrow> int \<Rightarrow> int" where
  "days_in_month y m = (if m = 2 then (if leap_year y then 29 else 28) else if m \<in> {4, 6, 9, 11} then 30 else 31)"

definition date_ok :: "YearMonthDay \<Rightarrow> bool" where
  "date_ok d \<longleftrightarrow> 1 \<le> ymd_month d \<and> ymd_month d \<le> 12 \<and> 1 \<le> ymd_day d \<and> ymd_day d \<le> days_in_month (ymd_year d) (ymd_month d)"

text \<open>Years that start in March: the days before one, and the days before a month in it.\<close>

definition march_days :: "int \<Rightarrow> int" where
  "march_days y = 365 * y + y div 4 - y div 100 + y div 400"

definition month_days :: "int \<Rightarrow> int" where
  "month_days mp = (153 * mp + 2) div 5"

definition sys_days :: "YearMonthDay \<Rightarrow> int" where
  "sys_days d = (let y = (if ymd_month d \<le> 2 then ymd_year d - 1 else ymd_year d); mp = (ymd_month d + 9) mod 12
     in march_days y + month_days mp + ymd_day d - 1 - 719468)"

definition march_year :: "int \<Rightarrow> int" where
  "march_year z = (let y = 400 * z div 146097
     in if z < march_days y then y - 1 else if march_days (y + 1) \<le> z then y + 1 else y)"

definition civil :: "int \<Rightarrow> YearMonthDay" where
  "civil n = (let z = n + 719468; y = march_year z; doy = z - march_days y; mp = (5 * doy + 2) div 153;
       m = (if mp < 10 then mp + 3 else mp - 9)
     in \<lparr>ymd_year = (if m \<le> 2 then y + 1 else y), ymd_month = m, ymd_day = doy - month_days mp + 1\<rparr>)"

section \<open>Time points and texts\<close>

definition DAY :: int where
  "DAY = 86400000000000"

text \<open>The date is converted to nanoseconds before the sum; neither may leave the 64-bit range.\<close>

definition in_nanoseconds :: "int \<Rightarrow> bool" where
  "in_nanoseconds t \<longleftrightarrow> - (2 ^ 63) \<le> t \<and> t < 2 ^ 63"

definition to_time_point :: "YearMonthDay \<Rightarrow> u64 \<Rightarrow> int option" where
  "to_time_point session_date nanos_past_midnight =
     (let midnight = sys_days session_date * DAY; t = midnight + sint nanos_past_midnight
      in if date_ok session_date \<and> in_nanoseconds midnight \<and> in_nanoseconds t then Some t else None)"

text \<open>\<^verbatim>\<open>%T\<close>: hours, minutes, seconds and nine digits of nanoseconds.\<close>

definition time_text :: "nat \<Rightarrow> string" where
  "time_text ns = decimal_field 2 (ns div 3600000000000) @ '':'' @ decimal_field 2 (ns div 60000000000 mod 60) @ '':'' @
     decimal_field 2 (ns div 1000000000 mod 60) @ ''.'' @ decimal_field 9 (ns mod 1000000000)"

definition format_timestamp :: "u64 \<Rightarrow> string option" where
  "format_timestamp nanos_past_midnight =
     (if uint nanos_past_midnight < DAY then Some (time_text (unat nanos_past_midnight)) else None)"

text \<open>\<^verbatim>\<open>%F\<close>; the years of a 64-bit time point have four digits.\<close>

definition date_text :: "YearMonthDay \<Rightarrow> string" where
  "date_text d = decimal_field 4 (nat (ymd_year d)) @ ''-'' @ decimal_field 2 (nat (ymd_month d)) @ ''-'' @ decimal_field 2 (nat (ymd_day d))"

definition format_time_point :: "YearMonthDay \<Rightarrow> u64 \<Rightarrow> string option" where
  "format_time_point session_date nanos_past_midnight = do {
     t \<leftarrow> to_time_point session_date nanos_past_midnight;
     Some (date_text (civil (t div DAY)) @ '' '' @ time_text (nat (t mod DAY))) }"

section \<open>The calendar and its inverse\<close>

lemma march_days_step: "march_days (y + 1) = march_days y + (if leap_year (y + 1) then 366 else 365)"
proof -
  have "y div k = (y + 1) div k - (if (y + 1) mod k = 0 then 1 else 0)" if "0 < k" for k :: int
  proof (rule int_div_pos_eq)
    define r where "r = (if (y + 1) mod k = 0 then k - 1 else (y + 1) mod k - 1)"
    have split: "y + 1 = k * ((y + 1) div k) + (y + 1) mod k" "0 \<le> (y + 1) mod k" "(y + 1) mod k < k"
      using that by simp_all
    then show "0 \<le> r" "r < k"
      by (auto simp: r_def)
    show "y = k * ((y + 1) div k - (if (y + 1) mod k = 0 then 1 else 0)) + r"
    proof (cases "(y + 1) mod k = 0")
      case True
      then have "r = k - 1" "k * ((y + 1) div k - 1) = k * ((y + 1) div k) - k"
        by (simp_all add: r_def right_diff_distrib)
      then show ?thesis
        using True split(1) by simp
    next
      case False
      then have "r = (y + 1) mod k - 1"
        by (simp add: r_def)
      then show ?thesis
        using split(1) unfolding if_not_P [OF False] diff_0_right by linarith
    qed
  qed
  then show ?thesis
    by (auto simp: march_days_def leap_year_def)
qed

lemma march_days_near: "400 * march_days x \<le> 146097 * x + 400" "146097 * x - 800 \<le> 400 * march_days x"
proof -
  have "4 * (x div 4) \<le> x" "x < 4 * (x div 4) + 4" "100 * (x div 100) \<le> x" "x < 100 * (x div 100) + 100"
    "400 * (x div 400) \<le> x" "x < 400 * (x div 400) + 400"
    by simp_all
  moreover have "400 * march_days x = 146000 * x + 400 * (x div 4) - 400 * (x div 100) + 400 * (x div 400)"
    by (simp add: march_days_def)
  ultimately show "400 * march_days x \<le> 146097 * x + 400" "146097 * x - 800 \<le> 400 * march_days x"
    by linarith+
qed

lemma march_year_unique:
  assumes "march_days y \<le> z" "z < march_days (y + 1)"
  shows "march_year z = y"
proof -
  define w where "w = 400 * z div 146097"
  have w: "146097 * w \<le> 400 * z" "400 * z < 146097 * w + 146097"
    unfolding w_def by linarith+
  have "146097 * w \<le> 146097 * (y + 1)" "146097 * y - 146897 < 146097 * w"
    using w march_days_near(1) [of "y + 1"] march_days_near(2) [of y] assms by linarith+
  then have "y - 1 \<le> w"
    by linarith
  moreover have "w \<le> y + 1"
    using \<open>146097 * w \<le> 146097 * (y + 1)\<close> by simp
  ultimately consider "w = y - 1" | "w = y" | "w = y + 1"
    by linarith
  then show ?thesis
    using assms march_days_step [of "y - 1"] march_days_step [of "y + 1"]
    by cases (simp_all add: march_year_def Let_def flip: w_def split: if_splits)
qed

lemma month_cases:
  assumes "1 \<le> m" "m \<le> 12"
  obtains "m = 1" | "m = 2" | "m = 3" | "m = 4" | "m = 5" | "m = 6" | "m = 7" | "m = 8" | "m = 9" | "m = 10" | "m = 11" | "m = (12 :: int)"
proof -
  have "m = 1 \<or> m = 2 \<or> m = 3 \<or> m = 4 \<or> m = 5 \<or> m = 6 \<or> m = 7 \<or> m = 8 \<or> m = 9 \<or> m = 10 \<or> m = 11 \<or> m = 12"
    using assms by presburger
  then show thesis
    using that by blast
qed

text \<open>The month of a day of the year, and the days that a month leaves in its year.\<close>

lemma month_of_day:
  assumes "1 \<le> m" "m \<le> 12" "1 \<le> d" "d \<le> days_in_month y m"
  shows "(5 * (month_days ((m + 9) mod 12) + d - 1) + 2) div 153 = (m + 9) mod 12"
proof -
  have "(5 * e + 2) div 153 = k" if "153 * k \<le> 5 * e + 2" "5 * e + 2 < 153 * (k + 1)" for e k :: int
    using that by (intro int_div_pos_eq [of _ _ _ "5 * e + 2 - 153 * k"]) simp_all
  then show ?thesis
    using assms(3,4) by (cases rule: month_cases [OF assms(1,2)]) (auto simp: month_days_def days_in_month_def split: if_splits)
qed

lemma day_in_year:
  assumes "1 \<le> m" "m \<le> 12" "1 \<le> d" "d \<le> days_in_month y m"
  shows "0 \<le> month_days ((m + 9) mod 12) + d - 1" "month_days ((m + 9) mod 12) + d - 1 < (if leap_year (if m \<le> 2 then y else y + 1) then 366 else 365)"
  using assms(3,4) by (cases rule: month_cases [OF assms(1,2)]; auto simp: month_days_def days_in_month_def split: if_splits)+

lemma civil_sys_days:
  assumes "date_ok d"
  shows "civil (sys_days d) = d"
proof -
  let ?m = "ymd_month d" and ?y = "ymd_year d" and ?dd = "ymd_day d"
  define y where "y = (if ?m \<le> 2 then ?y - 1 else ?y)"
  define mp where "mp = (?m + 9) mod 12"
  define doy where "doy = month_days mp + ?dd - 1"
  have ok: "1 \<le> ?m" "?m \<le> 12" "1 \<le> ?dd" "?dd \<le> days_in_month ?y ?m"
    using assms by (simp_all add: date_ok_def)
  have z: "sys_days d + 719468 = march_days y + doy"
    by (simp add: sys_days_def y_def mp_def doy_def Let_def)
  have "0 \<le> doy" "doy < (if leap_year (y + 1) then 366 else 365)"
    using day_in_year [OF ok] by (simp_all add: doy_def mp_def y_def split: if_splits)
  then have "march_year (march_days y + doy) = y"
    using march_days_step [of y] by (intro march_year_unique) simp_all
  moreover have "(5 * doy + 2) div 153 = mp"
    using month_of_day [OF ok] by (simp add: doy_def mp_def)
  moreover have "(if mp < 10 then mp + 3 else mp - 9) = ?m"
    by (cases rule: month_cases [OF ok(1,2)]) (simp_all add: mp_def)
  ultimately have "civil (sys_days d) = \<lparr>ymd_year = (if ?m \<le> 2 then y + 1 else y), ymd_month = ?m, ymd_day = doy - month_days mp + 1\<rparr>"
    by (simp only: civil_def Let_def z add_diff_cancel_left')
  then show ?thesis
    by (simp add: doy_def y_def)
qed

section \<open>Properties\<close>

text \<open>The value of a time text: hours, minutes, seconds and nanoseconds at their columns.\<close>

definition time_value :: "string \<Rightarrow> nat" where
  "time_value s = ((digits_value (take 2 s) * 60 + digits_value (take 2 (drop 3 s))) * 60 + digits_value (take 2 (drop 6 s))) * 1000000000 +
     digits_value (take 9 (drop 9 s))"

lemma time_value_text:
  assumes "ns < 86400000000000"
  shows "time_value (time_text ns) = ns \<and> length (time_text ns) = 18"
proof -
  define h where "h = ns div 3600000000000"
  have "h < 24"
    using assms by (simp add: h_def div_less_iff_less_mult)
  moreover have "take 2 (time_text ns) = decimal_field 2 h" "take 2 (drop 3 (time_text ns)) = decimal_field 2 (ns div 60000000000 mod 60)"
    "take 2 (drop 6 (time_text ns)) = decimal_field 2 (ns div 1000000000 mod 60)" "take 9 (drop 9 (time_text ns)) = decimal_field 9 (ns mod 1000000000)"
    by (simp_all add: time_text_def h_def)
  moreover have "((h * 60 + ns div 60000000000 mod 60) * 60 + ns div 1000000000 mod 60) * 1000000000 + ns mod 1000000000 = ns"
  proof -
    have "ns div 60000000000 = ns div 1000000000 div 60" "h = ns div 1000000000 div 60 div 60"
      by (simp_all add: h_def div_mult2_eq [symmetric])
    then show ?thesis
      by simp
  qed
  ultimately show ?thesis
    by (simp add: time_value_def decimal_field_value) (simp add: time_text_def)
qed

lemma below_day: "uint (t :: u64) < DAY \<Longrightarrow> unat t < 86400000000000"
  unfolding DAY_def uint_nat by linarith

lemma decimal_field_digit: "0 < k \<Longrightarrow> decimal_field k n = decimal_field (k - 1) (n div 10) @ [digit (n mod 10)]"
  by (cases k) simp_all

lemma sys_days_bounds:
  assumes "date_ok d" "1678 \<le> ymd_year d" "ymd_year d \<le> 2261"
  shows "- 106751 \<le> sys_days d" "sys_days d < 106751"
proof -
  have ok: "1 \<le> ymd_month d" "ymd_month d \<le> 12" "1 \<le> ymd_day d" "ymd_day d \<le> days_in_month (ymd_year d) (ymd_month d)"
    using assms by (simp_all add: date_ok_def)
  then have "ymd_day d \<le> 31"
    by (simp add: days_in_month_def split: if_splits)
  then show "- 106751 \<le> sys_days d" "sys_days d < 106751"
    using assms(2,3) ok(3) march_days_near [of "ymd_year d"] march_days_near [of "ymd_year d - 1"]
    by (cases rule: month_cases [OF ok(1,2)]; simp add: sys_days_def month_days_def Let_def)+
qed

text \<open>
  Timestamps as text: below 24 hours \<^verbatim>\<open>format_timestamp\<close> writes 18 characters that read back as
  the timestamp.
\<close>

theorem format_timestamp_reads_back:
  assumes "uint t < DAY"
  shows "\<exists>s. format_timestamp t = Some s \<and> time_value s = unat t \<and> length s = 18"
  using time_value_text [of "unat t"] below_day [OF assms] assms by (simp add: format_timestamp_def)

theorem format_timestamp_reads_back_witness:
  "format_timestamp 34200000000001 = Some ''09:30:00.000000001''"
proof -
  obtain s where "format_timestamp 34200000000001 = Some s"
    using format_timestamp_reads_back [of 34200000000001] by (auto simp: DAY_def)
  moreover have "format_timestamp 34200000000001 = Some (time_text 34200000000001)"
    by (simp add: format_timestamp_def DAY_def)
  moreover have "time_text 34200000000001 = ''09:30:00.000000001''"
    by (simp add: time_text_def decimal_field_digit digit_simps del: decimal_field.simps(2))
  ultimately show ?thesis
    by simp
qed

text \<open>
  C40. Time points: an existing session date from 1678 to 2261 and a timestamp below 24 hours give a
  time point whose text is that date and the timestamp's own text, so the conversion through days
  since 1970 loses neither.
\<close>

theorem format_time_point_text:
  assumes "date_ok d" "1678 \<le> ymd_year d" "ymd_year d \<le> 2261" "uint t < DAY"
  shows "\<exists>n s. to_time_point d t = Some n \<and> format_timestamp t = Some s \<and> format_time_point d t = Some (date_text d @ '' '' @ s)"
proof -
  have st: "sint t = uint t"
  proof -
    have "- (2 ^ 63) \<le> (0 :: int)" "DAY < 2 ^ 63"
      by (simp_all add: DAY_def)
    then have "uint t < 2 ^ 63" "- (2 ^ 63) \<le> uint t"
      using assms(4) uint_ge_0 [of t] by linarith+
    then show ?thesis
      unfolding sint_uint by (intro signed_take_bit_int_eq_self) simp_all
  qed
  have "in_nanoseconds (sys_days d * DAY)" "in_nanoseconds (sys_days d * DAY + uint t)"
  proof -
    have "- 106751 * DAY \<le> sys_days d * DAY" "sys_days d * DAY \<le> 106750 * DAY"
      using sys_days_bounds [OF assms(1-3)] by (simp_all add: DAY_def)
    moreover have "- (2 ^ 63) \<le> - 106751 * DAY" "106751 * DAY < 2 ^ 63"
      by (simp_all add: DAY_def)
    moreover have "106751 * DAY = 106750 * DAY + DAY"
      by simp
    ultimately show "in_nanoseconds (sys_days d * DAY)" "in_nanoseconds (sys_days d * DAY + uint t)"
      unfolding in_nanoseconds_def using assms(4) uint_ge_0 [of t] by (intro conjI; linarith)+
  qed
  then have "to_time_point d t = Some (sys_days d * DAY + uint t)"
    using assms(1) by (simp add: to_time_point_def st Let_def)
  moreover have "(sys_days d * DAY + uint t) div DAY = sys_days d" "nat ((sys_days d * DAY + uint t) mod DAY) = unat t"
    using assms(4) by (simp_all add: DAY_def)
  ultimately show ?thesis
    using assms(1,4) by (simp add: format_time_point_def format_timestamp_def civil_sys_days)
qed

theorem format_time_point_text_witness:
  "format_time_point \<lparr>ymd_year = 2024, ymd_month = 2, ymd_day = 29\<rparr> 34200000000001 = Some ''2024-02-29 09:30:00.000000001''"
proof -
  let ?d = "\<lparr>ymd_year = 2024, ymd_month = 2, ymd_day = 29\<rparr>"
  have "date_ok ?d"
    by (simp add: date_ok_def days_in_month_def leap_year_def)
  moreover have "format_timestamp 34200000000001 = Some ''09:30:00.000000001''"
    by (simp add: format_timestamp_def DAY_def time_text_def decimal_field_digit digit_simps del: decimal_field.simps(2))
  moreover have "date_text ?d = ''2024-02-29''"
    by (simp add: date_text_def decimal_field_digit digit_simps del: decimal_field.simps(2))
  ultimately show ?thesis
    using format_time_point_text [of ?d 34200000000001] by (simp add: DAY_def)
qed

end
