(* ===== verification/Fuzz_Targets.thy ===== *)
theory Fuzz_Targets
  imports Soup_Bin Pcap
begin

text \<open>
  The two entry points of \<^verbatim>\<open>fuzz/parser_fuzzer.cpp\<close> and \<^verbatim>\<open>fuzz/moldudp64_fuzzer.cpp\<close>: what the fuzzer
  looks for on samples (a crash, a read out of bounds, a hang) is excluded on every input. \<open>None\<close> is
  undefined behaviour; the exception of the parser is caught.
\<close>

definition no_callback :: "unit \<Rightarrow> Message \<Rightarrow> unit" where
  "no_callback s m = s"

definition parser_fuzz_target :: "byte list \<Rightarrow> int option" where
  "parser_fuzz_target data = do {
     _ \<leftarrow> parse no_callback data Parser_init ();
     Some 0 }"

definition transport_fuzz_target :: "byte list \<Rightarrow> int option" where
  "transport_fuzz_target data = do {
     _ \<leftarrow> decode_packet data (MoldUdp64Decoder_new (Some no_callback), ());
     _ \<leftarrow> feed data (SoupBinDecoder_new (Some no_callback), ());
     _ \<leftarrow> pcap_read data (PcapReader_new (Some no_callback), ());
     Some 0 }"

text \<open>
  C19. Robustness: on any input both fuzz targets end, without undefined behaviour in the parser,
  the session decoders or the capture reader, and return 0. Every element access, every copy and every
  view of a part of a buffer is the value \<open>None\<close> when it reaches beyond the end, so each of them is shown to
  stay inside: the frames of the parser, the payloads of the sessions, the records, blocks, headers and
  datagrams of a capture.
\<close>

theorem fuzz_targets_end: "parser_fuzz_target data = Some 0 \<and> transport_fuzz_target data = Some 0"
proof -
  obtain r where "parse no_callback data Parser_init () = Some r"
    using parse_Some [of no_callback data Parser_init "()"] by auto
  moreover obtain m where "decode_packet data (MoldUdp64Decoder_new (Some no_callback), ()) = Some m"
    using decode_packet_Some [of data "(MoldUdp64Decoder_new (Some no_callback), ())"] by auto
  moreover obtain f where "feed data (SoupBinDecoder_new (Some no_callback), ()) = Some f"
    using feed_Some [of data "SoupBinDecoder_new (Some no_callback)" "()"] by auto
  moreover obtain p where "pcap_read data (PcapReader_new (Some no_callback), ()) = Some p"
    using pcap_read_Some [of data "PcapReader_new (Some no_callback)" "()"] by auto
  ultimately show ?thesis
    by (simp add: parser_fuzz_target_def transport_fuzz_target_def)
qed

end
