(* ===== verification/Venue.thy ===== *)
theory Venue
  imports Parser "HOL-Library.Multiset"
begin

text \<open>
  The venue policy of \<^verbatim>\<open>include/itch/venue.hpp\<close>: its name and the enumeration of the message types.
  A visitor acts on a state of the caller. The concept \<^verbatim>\<open>VenuePolicy\<close> asks for the name only, which
  is a \<^verbatim>\<open>string_view\<close> by its type here.
\<close>

section \<open>The policy of NASDAQ TotalView-ITCH 5.0\<close>

record 's VenuePolicy =
  venue_name :: string
  visit_types :: "(char \<Rightarrow> MsgType \<Rightarrow> 's \<Rightarrow> 's) \<Rightarrow> 's \<Rightarrow> 's"

definition Nasdaq50 :: "'s VenuePolicy" where
  "Nasdaq50 = \<lparr>venue_name = ''NASDAQ TotalView-ITCH 5.0'',
     visit_types = (\<lambda>visitor. fold (\<lambda>(c, t). visitor c t) for_each_message_type)\<rparr>"

section \<open>Dispatch through a policy\<close>

text \<open>
  The extension the header announces, a dispatch table built by a policy: for \<^verbatim>\<open>Nasdaq50\<close> it is the
  table of the parser, whatever the order of the visits.
\<close>

definition enter_type :: "char \<Rightarrow> MsgType \<Rightarrow> DispatchEntry list \<Rightarrow> DispatchEntry list" where
  "enter_type c t table = table[table_index c := \<lparr>wire_size = of_nat (WIRE_SIZE t), decode = Some t\<rparr>]"

lemma enter_type_commute: "c \<noteq> d \<Longrightarrow> enter_type c t (enter_type d u table) = enter_type d u (enter_type c t table)"
  by (simp add: enter_type_def list_update_swap)

lemma venue_dispatch_table:
  assumes "mset reg = mset for_each_message_type"
  shows "fold (\<lambda>(c, t). enter_type c t) reg (replicate DISPATCH_TABLE_SIZE unknown_entry) = build_dispatch_table"
    and "visit_types Nasdaq50 enter_type (replicate DISPATCH_TABLE_SIZE unknown_entry) = build_dispatch_table"
proof -
  let ?enter = "\<lambda>(c, t). enter_type c t"
  have visits: "fold ?enter for_each_message_type (replicate DISPATCH_TABLE_SIZE unknown_entry) = build_dispatch_table"
    unfolding build_dispatch_table_def enter_type_def ..
  have "?enter x \<circ> ?enter y = ?enter y \<circ> ?enter x" if "x \<in> set for_each_message_type" "y \<in> set for_each_message_type" for x y
  proof (cases "fst x = fst y")
    case True
    then have "x = y"
      using that by (cases x; cases y) (simp add: registry_complete type_byte_inject)
    then show ?thesis by simp
  next
    case False
    then show ?thesis
      by (auto simp: fun_eq_iff split_beta intro: enter_type_commute)
  qed
  then have "fold ?enter for_each_message_type = fold ?enter reg"
    using assms by (intro fold_multiset_equiv) simp_all
  then show "fold ?enter reg (replicate DISPATCH_TABLE_SIZE unknown_entry) = build_dispatch_table"
    using visits by metis
  show "visit_types Nasdaq50 enter_type (replicate DISPATCH_TABLE_SIZE unknown_entry) = build_dispatch_table"
    using visits by (simp add: Nasdaq50_def)
qed

text \<open>A visitor is called once per type, with the byte of that type, in the order of the registry.\<close>

lemma venue_visits:
  "visit_types Nasdaq50 (\<lambda>c t seen. seen @ [(c, t)]) [] = for_each_message_type"
  by (simp add: Nasdaq50_def for_each_message_type_def)

end
