(* ===== verification/Spec2Isabelle.thy ===== *)
theory Spec2Isabelle
  imports Limit_Order_Book Auctions Bars Overlay Pcap Soup_Bin Message_Iterator Vwap Microstructure Csv_Sink
    Message_Printer Arrow_Export
    Book_Printer Replay Itch_Tool Stream_Parser Python_Objects Python_Book Time_Format Fuzz_Targets Venue
begin

text \<open>
  A model of itchcpp, a C++ library for the NASDAQ TotalView-ITCH 5.0 market-data feed, with the
  theorems that make it correct. File names are relative to the root of the repository.

  \<^bold>\<open>The program.\<close> A feed arrives as a capture file, as MoldUDP64 datagrams or as a SoupBinTCP byte
  stream. A transport decoder reassembles it, tracks the sequence numbers and hands each message
  to the parser, which frames, dispatches and decodes 23 message types; the overlay reads the same
  frames in place and the encoder writes them. Decoded messages drive the book manager, which
  routes them by stock locate to one order book each and reports trades and changed quotes to
  callbacks; analytics consume the trades and messages. Around this core stand the sinks (CSV,
  Arrow), the printers, the paced replay, a command-line program, the Python module and two fuzz
  targets.

  \<^bold>\<open>Theories and sources.\<close>

  \<^item> \<open>Itch_Prelude\<close>: integer types, byte views of words, generic lemmas on lists, words and options,
    and the locale \<open>bounded_simulation\<close>, which lifts the simulation of one step to histories.
  \<^item> \<open>Messages\<close> (\<^verbatim>\<open>include/itch/messages.hpp\<close>): one record per packed struct, the variant \<^verbatim>\<open>Message\<close>,
    trimming of symbols. \<open>Message_Printer\<close> (\<^verbatim>\<open>src/messages.cpp\<close>): their text.
  \<^item> \<open>Digits\<close>, \<open>Doubles\<close>, \<open>Text_Format\<close>: what the code uses of the standard library on decimal numerals,
    on \<^verbatim>\<open>double\<close> (exact rational arithmetic followed by the rounding of binary64) and on formatting.
    \<open>Prices\<close>, \<open>Price_Format\<close> (\<^verbatim>\<open>include/itch/price.hpp\<close>): the two price scales, their doubles and texts.
    \<open>Time_Format\<close> (\<^verbatim>\<open>include/itch/time.hpp\<close>): dates, time points and their texts.
  \<^item> \<open>Wire\<close> (\<^verbatim>\<open>include/itch/detail/wire.hpp\<close> and the byte helpers of the parser and encoder): wire
    sizes, the registry of types, big-endian reads and writes through host objects. \<open>Venue\<close>
    (\<^verbatim>\<open>include/itch/venue.hpp\<close>): the policy that enumerates them.
  \<^item> \<open>Parser\<close> (\<^verbatim>\<open>include/itch/parser.hpp\<close>, \<^verbatim>\<open>src/parser.cpp\<close>): unpacking of each struct, the dispatch
    table, the framing loop and its overloads, diagnostics and error reporting. \<open>Stream_Parser\<close>: the
    overloads on streams. \<open>Encoder\<close> (\<^verbatim>\<open>src/encoder.cpp\<close>), \<open>Overlay\<close> (\<^verbatim>\<open>include/itch/overlay.hpp\<close>).
  \<^item> \<open>Order_Index\<close>, \<open>L3_Book\<close> (\<^verbatim>\<open>include/itch/book/\<close>, \<^verbatim>\<open>src/book/l3_book.cpp\<close>): the open-addressed index
    with backward-shift deletion, and the book on a pool of linked nodes with sorted ladders, both
    at the level of array indices; \<open>L3_Refinement\<close> and \<open>L3_Queries\<close> prove them.
  \<^item> \<open>Book_Manager\<close>, \<open>Market\<close> (\<^verbatim>\<open>src/book/book_manager.cpp\<close>, \<^verbatim>\<open>include/itch/tape.hpp\<close>): every handler of the
    manager; the abstract market it refines.
  \<^item> \<open>Limit_Order_Book\<close> (\<^verbatim>\<open>include/itch/order_book.hpp\<close>, \<^verbatim>\<open>src/order_book.cpp\<close>): the older book of one
    symbol, on maps, lists and shared order objects in a heap. \<open>Book_Printer\<close>: its \<^verbatim>\<open>print\<close>.
  \<^item> \<open>Sequencing\<close>, \<open>Mold_UDP64\<close>, \<open>Soup_Bin\<close>, \<open>Pcap\<close> (\<^verbatim>\<open>include/itch/transport/\<close>, \<^verbatim>\<open>src/transport/\<close>): the
    sequence tracker, the two session decoders and the capture reader.
  \<^item> \<open>Indicators\<close>, \<open>Auctions\<close>, \<open>Bars\<close> (\<^verbatim>\<open>include/itch/indicators.hpp\<close>, \<^verbatim>\<open>include/itch/analytics/\<close>): lookup
    tables, the auction tracker, the bar builder. \<open>Vwap\<close>, \<open>Microstructure\<close> (\<^verbatim>\<open>include/itch/analytics/\<close>):
    the metrics in floating point.
  \<^item> \<open>Csv_Sink\<close> (\<^verbatim>\<open>src/io/csv_sink.cpp\<close>), \<open>Arrow_Export\<close> (\<^verbatim>\<open>src/io/arrow_export.cpp\<close>): the two sinks.
    \<open>Replay\<close> (\<^verbatim>\<open>src/replay.cpp\<close>): the paced replay. \<open>Itch_Tool\<close> (\<^verbatim>\<open>tools/itch_tool/main.cpp\<close>): the
    program. \<open>Fuzz_Targets\<close> (\<^verbatim>\<open>fuzz/\<close>): the two entry points.
  \<^item> \<open>Message_Iterator\<close>, \<open>Python_Messages\<close>, \<open>Python_Objects\<close>, \<open>Python_Book\<close>
    (\<^verbatim>\<open>python/src/bindings.cpp\<close>): packing, unpacking and the iterator over a file object; the message
    classes as tables of attributes; the helpers on message objects and the factory; the wrappers
    of the books and averages.

  \<^bold>\<open>How the model corresponds to the code.\<close> A class is a record of its data members, an operation a
  function from the old to the new record; callbacks are functions on a state of the caller, so
  the order of notifications is visible. Integers keep their width as words and wrap. Loops are
  recursive functions with termination proofs. An access outside an array, through a null or
  dangling reference, or a division by zero is the value \<open>None\<close>, so a theorem that a function
  returns \<open>Some\<close> excludes it; so is a view of a part of a buffer that reaches beyond its end
  (\<open>subspan\<close>, \<open>subspan_from\<close>), while differences of sizes wrap at 64 bits (\<open>size_minus\<close>). Exceptions are
  the left values of a sum. Objects are read and written
  in the byte order of a little-endian host, as the library's byte swap assumes. Book prices are
  the raw 32-bit values of the wire. What lies outside the program is a parameter: the files that
  can be opened, the clock, the results of the \<^verbatim>\<open>read\<close> calls of a Python file, the names pybind11 adds
  to an object, and the builders and writer of Apache Arrow, of which \<open>builder_laws\<close> states the
  documented behaviour that is used.

  \<^bold>\<open>What the theorems show.\<close> The parser equals a reference semantics on every buffer; encoding and
  parsing are inverse in both directions; the overlay delivers what the parser delivers. The
  index refines a finite map and deletion keeps its invariant. The book refines a list of resting
  orders in arrival order: depth, queues, best prices, replacements, and executions that lower the total of one level by what they remove; the manager
  refines a market of such lists, and its trade tape and quote events are exact. The older book
  refines the same list on feeds that never over-execute nor reuse a reference, agrees there with
  the pooled book, and wraps around otherwise. The session decoders deliver streams in order
  however they are cut, account for every sequence number and never read out of bounds; the
  capture reader always ends and, for any frames of any link type, delivers exactly the payloads of
  those that carry a UDP datagram to an admitted port. Auctions, bars and lookup
  tables equal their reference definitions. The averages stay within a stated number of roundings
  of the exact values, and the metrics of a snapshot within its prices. Prices and dates
  read back from their texts, and the rows of a CSV file exactly when they hold no character the sink
  fails to quote; the twelve Arrow columns hold the rows of the CSV sink. The
  replay delivers every message once, at the instant its timestamp asks for. The commands of the
  program write what their options ask for, and the fuzz targets end on every input. The Python
  iterator delivers the messages of a file however its reads are cut; attributes of message
  objects keep the message well formed, change nothing else and read back; the factory builds the
  message its keywords describe or raises the documented exception. The last sections of this
  theory compose the decoder, parser and manager, and compare the two books.

  \<^bold>\<open>Interfaces.\<close> \<open>reference_index\<close> states what the book relies on of its index, interpreted as \<open>oi\<close> on
  the operations of \<open>Order_Index\<close>; \<open>bounded_simulation\<close> states a step simulation up to a size, with
  interpretations \<open>l3\<close> for the book and \<open>mk\<close> for the manager; \<open>key_order\<close> states what a lookup table
  needs of its keys, with interpretations \<open>ck\<close> and \<open>sk\<close>.

  \<^bold>\<open>Bounds.\<close> The insertion of the index carries fuel \<open>m_count + 2\<close> for the nesting of rehashes: an
  insertion nests one growth, whose reinsertions do not grow again, so it is never used up. Pool indices are 32 bits with one
  value for the null index, so histories of a book are limited to \<open>2 ^ 32 - 1\<close> operations, and index
  capacities to \<open>2 ^ 60\<close> so that the 64-bit size arithmetic of a growth does not wrap. Streams of a
  session decoder are limited to fewer than \<open>2 ^ 63\<close> messages.

  \<^bold>\<open>Not modelled.\<close> The specialisation of \<^verbatim>\<open>std::formatter\<close> for prices, which hands the double to the library; infinities,
  subnormal numbers and the sign of a zero, which the ranges of the inputs exclude or no property
  depends on; the text of a time of day of 24 hours and more; \<^verbatim>\<open>__repr__\<close> and the registration of the
  book and analytics classes in the Python module, which only name methods; pybind11, Apache Arrow
  and the standard library themselves; examples, benchmarks and tests, which only call the library.
\<close>

section \<open>From the session stream to the books\<close>

text \<open>
  C4. From bytes to books: well-formed messages, encoded, sent as sequenced packets of a
  SoupBinTCP session and received in arbitrary chunks, build in a book manager behind the decoder
  exactly the books of those messages: a locate has a book when one of its adds carried a symbol
  of the universe, with the depth and the queues of its own messages, and the decoder has seen
  every message, no gap and no spare byte.
\<close>

theorem session_builds_books:
  assumes "\<forall>m \<in> set ms. wf_message m" "length ms \<le> 2 ^ 32 - 1"
    and "concat (chunk # chunks) = concat (map (\<lambda>m. soup_packet (CHR ''S'') (encode_message m)) ms)"
  shows "\<exists>d mgr s'. run_steps feed (chunk # chunks) (SoupBinDecoder_new (Some to_manager), Some (manager symbols bc tc, s)) =
      Some (d, Some (mgr, s')) \<and>
    m_gap_count (m_tracker d) = 0 \<and> m_buffer d = [] \<and>
    (\<forall>l. case book mgr l of
        None \<Rightarrow> locate_ops (set symbols) l ms = []
      | Some b \<Rightarrow> locate_ops (set symbols) l ms \<noteq> [] \<and>
          (\<forall>sd n. map depth_entry (depth b sd n) = spec_depth sd n (resting (locate_ops (set symbols) l ms))) \<and>
          (\<forall>sd p. orders_at b sd p = Some (map view_of (spec_queue sd p (resting (locate_ops (set symbols) l ms))))))"
proof -
  have "length ms < 2 ^ 63"
    using assms(2) by simp
  then obtain d where d: "run_steps feed (chunk # chunks) (SoupBinDecoder_new (Some to_manager), Some (manager symbols bc tc, s)) =
      Some (d, run_steps process ms (manager symbols bc tc, s))" "m_gap_count (m_tracker d) = 0" "m_buffer d = []"
    using soup_stream [OF assms(1) _ assms(3), of to_manager "Some (manager symbols bc tc, s)"]
    unfolding fold_to_manager by blast
  then show ?thesis
    using manager_books [OF assms(2), of symbols bc tc s] by auto
qed

lemma sample_wf: "\<forall>m \<in> set sample_messages. wf_message m"
  by (simp add: sample_message_defs wf_message_def wf_header_def MessageHeader.truncate_def STOCK_LEN_def)

theorem session_builds_books_witness:
  "\<exists>d mgr s'. run_steps feed (map (\<lambda>m. soup_packet (CHR ''S'') (encode_message m)) sample_messages)
      (SoupBinDecoder_new (Some to_manager), Some (manager [] None None, ())) = Some (d, Some (mgr, s')) \<and>
    m_gap_count (m_tracker d) = 0 \<and> book mgr 5 \<noteq> None"
proof -
  let ?chunks = "map (\<lambda>m. soup_packet (CHR ''S'') (encode_message m)) sample_messages"
  obtain chunk chunks where ch: "?chunks = chunk # chunks"
    by (simp add: sample_messages_def)
  have "length sample_messages \<le> 2 ^ 32 - 1"
    by (simp add: sample_messages_def)
  moreover have "concat (chunk # chunks) = concat (map (\<lambda>m. soup_packet (CHR ''S'') (encode_message m)) sample_messages)"
    unfolding ch ..
  ultimately obtain d mgr s' where run: "run_steps feed (chunk # chunks)
      (SoupBinDecoder_new (Some to_manager), Some (manager [] None None, ())) = Some (d, Some (mgr, s'))"
    "m_gap_count (m_tracker d) = 0"
    "\<forall>l. case book mgr l of None \<Rightarrow> locate_ops (set []) l sample_messages = [] | Some _ \<Rightarrow> True"
    using session_builds_books [OF sample_wf, of chunk chunks "[]" None None "()"] by (force split: option.splits)
  have "locate_ops (set []) 5 sample_messages \<noteq> []"
    by (simp add: sample_message_defs sample_symbols locate_ops_def locate_messages_def opens_book_def)
  then have "book mgr 5 \<noteq> None"
    using spec [OF run(3), of 5] by (auto split: option.splits)
  then show ?thesis
    unfolding ch using run(1,2) by blast
qed

section \<open>The two order books\<close>

lemma lob_ops_length: "length (lob_ops symbol ms) \<le> length ms"
  by (simp add: lob_ops_def map_filter_def)

text \<open>
  C12. The two order books agree: for every message sequence that reuses no resting reference
  number and executes no more than rests, the map-based book of a symbol and the pooled book of
  \<^verbatim>\<open>L3Book\<close> hold the same queue at every price of both sides: the same orders with the same shares
  in the same order.
\<close>

theorem order_books_agree:
  assumes "\<forall>m \<in> set ms. typed m" "regular_run [] (lob_ops symbol ms)" "length ms \<le> 2 ^ 32 - 1"
  shows "\<exists>b b3. lob_history symbol ms = Some b \<and> book_history symbol (lob_ops symbol ms) = Some b3 \<and>
    (\<forall>sd p. orders_at b3 sd p = Some (case level_at b sd p of None \<Rightarrow> []
      | Some lv \<Rightarrow> map (\<lambda>i. view_of (lob_order (m_heap b) i)) (pl_orders lv)))"
proof -
  let ?os = "resting (lob_ops symbol ms)"
  obtain b where b: "lob_history symbol ms = Some b" "lob_refines b ?os"
    using lob_history_refines [OF assms(1,2)] by blast
  obtain b3 where b3: "book_history symbol (lob_ops symbol ms) = Some b3" "l3_refines b3 ?os"
    using book_history_refines [of "lob_ops symbol ms" symbol] lob_ops_length [of symbol ms] assms(3) by auto
  have "spec_queue sd p ?os =
      (case level_at b sd p of None \<Rightarrow> [] | Some lv \<Rightarrow> map (lob_order (m_heap b)) (pl_orders lv))" for sd p
    using lob_levels [OF b(2), of sd p] by (cases "level_at b sd p") (auto split: if_splits)
  then have "orders_at b3 sd p = Some (case level_at b sd p of None \<Rightarrow> []
      | Some lv \<Rightarrow> map (\<lambda>i. view_of (lob_order (m_heap b) i)) (pl_orders lv))" for sd p
    using orders_at_refines [OF b3(2), of sd p] by (cases "level_at b sd p") simp_all
  then show ?thesis
    using b(1) b3(1) by blast
qed

theorem order_books_agree_witness:
  "\<exists>b b3. lob_history ''ABC'' sample_messages = Some b \<and> book_history ''ABC'' (lob_ops ''ABC'' sample_messages) = Some b3 \<and>
    orders_at b3 Buy 50 = Some (case level_at b Buy 50 of None \<Rightarrow> []
      | Some lv \<Rightarrow> map (\<lambda>i. view_of (lob_order (m_heap b) i)) (pl_orders lv))"
proof -
  have "regular_run [] (lob_ops ''ABC'' sample_messages)"
    unfolding sample_lob_ops by code_simp
  moreover have "length sample_messages \<le> 2 ^ 32 - 1"
    by (simp add: sample_messages_def)
  ultimately show ?thesis
    using order_books_agree [OF sample_typed] by blast
qed

end
